(* ===== verification/Yaml_Prelude.thy ===== *)
theory Yaml_Prelude
  imports Main "HOL-Library.Word"
begin

text \<open>
  Shared vocabulary of the development: the result type of the C functions that return
  \<open>1\<close> on success and \<open>0\<close> on failure, the sequencing of such calls, a
  weakest-precondition reading of results, and facts about octets.

  A call ends in one of four ways:
    \<^item> \<open>Ok a s\<close>: it returned \<open>1\<close> (or a non-NULL pointer) with value \<open>a\<close>
      and final state \<open>s\<close>;
    \<^item> \<open>Fail s\<close>: it returned \<open>0\<close> (or NULL); the state keeps the error fields;
    \<^item> \<open>Abort\<close>: a failed \<open>assert\<close>, a NULL dereference or a read outside a stack;
    \<^item> \<open>Hang\<close>: a loop spent all the iterations it was given.
\<close>

unbundle bit_operations_syntax

type_synonym byte = "8 word"

named_theorems wp_rules \<open>weakest-precondition rules of the operations\<close>
named_theorems frame \<open>fields an operation does not touch\<close>

section \<open>Results of C calls\<close>

datatype ('a, 's) res = Ok 'a 's | Fail 's | Abort | Hang

fun res_bind :: "('a, 's) res \<Rightarrow> ('a \<Rightarrow> 's \<Rightarrow> ('b, 's) res) \<Rightarrow> ('b, 's) res" where
  "res_bind (Ok a s) f = f a s"
| "res_bind (Fail s) f = Fail s"
| "res_bind Abort f = Abort"
| "res_bind Hang f = Hang"

text \<open>
  \<open>wp h r Q E\<close>: the call \<open>r\<close> does not abort, a success satisfies \<open>Q\<close>, a failure
  satisfies \<open>E\<close>, and running out of iterations is acceptable exactly if \<open>h\<close>.
\<close>

fun wp :: "bool \<Rightarrow> ('a, 's) res \<Rightarrow> ('a \<Rightarrow> 's \<Rightarrow> bool) \<Rightarrow> ('s \<Rightarrow> bool) \<Rightarrow> bool" where
  "wp h (Ok a s) Q E = Q a s"
| "wp h (Fail s) Q E = E s"
| "wp h Abort Q E = False"
| "wp h Hang Q E = h"

lemma res_bind_assoc:
  "res_bind (res_bind m f) g = res_bind m (\<lambda>a s. res_bind (f a s) g)"
  by (cases m) simp_all

lemma wp_bind [simp]:
  "wp h (res_bind m f) Q E = wp h m (\<lambda>a s. wp h (f a s) Q E) E"
  by (cases m) simp_all

lemma wp_mono:
  assumes "wp h r Q E"
    and "\<And>a s. Q a s \<Longrightarrow> Q' a s" and "\<And>s. E s \<Longrightarrow> E' s"
  shows "wp h r Q' E'"
  using assms by (cases r) auto

lemma wp_conj:
  assumes "wp h r Q E" and "wp h r Q' E'"
  shows "wp h r (\<lambda>a s. Q a s \<and> Q' a s) (\<lambda>s. E s \<and> E' s)"
  using assms by (cases r) auto

lemma wp_weaken_hang: "wp False r Q E \<Longrightarrow> wp h r Q E"
  by (cases r) auto

lemma wp_if [simp]:
  "wp h (if b then r else r') Q E = (if b then wp h r Q E else wp h r' Q E)"
  by simp

lemma wp_cases:
  "wp h r Q E \<longleftrightarrow>
     (case r of Ok a s \<Rightarrow> Q a s | Fail s \<Rightarrow> E s | Abort \<Rightarrow> False | Hang \<Rightarrow> h)"
  by (cases r) auto

lemma wp_OkD: "wp h r Q E \<Longrightarrow> r = Ok a s \<Longrightarrow> Q a s"
  by auto

lemma wp_Ok: "wp h r Q E \<Longrightarrow> wp h r (\<lambda>a s. Q a s \<and> r = Ok a s) E"
  by (cases r) auto

lemma wp_FailD: "wp h r Q E \<Longrightarrow> r = Fail s \<Longrightarrow> E s"
  by auto

lemma wp_not_Abort: "wp h r Q E \<Longrightarrow> r \<noteq> Abort"
  by auto

lemma wp_not_Hang: "wp False r Q E \<Longrightarrow> r \<noteq> Hang"
  by auto

lemma res_bind_eq_Ok:
  "res_bind m f = Ok b t \<longleftrightarrow> (\<exists>a s. m = Ok a s \<and> f a s = Ok b t)"
  by (cases m) auto

section \<open>Octets\<close>

text \<open>
  The masks that classify an octet are statements about its value.  Each is checked on
  all 256 octets.
\<close>

lemma byte_range_induct:
  assumes "\<forall>n \<in> set [0..<256]. P (word_of_nat n :: byte)"
  shows "P b"
proof -
  have "unat b < 2 ^ LENGTH(8)"
    by (rule unsigned_less)
  then have "unat b \<in> set [0..<256]"
    by simp
  with assms have "P (word_of_nat (unat b))"
    by (rule bspec)
  then show ?thesis
    by simp
qed

lemma byte_and_80: "(b AND 0x80 = (0::byte)) \<longleftrightarrow> unat b < 0x80"
  by (rule byte_range_induct [of _ b]) code_simp

lemma byte_and_E0: "(b AND 0xE0 = (0xC0::byte)) \<longleftrightarrow> 0xC0 \<le> unat b \<and> unat b < 0xE0"
  by (rule byte_range_induct [of _ b]) code_simp

lemma byte_and_F0: "(b AND 0xF0 = (0xE0::byte)) \<longleftrightarrow> 0xE0 \<le> unat b \<and> unat b < 0xF0"
  by (rule byte_range_induct [of _ b]) code_simp

lemma byte_and_F8: "(b AND 0xF8 = (0xF0::byte)) \<longleftrightarrow> 0xF0 \<le> unat b \<and> unat b < 0xF8"
  by (rule byte_range_induct [of _ b]) code_simp

lemma byte_and_C0: "(b AND 0xC0 = (0x80::byte)) \<longleftrightarrow> 0x80 \<le> unat b \<and> unat b < 0xC0"
  by (rule byte_range_induct [of _ b]) code_simp

lemmas byte_masks = byte_and_80 byte_and_E0 byte_and_F0 byte_and_F8 byte_and_C0

section \<open>Masks and shifts as arithmetic\<close>

lemma nat_and_mask: "(n::nat) AND (2 ^ k - 1) = n mod 2 ^ k"
  by (simp add: take_bit_eq_mod [symmetric] take_bit_eq_mask mask_eq_exp_minus_1)

lemma unat_and_3F: "unat (v AND 0x3F :: 32 word) = unat v mod 64"
  using nat_and_mask [of "unat v" 6] by (simp add: unsigned_and_eq)
lemma unat_and_FF: "unat (v AND 0xFF :: 32 word) = unat v mod 256"
  using nat_and_mask [of "unat v" 8] by (simp add: unsigned_and_eq)
lemma unat_and_3FF: "unat (v AND 0x3FF :: 32 word) = unat v mod 1024"
  using nat_and_mask [of "unat v" 10] by (simp add: unsigned_and_eq)

lemma nat_and_FC00: 
  assumes "n < (65536::nat)" shows "n AND 0xFC00 = n div 1024 * 1024"
proof -
  have "take_bit 16 n = n" using assms by (simp add: take_bit_nat_eq_self)
  then have n: "i < 16" if "bit n i" for i using that by (metis bit_take_bit_iff)
  have "n AND push_bit 10 (mask 6) = push_bit 10 (drop_bit 10 n)"
    by (rule bit_eqI) (auto simp: bit_and_iff bit_push_bit_iff bit_drop_bit_eq bit_mask_iff possible_bit_def dest: n)
  then show ?thesis by (simp add: push_bit_eq_mult drop_bit_eq_div mask_eq_exp_minus_1)
qed

lemma unat_and_FC00: "unat v < 65536 \<Longrightarrow> unat (v AND 0xFC00 :: 32 word) = unat v div 1024 * 1024"
  using nat_and_FC00 [of "unat v"] by (simp add: unsigned_and_eq)

lemma unat32: "unat (v::32 word) < 2 ^ 32"
proof -
  have "unat v < 2 ^ LENGTH(32)" by (rule unsigned_less)
  then show ?thesis by simp
qed

lemma unat_drop: "unat (drop_bit n (v::32 word)) = unat v div 2 ^ n"
proof -
  have "take_bit 32 (unat v) = unat v"
    using unat32 [of v] by (simp add: take_bit_nat_eq_self)
  then show ?thesis
    unfolding drop_bit_eq_div [of n "unat v", symmetric] by (simp add: unsigned_drop_bit_eq)
qed

lemma unat_push: "unat (push_bit n (v::32 word)) = unat v * 2 ^ n mod 2 ^ 32"
  unfolding push_bit_eq_mult [of n "unat v", symmetric] take_bit_eq_mod [symmetric] by (simp add: unsigned_push_bit_eq)

lemma unat_ucast8: "unat (ucast (v::32 word) :: byte) = unat v mod 256"
  by (simp add: unsigned_ucast_eq take_bit_eq_mod)

lemma unat_byte: "unat (b::byte) < 256"
  using unsigned_less [of b] by simp

lemma unat_ucast32: "unat (ucast (b::byte) :: 32 word) = unat b"
  using unat_byte [of b] by (simp add: unsigned_ucast_eq take_bit_eq_mod)

lemma byte_low:
   "unat (b AND 0x7F::byte) = unat b mod 128" 
   "unat (b AND 0x3F::byte) = unat b mod 64" 
   "unat (b AND 0x1F::byte) = unat b mod 32" 
   "unat (b AND 0x0F::byte) = unat b mod 16" 
   "unat (b AND 0x07::byte) = unat b mod 8" 
  using nat_and_mask [of "unat b" 7] nat_and_mask [of "unat b" 6] nat_and_mask [of "unat b" 5]
    nat_and_mask [of "unat b" 4] nat_and_mask [of "unat b" 3] by (simp_all add: unsigned_and_eq)

text \<open>Arithmetic on 32-bit values, read as natural numbers.\<close>

lemmas to_nat = unat_and_3F unat_and_3FF unat_drop unat_push unat_ucast8 unat_ucast32 byte_low unat_word_ariths(1) word_le_nat_alt word_less_nat_alt


lemma map_unat_inj: "map unat xs = map unat ys \<Longrightarrow> xs = (ys :: byte list)"
  by (metis inj_def inj_map_eq_map word_unat_eq_iff)

lemma base64_3: "4096 * (n div 4096) + n div 64 mod 64 * 64 + n mod 64 = (n :: nat)"
proof -
  have "n div 4096 = n div 64 div 64" by (simp add: div_mult2_eq [symmetric])
  then show ?thesis using mult_div_mod_eq [of 64 n] mult_div_mod_eq [of 64 "n div 64"] by linarith
qed

lemma base64_4: "262144 * (n div 262144) + 4096 * (n div 4096 mod 64) + n div 64 mod 64 * 64 + n mod 64 = (n :: nat)"
proof -
  have "n div 262144 = n div 4096 div 64" by (simp add: div_mult2_eq [symmetric])
  then show ?thesis using base64_3 [of n] mult_div_mod_eq [of 64 "n div 4096"] by linarith
qed

lemma mod_window:
  fixes n :: nat
  assumes "a \<le> n" and "n < a + m" and "m dvd a"
  shows "n mod m = n - a"
proof -
  from assms(1) obtain k where "n = a + k" by (auto simp: le_iff_add)
  with assms show ?thesis by (auto simp: dvd_def)
qed

lemma base64_digits:
  assumes "z < 64"
  shows "(a * 64 + z) div 64 = (a::nat)" and "(a * 64 + z) mod 64 = z"
  using assms by auto

end
