(* ===== verification/Yaml_Types.thy ===== *)
theory Yaml_Types
  imports Yaml_Prelude
begin

text \<open>
  The data of libyaml, from \<^verbatim>\<open>include/yaml.h\<close>: the enumerations, marks, tokens, events,
  nodes and documents, and the parser structure.

  The parser structure \<open>yaml_parser_s\<close> is one C struct whose members are grouped into
  error handling, reader, scanner, parser and dumper stuff.  Here the groups are records
  that extend each other, so that an operation of the reader is typed on the reader's
  group and every group after it stays untouched.
    \<^item> A buffer with the pointers \<open>start\<close>, \<open>pointer\<close>, \<open>last\<close>, \<open>end\<close> is the list of octets
      between \<open>pointer\<close> and \<open>last\<close>, together with the distance \<open>pointer - start\<close>.
    \<^item> A stack is the list from \<open>start\<close> to \<open>top\<close>; its top is the last element.  A queue is
      the list from \<open>head\<close> to \<open>tail\<close>.
    \<^item> A pointer that may be NULL is an \<open>option\<close>; a string is its list of octets without the
      final NUL.
    \<^item> \<open>size_t\<close> counters are \<open>nat\<close>.
    \<^item> Allocation can fail: \<open>heap\<close> is the number of allocation requests that will still be
      served.  A request made with \<open>heap = 0\<close> fails, with the error path of the source.  A
      stack, queue or string that may have to grow counts as one request at every point
      where it may: the capacity of the blocks is not tracked, so the model can fail at
      every point where the code can.
\<close>

section \<open>Enumerations\<close>

datatype yaml_encoding = YAML_ANY_ENCODING | YAML_UTF8_ENCODING
  | YAML_UTF16LE_ENCODING | YAML_UTF16BE_ENCODING

datatype yaml_error_type = YAML_NO_ERROR | YAML_MEMORY_ERROR | YAML_READER_ERROR
  | YAML_SCANNER_ERROR | YAML_PARSER_ERROR | YAML_COMPOSER_ERROR
  | YAML_WRITER_ERROR | YAML_EMITTER_ERROR

datatype yaml_scalar_style = YAML_ANY_SCALAR_STYLE | YAML_PLAIN_SCALAR_STYLE
  | YAML_SINGLE_QUOTED_SCALAR_STYLE | YAML_DOUBLE_QUOTED_SCALAR_STYLE
  | YAML_LITERAL_SCALAR_STYLE | YAML_FOLDED_SCALAR_STYLE

datatype yaml_sequence_style = YAML_ANY_SEQUENCE_STYLE | YAML_BLOCK_SEQUENCE_STYLE
  | YAML_FLOW_SEQUENCE_STYLE

datatype yaml_mapping_style = YAML_ANY_MAPPING_STYLE | YAML_BLOCK_MAPPING_STYLE
  | YAML_FLOW_MAPPING_STYLE

section \<open>Marks, strings and directives\<close>

record yaml_mark =
  index :: nat
  line :: nat
  column :: nat

definition zero_mark :: yaml_mark where
  "zero_mark = \<lparr>index = 0, line = 0, column = 0\<rparr>"

type_synonym ystr = "byte list"

record yaml_version_directive =
  major :: int
  minor :: int

record yaml_tag_directive =
  td_handle :: ystr
  td_prefix :: ystr

text \<open>String literals of the source as octets.\<close>

definition octets :: "string \<Rightarrow> ystr" where
  "octets s = map (\<lambda>c. of_char c) s"

section \<open>Tokens\<close>

text \<open>The type tag of a token and its union of data are one datatype.\<close>

datatype (discs_sels) yaml_token_data =
    YAML_NO_TOKEN
  | YAML_STREAM_START_TOKEN yaml_encoding
  | YAML_STREAM_END_TOKEN
  | YAML_VERSION_DIRECTIVE_TOKEN int int
  | YAML_TAG_DIRECTIVE_TOKEN ystr ystr
  | YAML_DOCUMENT_START_TOKEN
  | YAML_DOCUMENT_END_TOKEN
  | YAML_BLOCK_SEQUENCE_START_TOKEN
  | YAML_BLOCK_MAPPING_START_TOKEN
  | YAML_BLOCK_END_TOKEN
  | YAML_FLOW_SEQUENCE_START_TOKEN
  | YAML_FLOW_SEQUENCE_END_TOKEN
  | YAML_FLOW_MAPPING_START_TOKEN
  | YAML_FLOW_MAPPING_END_TOKEN
  | YAML_BLOCK_ENTRY_TOKEN
  | YAML_FLOW_ENTRY_TOKEN
  | YAML_KEY_TOKEN
  | YAML_VALUE_TOKEN
  | YAML_ALIAS_TOKEN ystr
  | YAML_ANCHOR_TOKEN ystr
  | YAML_TAG_TOKEN ystr ystr
  | YAML_SCALAR_TOKEN ystr yaml_scalar_style

record yaml_token =
  tok_data :: yaml_token_data
  tok_start_mark :: yaml_mark
  tok_end_mark :: yaml_mark

definition TOKEN_INIT :: "yaml_token_data \<Rightarrow> yaml_mark \<Rightarrow> yaml_mark \<Rightarrow> yaml_token" where
  "TOKEN_INIT d sm em = \<lparr>tok_data = d, tok_start_mark = sm, tok_end_mark = em\<rparr>"

section \<open>Events\<close>

datatype yaml_event_data =
    YAML_NO_EVENT
  | YAML_STREAM_START_EVENT yaml_encoding
  | YAML_STREAM_END_EVENT
  | YAML_DOCUMENT_START_EVENT "yaml_version_directive option" "yaml_tag_directive list" bool
  | YAML_DOCUMENT_END_EVENT bool
  | YAML_ALIAS_EVENT ystr
  | YAML_SCALAR_EVENT "ystr option" "ystr option" ystr bool bool yaml_scalar_style
  | YAML_SEQUENCE_START_EVENT "ystr option" "ystr option" bool yaml_sequence_style
  | YAML_SEQUENCE_END_EVENT
  | YAML_MAPPING_START_EVENT "ystr option" "ystr option" bool yaml_mapping_style
  | YAML_MAPPING_END_EVENT

record yaml_event =
  ev_data :: yaml_event_data
  ev_start_mark :: yaml_mark
  ev_end_mark :: yaml_mark

definition EVENT_INIT :: "yaml_event_data \<Rightarrow> yaml_mark \<Rightarrow> yaml_mark \<Rightarrow> yaml_event" where
  "EVENT_INIT d sm em = \<lparr>ev_data = d, ev_start_mark = sm, ev_end_mark = em\<rparr>"

definition no_event :: yaml_event where
  "no_event = EVENT_INIT YAML_NO_EVENT zero_mark zero_mark"

section \<open>Nodes and documents\<close>

datatype yaml_node_data =
    YAML_NO_NODE
  | YAML_SCALAR_NODE ystr yaml_scalar_style
  | YAML_SEQUENCE_NODE "int list" yaml_sequence_style
  | YAML_MAPPING_NODE "(int \<times> int) list" yaml_mapping_style

record yaml_node =
  node_data :: yaml_node_data
  node_tag :: ystr
  node_start_mark :: yaml_mark
  node_end_mark :: yaml_mark

record yaml_document =
  nodes :: "yaml_node list"
  version_directive :: "yaml_version_directive option"
  doc_tag_directives :: "yaml_tag_directive list"
  start_implicit :: bool
  end_implicit :: bool
  doc_start_mark :: yaml_mark
  doc_end_mark :: yaml_mark

definition zero_document :: yaml_document where
  "zero_document = \<lparr>nodes = [], version_directive = None, doc_tag_directives = [],
     start_implicit = False, end_implicit = False,
     doc_start_mark = zero_mark, doc_end_mark = zero_mark\<rparr>"

section \<open>The parser structure\<close>

type_synonym 'h yaml_read_handler = "'h \<Rightarrow> nat \<Rightarrow> (byte list \<times> 'h) option"

record 'h yaml_reader =
  heap :: nat
  error :: yaml_error_type
  problem :: "string option"
  problem_offset :: nat
  problem_value :: int
  problem_mark :: yaml_mark
  err_context :: "string option"
  context_mark :: yaml_mark
  read_handler :: "'h yaml_read_handler option"
  read_handler_data :: 'h
  eof :: bool
  buffer :: "byte list"
  buffer_pointer :: nat
  unread :: nat
  raw_buffer :: "byte list"
  raw_pointer :: nat
  encoding :: yaml_encoding
  offset :: nat
  mark :: yaml_mark

record yaml_simple_key =
  possible :: bool
  required :: bool
  token_number :: nat
  sk_mark :: yaml_mark

record 'h yaml_scanner = "'h yaml_reader" +
  stream_start_produced :: bool
  stream_end_produced :: bool
  flow_level :: int
  tokens :: "yaml_token list"
  tokens_parsed :: nat
  token_available :: bool
  indents :: "int list"
  indent :: int
  simple_key_allowed :: bool
  simple_keys :: "yaml_simple_key list"

datatype yaml_parser_state =
    YAML_PARSE_STREAM_START_STATE
  | YAML_PARSE_IMPLICIT_DOCUMENT_START_STATE
  | YAML_PARSE_DOCUMENT_START_STATE
  | YAML_PARSE_DOCUMENT_CONTENT_STATE
  | YAML_PARSE_DOCUMENT_END_STATE
  | YAML_PARSE_BLOCK_NODE_STATE
  | YAML_PARSE_BLOCK_NODE_OR_INDENTLESS_SEQUENCE_STATE
  | YAML_PARSE_FLOW_NODE_STATE
  | YAML_PARSE_BLOCK_SEQUENCE_FIRST_ENTRY_STATE
  | YAML_PARSE_BLOCK_SEQUENCE_ENTRY_STATE
  | YAML_PARSE_INDENTLESS_SEQUENCE_ENTRY_STATE
  | YAML_PARSE_BLOCK_MAPPING_FIRST_KEY_STATE
  | YAML_PARSE_BLOCK_MAPPING_KEY_STATE
  | YAML_PARSE_BLOCK_MAPPING_VALUE_STATE
  | YAML_PARSE_FLOW_SEQUENCE_FIRST_ENTRY_STATE
  | YAML_PARSE_FLOW_SEQUENCE_ENTRY_STATE
  | YAML_PARSE_FLOW_SEQUENCE_ENTRY_MAPPING_KEY_STATE
  | YAML_PARSE_FLOW_SEQUENCE_ENTRY_MAPPING_VALUE_STATE
  | YAML_PARSE_FLOW_SEQUENCE_ENTRY_MAPPING_END_STATE
  | YAML_PARSE_FLOW_MAPPING_FIRST_KEY_STATE
  | YAML_PARSE_FLOW_MAPPING_KEY_STATE
  | YAML_PARSE_FLOW_MAPPING_VALUE_STATE
  | YAML_PARSE_FLOW_MAPPING_EMPTY_VALUE_STATE
  | YAML_PARSE_END_STATE

record yaml_alias_data =
  ad_anchor :: ystr
  ad_index :: int
  ad_mark :: yaml_mark

record 'h yaml_parser = "'h yaml_scanner" +
  states :: "yaml_parser_state list"
  state :: yaml_parser_state
  marks :: "yaml_mark list"
  tag_directives :: "yaml_tag_directive list"
  aliases :: "yaml_alias_data list"
  document :: "yaml_document option"

section \<open>Allocation, stacks and queues\<close>

text \<open>One request to the allocator.\<close>

definition allocate :: "('h, 'z) yaml_reader_scheme \<Rightarrow> (unit, ('h, 'z) yaml_reader_scheme) res" where
  "allocate P =
     (if heap P = 0 then Fail (P\<lparr>error := YAML_MEMORY_ERROR\<rparr>)
      else Ok () (P\<lparr>heap := heap P - 1\<rparr>))"

text \<open>\<open>PUSH\<close> and \<open>ENQUEUE\<close> may extend the memory block: one request.\<close>

definition PUSH :: "('h, 'z) yaml_reader_scheme \<Rightarrow> 'a list \<Rightarrow> 'a
    \<Rightarrow> ('a list, ('h, 'z) yaml_reader_scheme) res" where
  "PUSH P stack v = res_bind (allocate P) (\<lambda>_ P. Ok (stack @ [v]) P)"

definition POP :: "'a list \<Rightarrow> ('h, 'z) yaml_reader_scheme
    \<Rightarrow> ('a \<times> 'a list, ('h, 'z) yaml_reader_scheme) res" where
  "POP stack P = (if stack = [] then Abort else Ok (last stack, butlast stack) P)"

definition QUEUE_INSERT :: "('h, 'z) yaml_reader_scheme \<Rightarrow> 'a list \<Rightarrow> nat \<Rightarrow> 'a
    \<Rightarrow> ('a list, ('h, 'z) yaml_reader_scheme) res" where
  "QUEUE_INSERT P queue i v =
     res_bind (allocate P) (\<lambda>_ P. if length queue < i then Abort
        else Ok (take i queue @ [v] @ drop i queue) P)"

lemma wp_allocate [wp_rules]:
  "wp h (allocate P) Q E \<longleftrightarrow>
     (if heap P = 0 then E (P\<lparr>error := YAML_MEMORY_ERROR\<rparr>) else Q () (P\<lparr>heap := heap P - 1\<rparr>))"
  by (simp add: allocate_def)

lemma wp_PUSH [wp_rules]:
  "wp h (PUSH P st v) Q E \<longleftrightarrow>
     (if heap P = 0 then E (P\<lparr>error := YAML_MEMORY_ERROR\<rparr>)
      else Q (st @ [v]) (P\<lparr>heap := heap P - 1\<rparr>))"
  by (simp add: PUSH_def wp_allocate)

lemma wp_POP [wp_rules]:
  "wp h (POP st P) Q E \<longleftrightarrow> st \<noteq> [] \<and> Q (last st, butlast st) P"
  by (simp add: POP_def)

end
