(* ===== verification/Yaml_Reader.thy ===== *)
theory Yaml_Reader
  imports Yaml_Types
begin

text \<open>
  The reader, \<^verbatim>\<open>src/reader.c\<close>: it asks the read handler for octets, detects the encoding,
  decodes UTF-8 or UTF-16, rejects characters that YAML does not allow, and appends each
  character to the working buffer in UTF-8.
\<close>

section \<open>Constants and errors\<close>

definition INPUT_RAW_BUFFER_SIZE :: nat where "INPUT_RAW_BUFFER_SIZE = 16384"
definition INPUT_BUFFER_SIZE :: nat where "INPUT_BUFFER_SIZE = INPUT_RAW_BUFFER_SIZE * 3"
definition MAX_FILE_SIZE :: nat where "MAX_FILE_SIZE = (2 ^ 64 - 1) div 2"

definition yaml_parser_set_reader_error ::
  "('h, 'z) yaml_reader_scheme \<Rightarrow> string \<Rightarrow> nat \<Rightarrow> int
     \<Rightarrow> ('a, ('h, 'z) yaml_reader_scheme) res" where
  "yaml_parser_set_reader_error P msg ofs v =
     Fail (P\<lparr>error := YAML_READER_ERROR, problem := Some msg,
             problem_offset := ofs, problem_value := v\<rparr>)"

section \<open>The raw buffer\<close>

definition yaml_parser_update_raw_buffer ::
  "('h, 'z) yaml_reader_scheme \<Rightarrow> (unit, ('h, 'z) yaml_reader_scheme) res" where
  "yaml_parser_update_raw_buffer P =
     (if raw_pointer P = 0 \<and> length (raw_buffer P) = INPUT_RAW_BUFFER_SIZE then Ok () P
      else if eof P then Ok () P
      else case read_handler P of
        None \<Rightarrow> Abort
      | Some rh \<Rightarrow>
        (let P = P\<lparr>raw_pointer := 0\<rparr> in
         case rh (read_handler_data P) (INPUT_RAW_BUFFER_SIZE - length (raw_buffer P)) of
           None \<Rightarrow> yaml_parser_set_reader_error P ''input error'' (offset P) (- 1)
         | Some (bs, d) \<Rightarrow>
             Ok () (P\<lparr>read_handler_data := d, raw_buffer := raw_buffer P @ bs,
                      eof := (eof P \<or> bs = [])\<rparr>)))"

definition BOM_UTF8 :: "byte list" where "BOM_UTF8 = [0xEF, 0xBB, 0xBF]"
definition BOM_UTF16LE :: "byte list" where "BOM_UTF16LE = [0xFF, 0xFE]"
definition BOM_UTF16BE :: "byte list" where "BOM_UTF16BE = [0xFE, 0xFF]"

text \<open>
  The loop that waits for three octets.  Every turn that does not end it adds an octet,
  or sets \<open>eof\<close>.
\<close>

function bom_fill :: "('h, 'z) yaml_reader_scheme \<Rightarrow> (unit, ('h, 'z) yaml_reader_scheme) res" where
  "bom_fill P =
     (if \<not> eof P \<and> length (raw_buffer P) < 3
      then case yaml_parser_update_raw_buffer P of
             Ok _ P' \<Rightarrow> bom_fill P' | Fail P' \<Rightarrow> Fail P' | Abort \<Rightarrow> Abort | Hang \<Rightarrow> Hang
      else Ok () P)"
  by pat_completeness auto
termination
  by (relation "measures [\<lambda>P. if eof P then 0 else 1, \<lambda>P. 3 - length (raw_buffer P)]")
     (auto simp: yaml_parser_update_raw_buffer_def yaml_parser_set_reader_error_def
        INPUT_RAW_BUFFER_SIZE_def Let_def neq_Nil_conv split: if_splits option.splits)

declare bom_fill.simps [simp del]

definition skip_bom ::
  "('h, 'z) yaml_reader_scheme \<Rightarrow> yaml_encoding \<Rightarrow> nat \<Rightarrow> ('h, 'z) yaml_reader_scheme" where
  "skip_bom P enc n = P\<lparr>encoding := enc, raw_buffer := drop n (raw_buffer P),
     raw_pointer := raw_pointer P + n, offset := offset P + n\<rparr>"

definition yaml_parser_determine_encoding ::
  "('h, 'z) yaml_reader_scheme \<Rightarrow> (unit, ('h, 'z) yaml_reader_scheme) res" where
  "yaml_parser_determine_encoding P =
     res_bind (bom_fill P) (\<lambda>_ P.
       if length (raw_buffer P) \<ge> 2 \<and> take 2 (raw_buffer P) = BOM_UTF16LE
       then Ok () (skip_bom P YAML_UTF16LE_ENCODING 2)
       else if length (raw_buffer P) \<ge> 2 \<and> take 2 (raw_buffer P) = BOM_UTF16BE
       then Ok () (skip_bom P YAML_UTF16BE_ENCODING 2)
       else if length (raw_buffer P) \<ge> 3 \<and> take 3 (raw_buffer P) = BOM_UTF8
       then Ok () (skip_bom P YAML_UTF8_ENCODING 3)
       else Ok () (P\<lparr>encoding := YAML_UTF8_ENCODING\<rparr>))"

section \<open>Decoding one character\<close>

text \<open>
  The outcome of the \<open>switch\<close> on the encoding: a value and its width, too few octets, or
  an error with its message, the distance of the offending octet and the reported value.
\<close>

datatype decoded = Decoded "32 word" nat | Incomplete | Bad string nat int

definition utf8_width :: "byte \<Rightarrow> nat" where
  "utf8_width octet =
     (if octet AND 0x80 = 0x00 then 1
      else if octet AND 0xE0 = 0xC0 then 2
      else if octet AND 0xF0 = 0xE0 then 3
      else if octet AND 0xF8 = 0xF0 then 4 else 0)"

definition utf8_lead :: "byte \<Rightarrow> 32 word" where
  "utf8_lead octet = ucast
     (if octet AND 0x80 = 0x00 then octet AND 0x7F
      else if octet AND 0xE0 = 0xC0 then octet AND 0x1F
      else if octet AND 0xF0 = 0xE0 then octet AND 0x0F
      else if octet AND 0xF8 = 0xF0 then octet AND 0x07 else 0)"

text \<open>The loop over the trailing octets, from position \<open>k\<close>; an error is its position and octet.\<close>

fun utf8_trail :: "32 word \<Rightarrow> nat \<Rightarrow> byte list \<Rightarrow> (nat \<times> byte) + 32 word" where
  "utf8_trail v k [] = Inr v"
| "utf8_trail v k (octet # bs) =
     (if octet AND 0xC0 \<noteq> 0x80 then Inl (k, octet)
      else utf8_trail (push_bit 6 v + ucast (octet AND 0x3F)) (Suc k) bs)"

definition decode_utf8 :: "bool \<Rightarrow> byte list \<Rightarrow> decoded" where
  "decode_utf8 at_eof raw =
     (let octet = hd raw; width = utf8_width octet in
      if width = 0 then Bad ''invalid leading UTF-8 octet'' 0 (uint octet)
      else if width > length raw then
        (if at_eof then Bad ''incomplete UTF-8 octet sequence'' 0 (- 1) else Incomplete)
      else case utf8_trail (utf8_lead octet) 1 (take (width - 1) (tl raw)) of
        Inl (k, bad) \<Rightarrow> Bad ''invalid trailing UTF-8 octet'' k (uint bad)
      | Inr v \<Rightarrow>
          if \<not> (width = 1 \<or> (width = 2 \<and> v \<ge> 0x80) \<or> (width = 3 \<and> v \<ge> 0x800)
                 \<or> (width = 4 \<and> v \<ge> 0x10000))
          then Bad ''invalid length of a UTF-8 sequence'' 0 (- 1)
          else if (v \<ge> 0xD800 \<and> v \<le> 0xDFFF) \<or> v > 0x10FFFF
          then Bad ''invalid Unicode character'' 0 (sint v)
          else Decoded v width)"

definition utf16_unit :: "bool \<Rightarrow> byte list \<Rightarrow> 32 word" where
  "utf16_unit le bs =
     (let low = (if le then 0 else 1); high = (if le then 1 else 0) in
      ucast (bs ! low) + push_bit 8 (ucast (bs ! high)))"

definition decode_utf16 :: "bool \<Rightarrow> bool \<Rightarrow> byte list \<Rightarrow> decoded" where
  "decode_utf16 le at_eof raw =
     (if length raw < 2 then
        (if at_eof then Bad ''incomplete UTF-16 character'' 0 (- 1) else Incomplete)
      else
        let v = utf16_unit le raw in
        if v AND 0xFC00 = 0xDC00 then Bad ''unexpected low surrogate area'' 0 (sint v)
        else if v AND 0xFC00 = 0xD800 then
          (if length raw < 4 then
             (if at_eof then Bad ''incomplete UTF-16 surrogate pair'' 0 (- 1) else Incomplete)
           else
             let v2 = utf16_unit le (drop 2 raw) in
             if v2 AND 0xFC00 \<noteq> 0xDC00 then Bad ''expected low surrogate area'' 2 (sint v2)
             else Decoded (0x10000 + push_bit 10 (v AND 0x3FF) + (v2 AND 0x3FF)) 4)
        else Decoded v 2)"

definition decode_char :: "yaml_encoding \<Rightarrow> bool \<Rightarrow> byte list \<Rightarrow> decoded" where
  "decode_char enc at_eof raw =
     (case enc of
        YAML_UTF8_ENCODING \<Rightarrow> decode_utf8 at_eof raw
      | YAML_UTF16LE_ENCODING \<Rightarrow> decode_utf16 True at_eof raw
      | YAML_UTF16BE_ENCODING \<Rightarrow> decode_utf16 False at_eof raw
      | YAML_ANY_ENCODING \<Rightarrow> Decoded 0 0)"

definition allowed_char :: "32 word \<Rightarrow> bool" where
  "allowed_char v \<longleftrightarrow>
     v = 0x09 \<or> v = 0x0A \<or> v = 0x0D \<or> (v \<ge> 0x20 \<and> v \<le> 0x7E) \<or> v = 0x85
     \<or> (v \<ge> 0xA0 \<and> v \<le> 0xD7FF) \<or> (v \<ge> 0xE000 \<and> v \<le> 0xFFFD)
     \<or> (v \<ge> 0x10000 \<and> v \<le> 0x10FFFF)"

definition encode_utf8 :: "32 word \<Rightarrow> byte list" where
  "encode_utf8 v =
     (if v \<le> 0x7F then [ucast v]
      else if v \<le> 0x7FF then
        [ucast (0xC0 + drop_bit 6 v), ucast (0x80 + (v AND 0x3F))]
      else if v \<le> 0xFFFF then
        [ucast (0xE0 + drop_bit 12 v), ucast (0x80 + (drop_bit 6 v AND 0x3F)),
         ucast (0x80 + (v AND 0x3F))]
      else
        [ucast (0xF0 + drop_bit 18 v), ucast (0x80 + (drop_bit 12 v AND 0x3F)),
         ucast (0x80 + (drop_bit 6 v AND 0x3F)), ucast (0x80 + (v AND 0x3F))])"

section \<open>Filling the buffer\<close>

definition put_char ::
  "('h, 'z) yaml_reader_scheme \<Rightarrow> 32 word \<Rightarrow> nat \<Rightarrow> ('h, 'z) yaml_reader_scheme" where
  "put_char P v width =
     P\<lparr>raw_buffer := drop width (raw_buffer P), raw_pointer := raw_pointer P + width,
       offset := offset P + width, buffer := buffer P @ encode_utf8 v, unread := Suc (unread P)\<rparr>"

lemma decode_char_width:
  assumes "decode_char enc e raw = Decoded v w" and "allowed_char v"
  shows "0 < w"
  using assms
  by (auto simp: decode_char_def decode_utf8_def decode_utf16_def allowed_char_def Let_def
      split: yaml_encoding.splits if_splits sum.splits prod.splits)

lemma raw_buffer_put_char [simp]: "raw_buffer (put_char P v w) = drop w (raw_buffer P)"
  by (simp add: put_char_def)

text \<open>The inner loop of \<open>yaml_parser_update_buffer\<close>: decode the whole raw buffer.\<close>

function decode_raw :: "('h, 'z) yaml_reader_scheme \<Rightarrow> (unit, ('h, 'z) yaml_reader_scheme) res" where
  "decode_raw P =
     (if raw_buffer P = [] then Ok () P
      else case decode_char (encoding P) (eof P) (raw_buffer P) of
        Bad msg k v \<Rightarrow> yaml_parser_set_reader_error P msg (offset P + k) v
      | Incomplete \<Rightarrow> Ok () P
      | Decoded v width \<Rightarrow>
          if \<not> allowed_char v
          then yaml_parser_set_reader_error P ''control characters are not allowed''
                 (offset P) (sint v)
          else decode_raw (put_char P v width))"
  by pat_completeness auto
termination
  by (relation "measure (\<lambda>P. length (raw_buffer P))") (auto dest: decode_char_width)

declare decode_raw.simps [simp del]

lemma decode_char_Incomplete:
  assumes "decode_char enc e raw = Incomplete"
  shows "length raw < 4" and "\<not> e"
  using assms
  by (auto simp: decode_char_def decode_utf8_def decode_utf16_def utf8_width_def Let_def
      split: yaml_encoding.splits if_splits sum.splits prod.splits)

text \<open>What the inner loop leaves behind when it succeeds.\<close>

lemma decode_raw_Ok:
  assumes "decode_raw P = Ok u P'"
  shows "eof P' = eof P" and "unread P \<le> unread P'" and "length (raw_buffer P') < 4"
    and "unread P' = unread P \<Longrightarrow> P' = P" and "eof P \<Longrightarrow> raw_buffer P' = []"
proof -
  have "eof P' = eof P \<and> unread P \<le> unread P' \<and> length (raw_buffer P') < 4
      \<and> (unread P' = unread P \<longrightarrow> P' = P) \<and> (eof P \<longrightarrow> raw_buffer P' = [])"
    using assms
  proof (induction P rule: decode_raw.induct)
    case (1 P)
    show ?case
    proof (cases "raw_buffer P = []")
      case True
      with "1.prems" show ?thesis by (subst (asm) decode_raw.simps) simp
    next
      case False
      then show ?thesis
        using "1.prems" "1.IH"
        by (subst (asm) decode_raw.simps)
           (auto simp: yaml_parser_set_reader_error_def put_char_def
              dest: decode_char_Incomplete split: decoded.splits if_splits)
    qed
  qed
  then show "eof P' = eof P" and "unread P \<le> unread P'" and "length (raw_buffer P') < 4"
    and "unread P' = unread P \<Longrightarrow> P' = P" and "eof P \<Longrightarrow> raw_buffer P' = []"
    by auto
qed

lemma update_raw_buffer_Ok:
  assumes "yaml_parser_update_raw_buffer P = Ok u P'" and "\<not> eof P'"
  shows "unread P' = unread P \<and> (length (raw_buffer P) < length (raw_buffer P')
           \<or> (P' = P \<and> length (raw_buffer P) = INPUT_RAW_BUFFER_SIZE))"
  using assms
  by (auto simp: yaml_parser_update_raw_buffer_def yaml_parser_set_reader_error_def Let_def
      split: if_splits option.splits)

text \<open>
  The outer loop.  The value tells the early return on EOF (\<open>True\<close>) from the end of the
  loop (\<open>False\<close>), after which the size of the input is checked.
\<close>

definition put_nul :: "('h, 'z) yaml_reader_scheme \<Rightarrow> ('h, 'z) yaml_reader_scheme" where
  "put_nul P = P\<lparr>buffer := buffer P @ [0], unread := Suc (unread P)\<rparr>"

function fill_buffer :: "bool \<Rightarrow> nat \<Rightarrow> ('h, 'z) yaml_reader_scheme
    \<Rightarrow> (bool, ('h, 'z) yaml_reader_scheme) res" where
  "fill_buffer first len P =
     (if unread P \<ge> len then Ok False P
      else case (if \<not> first \<or> raw_buffer P = [] then yaml_parser_update_raw_buffer P else Ok () P) of
        Ok _ P1 \<Rightarrow>
          (case decode_raw P1 of
             Ok _ P2 \<Rightarrow> if eof P2 then Ok True (put_nul P2) else fill_buffer False len P2
           | Fail P2 \<Rightarrow> Fail P2 | Abort \<Rightarrow> Abort | Hang \<Rightarrow> Hang)
      | Fail P1 \<Rightarrow> Fail P1 | Abort \<Rightarrow> Abort | Hang \<Rightarrow> Hang)"
  by pat_completeness auto
termination
proof (relation "measures [\<lambda>(first, len, P). len - unread P, \<lambda>(first, len, P). if first then 1 else 0,
    \<lambda>(first, len, P). 4 - length (raw_buffer P)]", goal_cases)
  case 1
  show ?case by simp
next
  case (2 first len P u P1 v P2)
  have *: "length (raw_buffer P2) < 4" "unread P1 \<le> unread P2" "unread P2 = unread P1 \<Longrightarrow> P2 = P1"
      "eof P2 = eof P1"
    using "2"(3) decode_raw_Ok [of P1 v P2] by auto
  have **: "unread P1 = unread P"
    using "2"(2,4) * update_raw_buffer_Ok [of P u P1] by (auto split: if_splits)
  show ?case
  proof (cases "unread P2 = unread P1")
    case False
    with * ** "2"(1) show ?thesis by auto
  next
    case True
    then have "P2 = P1" using * by simp
    then show ?thesis
      using "2" * ** update_raw_buffer_Ok [of P u P1]
      by (auto simp: INPUT_RAW_BUFFER_SIZE_def split: if_splits)
  qed
qed

declare fill_buffer.simps [simp del]

definition yaml_parser_update_buffer :: "('h, 'z) yaml_reader_scheme \<Rightarrow> nat
    \<Rightarrow> (unit, ('h, 'z) yaml_reader_scheme) res" where
  "yaml_parser_update_buffer P len =
     (if read_handler P = None then Abort
      else if eof P \<and> raw_buffer P = [] then Ok () P
      else if unread P \<ge> len then Ok () P
      else
        res_bind (if encoding P = YAML_ANY_ENCODING then yaml_parser_determine_encoding P
                  else Ok () P) (\<lambda>_ P.
        res_bind (fill_buffer True len (P\<lparr>buffer_pointer := 0\<rparr>)) (\<lambda>at_end P.
          if at_end then Ok () P
          else if offset P \<ge> MAX_FILE_SIZE
          then yaml_parser_set_reader_error P ''input is too long'' (offset P) (- 1)
          else Ok () P)))"

end
