(* ===== verification/Yaml_Unicode.thy ===== *)
theory Yaml_Unicode
  imports Yaml_Reader
begin

text \<open>
  The decoders and the encoder of the reader against RFC 3629 (UTF-8) and RFC 2781 (UTF-16):
  the UTF-8 decoder accepts exactly the encoder's octet sequences of Unicode scalar values,
  and the UTF-16 decoder inverts the RFC's encoding in both byte orders.
\<close>

section \<open>Reference definitions\<close>

text \<open>Unicode scalar values: code points that are not surrogates.\<close>

definition scalar_value :: "32 word \<Rightarrow> bool" where
  "scalar_value v \<longleftrightarrow> unat v \<le> 0x10FFFF \<and> \<not> (0xD800 \<le> unat v \<and> unat v \<le> 0xDFFF)"

text \<open>The octets of RFC 3629, as numbers.\<close>

definition utf8_nat :: "nat \<Rightarrow> nat list" where
  "utf8_nat n =
     (if n \<le> 0x7F then [n]
      else if n \<le> 0x7FF then [0xC0 + n div 64, 0x80 + n mod 64]
      else if n \<le> 0xFFFF then [0xE0 + n div 4096, 0x80 + n div 64 mod 64, 0x80 + n mod 64]
      else [(0xF0 + n div 262144) mod 256, 0x80 + n div 4096 mod 64, 0x80 + n div 64 mod 64,
            0x80 + n mod 64])"

definition is_cont :: "byte \<Rightarrow> bool" where
  "is_cont b \<longleftrightarrow> 0x80 \<le> unat b \<and> unat b < 0xC0"

fun trail_nat :: "nat \<Rightarrow> nat list \<Rightarrow> nat" where
  "trail_nat n [] = n" | "trail_nat n (x # xs) = trail_nat (n * 64 + (x - 0x80)) xs"

text \<open>The octets of RFC 2781: one unit, or a surrogate pair.\<close>

definition utf16_bytes :: "bool \<Rightarrow> nat \<Rightarrow> byte list" where
  "utf16_bytes le u =
     (let hi = word_of_nat (u div 256); lo = word_of_nat (u mod 256) in
      if le then [lo, hi] else [hi, lo])"

definition encode_utf16 :: "bool \<Rightarrow> 32 word \<Rightarrow> byte list" where
  "encode_utf16 le v =
     (let n = unat v in
      if n < 0x10000 then utf16_bytes le n
      else utf16_bytes le (0xD800 + (n - 0x10000) div 1024)
           @ utf16_bytes le (0xDC00 + (n - 0x10000) mod 1024))"

section \<open>UTF-8\<close>

lemma encode_utf8_unat:
  "map unat (encode_utf8 v) =
    utf8_nat (unat v)"
proof -
  have "unat v < 2 ^ 32" using unsigned_less [of v] by simp
  then show ?thesis
  by (auto simp: encode_utf8_def to_nat utf8_nat_def)
qed

lemma utf8_width_nat: "utf8_width b =
  (if unat b < 0x80 then 1 else if 0xC0 \<le> unat b \<and> unat b < 0xE0 then 2 else if 0xE0 \<le> unat b \<and> unat b < 0xF0 then 3
   else if 0xF0 \<le> unat b \<and> unat b < 0xF8 then 4 else 0)"
  by (simp add: utf8_width_def byte_masks)

lemma utf8_lead_nat: "unat (utf8_lead b) =
  (if unat b < 0x80 then unat b else if 0xC0 \<le> unat b \<and> unat b < 0xE0 then unat b - 0xC0 else if 0xE0 \<le> unat b \<and> unat b < 0xF0 then unat b - 0xE0
   else if 0xF0 \<le> unat b \<and> unat b < 0xF8 then unat b - 0xF0 else 0)"
proof -
  have "n mod 8 = n - 0xF0" if "0xF0 \<le> n" "n < 0xF8" for n :: nat
    using that by (intro mod_window) auto
  moreover have "n mod 16 = n - 0xE0" if "0xE0 \<le> n" "n < 0xF0" for n :: nat
    using that by (intro mod_window) auto
  moreover have "n mod 32 = n - 0xC0" if "0xC0 \<le> n" "n < 0xE0" for n :: nat
    using that by (intro mod_window) auto
  ultimately show ?thesis by (simp add: utf8_lead_def byte_masks to_nat)
qed


lemma cont_mod: "n mod 64 = n - 0x80" if "0x80 \<le> n" "n < 0xC0" for n :: nat
  using that by (intro mod_window) auto

lemma scalar_value_words: "\<not> ((v \<ge> 0xD800 \<and> v \<le> 0xDFFF) \<or> v > 0x10FFFF) \<longleftrightarrow> scalar_value v"
  by (auto simp: scalar_value_def to_nat)


lemma utf8_trail_cont:
  assumes "list_all is_cont bs" and "(unat v + 1) * 64 ^ length bs \<le> 2 ^ 32"
  shows "\<exists>r. utf8_trail v k bs = Inr r \<and> unat r = trail_nat (unat v) (map unat bs)"
  using assms
proof (induction bs arbitrary: v k)
  case Nil
  then show ?case by simp
next
  case (Cons b bs)
  have b: "0x80 \<le> unat b" "unat b < 0xC0" using Cons.prems(1) by (auto simp: is_cont_def)
  let ?w = "push_bit 6 v + ucast (b AND 0x3F)"
  have "(unat v + 1) * 64 * 64 ^ length bs \<le> 2 ^ 32" using Cons.prems(2) by (simp add: algebra_simps)
  moreover have "(unat v + 1) * 64 * 1 \<le> (unat v + 1) * 64 * 64 ^ length bs" by (intro mult_left_mono) auto
  ultimately have "(unat v + 1) * 64 * 1 \<le> 2 ^ 32" by (rule le_trans [rotated])
  then have lt: "unat v * 64 + 64 \<le> 2 ^ 32" by simp
  have w: "unat ?w = unat v * 64 + (unat b - 0x80)"
    using lt b cont_mod [of "unat b"] by (simp add: to_nat)
  have "(unat ?w + 1) * 64 ^ length bs \<le> (unat v + 1) * 64 * 64 ^ length bs"
    unfolding w using b by (intro mult_right_mono) auto
  then have "(unat ?w + 1) * 64 ^ length bs \<le> 2 ^ 32"
    using Cons.prems(2) by (simp add: algebra_simps)
  then show ?case
    using Cons.IH [of ?w "Suc k"] Cons.prems(1) b w by (simp add: byte_and_C0)
qed

lemma utf8_trail_InrD: "utf8_trail v k bs = Inr r \<Longrightarrow> list_all is_cont bs"
  by (induction v k bs rule: utf8_trail.induct) (auto simp: is_cont_def byte_and_C0 split: if_splits)

lemma utf8_lead_width: "utf8_width b = w \<Longrightarrow> 0 < w \<Longrightarrow> (unat (utf8_lead b) + 1) * 64 ^ (w - 1) \<le> 2 ^ 32"
  by (auto simp: utf8_width_nat utf8_lead_nat split: if_splits)

lemma decode_utf8_encode_utf8:
  assumes "scalar_value v"
  shows "decode_utf8 e (encode_utf8 v @ rest) = Decoded v (length (encode_utf8 v))"
proof -
  note u = assms [unfolded scalar_value_def]
  obtain b bs where bs: "encode_utf8 v = b # bs"
    by (cases "encode_utf8 v") (auto simp: encode_utf8_def split: if_splits)
  have nat: "map unat (b # bs) = utf8_nat (unat v)"
    using encode_utf8_unat [of v] bs by simp
  have len: "utf8_width b = Suc (length bs)"
    using nat u arg_cong [OF nat, of length] by (auto simp: utf8_nat_def utf8_width_nat split: if_splits)
  have cont: "list_all is_cont bs"
    using nat u by (auto simp: utf8_nat_def is_cont_def list_all_iff split: if_splits)
  obtain r where r: "utf8_trail (utf8_lead b) 1 bs = Inr r" "unat r = trail_nat (unat (utf8_lead b)) (map unat bs)"
    using utf8_trail_cont [OF cont, of "utf8_lead b" 1] utf8_lead_width [OF len] by auto
  have "unat r = unat v"
    using nat u unfolding r(2) utf8_lead_nat
    by (auto simp: utf8_nat_def base64_3 base64_4 split: if_splits)
  then have "r = v" by (simp add: word_unat_eq_iff)
  moreover have "width_ok" if "width_ok = (length bs = 0 \<or> (length bs = 1 \<and> v \<ge> 0x80) \<or> (length bs = 2 \<and> v \<ge> 0x800)
                 \<or> (length bs = 3 \<and> v \<ge> 0x10000))" for width_ok
    using that nat u arg_cong [OF nat, of length] by (auto simp: utf8_nat_def to_nat split: if_splits)
  ultimately show ?thesis
    using r(1) len scalar_value_words [of v] assms unfolding bs
    by (simp add: decode_utf8_def Let_def)
qed

lemma utf8_bytes_nat:
  fixes v :: "32 word"
  assumes w: "w = utf8_width b" and cont: "list_all is_cont t" and len: "length t = w - 1"
    and v: "unat v = trail_nat (unat (utf8_lead b)) (map unat t)"
    and ok: "w = 1 \<or> (w = 2 \<and> v \<ge> 0x80) \<or> (w = 3 \<and> v \<ge> 0x800) \<or> (w = 4 \<and> v \<ge> 0x10000)"
  shows "map unat (b # t) = utf8_nat (unat v)"
proof -
  have ex: "\<exists>y. unat c = 0x80 + y \<and> y < 64" if "is_cont c" for c
    using that by (intro exI [of _ "unat c - 0x80"]) (auto simp: is_cont_def)
  consider "w = 1" "t = []" | c where "w = 2" "t = [c]" | c d where "w = 3" "t = [c, d]" | c d f where "w = 4" "t = [c, d, f]"
    using ok len by (auto simp: length_Suc_conv eval_nat_numeral)
  then show ?thesis
  proof cases
    case 1
    have "utf8_width b = 1" using 1 w by metis
    then have b: "unat b < 0x80" by (simp add: utf8_width_nat split: if_splits)
    then have "unat v = unat b" using v 1 by (simp add: utf8_lead_nat)
    then show ?thesis using b 1 by (simp add: utf8_nat_def)
  next
    case (2 c)
    then obtain y where y: "unat c = 0x80 + y" "y < 64" using ex cont by auto
    have b: "0xC0 \<le> unat b" "unat b < 0xE0" using 2 w by (auto simp: utf8_width_nat split: if_splits)
    define x where "x = unat b - 0xC0"
    have n: "unat v = x * 64 + y" "unat b = 0xC0 + x" "x < 32" "0x80 \<le> unat v"
      using v b y 2 ok by (auto simp: utf8_lead_nat x_def to_nat)
    then have "unat v \<le> 0x7FF" using y by linarith
    then show ?thesis using n y 2 by (simp add: utf8_nat_def base64_digits)
  next
    case (3 c d)
    then obtain y z where y: "unat c = 0x80 + y" "y < 64" "unat d = 0x80 + z" "z < 64" using ex [of c] ex [of d] cont by auto
    have b: "0xE0 \<le> unat b" "unat b < 0xF0" using 3 w by (auto simp: utf8_width_nat split: if_splits)
    define x where "x = unat b - 0xE0"
    have n: "unat v = (x * 64 + y) * 64 + z" "unat b = 0xE0 + x" "x < 16" "0x800 \<le> unat v"
      using v b y 3 ok by (auto simp: utf8_lead_nat x_def to_nat)
    have le: "unat v \<le> 0xFFFF" using n(1,3) y by simp
    have m: "unat v div 64 = x * 64 + y" "unat v mod 64 = z"
      unfolding n(1) using y base64_digits by blast+
    have "unat v div 4096 = unat v div 64 div 64" by (simp add: div_mult2_eq [symmetric])
    then have "unat v div 4096 = x" using y base64_digits by (simp add: m)
    then show ?thesis using n(2-4) m le y 3 by (simp add: utf8_nat_def)
  next
    case (4 c d f)
    then obtain y z u where y: "unat c = 0x80 + y" "y < 64" "unat d = 0x80 + z" "z < 64" "unat f = 0x80 + u" "u < 64"
      using ex [of c] ex [of d] ex [of f] cont by auto
    have b: "0xF0 \<le> unat b" "unat b < 0xF8" using 4 w by (auto simp: utf8_width_nat split: if_splits)
    define x where "x = unat b - 0xF0"
    have n: "unat v = ((x * 64 + y) * 64 + z) * 64 + u" "unat b = 0xF0 + x" "x < 8" "0x10000 \<le> unat v"
      using v b y 4 ok by (auto simp: utf8_lead_nat x_def to_nat)
    have m: "unat v div 64 = (x * 64 + y) * 64 + z" "unat v mod 64 = u"
      unfolding n(1) using y base64_digits by blast+
    have m2: "unat v div 64 div 64 = x * 64 + y" "unat v div 64 mod 64 = z"
      unfolding m(1) using y base64_digits by blast+
    have "unat v div 4096 = unat v div 64 div 64" by (simp add: div_mult2_eq [symmetric])
    then have m3: "unat v div 4096 = x * 64 + y" using m2 by simp
    have "unat v div 262144 = unat v div 64 div 64 div 64" by (simp add: div_mult2_eq [symmetric])
    then have "unat v div 262144 = x" using y base64_digits by (simp add: m2)
    then show ?thesis using n(2-4) m(2) m2(2) m3 y 4 by (simp add: utf8_nat_def)
  qed
qed

lemma decode_utf8_sound:
  assumes "decode_utf8 e raw = Decoded v w" and "raw \<noteq> []"
  shows "take w raw = encode_utf8 v \<and> w \<le> length raw \<and> scalar_value v"
proof -
  obtain b bs where raw: "raw = b # bs" using assms(2) by (cases raw) auto
  let ?t = "take (w - 1) bs"
  have w: "w = utf8_width b" "0 < w" "w \<le> length raw"
    using assms(1) unfolding raw
    by (auto simp: decode_utf8_def Let_def split: if_splits sum.splits prod.splits)
  have tr: "utf8_trail (utf8_lead b) 1 ?t = Inr v"
    using assms(1) unfolding raw
    by (auto simp: decode_utf8_def Let_def split: if_splits sum.splits prod.splits)
  have ok: "w = 1 \<or> (w = 2 \<and> v \<ge> 0x80) \<or> (w = 3 \<and> v \<ge> 0x800) \<or> (w = 4 \<and> v \<ge> 0x10000)"
     and sv: "scalar_value v"
    using assms(1) w tr scalar_value_words [of v] unfolding raw
    by (auto simp: decode_utf8_def Let_def split: if_splits)
  have cont: "list_all is_cont ?t" using tr by (rule utf8_trail_InrD)
  have len: "length ?t = w - 1" using w raw by simp
  have v: "unat v = trail_nat (unat (utf8_lead b)) (map unat ?t)"
    using utf8_trail_cont [OF cont, of "utf8_lead b" 1] utf8_lead_width [of b w] w len tr by auto
  have "map unat (b # ?t) = map unat (encode_utf8 v)"
    unfolding encode_utf8_unat by (rule utf8_bytes_nat [OF w(1) cont len v ok])
  then have "b # ?t = encode_utf8 v" by (rule map_unat_inj)
  moreover have "take w (b # bs) = b # ?t" using w(2) by (cases w) auto
  ultimately show ?thesis using w sv unfolding raw by auto
qed

section \<open>UTF-16\<close>

lemma length_utf16_bytes [simp]: "length (utf16_bytes le u) = 2"
  by (simp add: utf16_bytes_def Let_def)

lemma utf16_unit_bytes:
  assumes "u < 0x10000"
  shows "unat (utf16_unit le (utf16_bytes le u @ rest)) = u"
proof -
  have "u div 256 < 256" using assms by simp
  then show ?thesis
    using assms by (cases le) (simp_all add: utf16_unit_def utf16_bytes_def Let_def to_nat unat_of_nat)
qed

lemma unat_FC00_eq:
  assumes "unat v < 0x10000"
  shows "(v AND 0xFC00 = (0xDC00 :: 32 word)) \<longleftrightarrow> unat v div 1024 = 55"
    and "(v AND 0xFC00 = (0xD800 :: 32 word)) \<longleftrightarrow> unat v div 1024 = 54"
  using unat_and_FC00 [OF assms] by (simp_all add: word_unat_eq_iff)

lemma unat_surrogates:
  "unat (0x10000 + push_bit 10 (a AND 0x3FF) + (b AND 0x3FF) :: 32 word)
     = 0x10000 + unat a mod 1024 * 1024 + unat b mod 1024"
proof -
  define x y where "x = a AND 0x3FF" and "y = b AND 0x3FF"
  have "unat x < 1024" "unat y < 1024"
    by (simp_all add: x_def y_def unat_and_3FF)
  then have "unat (0x10000 + push_bit 10 x + y) = 0x10000 + unat x * 1024 + unat y"
    by (simp add: to_nat)
  then show ?thesis by (simp only: x_def y_def unat_and_3FF)
qed

lemma decode_utf16_encode_utf16:
  assumes "scalar_value v"
  shows "decode_utf16 le e (encode_utf16 le v @ rest) = Decoded v (length (encode_utf16 le v))"
proof (cases "unat v < 0x10000")
  case True
  let ?u = "utf16_unit le (utf16_bytes le (unat v) @ rest)"
  have u: "unat ?u = unat v" using True by (rule utf16_unit_bytes)
  then have "?u = v" by (simp add: word_unat_eq_iff)
  moreover have "unat v div 1024 \<noteq> 55" "unat v div 1024 \<noteq> 54"
    using assms by (auto simp: scalar_value_def)
  ultimately show ?thesis using True unat_FC00_eq [of v]
    by (simp add: decode_utf16_def encode_utf16_def Let_def)
next
  case False
  define m where "m = unat v - 0x10000"
  have m: "m < 0x100000" "unat v = 0x10000 + m" using False assms by (auto simp: m_def scalar_value_def)
  let ?w1 = "utf16_bytes le (0xD800 + m div 1024)" and ?w2 = "utf16_bytes le (0xDC00 + m mod 1024)"
  have d: "m div 1024 < 1024" "m mod 1024 < 9216" using m by (simp_all add: less_trans [of _ 1024])
  have u1: "unat (utf16_unit le (?w1 @ x)) = 0xD800 + m div 1024" for x
    using d by (intro utf16_unit_bytes) simp
  have u2: "unat (utf16_unit le (?w2 @ x)) = 0xDC00 + m mod 1024" for x
    by (intro utf16_unit_bytes) simp
  have "drop 2 (?w1 @ ?w2 @ rest) = ?w2 @ rest" by simp
  moreover have w: "(0xD800 + m div 1024) mod 1024 = m div 1024" "(0xDC00 + m mod 1024) mod 1024 = m mod 1024"
    using d mod_window [where a = "0xD800" and n = "0xD800 + m div 1024" and m = 1024]
      mod_window [where a = "0xDC00" and n = "0xDC00 + m mod 1024" and m = 1024] by simp_all
  moreover have "(0x10000 + push_bit 10 (utf16_unit le (?w1 @ ?w2 @ rest) AND 0x3FF) + (utf16_unit le (?w2 @ rest) AND 0x3FF)) = v"
    using m d w
    unfolding word_unat_eq_iff unat_surrogates u1 u2 by simp
  moreover have "(0xD800 + m div 1024) div 1024 = 54" "(0xDC00 + m mod 1024) div 1024 = 55" using d by auto
  ultimately show ?thesis
    using False u1 u2 d unat_FC00_eq [of "utf16_unit le (?w1 @ ?w2 @ rest)"] unat_FC00_eq [of "utf16_unit le (?w2 @ rest)"] 
    by (simp add: decode_utf16_def encode_utf16_def Let_def m_def [symmetric])
qed

section \<open>Sizes\<close>

lemma length_encode_utf8: "length (encode_utf8 v) \<le> 4" "0 < length (encode_utf8 v)"
  by (simp_all add: encode_utf8_def)

lemma utf16_unit_less: "unat (utf16_unit le bs) < 0x10000"
proof -
  have "a + b * 256 < (0x10000::nat)" if "a < 256" "b < 256" for a b
    using that by simp
  then show ?thesis
    using unat_byte [of "bs ! 0"] unat_byte [of "bs ! 1"]
    by (simp add: utf16_unit_def Let_def to_nat)
qed

lemma decode_char_size:
  assumes "decode_char enc e raw = Decoded v w" and "raw \<noteq> []" and "allowed_char v"
  shows "w \<le> length raw" and "2 * length (encode_utf8 v) \<le> 3 * w"
proof -
  have "w \<le> length raw \<and> 2 * length (encode_utf8 v) \<le> 3 * w"
  proof (cases enc)
    case YAML_ANY_ENCODING
    then show ?thesis using assms by (simp add: decode_char_def allowed_char_def)
  next
    case YAML_UTF8_ENCODING
    then have "decode_utf8 e raw = Decoded v w" using assms(1) by (simp add: decode_char_def)
    then have "take w raw = encode_utf8 v" "w \<le> length raw"
      using decode_utf8_sound assms(2) by blast+
    then have "length (encode_utf8 v) = w" "w \<le> length raw" by (metis length_take min.absorb2, simp)
    then show ?thesis by simp
  next
    case YAML_UTF16LE_ENCODING
    then show ?thesis using assms(1) utf16_unit_less [of True raw]
      by (auto simp: decode_char_def decode_utf16_def encode_utf8_def Let_def word_le_nat_alt split: if_splits)
  next
    case YAML_UTF16BE_ENCODING
    then show ?thesis using assms(1) utf16_unit_less [of False raw]
      by (auto simp: decode_char_def decode_utf16_def encode_utf8_def Let_def word_le_nat_alt split: if_splits)
  qed
  then show "w \<le> length raw" and "2 * length (encode_utf8 v) \<le> 3 * w" by auto
qed

section \<open>Properties\<close>

text \<open>
  (C22) Decoding a character that \<open>yaml_parser_update_buffer\<close> encoded gives it back, with its
  length, whatever follows.
\<close>

theorem utf8_roundtrip:
  assumes "scalar_value v"
  shows "decode_utf8 e (encode_utf8 v @ rest) = Decoded v (length (encode_utf8 v))"
  using assms by (rule decode_utf8_encode_utf8)

theorem utf8_roundtrip_witness:
  "decode_utf8 False (encode_utf8 0x1F600 @ [0x0A]) = Decoded 0x1F600 (length (encode_utf8 0x1F600))"
  by (rule utf8_roundtrip) (simp add: scalar_value_def)

text \<open>
  (C23) The decoder accepts nothing but well-formed UTF-8: the octets it consumes are exactly
  the encoding of the character it reports, which is a Unicode scalar value.
\<close>

theorem utf8_decode_sound:
  assumes "decode_utf8 e raw = Decoded v w" and "raw \<noteq> []"
  shows "take w raw = encode_utf8 v \<and> w \<le> length raw \<and> scalar_value v"
  using assms by (rule decode_utf8_sound)

theorem utf8_decode_sound_witness:
  "take 2 [0xC3, 0xA9, 0x0A] = encode_utf8 0xE9 \<and> 2 \<le> length [0xC3, 0xA9, 0x0A :: byte] \<and> scalar_value 0xE9"
proof -
  have "decode_utf8 True [0xC3, 0xA9, 0x0A] = Decoded 0xE9 2" by code_simp
  then show ?thesis by (rule utf8_decode_sound) simp
qed

text \<open>
  (C24) The UTF-16 decoder, in both byte orders, inverts the UTF-16 encoding of every Unicode
  scalar value, surrogate pairs included.
\<close>

theorem utf16_roundtrip:
  assumes "scalar_value v"
  shows "decode_utf16 le e (encode_utf16 le v @ rest) = Decoded v (length (encode_utf16 le v))"
  using assms by (rule decode_utf16_encode_utf16)

theorem utf16_roundtrip_witness:
  "decode_utf16 True False (encode_utf16 True 0x1F600 @ [0x0A, 0x00])
     = Decoded 0x1F600 (length (encode_utf16 True 0x1F600))"
  by (rule utf16_roundtrip) (simp add: scalar_value_def)

end
