(* ===== verification/Yaml_Api.thy ===== *)
theory Yaml_Api
  imports Yaml_Types
begin

text \<open>
  The part of \<^verbatim>\<open>src/api.c\<close> that creates a parser and gives it its input: the string read
  handler, \<open>yaml_parser_initialize\<close>, \<open>yaml_parser_delete\<close> and the setters.  The data of the
  string handler (\<open>input.string.current\<close> up to \<open>input.string.end\<close>) is the list of octets
  still to be read.
\<close>

definition yaml_string_read_handler :: "byte list yaml_read_handler" where
  "yaml_string_read_handler data n =
     (if data = [] then Some ([], data)
      else let n = (if n > length data then length data else n)
           in Some (take n data, drop n data))"

text \<open>The structure filled with zeros by \<open>memset\<close>.\<close>

definition zero_parser :: "nat \<Rightarrow> 'h \<Rightarrow> 'h yaml_parser" where
  "zero_parser h d = \<lparr>heap = h, error = YAML_NO_ERROR, problem = None, problem_offset = 0,
     problem_value = 0, problem_mark = zero_mark, err_context = None, context_mark = zero_mark,
     read_handler = None, read_handler_data = d, eof = False, buffer = [], buffer_pointer = 0,
     unread = 0, raw_buffer = [], raw_pointer = 0, encoding = YAML_ANY_ENCODING, offset = 0,
     mark = zero_mark,
     stream_start_produced = False, stream_end_produced = False, flow_level = 0, tokens = [],
     tokens_parsed = 0, token_available = False, indents = [], indent = 0,
     simple_key_allowed = False, simple_keys = [],
     states = [], state = YAML_PARSE_STREAM_START_STATE, marks = [], tag_directives = [],
     aliases = [], document = None\<rparr>"

text \<open>Two buffers, the token queue and five stacks: eight requests.\<close>

fun allocate_n :: "nat \<Rightarrow> ('h, 'z) yaml_reader_scheme \<Rightarrow> (unit, ('h, 'z) yaml_reader_scheme) res" where
  "allocate_n 0 P = Ok () P"
| "allocate_n (Suc n) P = res_bind (allocate P) (\<lambda>_ P. allocate_n n P)"

definition yaml_parser_initialize :: "nat \<Rightarrow> 'h \<Rightarrow> (unit, 'h yaml_parser) res" where
  "yaml_parser_initialize h d = allocate_n 8 (zero_parser h d)"

definition yaml_parser_delete :: "'h yaml_parser \<Rightarrow> 'h yaml_parser" where
  "yaml_parser_delete P = zero_parser (heap P) (read_handler_data P)"

definition yaml_parser_set_input ::
  "'h yaml_parser \<Rightarrow> 'h yaml_read_handler \<Rightarrow> 'h \<Rightarrow> (unit, 'h yaml_parser) res" where
  "yaml_parser_set_input P rh d =
     (if read_handler P \<noteq> None then Abort
      else Ok () (P\<lparr>read_handler := Some rh, read_handler_data := d\<rparr>))"

definition yaml_parser_set_input_string ::
  "byte list yaml_parser \<Rightarrow> byte list \<Rightarrow> (unit, byte list yaml_parser) res" where
  "yaml_parser_set_input_string P input =
     (if read_handler P \<noteq> None then Abort
      else Ok () (P\<lparr>read_handler := Some yaml_string_read_handler, read_handler_data := input\<rparr>))"

definition yaml_parser_set_encoding ::
  "'h yaml_parser \<Rightarrow> yaml_encoding \<Rightarrow> (unit, 'h yaml_parser) res" where
  "yaml_parser_set_encoding P enc =
     (if encoding P \<noteq> YAML_ANY_ENCODING then Abort else Ok () (P\<lparr>encoding := enc\<rparr>))"

lemma yaml_string_read_handler_eq:
  "yaml_string_read_handler data n = Some (take n data, drop n data)"
  by (simp add: yaml_string_read_handler_def Let_def)

text \<open>A parser on a string, as \<open>YAML.cpp\<close> sets it up.\<close>

definition string_parser :: "nat \<Rightarrow> byte list \<Rightarrow> (unit, byte list yaml_parser) res" where
  "string_parser h input =
     res_bind (yaml_parser_initialize h []) (\<lambda>_ P. yaml_parser_set_input_string P input)"

end
