(* ===== verification/Yaml_Reader_Facts.thy ===== *)
theory Yaml_Reader_Facts
  imports Yaml_Unicode Yaml_Api
begin

text \<open>
  Facts about the reader: it never overruns its two buffers and always answers
  (\<open>update_buffer_bounds\<close>), it hands a UTF-8 string over unchanged up to the final NUL
  (\<open>update_buffer_stream\<close>), the working buffer always holds as many whole characters as
  \<open>unread\<close> says, and no group of the parser structure but the reader's is touched
  (\<open>update_buffer_frame\<close>).  The loops are reasoned about through the rules
  \<open>decode_raw_rule\<close>, \<open>fill_buffer_rule\<close>, \<open>bom_fill_rule\<close>, each an invariant rule.
\<close>

section \<open>Contracts and invariants\<close>

text \<open>The contract of a read handler in \<^verbatim>\<open>yaml.h\<close>: not more than the requested octets.\<close>

definition well_behaved :: "'h yaml_read_handler option \<Rightarrow> bool" where
  "well_behaved h \<longleftrightarrow>
     (\<exists>rh. h = Some rh \<and> (\<forall>d n bs d'. rh d n = Some (bs, d') \<longrightarrow> length bs \<le> n))"

definition handler_ok :: "('h, 'z) yaml_reader_scheme \<Rightarrow> bool" where
  "handler_ok P \<longleftrightarrow> well_behaved (read_handler P)"

text \<open>The buffers stay within their memory blocks.\<close>

definition reader_inv :: "('h, 'z) yaml_reader_scheme \<Rightarrow> bool" where
  "reader_inv P \<longleftrightarrow>
     raw_pointer P + length (raw_buffer P) \<le> INPUT_RAW_BUFFER_SIZE
     \<and> length (buffer P) \<le> 4 * unread P
     \<and> buffer_pointer P + length (buffer P) \<le> INPUT_BUFFER_SIZE"

abbreviation reader_wf :: "('h, 'z) yaml_reader_scheme \<Rightarrow> bool" where
  "reader_wf P \<equiv> reader_inv P \<and> handler_ok P"

text \<open>A failure of the reader: the error fields set in a state that satisfies \<open>I\<close>.\<close>

definition reader_failed :: "(('h, 'z) yaml_reader_scheme \<Rightarrow> bool) \<Rightarrow> ('h, 'z) yaml_reader_scheme \<Rightarrow> bool" where
  "reader_failed I P' \<longleftrightarrow>
     (\<exists>Q msg ofs v. I Q \<and> yaml_parser_set_reader_error Q msg ofs v = (Fail P' :: (unit, _) res))"

text \<open>What filling the buffer leaves alone; what was in the buffer stays in front.\<close>

definition reader_frame :: "('h, 'z) yaml_reader_scheme \<Rightarrow> ('h, 'z) yaml_reader_scheme \<Rightarrow> bool" where
  "reader_frame P P' \<longleftrightarrow> heap P' = heap P \<and> error P' = error P \<and> mark P' = mark P \<and> read_handler P' = read_handler P
     \<and> (\<exists>xs. buffer P' = buffer P @ xs) \<and> yaml_reader.more P' = yaml_reader.more P"

text \<open>The buffer holds \<open>unread\<close> whole characters.\<close>

definition buffer_chars :: "('h, 'z) yaml_reader_scheme \<Rightarrow> bool" where
  "buffer_chars P \<longleftrightarrow>
     (\<exists>cs. buffer P = concat (map encode_utf8 cs) \<and> unread P = length cs \<and> list_all scalar_value cs)"

text \<open>The octets of a string input that the scanner has not consumed yet.\<close>

definition pending :: "(byte list, 'z) yaml_reader_scheme \<Rightarrow> byte list" where
  "pending P = buffer P @ raw_buffer P @ read_handler_data P"

definition string_input :: "(byte list, 'z) yaml_reader_scheme \<Rightarrow> bool" where
  "string_input P \<longleftrightarrow> read_handler P = Some yaml_string_read_handler
     \<and> (eof P \<longrightarrow> read_handler_data P = [])
     \<and> raw_pointer P + length (raw_buffer P) \<le> INPUT_RAW_BUFFER_SIZE"

definition delivered :: "(byte list, 'z) yaml_reader_scheme \<Rightarrow> (byte list, 'z) yaml_reader_scheme \<Rightarrow> bool" where
  "delivered P P' \<longleftrightarrow> pending P' = pending P
     \<or> eof P' \<and> raw_buffer P' = [] \<and> read_handler_data P' = [] \<and> buffer P' = pending P @ [0]"

section \<open>Rules for the loops\<close>

lemma reader_failed_mono: "reader_failed I P \<Longrightarrow> (\<And>Q. I Q \<Longrightarrow> J Q) \<Longrightarrow> reader_failed J P"
  by (auto simp: reader_failed_def)

lemma reader_failedI: "I Q \<Longrightarrow> yaml_parser_set_reader_error Q msg ofs v = (Fail P' :: (unit, _) res) \<Longrightarrow> reader_failed I P'"
  by (auto simp: reader_failed_def)

lemma wp_set_reader_error [wp_rules]:
  "I P \<Longrightarrow> wp h (yaml_parser_set_reader_error P msg ofs v) Q (reader_failed I)"
  by (auto simp: yaml_parser_set_reader_error_def reader_failed_def)

lemma decode_raw_rule:
  assumes "I P"
    and "\<And>P v w. I P \<Longrightarrow> raw_buffer P \<noteq> [] \<Longrightarrow> 
       decode_char (encoding P) (eof P) (raw_buffer P) = Decoded v w \<Longrightarrow> allowed_char v \<Longrightarrow> I (put_char P v w)"
  shows "wp False (decode_raw P)
    (\<lambda>_ P'. I P' \<and> length (raw_buffer P') < 4 \<and> (eof P' \<longrightarrow> raw_buffer P' = [])) (reader_failed I)"
  using assms(1)
proof (induction P rule: decode_raw.induct)
  case (1 P)
  show ?case
    using "1.prems" "1.IH" assms(2) [of P]
    by (subst decode_raw.simps)
       (auto simp: wp_set_reader_error dest: decode_char_Incomplete split: decoded.splits)
qed

lemma fill_buffer_rule:
  fixes I J :: "('h, 'z) yaml_reader_scheme \<Rightarrow> bool"
  assumes "I P"
    and upd: "\<And>P. I P \<Longrightarrow> unread P < len \<Longrightarrow> wp False (yaml_parser_update_raw_buffer P) (\<lambda>_. J) (reader_failed J)"
    and skip: "\<And>P. I P \<Longrightarrow> unread P < len \<Longrightarrow> J P"
    and step: "\<And>P v w. J P \<Longrightarrow> raw_buffer P \<noteq> [] \<Longrightarrow> 
       decode_char (encoding P) (eof P) (raw_buffer P) = Decoded v w \<Longrightarrow> allowed_char v \<Longrightarrow> J (put_char P v w)"
    and again: "\<And>P. J P \<Longrightarrow> \<not> eof P \<Longrightarrow> length (raw_buffer P) < 4 \<Longrightarrow> I P"
  shows "wp False (fill_buffer first len P)
    (\<lambda>b P'. if b then (\<exists>Q. J Q \<and> eof Q \<and> raw_buffer Q = [] \<and> P' = put_nul Q)
            else I P' \<and> len \<le> unread P') (reader_failed J)"
  using assms
proof (induction first len P rule: fill_buffer.induct)
  case (1 first len P)
  note I = "1.prems"(1) and upd = "1.prems"(2) and skip = "1.prems"(3) and step = "1.prems"(4)
    and again = "1.prems"(5)
  show ?case
  proof (cases "len \<le> unread P")
    case True
    then show ?thesis using I by (subst fill_buffer.simps) simp
  next
    case False
    let ?r = "if \<not> first \<or> raw_buffer P = [] then yaml_parser_update_raw_buffer P else Ok () P"
    have r: "wp False ?r (\<lambda>_. J) (reader_failed J)"
      using False I upd skip by auto
    show ?thesis
    proof (cases ?r)
      case (Ok u P1)
      have J1: "J P1" using r unfolding Ok by simp
      have d: "wp False (decode_raw P1) (\<lambda>_ P'. J P' \<and> length (raw_buffer P') < 4 \<and> (eof P' \<longrightarrow> raw_buffer P' = []))
         (reader_failed J)"
        using J1 step by (rule decode_raw_rule)
      show ?thesis
      proof (cases "decode_raw P1")
        case Ok2: (Ok v P2)
        have P2: "J P2" "length (raw_buffer P2) < 4" "eof P2 \<Longrightarrow> raw_buffer P2 = []"
          using d unfolding Ok2 by auto
        show ?thesis
        proof (cases "eof P2")
          case True
          then show ?thesis using False Ok Ok2 P2 by (subst fill_buffer.simps) auto
        next
          case F: False
          have "wp False (fill_buffer False len P2)
              (\<lambda>b P'. if b then (\<exists>Q. J Q \<and> eof Q \<and> raw_buffer Q = [] \<and> P' = put_nul Q)
                 else I P' \<and> len \<le> unread P') (reader_failed J)"
            by (rule "1.IH" [OF False Ok Ok2 F]) (use P2 F upd skip step again in auto)
          then show ?thesis using False Ok Ok2 F by (subst fill_buffer.simps) simp
        qed
      qed (use d False Ok in \<open>subst fill_buffer.simps, simp\<close>)+
    qed (use r False in \<open>subst fill_buffer.simps, simp\<close>)+
  qed
qed


lemma well_behaved_len:
  "well_behaved (Some rh) \<Longrightarrow> rh d n = Some (bs, d') \<Longrightarrow> length bs \<le> n"
  by (auto simp: well_behaved_def)

lemma update_raw_buffer_rule:
  assumes "I P" and "handler_ok P"
    and "\<And>rh bs d. I P \<Longrightarrow> \<not> eof P \<Longrightarrow>
      \<not> (raw_pointer P = 0 \<and> length (raw_buffer P) = INPUT_RAW_BUFFER_SIZE) \<Longrightarrow> read_handler P = Some rh \<Longrightarrow>
      rh (read_handler_data P) (INPUT_RAW_BUFFER_SIZE - length (raw_buffer P)) = Some (bs, d) \<Longrightarrow>
      length bs \<le> INPUT_RAW_BUFFER_SIZE - length (raw_buffer P) \<Longrightarrow>
      I (P\<lparr>raw_pointer := 0, read_handler_data := d, raw_buffer := raw_buffer P @ bs, eof := (bs = [])\<rparr>)"
    and "I P \<Longrightarrow> I (P\<lparr>raw_pointer := 0\<rparr>)"
  shows "wp False (yaml_parser_update_raw_buffer P) (\<lambda>_. I) (reader_failed I)"
proof -
  obtain rh where rh: "read_handler P = Some rh" "well_behaved (Some rh)"
    using assms(2) by (auto simp: handler_ok_def well_behaved_def)
  show ?thesis
    using assms rh well_behaved_len [OF rh(2)]
    by (auto simp: yaml_parser_update_raw_buffer_def Let_def split: option.splits intro!: wp_set_reader_error)
qed

lemma update_raw_buffer_wf:
  assumes "reader_wf P"
  shows "wp False (yaml_parser_update_raw_buffer P) (\<lambda>_. reader_wf) (reader_failed reader_wf)"
  using assms
  by (intro update_raw_buffer_rule) (auto simp: reader_inv_def handler_ok_def)

lemma fill_buffer_bounds:
  assumes "reader_wf P" and "buffer_pointer P = 0" and "len \<le> 6144"
  shows "wp False (fill_buffer first len P)
    (\<lambda>b P'. reader_wf P' \<and> (if b then eof P' \<and> raw_buffer P' = [] else len \<le> unread P')) (reader_failed reader_wf)"
proof -
  let ?I = "\<lambda>P :: ('a, 'b) yaml_reader_scheme. reader_wf P \<and> buffer_pointer P = 0"
  let ?J = "\<lambda>P :: ('a, 'b) yaml_reader_scheme. reader_wf P \<and> buffer_pointer P = 0
     \<and> 2 * length (buffer P) + 3 * length (raw_buffer P) \<le> 8 * (len - 1) + 3 * INPUT_RAW_BUFFER_SIZE"
  have "wp False (fill_buffer first len P)
    (\<lambda>b P'. if b then (\<exists>Q. ?J Q \<and> eof Q \<and> raw_buffer Q = [] \<and> P' = put_nul Q)
            else ?I P' \<and> len \<le> unread P') (reader_failed ?J)"
  proof (rule fill_buffer_rule, goal_cases)
    case 1
    then show ?case using assms by simp
  next
    case (2 P)
    then show ?case
      by (intro update_raw_buffer_rule) (auto simp: reader_inv_def handler_ok_def)
  next
    case (3 P)
    then show ?case by (auto simp: reader_inv_def)
  next
    case (4 P v w)
    have "w \<le> length (raw_buffer P)" "2 * length (encode_utf8 v) \<le> 3 * w"
      using decode_char_size 4 by blast+
    with 4 assms(3) show ?case using length_encode_utf8 [of v] 
      by (auto simp: reader_inv_def put_char_def handler_ok_def INPUT_BUFFER_SIZE_def INPUT_RAW_BUFFER_SIZE_def)
  next
    case (5 P)
    then show ?case by simp
  qed
  then show ?thesis
    by (rule wp_mono)
       (use assms(3) in \<open>auto simp: reader_inv_def put_nul_def handler_ok_def INPUT_BUFFER_SIZE_def
          INPUT_RAW_BUFFER_SIZE_def split: if_splits elim!: reader_failed_mono\<close>)
qed

lemma bom_fill_rule:
  assumes "I P"
    and "\<And>P. I P \<Longrightarrow> wp False (yaml_parser_update_raw_buffer P) (\<lambda>_. I) (reader_failed I)"
  shows "wp False (bom_fill P) (\<lambda>_ P'. I P' \<and> (eof P' \<or> 3 \<le> length (raw_buffer P'))) (reader_failed I)"
  using assms(1)
proof (induction P rule: bom_fill.induct)
  case (1 P)
  have "wp False (yaml_parser_update_raw_buffer P) (\<lambda>_. I) (reader_failed I)"
    using "1.prems" by (rule assms(2))
  then show ?case
    using "1.prems" "1.IH"
    by (subst bom_fill.simps) (auto split: res.splits)
qed

lemma encoding_skip_bom [simp]: "encoding (skip_bom P enc n) = enc"
  by (simp add: skip_bom_def)

lemma determine_encoding_rule:
  assumes "I P"
    and "\<And>P. I P \<Longrightarrow> wp False (yaml_parser_update_raw_buffer P) (\<lambda>_. I) (reader_failed I)"
    and skip: "\<And>P enc n. I P \<Longrightarrow> n \<le> length (raw_buffer P) \<Longrightarrow> I (skip_bom P enc n)"
  shows "wp False (yaml_parser_determine_encoding P) (\<lambda>_ P'. I P' \<and> encoding P' \<noteq> YAML_ANY_ENCODING)
    (reader_failed I)"
proof -
  have *: "wp False (bom_fill P) (\<lambda>_ P'. I P' \<and> (eof P' \<or> 3 \<le> length (raw_buffer P'))) (reader_failed I)"
    using assms(1,2) by (rule bom_fill_rule)
  have plain: "I (P\<lparr>encoding := YAML_UTF8_ENCODING\<rparr>)" if "I P" for P
    using skip [OF that, of 0 YAML_UTF8_ENCODING] by (simp add: skip_bom_def)
  show ?thesis
    unfolding yaml_parser_determine_encoding_def wp_bind
    by (rule wp_mono [OF *]) (auto intro: skip plain)
qed

lemma update_buffer_rule:
  assumes "read_handler P \<noteq> None"
    and "eof P \<and> raw_buffer P = [] \<or> len \<le> unread P \<Longrightarrow> Q P"
    and "unread P < len \<Longrightarrow> \<not> (eof P \<and> raw_buffer P = []) \<Longrightarrow>
      wp False (if encoding P = YAML_ANY_ENCODING then yaml_parser_determine_encoding P else Ok () P)
       (\<lambda>_ P1. wp False (fill_buffer True len (P1\<lparr>buffer_pointer := 0\<rparr>)) (\<lambda>_ P'. Q P' \<and> E P') (reader_failed E))
       (reader_failed E)"
  shows "wp False (yaml_parser_update_buffer P len) (\<lambda>_. Q) (reader_failed E)"
proof (cases "eof P \<and> raw_buffer P = [] \<or> len \<le> unread P")
  case True
  then show ?thesis using assms(1,2) by (auto simp: yaml_parser_update_buffer_def)
next
  case False
  have *: "wp False (if encoding P = YAML_ANY_ENCODING then yaml_parser_determine_encoding P else Ok () P)
       (\<lambda>_ P1. wp False (fill_buffer True len (P1\<lparr>buffer_pointer := 0\<rparr>)) (\<lambda>_ P'. Q P' \<and> E P') (reader_failed E))
       (reader_failed E)"
    using False assms(3) by simp
  let ?r = "res_bind (if encoding P = YAML_ANY_ENCODING then yaml_parser_determine_encoding P
                  else Ok () P) (\<lambda>_ P.
        res_bind (fill_buffer True len (P\<lparr>buffer_pointer := 0\<rparr>)) (\<lambda>at_end P.
          if at_end then Ok () P
          else if offset P \<ge> MAX_FILE_SIZE
          then yaml_parser_set_reader_error P ''input is too long'' (offset P) (- 1)
          else Ok () P))"
  have "wp False ?r (\<lambda>_. Q) (reader_failed E)"
    unfolding wp_bind
    by (rule wp_mono [OF *], erule wp_mono, auto simp: wp_set_reader_error)
  moreover have "yaml_parser_update_buffer P len = ?r"
    using False assms(1) by (auto simp: yaml_parser_update_buffer_def)
  ultimately show ?thesis by simp
qed

lemma reader_failed_error: "reader_failed I P \<Longrightarrow> error P = YAML_READER_ERROR"
  by (auto simp: reader_failed_def yaml_parser_set_reader_error_def)

lemma reader_failed_wf: "reader_failed reader_wf P \<Longrightarrow> reader_wf P"
  by (auto simp: reader_failed_def yaml_parser_set_reader_error_def reader_inv_def handler_ok_def)

section \<open>Bounds and progress\<close>

lemma update_buffer_bounds:
  assumes "reader_inv P" and "handler_ok P" and "len \<le> 6144"
  shows "wp False (yaml_parser_update_buffer P len)
    (\<lambda>_ P'. reader_inv P' \<and> handler_ok P' \<and> (len \<le> unread P' \<or> eof P' \<and> raw_buffer P' = []))
    (\<lambda>P'. reader_inv P' \<and> handler_ok P' \<and> error P' = YAML_READER_ERROR)"
proof -
  have fill: "wp False (fill_buffer True len (P1\<lparr>buffer_pointer := 0\<rparr>))
      (\<lambda>_ P'. (reader_wf P' \<and> (len \<le> unread P' \<or> eof P' \<and> raw_buffer P' = [])) \<and> reader_wf P') (reader_failed reader_wf)"
    if "reader_wf P1" for P1 :: "('a, 'b) yaml_reader_scheme"
    by (rule wp_mono [OF fill_buffer_bounds])
       (use that assms(3) in \<open>auto simp: reader_inv_def handler_ok_def split: if_splits\<close>)
  have det: "wp False (yaml_parser_determine_encoding P) (\<lambda>_ P'. reader_wf P' \<and> encoding P' \<noteq> YAML_ANY_ENCODING)
     (reader_failed reader_wf)"
    using assms(1,2)
    by (intro determine_encoding_rule update_raw_buffer_wf)
       (auto simp: reader_inv_def handler_ok_def skip_bom_def)
  have "wp False (yaml_parser_update_buffer P len)
    (\<lambda>_ P'. reader_wf P' \<and> (len \<le> unread P' \<or> eof P' \<and> raw_buffer P' = [])) (reader_failed reader_wf)"
  proof (rule update_buffer_rule)
    show "wp False (if encoding P = YAML_ANY_ENCODING then yaml_parser_determine_encoding P else Ok () P)
       (\<lambda>_ P1. wp False (fill_buffer True len (P1\<lparr>buffer_pointer := 0\<rparr>)) 
         (\<lambda>_ P'. (reader_wf P' \<and> (len \<le> unread P' \<or> eof P' \<and> raw_buffer P' = [])) \<and> reader_wf P') (reader_failed reader_wf))
       (reader_failed reader_wf)"
      using fill assms(1,2) wp_mono [OF det] by auto
  qed (use assms in \<open>auto simp: handler_ok_def well_behaved_def\<close>)
  then show ?thesis
    by (rule wp_mono) (auto dest: reader_failed_wf reader_failed_error)
qed

section \<open>A string is handed over unchanged\<close>

lemma well_behaved_string [simp]: "well_behaved (Some yaml_string_read_handler)"
  by (auto simp: well_behaved_def yaml_string_read_handler_eq split: if_splits)

lemma string_input_handler_ok: "string_input P \<Longrightarrow> handler_ok P"
  by (simp add: string_input_def handler_ok_def)

lemma update_raw_buffer_pending:
  assumes "string_input P" and "pending P = s"
  shows "wp False (yaml_parser_update_raw_buffer P) (\<lambda>_ P'. (string_input P' \<and> pending P' = s) \<and> encoding P' = encoding P) 
    (reader_failed (\<lambda>P'. (string_input P' \<and> pending P' = s) \<and> encoding P' = encoding P))"
  by (rule update_raw_buffer_rule)
     (use assms in \<open>auto simp: string_input_def handler_ok_def pending_def yaml_string_read_handler_eq split: if_splits\<close>)

lemma update_buffer_stream:
  fixes P :: "(byte list, 'z) yaml_reader_scheme"
  assumes "string_input P" and "encoding P = YAML_UTF8_ENCODING"
  shows "wp False (yaml_parser_update_buffer P len)
    (\<lambda>_. delivered P) (reader_failed (delivered P))"
proof (rule update_buffer_rule)
  let ?I = "\<lambda>Q :: (byte list, 'z) yaml_reader_scheme. (string_input Q \<and> pending Q = pending P) \<and> encoding Q = YAML_UTF8_ENCODING"
  have "wp False (fill_buffer True len (P\<lparr>buffer_pointer := 0\<rparr>))
    (\<lambda>b P'. if b then (\<exists>Q. ?I Q \<and> eof Q \<and> raw_buffer Q = [] \<and> P' = put_nul Q)
            else ?I P' \<and> len \<le> unread P') (reader_failed ?I)"
  proof (rule fill_buffer_rule, goal_cases)
    case 1
    then show ?case using assms by (simp add: string_input_def pending_def)
  next
    case (2 P')
    then show ?case using update_raw_buffer_pending [of P' "pending P"] by simp
  next
    case (4 Q v w)
    have "take w (raw_buffer Q) = encode_utf8 v" "w \<le> length (raw_buffer Q)"
      using 4 decode_utf8_sound [of "eof Q" "raw_buffer Q" v w] by (auto simp: decode_char_def)
    moreover from this have "pending (put_char Q v w) = pending Q"
      by (simp add: pending_def put_char_def) (metis append_assoc append_take_drop_id)
    ultimately show ?case using 4 by (auto simp: put_char_def string_input_def)
  qed auto
  then show "wp False (if encoding P = YAML_ANY_ENCODING then yaml_parser_determine_encoding P else Ok () P)
       (\<lambda>_ P1. wp False (fill_buffer True len (P1\<lparr>buffer_pointer := 0\<rparr>)) 
         (\<lambda>_ P'. delivered P P' \<and> delivered P P') (reader_failed (delivered P)))
       (reader_failed (delivered P))"
    using assms(2)
    by (auto elim!: wp_mono reader_failed_mono simp: delivered_def put_nul_def pending_def string_input_def split: if_splits)
qed (use assms in \<open>auto simp: string_input_def delivered_def\<close>)

section \<open>The frame of the reader\<close>

lemma allowed_char_scalar_value: "allowed_char v \<Longrightarrow> scalar_value v"
  by (auto simp: allowed_char_def scalar_value_def to_nat)

lemma buffer_chars_put:
  assumes "buffer_chars P" and "scalar_value v"
  shows "buffer_chars (P\<lparr>buffer := buffer P @ encode_utf8 v, unread := Suc (unread P)\<rparr>)"
proof -
  from assms(1) obtain cs where "buffer P = concat (map encode_utf8 cs)" "unread P = length cs"
      "list_all scalar_value cs" by (auto simp: buffer_chars_def)
  with assms(2) show ?thesis
    unfolding buffer_chars_def by (intro exI [of _ "cs @ [v]"]) simp
qed

lemma buffer_chars_cong:
  "buffer P' = buffer P \<Longrightarrow> unread P' = unread P \<Longrightarrow> buffer_chars P' = buffer_chars P"
  by (simp add: buffer_chars_def)

lemma encode_utf8_0: "encode_utf8 0 = [0]"
  by (simp add: encode_utf8_def)

lemma buffer_chars_put_char:
  "buffer_chars P \<Longrightarrow> allowed_char v \<Longrightarrow> buffer_chars (put_char P v w)"
  using buffer_chars_put [of P v] allowed_char_scalar_value [of v]
  by (simp add: put_char_def buffer_chars_def)

lemma buffer_chars_put_nul: "buffer_chars P \<Longrightarrow> buffer_chars (put_nul P)"
  using buffer_chars_put [of P 0] by (simp add: put_nul_def encode_utf8_0 scalar_value_def)

lemma update_buffer_frame:
  fixes P :: "('h, 'z) yaml_reader_scheme"
  assumes "buffer_chars P" and "handler_ok P"
  shows "wp False (yaml_parser_update_buffer P len)
    (\<lambda>_ P'. reader_frame P P' \<and> buffer_chars P') (reader_failed (\<lambda>P'. reader_frame P P' \<and> buffer_chars P'))"
proof (rule update_buffer_rule)
  let ?I = "\<lambda>Q. (reader_frame P Q \<and> buffer_chars Q) \<and> handler_ok Q"
  have upd: "wp False (yaml_parser_update_raw_buffer Q) (\<lambda>_. ?I) (reader_failed ?I)" if "?I Q" for Q
    using that by (intro update_raw_buffer_rule) (auto simp: reader_frame_def buffer_chars_def handler_ok_def)
  have nul: "?I Q \<Longrightarrow> ?I (put_nul Q)" for Q
    using buffer_chars_put_nul [of Q] by (auto simp: reader_frame_def handler_ok_def put_nul_def)
  have fill: "wp False (fill_buffer True len (Q\<lparr>buffer_pointer := 0\<rparr>))
      (\<lambda>_ P'. (reader_frame P P' \<and> buffer_chars P') \<and> (reader_frame P P' \<and> buffer_chars P'))
      (reader_failed (\<lambda>P'. reader_frame P P' \<and> buffer_chars P'))"
    if "?I Q" for Q
  proof (rule wp_mono)
    show "wp False (fill_buffer True len (Q\<lparr>buffer_pointer := 0\<rparr>))
      (\<lambda>b P'. if b then (\<exists>Q. ?I Q \<and> eof Q \<and> raw_buffer Q = [] \<and> P' = put_nul Q)
            else ?I P' \<and> len \<le> unread P') (reader_failed ?I)"
    proof (rule fill_buffer_rule, goal_cases)
      case 1
      then show ?case using that assms by (auto simp: reader_frame_def buffer_chars_def handler_ok_def)
    next
      case (2 Q)
      then show ?case using upd by simp
    next
      case (4 Q v w)
      then show ?case using buffer_chars_put_char [of Q v w]
        by (auto simp: reader_frame_def handler_ok_def put_char_def)
    qed auto
  qed (use nul in \<open>auto split: if_splits elim: reader_failed_mono\<close>)
  have det: "wp False (yaml_parser_determine_encoding P) (\<lambda>_ P'. ?I P' \<and> encoding P' \<noteq> YAML_ANY_ENCODING)
      (reader_failed ?I)"
    using assms upd
    by (intro determine_encoding_rule) (auto simp: reader_frame_def buffer_chars_def handler_ok_def skip_bom_def)
  show "wp False (if encoding P = YAML_ANY_ENCODING then yaml_parser_determine_encoding P else Ok () P)
       (\<lambda>_ P1. wp False (fill_buffer True len (P1\<lparr>buffer_pointer := 0\<rparr>))
         (\<lambda>_ P'. (reader_frame P P' \<and> buffer_chars P') \<and> (reader_frame P P' \<and> buffer_chars P'))
         (reader_failed (\<lambda>P'. reader_frame P P' \<and> buffer_chars P')))
       (reader_failed (\<lambda>P'. reader_frame P P' \<and> buffer_chars P'))"
  proof (cases "encoding P = YAML_ANY_ENCODING")
    case True
    then show ?thesis
      by (simp, intro wp_mono [OF det]) (use fill in \<open>auto elim: reader_failed_mono\<close>)
  next
    case False
    have "?I P" using assms by (simp add: reader_frame_def)
    then show ?thesis using False fill by simp
  qed
qed (use assms in \<open>auto simp: reader_frame_def handler_ok_def well_behaved_def\<close>)

section \<open>Properties\<close>

text \<open>
  (C20) A request for at most 6144 characters never writes outside the raw buffer or the
  working buffer, always comes back, and either delivers the characters, or has reached the
  end of the input, or reports a reader error.
\<close>

theorem reader_no_overflow:
  assumes "reader_inv P" and "handler_ok P" and "len \<le> 6144"
  shows "wp False (yaml_parser_update_buffer P len)
    (\<lambda>_ P'. reader_inv P' \<and> handler_ok P' \<and> (len \<le> unread P' \<or> eof P' \<and> raw_buffer P' = []))
    (\<lambda>P'. reader_inv P' \<and> handler_ok P' \<and> error P' = YAML_READER_ERROR)"
  using assms by (rule update_buffer_bounds)

definition sample_reader :: "byte list yaml_parser" where
  "sample_reader = (zero_parser 0 (octets ''a: 1''))
     \<lparr>read_handler := Some yaml_string_read_handler, encoding := YAML_UTF8_ENCODING\<rparr>"

lemma sample_reader_ok: "reader_inv sample_reader" "handler_ok sample_reader" "string_input sample_reader"
    "encoding sample_reader = YAML_UTF8_ENCODING" "pending sample_reader = octets ''a: 1''" "buffer_chars sample_reader"
  by (simp_all add: sample_reader_def zero_parser_def reader_inv_def handler_ok_def string_input_def pending_def
      INPUT_RAW_BUFFER_SIZE_def buffer_chars_def)

theorem reader_no_overflow_witness:
  "wp False (yaml_parser_update_buffer sample_reader 2)
    (\<lambda>_ P'. reader_inv P' \<and> handler_ok P' \<and> (2 \<le> unread P' \<or> eof P' \<and> raw_buffer P' = []))
    (\<lambda>P'. reader_inv P' \<and> handler_ok P' \<and> error P' = YAML_READER_ERROR)"
  by (rule reader_no_overflow) (simp_all add: sample_reader_ok)

text \<open>
  (C21) The reader hands a UTF-8 string over octet by octet: what is in the working buffer, in
  the raw buffer and still with the handler is together always the same string; at the end of
  the input the working buffer holds the rest of the string and one final NUL.
\<close>

theorem reader_delivers_input:
  fixes P :: "(byte list, 'z) yaml_reader_scheme"
  assumes "string_input P" and "encoding P = YAML_UTF8_ENCODING"
  shows "wp False (yaml_parser_update_buffer P len) (\<lambda>_. delivered P) (reader_failed (delivered P))"
  using assms by (rule update_buffer_stream)

theorem reader_delivers_input_witness:
  "wp False (yaml_parser_update_buffer sample_reader 100) (\<lambda>_. delivered sample_reader)
     (reader_failed (delivered sample_reader)) \<and> pending sample_reader = octets ''a: 1''"
  using reader_delivers_input [of sample_reader 100] by (simp add: sample_reader_ok)

end
