(* ===== verification/Yaml_Writer.thy ===== *)
theory Yaml_Writer
  imports Yaml_Unicode
begin

text \<open>
  The writer, \<^verbatim>\<open>src/writer.c\<close>: \<open>yaml_emitter_flush\<close> hands the emitter's output buffer to the
  write handler, in UTF-8 as it is, in UTF-16 after recoding every character.  The write
  handler takes its data and the octets and gives its return value and what became of its data.
  A width of 0 makes
  the recoding loop spin on the same octet and a truncated last character carries the pointer
  past \<open>last\<close>, which the loop then never meets: the model answers \<open>Hang\<close> in both cases.  After a
  failed write in UTF-16 both buffers keep their octets; \<open>Abort\<close> stands for octets written
  behind the raw buffer.
\<close>

section \<open>Model\<close>

type_synonym 'w yaml_write_handler = "'w \<Rightarrow> byte list \<Rightarrow> bool \<times> 'w"

record 'w yaml_emitter_writer =
  em_error :: yaml_error_type
  em_problem :: "string option"
  write_handler :: "'w yaml_write_handler option"
  write_handler_data :: 'w
  em_buffer :: "byte list"
  em_raw_buffer :: "byte list"
  em_encoding :: yaml_encoding

definition OUTPUT_BUFFER_SIZE :: nat where "OUTPUT_BUFFER_SIZE = 16384"
definition OUTPUT_RAW_BUFFER_SIZE :: nat where "OUTPUT_RAW_BUFFER_SIZE = OUTPUT_BUFFER_SIZE * 2 + 2"

definition yaml_emitter_set_writer_error ::
  "('w, 'z) yaml_emitter_writer_scheme \<Rightarrow> string \<Rightarrow> ('a, ('w, 'z) yaml_emitter_writer_scheme) res" where
  "yaml_emitter_set_writer_error E msg =
     Fail (E\<lparr>em_error := YAML_WRITER_ERROR, em_problem := Some msg\<rparr>)"

text \<open>The value of the character at the buffer pointer; the trailing octets are not checked.\<close>

fun writer_trail :: "32 word \<Rightarrow> byte list \<Rightarrow> 32 word" where
  "writer_trail v [] = v"
| "writer_trail v (octet # bs) = writer_trail (push_bit 6 v + ucast (octet AND 0x3F)) bs"

definition writer_value :: "byte list \<Rightarrow> 32 word" where
  "writer_value bs = writer_trail (utf8_lead (hd bs)) (take (utf8_width (hd bs) - 1) (tl bs))"

text \<open>The octets stored through \<open>raw_buffer.last\<close>: the high octet first, or the low one.\<close>

definition unit_octets :: "bool \<Rightarrow> 32 word \<Rightarrow> 32 word \<Rightarrow> byte list" where
  "unit_octets le hi lo = (if le then [ucast lo, ucast hi] else [ucast hi, ucast lo])"

definition write_utf16 :: "bool \<Rightarrow> 32 word \<Rightarrow> byte list" where
  "write_utf16 le v =
     (if v < 0x10000 then unit_octets le (drop_bit 8 v) (v AND 0xFF)
      else let v = v - 0x10000 in
        unit_octets le (0xD8 + drop_bit 18 v) (drop_bit 10 v AND 0xFF)
        @ unit_octets le (0xDC + (drop_bit 8 v AND 0xFF)) (v AND 0xFF))"

function recode :: "bool \<Rightarrow> byte list \<Rightarrow> byte list option" where
  "recode le bs =
     (if bs = [] then Some []
      else let width = utf8_width (hd bs) in
        if width = 0 \<or> width > length bs then None
        else map_option (\<lambda>out. write_utf16 le (writer_value bs) @ out) (recode le (drop width bs)))"
  by pat_completeness auto
termination
  by (relation "measure (\<lambda>(le, bs). length bs)") auto

declare recode.simps [simp del]

definition yaml_emitter_flush ::
  "('w, 'z) yaml_emitter_writer_scheme \<Rightarrow> (unit, ('w, 'z) yaml_emitter_writer_scheme) res" where
  "yaml_emitter_flush E =
     (case write_handler E of None \<Rightarrow> Abort | Some wh \<Rightarrow>
      if em_encoding E = YAML_ANY_ENCODING then Abort
      else if em_buffer E = [] then Ok () E
      else if em_encoding E = YAML_UTF8_ENCODING then
        (case wh (write_handler_data E) (em_buffer E) of (ok, d) \<Rightarrow>
           let E = E\<lparr>write_handler_data := d, em_buffer := []\<rparr> in
           if ok then Ok () E else yaml_emitter_set_writer_error E ''write error'')
      else
        (case recode (em_encoding E = YAML_UTF16LE_ENCODING) (em_buffer E) of
           None \<Rightarrow> Hang
         | Some out \<Rightarrow>
            let raw = em_raw_buffer E @ out in
            if length raw > OUTPUT_RAW_BUFFER_SIZE then Abort
            else (case wh (write_handler_data E) raw of (ok, d) \<Rightarrow>
              let E = E\<lparr>write_handler_data := d\<rparr> in
              if ok then Ok () (E\<lparr>em_buffer := [], em_raw_buffer := []\<rparr>)
              else yaml_emitter_set_writer_error (E\<lparr>em_raw_buffer := raw\<rparr>) ''write error'')))"

text \<open>
  The characters that the surrogate arithmetic of the writer gets right: those of the basic
  plane, and those whose bits 10 to 15 above \<open>0x10000\<close> are zero.
\<close>

definition surrogate_safe :: "32 word \<Rightarrow> bool" where
  "surrogate_safe v \<longleftrightarrow> unat v < 0x10000 \<or> (unat v - 0x10000) div 1024 mod 64 = 0"

section \<open>Facts\<close>

lemma writer_trail_utf8_trail: "utf8_trail v k bs = Inr r \<Longrightarrow> writer_trail v bs = r"
  by (induction v k bs rule: utf8_trail.induct) (auto split: if_splits)

lemma decode_utf8_parts:
  assumes "decode_utf8 e bs = Decoded v w"
  shows "utf8_width (hd bs) = w \<and> 0 < w \<and> w \<le> length bs \<and> writer_value bs = v"
  using assms
  by (auto simp: decode_utf8_def Let_def writer_value_def dest: writer_trail_utf8_trail
      split: if_splits sum.splits prod.splits)

lemma recode_encode:
  assumes "scalar_value c"
  shows "recode le (encode_utf8 c @ bs) = map_option (\<lambda>out. write_utf16 le c @ out) (recode le bs)"
  using decode_utf8_parts [OF decode_utf8_encode_utf8 [OF assms, of True bs]] length_encode_utf8 [of c]
  by (subst recode.simps) (auto simp: Let_def)

lemma recode_chars:
  "list_all scalar_value cs \<Longrightarrow>
     recode le (concat (map encode_utf8 cs)) = Some (concat (map (write_utf16 le) cs))"
  by (induction cs) (simp_all add: recode_encode recode.simps [of le "[]"])

lemma unit_octets_eq: "unat hi < 256 \<Longrightarrow> unat lo < 256 \<Longrightarrow> u = unat hi * 256 + unat lo \<Longrightarrow>
   unit_octets le hi lo = utf16_bytes le u"
  by (auto simp: unit_octets_def utf16_bytes_def Let_def word_unat_eq_iff unat_ucast8 unat_of_nat)

lemma write_utf16_bmp: "unat v < 0x10000 \<Longrightarrow> write_utf16 le v = encode_utf16 le v"
  by (auto simp: write_utf16_def encode_utf16_def Let_def to_nat unat_and_FF intro!: unit_octets_eq)

lemma third_octet: 
  fixes m :: nat
  shows "m div 256 mod 256 = 4 * (m div 1024 mod 64) + m mod 1024 div 256"
proof -
  have "m mod (256 * 4) = 256 * (m div 256 mod 4) + m mod 256"
    by (rule mod_mult2_eq)
  then have "m mod 1024 div 256 = m div 256 mod 4" by simp
  moreover have "m div 256 mod (4 * 64) = 4 * (m div 256 div 4 mod 64) + m div 256 mod 4"
    by (rule mod_mult2_eq)
  moreover have "m div 256 div 4 = m div 1024" by (simp add: div_mult2_eq [symmetric])
  ultimately show ?thesis by simp
qed

lemma unit_octets_iff: "unit_octets le hi lo = utf16_bytes le u \<longleftrightarrow>
    unat hi mod 256 = u div 256 mod 256 \<and> unat lo mod 256 = u mod 256"
  by (auto simp: unit_octets_def utf16_bytes_def Let_def word_unat_eq_iff unat_ucast8 unat_of_nat)

lemma spill:
  fixes t r :: nat
  assumes "t < 64" and "r < 4"
  shows "(220 + (4 * t + r)) mod 256 = 220 + r \<longleftrightarrow> t = 0"
proof (cases "220 + (4 * t + r) < 256")
  case True
  then show ?thesis by simp
next
  case False
  then have "(220 + (4 * t + r)) mod 256 = 220 + (4 * t + r) - 256"
    using assms by (simp add: le_mod_geq)
  then show ?thesis using assms False by simp
qed

lemma write_utf16_iff:
  assumes "scalar_value v"
  shows "write_utf16 le v = encode_utf16 le v \<longleftrightarrow> surrogate_safe v"
proof (cases "unat v < 0x10000")
  case True
  then show ?thesis by (simp add: write_utf16_bmp surrogate_safe_def)
next
  case False
  define x where "x = v - 0x10000"
  define m where "m = unat v - 0x10000"
  have x: "unat x = m" using False by (simp add: x_def m_def unat_sub word_le_nat_alt)
  have m: "m < 0x100000" using assms False by (simp add: m_def scalar_value_def)
  have 1: "unit_octets le (0xD8 + drop_bit 18 x) (drop_bit 10 x AND 0xFF) = utf16_bytes le (0xD800 + m div 1024)"
    using m mult_div_mod_eq [of 256 "m div 1024"]
    by (intro unit_octets_eq) (auto simp: to_nat unat_and_FF x div_mult2_eq [symmetric])
  have "unit_octets le (0xDC + (drop_bit 8 x AND 0xFF)) (x AND 0xFF) = utf16_bytes le (0xDC00 + m mod 1024)
     \<longleftrightarrow> m div 1024 mod 64 = 0"
  proof -
    have r: "m mod 1024 div 256 < 4" by (simp add: less_mult_imp_div_less)
    have "unat (0xDC + (drop_bit 8 x AND 0xFF)) = 220 + m div 256 mod 256"
      by (simp add: to_nat unat_and_FF x)
    then have "unat (0xDC + (drop_bit 8 x AND 0xFF)) = 220 + (4 * (m div 1024 mod 64) + m mod 1024 div 256)"
      by (simp only: third_octet)
    moreover have "(0xDC00 + m mod 1024) div 256 mod 256 = 220 + m mod 1024 div 256" using r by simp
    moreover have "unat (x AND 0xFF) mod 256 = (0xDC00 + m mod 1024) mod 256"
      using mod_mult_self3 [of 220 256 "m mod 1024"] by (simp add: unat_and_FF x mod_mod_cancel)
    ultimately show ?thesis
      using spill [of "m div 1024 mod 64" "m mod 1024 div 256"] r by (simp add: unit_octets_iff)
  qed
  then show ?thesis using False 1
    by (simp add: write_utf16_def encode_utf16_def surrogate_safe_def word_less_nat_alt Let_def x_def m_def)
qed

lemma writer_trail_less:
  assumes "(unat v + 1) * 64 ^ length bs \<le> 2 ^ 32"
  shows "unat (writer_trail v bs) < (unat v + 1) * 64 ^ length bs"
  using assms
proof (induction bs arbitrary: v)
  case Nil
  then show ?case by simp
next
  case (Cons b bs)
  let ?w = "push_bit 6 v + ucast (b AND 0x3F)"
  have le: "(unat v + 1) * 64 * 64 ^ length bs \<le> 2 ^ 32" using Cons.prems by (simp add: algebra_simps)
  moreover have "(unat v + 1) * 64 * 1 \<le> (unat v + 1) * 64 * 64 ^ length bs" by (intro mult_left_mono) auto
  ultimately have "(unat v + 1) * 64 * 1 \<le> 2 ^ 32" by (rule le_trans [rotated])
  then have "unat v * 64 + 64 \<le> 2 ^ 32" by simp
  then have w: "unat ?w = unat v * 64 + unat b mod 64" by (simp add: to_nat)
  have "(unat ?w + 1) * 64 ^ length bs \<le> (unat v + 1) * 64 * 64 ^ length bs"
    unfolding w by (intro mult_right_mono) (auto simp: Suc_le_eq)
  then show ?case using Cons.IH [of ?w] le by (simp add: algebra_simps)
qed

lemma writer_value_small:
  assumes "utf8_width (hd bs) = w" and "0 < w" and "w < 4" and "w \<le> length bs"
  shows "unat (writer_value bs) < 0x10000"
proof -
  have "unat (writer_value bs) < (unat (utf8_lead (hd bs)) + 1) * 64 ^ (w - 1)"
    using writer_trail_less [of "utf8_lead (hd bs)" "take (w - 1) (tl bs)"] utf8_lead_width [of "hd bs" w] assms
    by (simp add: writer_value_def)
  also have "\<dots> \<le> 0x10000"
    using assms by (auto simp: utf8_lead_nat utf8_width_nat split: if_splits)
  finally show ?thesis .
qed

lemma length_write_utf16: "length (write_utf16 le v) = (if unat v < 0x10000 then 2 else 4)"
  by (simp add: write_utf16_def unit_octets_def Let_def word_less_nat_alt)

lemma length_recode: "recode le bs = Some out \<Longrightarrow> length out \<le> 2 * length bs"
proof (induction le bs arbitrary: out rule: recode.induct)
  case (1 le bs)
  show ?case
  proof (cases "bs = []")
    case True
    then show ?thesis using "1.prems" by (simp add: recode.simps)
  next
    case False
    let ?w = "utf8_width (hd bs)"
    obtain out' where o: "recode le (drop ?w bs) = Some out'" "out = write_utf16 le (writer_value bs) @ out'"
        "0 < ?w" "?w \<le> length bs"
      using False "1.prems" by (subst (asm) recode.simps) (auto simp: Let_def split: if_splits)
    then have "length out' \<le> 2 * length (drop ?w bs)" using "1.IH" [OF False refl] by auto
    moreover have "length (write_utf16 le (writer_value bs)) \<le> 2 * ?w"
      using writer_value_small [of bs ?w] o(3,4) by (cases "?w < 4") (auto simp: length_write_utf16)
    ultimately show ?thesis using o(2,4) by simp
  qed
qed

section \<open>Properties\<close>

text \<open>
  (C25) The UTF-16 that the writer produces for a character is the UTF-16 of the standard
  exactly for the characters of the basic plane and those outside it whose bits 10 to 15,
  counted from \<open>0x10000\<close>, are zero: the code keeps eight bits where two belong in the second
  surrogate.
\<close>

theorem writer_utf16_correct_iff:
  assumes "scalar_value v"
  shows "write_utf16 le v = encode_utf16 le v \<longleftrightarrow> surrogate_safe v"
  using assms by (rule write_utf16_iff)

theorem writer_utf16_correct_iff_witness: "write_utf16 False 0x1F600 \<noteq> encode_utf16 False 0x1F600"
proof -
  have "scalar_value 0x1F600" "\<not> surrogate_safe 0x1F600" by (simp_all add: scalar_value_def surrogate_safe_def)
  then show ?thesis using writer_utf16_correct_iff [of "0x1F600" False] by blast
qed

text \<open>
  (C26) Flushing a full output buffer in UTF-16 stays within the raw buffer, whose size is twice
  that of the output buffer and two octets for the byte order mark.
\<close>

theorem flush_raw_buffer_bound:
  assumes "recode le bs = Some out" and "length bs \<le> OUTPUT_BUFFER_SIZE"
  shows "2 + length out \<le> OUTPUT_RAW_BUFFER_SIZE"
  using length_recode [OF assms(1)] assms(2) by (simp add: OUTPUT_BUFFER_SIZE_def OUTPUT_RAW_BUFFER_SIZE_def)

theorem flush_raw_buffer_bound_witness: "2 + length [0x00, 0x41 :: byte] \<le> OUTPUT_RAW_BUFFER_SIZE"
  by (rule flush_raw_buffer_bound [of False "[0x41]"])
     (code_simp, simp add: OUTPUT_BUFFER_SIZE_def)

end
