(* ===== verification/Yaml_Parser.thy ===== *)
theory Yaml_Parser
  imports Yaml_Types
begin

text \<open>
  The parser, \<^verbatim>\<open>src/parser.c\<close>: a state machine with a stack that turns tokens into events.
  One definition per production of the source.  The argument \<open>F\<close> is the call of
  \<open>yaml_parser_fetch_more_tokens\<close> that \<open>PEEK_TOKEN\<close> makes; the argument \<open>n\<close> bounds the two
  loops whose length depends on the input (repeated document ends and directives).
\<close>

section \<open>Tokens\<close>

type_synonym 'h fetcher = "'h yaml_parser \<Rightarrow> (unit, 'h yaml_parser) res"

definition peek_head :: "'h yaml_parser \<Rightarrow> (yaml_token, 'h yaml_parser) res" where
  "peek_head P = (case tokens P of [] \<Rightarrow> Abort | t # _ \<Rightarrow> Ok t P)"

definition PEEK_TOKEN :: "'h fetcher \<Rightarrow> 'h yaml_parser \<Rightarrow> (yaml_token, 'h yaml_parser) res" where
  "PEEK_TOKEN F P =
     (if token_available P then peek_head P else res_bind (F P) (\<lambda>_ P. peek_head P))"

definition SKIP_TOKEN :: "'h yaml_parser \<Rightarrow> (unit, 'h yaml_parser) res" where
  "SKIP_TOKEN P =
     (case tokens P of [] \<Rightarrow> Abort
      | t # ts \<Rightarrow> Ok () (P\<lparr>token_available := False, tokens_parsed := tokens_parsed P + 1,
          stream_end_produced := (tok_data t = YAML_STREAM_END_TOKEN), tokens := ts\<rparr>))"

text \<open>Where the source uses the token without the check for NULL.\<close>

definition PEEK_TOKEN_unchecked :: "'h fetcher \<Rightarrow> 'h yaml_parser \<Rightarrow> (yaml_token, 'h yaml_parser) res" where
  "PEEK_TOKEN_unchecked F P = (case PEEK_TOKEN F P of Fail _ \<Rightarrow> Abort | r \<Rightarrow> r)"

section \<open>Errors\<close>

definition yaml_parser_set_parser_error ::
  "'h yaml_parser \<Rightarrow> string \<Rightarrow> yaml_mark \<Rightarrow> ('a, 'h yaml_parser) res" where
  "yaml_parser_set_parser_error P msg m =
     Fail (P\<lparr>error := YAML_PARSER_ERROR, problem := Some msg, problem_mark := m\<rparr>)"

definition yaml_parser_set_parser_error_context ::
  "'h yaml_parser \<Rightarrow> string \<Rightarrow> yaml_mark \<Rightarrow> string \<Rightarrow> yaml_mark \<Rightarrow> ('a, 'h yaml_parser) res" where
  "yaml_parser_set_parser_error_context P ctx cm msg m =
     Fail (P\<lparr>error := YAML_PARSER_ERROR, err_context := Some ctx, context_mark := cm,
             problem := Some msg, problem_mark := m\<rparr>)"

section \<open>Stacks of the parser\<close>

definition push_state :: "'h yaml_parser \<Rightarrow> yaml_parser_state \<Rightarrow> (unit, 'h yaml_parser) res" where
  "push_state P st = res_bind (PUSH P (states P) st) (\<lambda>xs P. Ok () (P\<lparr>states := xs\<rparr>))"

definition pop_state :: "'h yaml_parser \<Rightarrow> (unit, 'h yaml_parser) res" where
  "pop_state P = res_bind (POP (states P) P) (\<lambda>(st, xs) P. Ok () (P\<lparr>state := st, states := xs\<rparr>))"

definition push_mark :: "'h yaml_parser \<Rightarrow> yaml_mark \<Rightarrow> (unit, 'h yaml_parser) res" where
  "push_mark P m = res_bind (PUSH P (marks P) m) (\<lambda>xs P. Ok () (P\<lparr>marks := xs\<rparr>))"

definition pop_mark :: "'h yaml_parser \<Rightarrow> (yaml_mark, 'h yaml_parser) res" where
  "pop_mark P = res_bind (POP (marks P) P) (\<lambda>(m, xs) P. Ok m (P\<lparr>marks := xs\<rparr>))"

section \<open>Strings and tag directives\<close>

text \<open>A C string ends at its first NUL; \<open>strcmp\<close> and \<open>strlen\<close> see no more.\<close>

definition cstr :: "ystr \<Rightarrow> ystr" where
  "cstr s = takeWhile (\<lambda>b. b \<noteq> 0) s"

definition find_tag_directive :: "yaml_tag_directive list \<Rightarrow> ystr \<Rightarrow> yaml_tag_directive option" where
  "find_tag_directive ds h = find (\<lambda>d. cstr (td_handle d) = cstr h) ds"

definition yaml_parser_append_tag_directive ::
  "'h yaml_parser \<Rightarrow> yaml_tag_directive \<Rightarrow> bool \<Rightarrow> yaml_mark \<Rightarrow> (unit, 'h yaml_parser) res" where
  "yaml_parser_append_tag_directive P v allow_duplicates m =
     (if find_tag_directive (tag_directives P) (td_handle v) \<noteq> None then
        (if allow_duplicates then Ok () P
         else yaml_parser_set_parser_error P ''found duplicate %TAG directive'' m)
      else
        res_bind (allocate P) (\<lambda>_ P.
        res_bind (allocate P) (\<lambda>_ P.
        res_bind (PUSH P (tag_directives P)
            \<lparr>td_handle = cstr (td_handle v), td_prefix = cstr (td_prefix v)\<rparr>) (\<lambda>xs P.
          Ok () (P\<lparr>tag_directives := xs\<rparr>)))))"

definition default_tag_directives :: "yaml_tag_directive list" where
  "default_tag_directives =
     [\<lparr>td_handle = octets ''!'', td_prefix = octets ''!''\<rparr>,
      \<lparr>td_handle = octets ''!!'', td_prefix = octets ''tag:yaml.org,2002:''\<rparr>]"

fun append_default_directives ::
  "yaml_tag_directive list \<Rightarrow> yaml_mark \<Rightarrow> 'h yaml_parser \<Rightarrow> (unit, 'h yaml_parser) res" where
  "append_default_directives [] m P = Ok () P"
| "append_default_directives (d # ds) m P =
     res_bind (yaml_parser_append_tag_directive P d True m) (\<lambda>_ P. append_default_directives ds m P)"

text \<open>
  The loop over the directives, with the version directive and the tag directives found so
  far, and the token that ended it.
\<close>

fun directives_loop :: "'h fetcher \<Rightarrow> nat \<Rightarrow> yaml_version_directive option \<Rightarrow> yaml_tag_directive list
    \<Rightarrow> yaml_token \<Rightarrow> 'h yaml_parser
    \<Rightarrow> (yaml_version_directive option \<times> yaml_tag_directive list \<times> yaml_token, 'h yaml_parser) res" where
  "directives_loop F 0 vd tds token P = Hang"
| "directives_loop F (Suc n) vd tds token P =
     (case tok_data token of
        YAML_VERSION_DIRECTIVE_TOKEN maj mnr \<Rightarrow>
          if vd \<noteq> None then
            yaml_parser_set_parser_error P ''found duplicate %YAML directive'' (tok_start_mark token)
          else if maj \<noteq> 1 \<or> (mnr \<noteq> 1 \<and> mnr \<noteq> 2) then
            yaml_parser_set_parser_error P ''found incompatible YAML document'' (tok_start_mark token)
          else
            res_bind (allocate P) (\<lambda>_ P. res_bind (SKIP_TOKEN P) (\<lambda>_ P.
            res_bind (PEEK_TOKEN F P) (\<lambda>token P.
              directives_loop F n (Some \<lparr>major = maj, minor = mnr\<rparr>) tds token P)))
      | YAML_TAG_DIRECTIVE_TOKEN h p \<Rightarrow>
          res_bind (yaml_parser_append_tag_directive P \<lparr>td_handle = h, td_prefix = p\<rparr> False
              (tok_start_mark token)) (\<lambda>_ P.
          res_bind (PUSH P tds \<lparr>td_handle = h, td_prefix = p\<rparr>) (\<lambda>tds P.
          res_bind (SKIP_TOKEN P) (\<lambda>_ P.
          res_bind (PEEK_TOKEN F P) (\<lambda>token P. directives_loop F n vd tds token P))))
      | _ \<Rightarrow> Ok (vd, tds, token) P)"

definition yaml_parser_process_directives :: "'h fetcher \<Rightarrow> nat \<Rightarrow> 'h yaml_parser
    \<Rightarrow> (yaml_version_directive option \<times> yaml_tag_directive list, 'h yaml_parser) res" where
  "yaml_parser_process_directives F n P =
     res_bind (allocate P) (\<lambda>_ P.
     res_bind (PEEK_TOKEN F P) (\<lambda>token P.
     res_bind (directives_loop F n None [] token P) (\<lambda>(vd, tds, token) P.
     res_bind (append_default_directives default_tag_directives (tok_start_mark token) P) (\<lambda>_ P.
       Ok (vd, tds) P))))"

section \<open>Events\<close>

definition yaml_parser_process_empty_scalar ::
  "'h yaml_parser \<Rightarrow> yaml_mark \<Rightarrow> (yaml_event, 'h yaml_parser) res" where
  "yaml_parser_process_empty_scalar P m =
     res_bind (allocate P) (\<lambda>_ P.
       Ok (EVENT_INIT (YAML_SCALAR_EVENT None None [] True False YAML_PLAIN_SCALAR_STYLE) m m) P)"

definition yaml_parser_parse_stream_start :: "'h fetcher \<Rightarrow> 'h yaml_parser
    \<Rightarrow> (yaml_event, 'h yaml_parser) res" where
  "yaml_parser_parse_stream_start F P =
     res_bind (PEEK_TOKEN F P) (\<lambda>token P.
       case tok_data token of
         YAML_STREAM_START_TOKEN enc \<Rightarrow>
           res_bind (SKIP_TOKEN (P\<lparr>state := YAML_PARSE_IMPLICIT_DOCUMENT_START_STATE\<rparr>)) (\<lambda>_ P.
             Ok (EVENT_INIT (YAML_STREAM_START_EVENT enc) (tok_start_mark token)
                   (tok_start_mark token)) P)
       | _ \<Rightarrow> yaml_parser_set_parser_error P ''did not find expected <stream-start>''
                (tok_start_mark token))"

text \<open>Extra document end indicators.\<close>

fun skip_document_ends :: "'h fetcher \<Rightarrow> nat \<Rightarrow> yaml_token \<Rightarrow> 'h yaml_parser
    \<Rightarrow> (yaml_token, 'h yaml_parser) res" where
  "skip_document_ends F 0 token P = Hang"
| "skip_document_ends F (Suc n) token P =
     (if tok_data token = YAML_DOCUMENT_END_TOKEN then
        res_bind (SKIP_TOKEN P) (\<lambda>_ P.
        res_bind (PEEK_TOKEN F P) (\<lambda>token P. skip_document_ends F n token P))
      else Ok token P)"

definition is_document_head :: "yaml_token_data \<Rightarrow> bool" where
  "is_document_head d \<longleftrightarrow> is_YAML_VERSION_DIRECTIVE_TOKEN d \<or> is_YAML_TAG_DIRECTIVE_TOKEN d
     \<or> d = YAML_DOCUMENT_START_TOKEN \<or> d = YAML_STREAM_END_TOKEN"

definition yaml_parser_parse_document_start :: "'h fetcher \<Rightarrow> nat \<Rightarrow> 'h yaml_parser \<Rightarrow> bool
    \<Rightarrow> (yaml_event, 'h yaml_parser) res" where
  "yaml_parser_parse_document_start F n P implicit =
     res_bind (PEEK_TOKEN F P) (\<lambda>token P.
     res_bind (if \<not> implicit then skip_document_ends F n token P else Ok token P) (\<lambda>token P.
       if implicit \<and> \<not> is_document_head (tok_data token) then
         res_bind (yaml_parser_process_directives F n P) (\<lambda>_ P.
         res_bind (push_state P YAML_PARSE_DOCUMENT_END_STATE) (\<lambda>_ P.
           Ok (EVENT_INIT (YAML_DOCUMENT_START_EVENT None [] True)
                 (tok_start_mark token) (tok_start_mark token))
              (P\<lparr>state := YAML_PARSE_BLOCK_NODE_STATE\<rparr>)))
       else if tok_data token \<noteq> YAML_STREAM_END_TOKEN then
         (let sm = tok_start_mark token in
          res_bind (yaml_parser_process_directives F n P) (\<lambda>(vd, tds) P.
          res_bind (PEEK_TOKEN F P) (\<lambda>token P.
            if tok_data token \<noteq> YAML_DOCUMENT_START_TOKEN then
              yaml_parser_set_parser_error P ''did not find expected <document start>''
                (tok_start_mark token)
            else
              res_bind (push_state P YAML_PARSE_DOCUMENT_END_STATE) (\<lambda>_ P.
              res_bind (SKIP_TOKEN (P\<lparr>state := YAML_PARSE_DOCUMENT_CONTENT_STATE\<rparr>)) (\<lambda>_ P.
                Ok (EVENT_INIT (YAML_DOCUMENT_START_EVENT vd tds False) sm (tok_end_mark token)) P)))))
       else
         res_bind (SKIP_TOKEN (P\<lparr>state := YAML_PARSE_END_STATE\<rparr>)) (\<lambda>_ P.
           Ok (EVENT_INIT YAML_STREAM_END_EVENT (tok_start_mark token) (tok_end_mark token)) P)))"

definition yaml_parser_parse_document_end :: "'h fetcher \<Rightarrow> 'h yaml_parser
    \<Rightarrow> (yaml_event, 'h yaml_parser) res" where
  "yaml_parser_parse_document_end F P =
     res_bind (PEEK_TOKEN F P) (\<lambda>token P.
     res_bind (if tok_data token = YAML_DOCUMENT_END_TOKEN
               then res_bind (SKIP_TOKEN P) (\<lambda>_ P. Ok (tok_end_mark token, False) P)
               else Ok (tok_start_mark token, True) P) (\<lambda>(em, implicit) P.
       Ok (EVENT_INIT (YAML_DOCUMENT_END_EVENT implicit) (tok_start_mark token) em)
          (P\<lparr>tag_directives := [], state := YAML_PARSE_DOCUMENT_START_STATE\<rparr>)))"

section \<open>Nodes\<close>

text \<open>The local variables of \<open>yaml_parser_parse_node\<close> after the properties were read.\<close>

record node_properties =
  np_anchor :: "ystr option"
  np_tag :: "(ystr \<times> ystr) option"
  np_start_mark :: yaml_mark
  np_end_mark :: yaml_mark
  np_tag_mark :: yaml_mark

definition parse_properties :: "'h fetcher \<Rightarrow> yaml_token \<Rightarrow> 'h yaml_parser
    \<Rightarrow> (node_properties \<times> yaml_token, 'h yaml_parser) res" where
  "parse_properties F token P =
     (let np = \<lparr>np_anchor = None, np_tag = None, np_start_mark = tok_start_mark token,
                np_end_mark = tok_start_mark token, np_tag_mark = zero_mark\<rparr> in
      case tok_data token of
        YAML_ANCHOR_TOKEN a \<Rightarrow>
          (let np = np\<lparr>np_anchor := Some a, np_end_mark := tok_end_mark token\<rparr> in
           res_bind (SKIP_TOKEN P) (\<lambda>_ P. res_bind (PEEK_TOKEN F P) (\<lambda>token P.
             case tok_data token of
               YAML_TAG_TOKEN h sfx \<Rightarrow>
                 res_bind (SKIP_TOKEN P) (\<lambda>_ P. res_bind (PEEK_TOKEN F P) (\<lambda>token' P.
                   Ok (np\<lparr>np_tag := Some (h, sfx), np_tag_mark := tok_start_mark token,
                          np_end_mark := tok_end_mark token\<rparr>, token') P))
             | _ \<Rightarrow> Ok (np, token) P)))
      | YAML_TAG_TOKEN h sfx \<Rightarrow>
          (let np = np\<lparr>np_tag := Some (h, sfx), np_tag_mark := tok_start_mark token,
                       np_end_mark := tok_end_mark token\<rparr> in
           res_bind (SKIP_TOKEN P) (\<lambda>_ P. res_bind (PEEK_TOKEN F P) (\<lambda>token P.
             case tok_data token of
               YAML_ANCHOR_TOKEN a \<Rightarrow>
                 res_bind (SKIP_TOKEN P) (\<lambda>_ P. res_bind (PEEK_TOKEN F P) (\<lambda>token' P.
                   Ok (np\<lparr>np_anchor := Some a, np_end_mark := tok_end_mark token\<rparr>, token') P))
             | _ \<Rightarrow> Ok (np, token) P)))
      | _ \<Rightarrow> Ok (np, token) P)"

definition resolve_tag :: "node_properties \<Rightarrow> 'h yaml_parser
    \<Rightarrow> (ystr option, 'h yaml_parser) res" where
  "resolve_tag np P =
     (case np_tag np of
        None \<Rightarrow> Ok None P
      | Some (h, sfx) \<Rightarrow>
          if cstr h = [] then Ok (Some sfx) P
          else case find_tag_directive (tag_directives P) h of
            Some d \<Rightarrow> res_bind (allocate P) (\<lambda>_ P. Ok (Some (cstr (td_prefix d) @ cstr sfx)) P)
          | None \<Rightarrow> yaml_parser_set_parser_error_context P ''while parsing a node''
              (np_start_mark np) ''found undefined tag handle'' (np_tag_mark np))"

definition node_content :: "bool \<Rightarrow> bool \<Rightarrow> node_properties \<Rightarrow> ystr option \<Rightarrow> yaml_token
    \<Rightarrow> 'h yaml_parser \<Rightarrow> (yaml_event, 'h yaml_parser) res" where
  "node_content block indentless_sequence np tag token P =
     (let anchor = np_anchor np; sm = np_start_mark np; em = tok_end_mark token;
          implicit = (case tag of None \<Rightarrow> True | Some t \<Rightarrow> cstr t = []) in
      if indentless_sequence \<and> tok_data token = YAML_BLOCK_ENTRY_TOKEN then
        Ok (EVENT_INIT (YAML_SEQUENCE_START_EVENT anchor tag implicit YAML_BLOCK_SEQUENCE_STYLE) sm em)
           (P\<lparr>state := YAML_PARSE_INDENTLESS_SEQUENCE_ENTRY_STATE\<rparr>)
      else case tok_data token of
        YAML_SCALAR_TOKEN v style \<Rightarrow>
          (let plain = (style = YAML_PLAIN_SCALAR_STYLE \<and> tag = None
                 \<or> (case tag of None \<Rightarrow> False | Some t \<Rightarrow> cstr t = octets ''!''));
               quoted = (\<not> plain \<and> tag = None) in
           res_bind (pop_state P) (\<lambda>_ P. res_bind (SKIP_TOKEN P) (\<lambda>_ P.
             Ok (EVENT_INIT (YAML_SCALAR_EVENT anchor tag v plain quoted style) sm em) P)))
      | YAML_FLOW_SEQUENCE_START_TOKEN \<Rightarrow>
          Ok (EVENT_INIT (YAML_SEQUENCE_START_EVENT anchor tag implicit YAML_FLOW_SEQUENCE_STYLE) sm em)
             (P\<lparr>state := YAML_PARSE_FLOW_SEQUENCE_FIRST_ENTRY_STATE\<rparr>)
      | YAML_FLOW_MAPPING_START_TOKEN \<Rightarrow>
          Ok (EVENT_INIT (YAML_MAPPING_START_EVENT anchor tag implicit YAML_FLOW_MAPPING_STYLE) sm em)
             (P\<lparr>state := YAML_PARSE_FLOW_MAPPING_FIRST_KEY_STATE\<rparr>)
      | _ \<Rightarrow>
          if block \<and> tok_data token = YAML_BLOCK_SEQUENCE_START_TOKEN then
            Ok (EVENT_INIT (YAML_SEQUENCE_START_EVENT anchor tag implicit YAML_BLOCK_SEQUENCE_STYLE) sm em)
               (P\<lparr>state := YAML_PARSE_BLOCK_SEQUENCE_FIRST_ENTRY_STATE\<rparr>)
          else if block \<and> tok_data token = YAML_BLOCK_MAPPING_START_TOKEN then
            Ok (EVENT_INIT (YAML_MAPPING_START_EVENT anchor tag implicit YAML_BLOCK_MAPPING_STYLE) sm em)
               (P\<lparr>state := YAML_PARSE_BLOCK_MAPPING_FIRST_KEY_STATE\<rparr>)
          else if anchor \<noteq> None \<or> tag \<noteq> None then
            res_bind (allocate P) (\<lambda>_ P. res_bind (pop_state P) (\<lambda>_ P.
              Ok (EVENT_INIT (YAML_SCALAR_EVENT anchor tag [] implicit False YAML_PLAIN_SCALAR_STYLE)
                    sm (np_end_mark np)) P))
          else
            yaml_parser_set_parser_error_context P
              (if block then ''while parsing a block node'' else ''while parsing a flow node'') sm
              ''did not find expected node content'' (tok_start_mark token))"

definition yaml_parser_parse_node :: "'h fetcher \<Rightarrow> 'h yaml_parser \<Rightarrow> bool \<Rightarrow> bool
    \<Rightarrow> (yaml_event, 'h yaml_parser) res" where
  "yaml_parser_parse_node F P block indentless_sequence =
     res_bind (PEEK_TOKEN F P) (\<lambda>token P.
       case tok_data token of
         YAML_ALIAS_TOKEN a \<Rightarrow>
           res_bind (pop_state P) (\<lambda>_ P. res_bind (SKIP_TOKEN P) (\<lambda>_ P.
             Ok (EVENT_INIT (YAML_ALIAS_EVENT a) (tok_start_mark token) (tok_end_mark token)) P))
       | _ \<Rightarrow>
           res_bind (parse_properties F token P) (\<lambda>(np, token) P.
           res_bind (resolve_tag np P) (\<lambda>tag P.
             node_content block indentless_sequence np tag token P)))"

definition yaml_parser_parse_document_content :: "'h fetcher \<Rightarrow> 'h yaml_parser
    \<Rightarrow> (yaml_event, 'h yaml_parser) res" where
  "yaml_parser_parse_document_content F P =
     res_bind (PEEK_TOKEN F P) (\<lambda>token P.
       if is_document_head (tok_data token) \<or> tok_data token = YAML_DOCUMENT_END_TOKEN then
         res_bind (pop_state P) (\<lambda>_ P. yaml_parser_process_empty_scalar P (tok_start_mark token))
       else yaml_parser_parse_node F P True False)"

section \<open>Block collections\<close>

text \<open>The first entry: remember the mark of the start token and remove the token.\<close>

definition enter_collection :: "'h fetcher \<Rightarrow> 'h yaml_parser \<Rightarrow> bool \<Rightarrow> (unit, 'h yaml_parser) res" where
  "enter_collection F P first =
     (if first then
        res_bind (PEEK_TOKEN_unchecked F P) (\<lambda>token P.
        res_bind (push_mark P (tok_start_mark token)) (\<lambda>_ P. SKIP_TOKEN P))
      else Ok () P)"

text \<open>The end of a collection with an end token.\<close>

definition leave_collection :: "yaml_event_data \<Rightarrow> yaml_token \<Rightarrow> 'h yaml_parser
    \<Rightarrow> (yaml_event, 'h yaml_parser) res" where
  "leave_collection d token P =
     res_bind (pop_state P) (\<lambda>_ P. res_bind (pop_mark P) (\<lambda>_ P. res_bind (SKIP_TOKEN P) (\<lambda>_ P.
       Ok (EVENT_INIT d (tok_start_mark token) (tok_end_mark token)) P)))"

definition collection_error :: "'h yaml_parser \<Rightarrow> string \<Rightarrow> string \<Rightarrow> yaml_token
    \<Rightarrow> ('a, 'h yaml_parser) res" where
  "collection_error P ctx msg token =
     res_bind (pop_mark P) (\<lambda>m P.
       yaml_parser_set_parser_error_context P ctx m msg (tok_start_mark token))"

text \<open>A node that is followed by the state \<open>st\<close>, or an empty scalar.\<close>

definition node_then :: "'h fetcher \<Rightarrow> 'h yaml_parser \<Rightarrow> yaml_parser_state \<Rightarrow> bool \<Rightarrow> bool
    \<Rightarrow> (yaml_event, 'h yaml_parser) res" where
  "node_then F P st block indentless_sequence =
     res_bind (push_state P st) (\<lambda>_ P. yaml_parser_parse_node F P block indentless_sequence)"

definition empty_then :: "'h yaml_parser \<Rightarrow> yaml_parser_state \<Rightarrow> yaml_mark
    \<Rightarrow> (yaml_event, 'h yaml_parser) res" where
  "empty_then P st m = yaml_parser_process_empty_scalar (P\<lparr>state := st\<rparr>) m"

definition yaml_parser_parse_block_sequence_entry :: "'h fetcher \<Rightarrow> 'h yaml_parser \<Rightarrow> bool
    \<Rightarrow> (yaml_event, 'h yaml_parser) res" where
  "yaml_parser_parse_block_sequence_entry F P first =
     res_bind (enter_collection F P first) (\<lambda>_ P.
     res_bind (PEEK_TOKEN F P) (\<lambda>token P.
       if tok_data token = YAML_BLOCK_ENTRY_TOKEN then
         (let m = tok_end_mark token in
          res_bind (SKIP_TOKEN P) (\<lambda>_ P. res_bind (PEEK_TOKEN F P) (\<lambda>token P.
            if tok_data token \<noteq> YAML_BLOCK_ENTRY_TOKEN \<and> tok_data token \<noteq> YAML_BLOCK_END_TOKEN
            then node_then F P YAML_PARSE_BLOCK_SEQUENCE_ENTRY_STATE True False
            else empty_then P YAML_PARSE_BLOCK_SEQUENCE_ENTRY_STATE m)))
       else if tok_data token = YAML_BLOCK_END_TOKEN then
         leave_collection YAML_SEQUENCE_END_EVENT token P
       else collection_error P ''while parsing a block collection''
              ''did not find expected '-' indicator'' token))"

definition yaml_parser_parse_indentless_sequence_entry :: "'h fetcher \<Rightarrow> 'h yaml_parser
    \<Rightarrow> (yaml_event, 'h yaml_parser) res" where
  "yaml_parser_parse_indentless_sequence_entry F P =
     res_bind (PEEK_TOKEN F P) (\<lambda>token P.
       if tok_data token = YAML_BLOCK_ENTRY_TOKEN then
         (let m = tok_end_mark token in
          res_bind (SKIP_TOKEN P) (\<lambda>_ P. res_bind (PEEK_TOKEN F P) (\<lambda>token P.
            if tok_data token \<noteq> YAML_BLOCK_ENTRY_TOKEN \<and> tok_data token \<noteq> YAML_KEY_TOKEN
               \<and> tok_data token \<noteq> YAML_VALUE_TOKEN \<and> tok_data token \<noteq> YAML_BLOCK_END_TOKEN
            then node_then F P YAML_PARSE_INDENTLESS_SEQUENCE_ENTRY_STATE True False
            else empty_then P YAML_PARSE_INDENTLESS_SEQUENCE_ENTRY_STATE m)))
       else
         res_bind (pop_state P) (\<lambda>_ P.
           Ok (EVENT_INIT YAML_SEQUENCE_END_EVENT (tok_start_mark token) (tok_start_mark token)) P))"

definition yaml_parser_parse_block_mapping_key :: "'h fetcher \<Rightarrow> 'h yaml_parser \<Rightarrow> bool
    \<Rightarrow> (yaml_event, 'h yaml_parser) res" where
  "yaml_parser_parse_block_mapping_key F P first =
     res_bind (enter_collection F P first) (\<lambda>_ P.
     res_bind (PEEK_TOKEN F P) (\<lambda>token P.
       if tok_data token = YAML_KEY_TOKEN then
         (let m = tok_end_mark token in
          res_bind (SKIP_TOKEN P) (\<lambda>_ P. res_bind (PEEK_TOKEN F P) (\<lambda>token P.
            if tok_data token \<noteq> YAML_KEY_TOKEN \<and> tok_data token \<noteq> YAML_VALUE_TOKEN
               \<and> tok_data token \<noteq> YAML_BLOCK_END_TOKEN
            then node_then F P YAML_PARSE_BLOCK_MAPPING_VALUE_STATE True True
            else empty_then P YAML_PARSE_BLOCK_MAPPING_VALUE_STATE m)))
       else if tok_data token = YAML_BLOCK_END_TOKEN then
         leave_collection YAML_MAPPING_END_EVENT token P
       else collection_error P ''while parsing a block mapping''
              ''did not find expected key'' token))"

definition yaml_parser_parse_block_mapping_value :: "'h fetcher \<Rightarrow> 'h yaml_parser
    \<Rightarrow> (yaml_event, 'h yaml_parser) res" where
  "yaml_parser_parse_block_mapping_value F P =
     res_bind (PEEK_TOKEN F P) (\<lambda>token P.
       if tok_data token = YAML_VALUE_TOKEN then
         (let m = tok_end_mark token in
          res_bind (SKIP_TOKEN P) (\<lambda>_ P. res_bind (PEEK_TOKEN F P) (\<lambda>token P.
            if tok_data token \<noteq> YAML_KEY_TOKEN \<and> tok_data token \<noteq> YAML_VALUE_TOKEN
               \<and> tok_data token \<noteq> YAML_BLOCK_END_TOKEN
            then node_then F P YAML_PARSE_BLOCK_MAPPING_KEY_STATE True True
            else empty_then P YAML_PARSE_BLOCK_MAPPING_KEY_STATE m)))
       else empty_then P YAML_PARSE_BLOCK_MAPPING_KEY_STATE (tok_start_mark token))"

section \<open>Flow collections\<close>

text \<open>Between two entries of a flow collection: the comma, or an error.\<close>

definition flow_separator :: "'h fetcher \<Rightarrow> bool \<Rightarrow> string \<Rightarrow> string \<Rightarrow> yaml_token \<Rightarrow> 'h yaml_parser
    \<Rightarrow> (yaml_token, 'h yaml_parser) res" where
  "flow_separator F first ctx msg token P =
     (if first then Ok token P
      else if tok_data token = YAML_FLOW_ENTRY_TOKEN then
        res_bind (SKIP_TOKEN P) (\<lambda>_ P. PEEK_TOKEN F P)
      else collection_error P ctx msg token)"

definition yaml_parser_parse_flow_sequence_entry :: "'h fetcher \<Rightarrow> 'h yaml_parser \<Rightarrow> bool
    \<Rightarrow> (yaml_event, 'h yaml_parser) res" where
  "yaml_parser_parse_flow_sequence_entry F P first =
     res_bind (enter_collection F P first) (\<lambda>_ P.
     res_bind (PEEK_TOKEN F P) (\<lambda>token P.
       if tok_data token = YAML_FLOW_SEQUENCE_END_TOKEN
       then leave_collection YAML_SEQUENCE_END_EVENT token P
       else
         res_bind (flow_separator F first ''while parsing a flow sequence''
             (''did not find expected ',' or ']'' @ [CHR 0x27]) token P) (\<lambda>token P.
           if tok_data token = YAML_KEY_TOKEN then
             res_bind (SKIP_TOKEN (P\<lparr>state := YAML_PARSE_FLOW_SEQUENCE_ENTRY_MAPPING_KEY_STATE\<rparr>))
               (\<lambda>_ P. Ok (EVENT_INIT (YAML_MAPPING_START_EVENT None None True YAML_FLOW_MAPPING_STYLE)
                           (tok_start_mark token) (tok_end_mark token)) P)
           else if tok_data token \<noteq> YAML_FLOW_SEQUENCE_END_TOKEN then
             node_then F P YAML_PARSE_FLOW_SEQUENCE_ENTRY_STATE False False
           else leave_collection YAML_SEQUENCE_END_EVENT token P)))"

definition yaml_parser_parse_flow_sequence_entry_mapping_key :: "'h fetcher \<Rightarrow> 'h yaml_parser
    \<Rightarrow> (yaml_event, 'h yaml_parser) res" where
  "yaml_parser_parse_flow_sequence_entry_mapping_key F P =
     res_bind (PEEK_TOKEN F P) (\<lambda>token P.
       if tok_data token \<noteq> YAML_VALUE_TOKEN \<and> tok_data token \<noteq> YAML_FLOW_ENTRY_TOKEN
          \<and> tok_data token \<noteq> YAML_FLOW_SEQUENCE_END_TOKEN
       then node_then F P YAML_PARSE_FLOW_SEQUENCE_ENTRY_MAPPING_VALUE_STATE False False
       else
         (let m = tok_end_mark token in
          res_bind (SKIP_TOKEN P) (\<lambda>_ P.
            empty_then P YAML_PARSE_FLOW_SEQUENCE_ENTRY_MAPPING_VALUE_STATE m)))"

definition yaml_parser_parse_flow_sequence_entry_mapping_value :: "'h fetcher \<Rightarrow> 'h yaml_parser
    \<Rightarrow> (yaml_event, 'h yaml_parser) res" where
  "yaml_parser_parse_flow_sequence_entry_mapping_value F P =
     res_bind (PEEK_TOKEN F P) (\<lambda>token P.
       if tok_data token = YAML_VALUE_TOKEN then
         res_bind (SKIP_TOKEN P) (\<lambda>_ P. res_bind (PEEK_TOKEN F P) (\<lambda>token P.
           if tok_data token \<noteq> YAML_FLOW_ENTRY_TOKEN \<and> tok_data token \<noteq> YAML_FLOW_SEQUENCE_END_TOKEN
           then node_then F P YAML_PARSE_FLOW_SEQUENCE_ENTRY_MAPPING_END_STATE False False
           else empty_then P YAML_PARSE_FLOW_SEQUENCE_ENTRY_MAPPING_END_STATE (tok_start_mark token)))
       else empty_then P YAML_PARSE_FLOW_SEQUENCE_ENTRY_MAPPING_END_STATE (tok_start_mark token))"

definition yaml_parser_parse_flow_sequence_entry_mapping_end :: "'h fetcher \<Rightarrow> 'h yaml_parser
    \<Rightarrow> (yaml_event, 'h yaml_parser) res" where
  "yaml_parser_parse_flow_sequence_entry_mapping_end F P =
     res_bind (PEEK_TOKEN F P) (\<lambda>token P.
       Ok (EVENT_INIT YAML_MAPPING_END_EVENT (tok_start_mark token) (tok_start_mark token))
          (P\<lparr>state := YAML_PARSE_FLOW_SEQUENCE_ENTRY_STATE\<rparr>))"

definition yaml_parser_parse_flow_mapping_key :: "'h fetcher \<Rightarrow> 'h yaml_parser \<Rightarrow> bool
    \<Rightarrow> (yaml_event, 'h yaml_parser) res" where
  "yaml_parser_parse_flow_mapping_key F P first =
     res_bind (enter_collection F P first) (\<lambda>_ P.
     res_bind (PEEK_TOKEN F P) (\<lambda>token P.
       if tok_data token = YAML_FLOW_MAPPING_END_TOKEN
       then leave_collection YAML_MAPPING_END_EVENT token P
       else
         res_bind (flow_separator F first ''while parsing a flow mapping''
             (''did not find expected ',' or '}'' @ [CHR 0x27]) token P) (\<lambda>token P.
           if tok_data token = YAML_KEY_TOKEN then
             res_bind (SKIP_TOKEN P) (\<lambda>_ P. res_bind (PEEK_TOKEN F P) (\<lambda>token P.
               if tok_data token \<noteq> YAML_VALUE_TOKEN \<and> tok_data token \<noteq> YAML_FLOW_ENTRY_TOKEN
                  \<and> tok_data token \<noteq> YAML_FLOW_MAPPING_END_TOKEN
               then node_then F P YAML_PARSE_FLOW_MAPPING_VALUE_STATE False False
               else empty_then P YAML_PARSE_FLOW_MAPPING_VALUE_STATE (tok_start_mark token)))
           else if tok_data token \<noteq> YAML_FLOW_MAPPING_END_TOKEN then
             node_then F P YAML_PARSE_FLOW_MAPPING_EMPTY_VALUE_STATE False False
           else leave_collection YAML_MAPPING_END_EVENT token P)))"

definition yaml_parser_parse_flow_mapping_value :: "'h fetcher \<Rightarrow> 'h yaml_parser \<Rightarrow> bool
    \<Rightarrow> (yaml_event, 'h yaml_parser) res" where
  "yaml_parser_parse_flow_mapping_value F P emptyv =
     res_bind (PEEK_TOKEN F P) (\<lambda>token P.
       if emptyv then empty_then P YAML_PARSE_FLOW_MAPPING_KEY_STATE (tok_start_mark token)
       else if tok_data token = YAML_VALUE_TOKEN then
         res_bind (SKIP_TOKEN P) (\<lambda>_ P. res_bind (PEEK_TOKEN F P) (\<lambda>token P.
           if tok_data token \<noteq> YAML_FLOW_ENTRY_TOKEN \<and> tok_data token \<noteq> YAML_FLOW_MAPPING_END_TOKEN
           then node_then F P YAML_PARSE_FLOW_MAPPING_KEY_STATE False False
           else empty_then P YAML_PARSE_FLOW_MAPPING_KEY_STATE (tok_start_mark token)))
       else empty_then P YAML_PARSE_FLOW_MAPPING_KEY_STATE (tok_start_mark token))"

section \<open>The dispatcher\<close>

fun yaml_parser_state_machine :: "'h fetcher \<Rightarrow> nat \<Rightarrow> yaml_parser_state \<Rightarrow> 'h yaml_parser
    \<Rightarrow> (yaml_event, 'h yaml_parser) res" where
  "yaml_parser_state_machine F n YAML_PARSE_STREAM_START_STATE P = yaml_parser_parse_stream_start F P"
| "yaml_parser_state_machine F n YAML_PARSE_IMPLICIT_DOCUMENT_START_STATE P =
     yaml_parser_parse_document_start F n P True"
| "yaml_parser_state_machine F n YAML_PARSE_DOCUMENT_START_STATE P =
     yaml_parser_parse_document_start F n P False"
| "yaml_parser_state_machine F n YAML_PARSE_DOCUMENT_CONTENT_STATE P =
     yaml_parser_parse_document_content F P"
| "yaml_parser_state_machine F n YAML_PARSE_DOCUMENT_END_STATE P = yaml_parser_parse_document_end F P"
| "yaml_parser_state_machine F n YAML_PARSE_BLOCK_NODE_STATE P = yaml_parser_parse_node F P True False"
| "yaml_parser_state_machine F n YAML_PARSE_BLOCK_NODE_OR_INDENTLESS_SEQUENCE_STATE P =
     yaml_parser_parse_node F P True True"
| "yaml_parser_state_machine F n YAML_PARSE_FLOW_NODE_STATE P = yaml_parser_parse_node F P False False"
| "yaml_parser_state_machine F n YAML_PARSE_BLOCK_SEQUENCE_FIRST_ENTRY_STATE P =
     yaml_parser_parse_block_sequence_entry F P True"
| "yaml_parser_state_machine F n YAML_PARSE_BLOCK_SEQUENCE_ENTRY_STATE P =
     yaml_parser_parse_block_sequence_entry F P False"
| "yaml_parser_state_machine F n YAML_PARSE_INDENTLESS_SEQUENCE_ENTRY_STATE P =
     yaml_parser_parse_indentless_sequence_entry F P"
| "yaml_parser_state_machine F n YAML_PARSE_BLOCK_MAPPING_FIRST_KEY_STATE P =
     yaml_parser_parse_block_mapping_key F P True"
| "yaml_parser_state_machine F n YAML_PARSE_BLOCK_MAPPING_KEY_STATE P =
     yaml_parser_parse_block_mapping_key F P False"
| "yaml_parser_state_machine F n YAML_PARSE_BLOCK_MAPPING_VALUE_STATE P =
     yaml_parser_parse_block_mapping_value F P"
| "yaml_parser_state_machine F n YAML_PARSE_FLOW_SEQUENCE_FIRST_ENTRY_STATE P =
     yaml_parser_parse_flow_sequence_entry F P True"
| "yaml_parser_state_machine F n YAML_PARSE_FLOW_SEQUENCE_ENTRY_STATE P =
     yaml_parser_parse_flow_sequence_entry F P False"
| "yaml_parser_state_machine F n YAML_PARSE_FLOW_SEQUENCE_ENTRY_MAPPING_KEY_STATE P =
     yaml_parser_parse_flow_sequence_entry_mapping_key F P"
| "yaml_parser_state_machine F n YAML_PARSE_FLOW_SEQUENCE_ENTRY_MAPPING_VALUE_STATE P =
     yaml_parser_parse_flow_sequence_entry_mapping_value F P"
| "yaml_parser_state_machine F n YAML_PARSE_FLOW_SEQUENCE_ENTRY_MAPPING_END_STATE P =
     yaml_parser_parse_flow_sequence_entry_mapping_end F P"
| "yaml_parser_state_machine F n YAML_PARSE_FLOW_MAPPING_FIRST_KEY_STATE P =
     yaml_parser_parse_flow_mapping_key F P True"
| "yaml_parser_state_machine F n YAML_PARSE_FLOW_MAPPING_KEY_STATE P =
     yaml_parser_parse_flow_mapping_key F P False"
| "yaml_parser_state_machine F n YAML_PARSE_FLOW_MAPPING_VALUE_STATE P =
     yaml_parser_parse_flow_mapping_value F P False"
| "yaml_parser_state_machine F n YAML_PARSE_FLOW_MAPPING_EMPTY_VALUE_STATE P =
     yaml_parser_parse_flow_mapping_value F P True"
| "yaml_parser_state_machine F n YAML_PARSE_END_STATE P = Fail P"

definition yaml_parser_parse :: "'h fetcher \<Rightarrow> nat \<Rightarrow> 'h yaml_parser \<Rightarrow> (yaml_event, 'h yaml_parser) res" where
  "yaml_parser_parse F n P =
     (if stream_end_produced P \<or> error P \<noteq> YAML_NO_ERROR \<or> state P = YAML_PARSE_END_STATE
      then Ok no_event P
      else yaml_parser_state_machine F n (state P) P)"

end
