(* ===== verification/Yaml_Chars.thy ===== *)
theory Yaml_Chars
  imports Yaml_Reader
begin

text \<open>
  The macros that the scanner is written with: character tests on the working buffer
  (\<^verbatim>\<open>src/yaml_private.h\<close>), caching, skipping and copying of characters (the head of
  \<^verbatim>\<open>src/scanner.c\<close>), the growing strings, and the shape of its loops.

  A test looks at octets from the buffer pointer on.  Beyond the octets that were filled in a
  test sees \<open>0\<close>; the scanner caches characters before it tests them, so that no test looks
  there (\<open>lookahead_in_range\<close> in the theory of the scanner's facts).  Moving the pointer
  beyond the filled octets, or counting \<open>unread\<close> below zero, is \<open>Abort\<close>.
\<close>

section \<open>Looking at the buffer\<close>

definition octet_at :: "('h, 'z) yaml_reader_scheme \<Rightarrow> nat \<Rightarrow> byte" where
  "octet_at P k = (if k < length (buffer P) then buffer P ! k else 0)"

definition CHECK_AT :: "('h, 'z) yaml_reader_scheme \<Rightarrow> char \<Rightarrow> nat \<Rightarrow> bool" where
  "CHECK_AT P c k \<longleftrightarrow> octet_at P k = of_char c"

abbreviation CHECK :: "('h, 'z) yaml_reader_scheme \<Rightarrow> char \<Rightarrow> bool" where
  "CHECK P c \<equiv> CHECK_AT P c 0"

definition in_range :: "byte \<Rightarrow> char \<Rightarrow> char \<Rightarrow> bool" where
  "in_range b lo hi \<longleftrightarrow> of_char lo \<le> b \<and> b \<le> of_char hi"

definition IS_ALPHA :: "('h, 'z) yaml_reader_scheme \<Rightarrow> bool" where
  "IS_ALPHA P \<longleftrightarrow> (let b = octet_at P 0 in
     in_range b CHR ''0'' CHR ''9'' \<or> in_range b CHR ''A'' CHR ''Z'' \<or> in_range b CHR ''a'' CHR ''z''
     \<or> b = of_char CHR ''_'' \<or> b = of_char CHR ''-'')"

definition IS_DIGIT :: "('h, 'z) yaml_reader_scheme \<Rightarrow> bool" where
  "IS_DIGIT P \<longleftrightarrow> in_range (octet_at P 0) CHR ''0'' CHR ''9''"

definition AS_DIGIT :: "('h, 'z) yaml_reader_scheme \<Rightarrow> int" where
  "AS_DIGIT P = uint (octet_at P 0) - 48"

definition IS_HEX_AT :: "('h, 'z) yaml_reader_scheme \<Rightarrow> nat \<Rightarrow> bool" where
  "IS_HEX_AT P k \<longleftrightarrow> (let b = octet_at P k in
     in_range b CHR ''0'' CHR ''9'' \<or> in_range b CHR ''A'' CHR ''F'' \<or> in_range b CHR ''a'' CHR ''f'')"

definition AS_HEX_AT :: "('h, 'z) yaml_reader_scheme \<Rightarrow> nat \<Rightarrow> 32 word" where
  "AS_HEX_AT P k = (let b = octet_at P k in
     if in_range b CHR ''A'' CHR ''F'' then ucast b - 65 + 10
     else if in_range b CHR ''a'' CHR ''f'' then ucast b - 97 + 10
     else ucast b - 48)"

definition IS_Z_AT :: "('h, 'z) yaml_reader_scheme \<Rightarrow> nat \<Rightarrow> bool" where
  "IS_Z_AT P k \<longleftrightarrow> octet_at P k = 0"

definition IS_BOM :: "('h, 'z) yaml_reader_scheme \<Rightarrow> bool" where
  "IS_BOM P \<longleftrightarrow> octet_at P 0 = 0xEF \<and> octet_at P 1 = 0xBB \<and> octet_at P 2 = 0xBF"

definition IS_SPACE_AT :: "('h, 'z) yaml_reader_scheme \<Rightarrow> nat \<Rightarrow> bool" where
  "IS_SPACE_AT P k \<longleftrightarrow> octet_at P k = 0x20"

definition IS_TAB_AT :: "('h, 'z) yaml_reader_scheme \<Rightarrow> nat \<Rightarrow> bool" where
  "IS_TAB_AT P k \<longleftrightarrow> octet_at P k = 0x09"

definition IS_BLANK_AT :: "('h, 'z) yaml_reader_scheme \<Rightarrow> nat \<Rightarrow> bool" where
  "IS_BLANK_AT P k \<longleftrightarrow> IS_SPACE_AT P k \<or> IS_TAB_AT P k"

definition IS_BREAK_AT :: "('h, 'z) yaml_reader_scheme \<Rightarrow> nat \<Rightarrow> bool" where
  "IS_BREAK_AT P k \<longleftrightarrow> octet_at P k = 0x0D \<or> octet_at P k = 0x0A
     \<or> (octet_at P k = 0xC2 \<and> octet_at P (k + 1) = 0x85)
     \<or> (octet_at P k = 0xE2 \<and> octet_at P (k + 1) = 0x80 \<and> octet_at P (k + 2) = 0xA8)
     \<or> (octet_at P k = 0xE2 \<and> octet_at P (k + 1) = 0x80 \<and> octet_at P (k + 2) = 0xA9)"

definition IS_CRLF :: "('h, 'z) yaml_reader_scheme \<Rightarrow> bool" where
  "IS_CRLF P \<longleftrightarrow> octet_at P 0 = 0x0D \<and> octet_at P 1 = 0x0A"

definition IS_BREAKZ_AT :: "('h, 'z) yaml_reader_scheme \<Rightarrow> nat \<Rightarrow> bool" where
  "IS_BREAKZ_AT P k \<longleftrightarrow> IS_BREAK_AT P k \<or> IS_Z_AT P k"

definition IS_BLANKZ_AT :: "('h, 'z) yaml_reader_scheme \<Rightarrow> nat \<Rightarrow> bool" where
  "IS_BLANKZ_AT P k \<longleftrightarrow> IS_BLANK_AT P k \<or> IS_BREAKZ_AT P k"

definition WIDTH :: "('h, 'z) yaml_reader_scheme \<Rightarrow> nat" where
  "WIDTH P = utf8_width (octet_at P 0)"

text \<open>The document indicators: three equal characters and a blank, a break or the end.\<close>

definition is_indicator :: "('h, 'z) yaml_reader_scheme \<Rightarrow> char \<Rightarrow> bool" where
  "is_indicator P c \<longleftrightarrow> CHECK_AT P c 0 \<and> CHECK_AT P c 1 \<and> CHECK_AT P c 2"

definition at_document_indicator :: "('h, 'z) yaml_reader_scheme \<Rightarrow> bool" where
  "at_document_indicator P \<longleftrightarrow> column (mark P) = 0
     \<and> (is_indicator P CHR ''-'' \<or> is_indicator P CHR ''.'') \<and> IS_BLANKZ_AT P 3"

section \<open>Moving through the buffer\<close>

definition CACHE :: "('h, 'z) yaml_reader_scheme \<Rightarrow> nat \<Rightarrow> (unit, ('h, 'z) yaml_reader_scheme) res" where
  "CACHE P n = (if n \<le> unread P then Ok () P else yaml_parser_update_buffer P n)"

text \<open>Move over \<open>octs\<close> octets that are \<open>chars\<close> characters and set the mark.\<close>

definition move :: "('h, 'z) yaml_reader_scheme \<Rightarrow> nat \<Rightarrow> nat \<Rightarrow> yaml_mark
    \<Rightarrow> (unit, ('h, 'z) yaml_reader_scheme) res" where
  "move P octs chars m =
     (if unread P < chars \<or> length (buffer P) < octs then Abort
      else Ok () (P\<lparr>mark := m, unread := unread P - chars, buffer := drop octs (buffer P),
                    buffer_pointer := buffer_pointer P + octs\<rparr>))"

definition next_column :: "yaml_mark \<Rightarrow> yaml_mark" where
  "next_column m = m\<lparr>index := index m + 1, column := column m + 1\<rparr>"

definition next_line :: "yaml_mark \<Rightarrow> nat \<Rightarrow> yaml_mark" where
  "next_line m chars = m\<lparr>index := index m + chars, column := 0, line := line m + 1\<rparr>"

definition SKIP :: "('h, 'z) yaml_reader_scheme \<Rightarrow> (unit, ('h, 'z) yaml_reader_scheme) res" where
  "SKIP P = move P (WIDTH P) 1 (next_column (mark P))"

definition SKIP_LINE :: "('h, 'z) yaml_reader_scheme \<Rightarrow> (unit, ('h, 'z) yaml_reader_scheme) res" where
  "SKIP_LINE P =
     (if IS_CRLF P then move P 2 2 (next_line (mark P) 2)
      else if IS_BREAK_AT P 0 then move P (WIDTH P) 1 (next_line (mark P) 1)
      else Ok () P)"

fun SKIP_n :: "nat \<Rightarrow> ('h, 'z) yaml_reader_scheme \<Rightarrow> (unit, ('h, 'z) yaml_reader_scheme) res" where
  "SKIP_n 0 P = Ok () P"
| "SKIP_n (Suc n) P = res_bind (SKIP P) (\<lambda>_ P. SKIP_n n P)"

section \<open>Strings\<close>

text \<open>
  A string is the list of the octets written to it.  Its memory is zeroed, so the octet at
  \<open>start\<close> of an empty string is \<open>0\<close>.  Creating a string and making room in it are requests to
  the allocator.
\<close>

definition first_octet :: "ystr \<Rightarrow> byte" where
  "first_octet s = (case s of [] \<Rightarrow> 0 | b # _ \<Rightarrow> b)"

abbreviation STRING_INIT :: "('h, 'z) yaml_reader_scheme \<Rightarrow> (unit, ('h, 'z) yaml_reader_scheme) res" where
  "STRING_INIT \<equiv> allocate"

definition STRING_PUT :: "('h, 'z) yaml_reader_scheme \<Rightarrow> ystr \<Rightarrow> ystr
    \<Rightarrow> (ystr, ('h, 'z) yaml_reader_scheme) res" where
  "STRING_PUT P s bs = res_bind (allocate P) (\<lambda>_ P. Ok (s @ bs) P)"

definition JOIN :: "('h, 'z) yaml_reader_scheme \<Rightarrow> ystr \<Rightarrow> ystr
    \<Rightarrow> (ystr, ('h, 'z) yaml_reader_scheme) res" where
  "JOIN P a b = (if b = [] then Ok a P else STRING_PUT P a b)"

definition READ :: "('h, 'z) yaml_reader_scheme \<Rightarrow> ystr \<Rightarrow> (ystr, ('h, 'z) yaml_reader_scheme) res" where
  "READ P s =
     res_bind (STRING_PUT P s (take (WIDTH P) (buffer P))) (\<lambda>s P.
     res_bind (SKIP P) (\<lambda>_ P. Ok s P))"

text \<open>CR LF, CR, LF and NEL become LF; LS and PS are copied.\<close>

definition line_break :: "('h, 'z) yaml_reader_scheme \<Rightarrow> (nat \<times> nat \<times> ystr) option" where
  "line_break P =
     (if octet_at P 0 = 0x0D \<and> octet_at P 1 = 0x0A then Some (2, 2, [0x0A])
      else if octet_at P 0 = 0x0D \<or> octet_at P 0 = 0x0A then Some (1, 1, [0x0A])
      else if octet_at P 0 = 0xC2 \<and> octet_at P 1 = 0x85 then Some (2, 1, [0x0A])
      else if octet_at P 0 = 0xE2 \<and> octet_at P 1 = 0x80
          \<and> (octet_at P 2 = 0xA8 \<or> octet_at P 2 = 0xA9) then Some (3, 1, take 3 (buffer P))
      else None)"

definition READ_LINE :: "('h, 'z) yaml_reader_scheme \<Rightarrow> ystr \<Rightarrow> (ystr, ('h, 'z) yaml_reader_scheme) res" where
  "READ_LINE P s =
     res_bind (allocate P) (\<lambda>_ P.
       case line_break P of
         Some (octs, chars, out) \<Rightarrow>
           res_bind (move P octs chars (next_line (mark P) chars)) (\<lambda>_ P. Ok (s @ out) P)
       | None \<Rightarrow> Ok s P)"

section \<open>Loops\<close>

text \<open>
  \<open>while_loop n c b a P\<close>: \<open>while (c) b\<close> on the local variables \<open>a\<close> and the parser \<open>P\<close>, with
  at most \<open>n\<close> turns.  A loop with \<open>break\<close> carries a flag in its local variables.
\<close>

fun while_loop :: "nat \<Rightarrow> ('a \<Rightarrow> 's \<Rightarrow> bool) \<Rightarrow> ('a \<Rightarrow> 's \<Rightarrow> ('a, 's) res) \<Rightarrow> 'a \<Rightarrow> 's \<Rightarrow> ('a, 's) res" where
  "while_loop 0 c b a P = Hang"
| "while_loop (Suc n) c b a P =
     (if c a P then res_bind (b a P) (\<lambda>a P. while_loop n c b a P) else Ok a P)"

text \<open>\<open>while (c) { SKIP; CACHE(1) }\<close> and \<open>while (c) { READ; CACHE(1) }\<close>.\<close>

definition skip_while :: "nat \<Rightarrow> (('h, 'z) yaml_reader_scheme \<Rightarrow> bool) \<Rightarrow> ('h, 'z) yaml_reader_scheme
    \<Rightarrow> (unit, ('h, 'z) yaml_reader_scheme) res" where
  "skip_while n c P =
     while_loop n (\<lambda>_. c) (\<lambda>_ P. res_bind (SKIP P) (\<lambda>_ P. CACHE P 1)) () P"

definition read_while :: "nat \<Rightarrow> (('h, 'z) yaml_reader_scheme \<Rightarrow> bool) \<Rightarrow> ystr
    \<Rightarrow> ('h, 'z) yaml_reader_scheme \<Rightarrow> (ystr, ('h, 'z) yaml_reader_scheme) res" where
  "read_while n c s P =
     while_loop n (\<lambda>_. c) (\<lambda>s P. res_bind (READ P s) (\<lambda>s P.
       res_bind (CACHE P 1) (\<lambda>_ P. Ok s P))) s P"

text \<open>The rule for loops: an invariant, and a measure that goes down with every turn.\<close>

lemma wp_while_loop:
  assumes "I a P" and "m a P < n"
    and "\<And>a P. I a P \<Longrightarrow> c a P \<Longrightarrow> wp h (b a P) (\<lambda>a' P'. I a' P' \<and> m a' P' < (m a P :: nat)) E"
  shows "wp h (while_loop n c b a P) (\<lambda>a P. I a P \<and> \<not> c a P) E"
  using assms(1,2)
proof (induction n arbitrary: a P)
  case 0
  then show ?case by simp
next
  case (Suc n)
  show ?case
  proof (cases "c a P")
    case True
    have "wp h (b a P) (\<lambda>a' P'. wp h (while_loop n c b a' P') (\<lambda>a P. I a P \<and> \<not> c a P) E) E"
      by (rule wp_mono [OF assms(3) [OF Suc.prems(1) True]])
         (use Suc.IH Suc.prems(2) in auto)
    then show ?thesis using True by simp
  next
    case False
    then show ?thesis using Suc.prems by simp
  qed
qed

text \<open>The same for a caller that accepts that the turns run out.\<close>

lemma wp_while_loop_partial:
  assumes "I a P"
    and "\<And>a P. I a P \<Longrightarrow> c a P \<Longrightarrow> wp True (b a P) I E"
  shows "wp True (while_loop n c b a P) (\<lambda>a P. I a P \<and> \<not> c a P) E"
  using assms(1)
proof (induction n arbitrary: a P)
  case 0
  then show ?case by simp
next
  case (Suc n)
  show ?case
  proof (cases "c a P")
    case True
    have "wp True (b a P) (\<lambda>a' P'. wp True (while_loop n c b a' P') (\<lambda>a P. I a P \<and> \<not> c a P) E) E"
      by (rule wp_mono [OF assms(2) [OF Suc.prems True]]) (use Suc.IH in auto)
    then show ?thesis using True by simp
  next
    case False
    then show ?thesis using Suc.prems by simp
  qed
qed

end
