(* ===== verification/Yaml_Scan_Text.thy ===== *)
theory Yaml_Scan_Text
  imports Yaml_Chars
begin

text \<open>
  The second half of the scanner, \<^verbatim>\<open>src/scanner.c\<close> from \<open>yaml_parser_scan_to_next_token\<close> on:
  one definition per \<open>yaml_parser_scan_\<dots>\<close> function, each reading the text of one token.  The
  argument \<open>n\<close> bounds the turns of every loop.
\<close>

definition yaml_parser_set_scanner_error :: "('h, 'z) yaml_reader_scheme \<Rightarrow> string option \<Rightarrow> yaml_mark
    \<Rightarrow> string \<Rightarrow> ('a, ('h, 'z) yaml_reader_scheme) res" where
  "yaml_parser_set_scanner_error P ctx cm msg =
     Fail (P\<lparr>error := YAML_SCANNER_ERROR, err_context := ctx, context_mark := cm,
             problem := Some msg, problem_mark := mark P\<rparr>)"

text \<open>The conversion \<open>(int)\<close> of a \<open>size_t\<close>.\<close>

definition as_int :: "nat \<Rightarrow> int" where
  "as_int n = signed_take_bit 31 (int n)"

text \<open>A statement that is executed under a condition.\<close>

definition res_when :: "bool \<Rightarrow> ('s \<Rightarrow> (unit, 's) res) \<Rightarrow> 's \<Rightarrow> (unit, 's) res" where
  "res_when b f P = (if b then f P else Ok () P)"

section \<open>White space and comments\<close>

definition skip_comment :: "nat \<Rightarrow> ('h, 'z) yaml_reader_scheme \<Rightarrow> (unit, ('h, 'z) yaml_reader_scheme) res" where
  "skip_comment n P =
     res_when (CHECK P CHR ''#'') (skip_while n (\<lambda>P. \<not> IS_BREAKZ_AT P 0)) P"

definition skip_blanks :: "nat \<Rightarrow> ('h, 'z) yaml_reader_scheme \<Rightarrow> (unit, ('h, 'z) yaml_reader_scheme) res" where
  "skip_blanks n P = skip_while n (\<lambda>P. IS_BLANK_AT P 0) P"

definition skip_break :: "('h, 'z) yaml_reader_scheme \<Rightarrow> (unit, ('h, 'z) yaml_reader_scheme) res" where
  "skip_break P = res_bind (CACHE P 2) (\<lambda>_ P. SKIP_LINE P)"

text \<open>One turn of the loop; the value says whether the loop goes on.\<close>

definition to_next_token_turn :: "nat \<Rightarrow> ('h, 'z) yaml_scanner_scheme
    \<Rightarrow> (bool, ('h, 'z) yaml_scanner_scheme) res" where
  "to_next_token_turn n P =
     res_bind (CACHE P 1) (\<lambda>_ P.
     res_bind (res_when (column (mark P) = 0 \<and> IS_BOM P) SKIP P) (\<lambda>_ P.
     res_bind (CACHE P 1) (\<lambda>_ P.
     res_bind (skip_while n (\<lambda>P. CHECK P CHR '' ''
         \<or> ((flow_level P \<noteq> 0 \<or> \<not> simple_key_allowed P) \<and> IS_TAB_AT P 0)) P) (\<lambda>_ P.
     res_bind (skip_comment n P) (\<lambda>_ P.
       if IS_BREAK_AT P 0 then
         res_bind (skip_break P) (\<lambda>_ P.
           Ok True (if flow_level P = 0 then P\<lparr>simple_key_allowed := True\<rparr> else P))
       else Ok False P)))))"

definition yaml_parser_scan_to_next_token :: "nat \<Rightarrow> ('h, 'z) yaml_scanner_scheme
    \<Rightarrow> (unit, ('h, 'z) yaml_scanner_scheme) res" where
  "yaml_parser_scan_to_next_token n P =
     res_bind (while_loop n (\<lambda>go _. go) (\<lambda>_. to_next_token_turn n) True P) (\<lambda>_ P. Ok () P)"

text \<open>The rest of a line after a directive or the header of a block scalar.\<close>

definition eat_rest_of_line :: "nat \<Rightarrow> string \<Rightarrow> yaml_mark \<Rightarrow> ('h, 'z) yaml_reader_scheme
    \<Rightarrow> (unit, ('h, 'z) yaml_reader_scheme) res" where
  "eat_rest_of_line n ctx sm P =
     res_bind (CACHE P 1) (\<lambda>_ P.
     res_bind (skip_blanks n P) (\<lambda>_ P.
     res_bind (skip_comment n P) (\<lambda>_ P.
       if \<not> IS_BREAKZ_AT P 0 then
         yaml_parser_set_scanner_error P (Some ctx) sm ''did not find expected comment or line break''
       else res_when (IS_BREAK_AT P 0) skip_break P)))"

section \<open>Directives\<close>

definition yaml_parser_scan_directive_name :: "nat \<Rightarrow> yaml_mark \<Rightarrow> ('h, 'z) yaml_reader_scheme
    \<Rightarrow> (ystr, ('h, 'z) yaml_reader_scheme) res" where
  "yaml_parser_scan_directive_name n sm P =
     res_bind (STRING_INIT P) (\<lambda>_ P.
     res_bind (CACHE P 1) (\<lambda>_ P.
     res_bind (read_while n IS_ALPHA [] P) (\<lambda>s P.
       if s = [] then
         yaml_parser_set_scanner_error P (Some ''while scanning a directive'') sm
           ''could not find expected directive name''
       else if \<not> IS_BLANKZ_AT P 0 then
         yaml_parser_set_scanner_error P (Some ''while scanning a directive'') sm
           ''found unexpected non-alphabetical character''
       else Ok s P)))"

definition MAX_NUMBER_LENGTH :: nat where "MAX_NUMBER_LENGTH = 9"

definition version_digit :: "yaml_mark \<Rightarrow> int \<times> nat \<Rightarrow> ('h, 'z) yaml_reader_scheme
    \<Rightarrow> (int \<times> nat, ('h, 'z) yaml_reader_scheme) res" where
  "version_digit sm = (\<lambda>(v, len) P.
     if len + 1 > MAX_NUMBER_LENGTH then
       yaml_parser_set_scanner_error P (Some ''while scanning a %YAML directive'') sm
         ''found extremely long version number''
     else
       (let v = v * 10 + AS_DIGIT P in
        res_bind (SKIP P) (\<lambda>_ P. res_bind (CACHE P 1) (\<lambda>_ P. Ok (v, len + 1) P))))"

definition yaml_parser_scan_version_directive_number :: "nat \<Rightarrow> yaml_mark \<Rightarrow> ('h, 'z) yaml_reader_scheme
    \<Rightarrow> (int, ('h, 'z) yaml_reader_scheme) res" where
  "yaml_parser_scan_version_directive_number n sm P =
     res_bind (CACHE P 1) (\<lambda>_ P.
     res_bind (while_loop n (\<lambda>_. IS_DIGIT) (version_digit sm) (0, 0) P) (\<lambda>(v, len) P.
       if len = 0 then
         yaml_parser_set_scanner_error P (Some ''while scanning a %YAML directive'') sm
           ''did not find expected version number''
       else Ok v P))"

definition yaml_parser_scan_version_directive_value :: "nat \<Rightarrow> yaml_mark \<Rightarrow> ('h, 'z) yaml_reader_scheme
    \<Rightarrow> (int \<times> int, ('h, 'z) yaml_reader_scheme) res" where
  "yaml_parser_scan_version_directive_value n sm P =
     res_bind (CACHE P 1) (\<lambda>_ P.
     res_bind (skip_blanks n P) (\<lambda>_ P.
     res_bind (yaml_parser_scan_version_directive_number n sm P) (\<lambda>maj P.
       if \<not> CHECK P CHR ''.'' then
         yaml_parser_set_scanner_error P (Some ''while scanning a %YAML directive'') sm
           ''did not find expected digit or '.' character''
       else
         res_bind (SKIP P) (\<lambda>_ P.
         res_bind (yaml_parser_scan_version_directive_number n sm P) (\<lambda>mnr P. Ok (maj, mnr) P)))))"

section \<open>Tags\<close>

definition yaml_parser_scan_tag_handle :: "nat \<Rightarrow> bool \<Rightarrow> yaml_mark \<Rightarrow> ('h, 'z) yaml_reader_scheme
    \<Rightarrow> (ystr, ('h, 'z) yaml_reader_scheme) res" where
  "yaml_parser_scan_tag_handle n directive sm P =
     res_bind (STRING_INIT P) (\<lambda>_ P.
     res_bind (CACHE P 1) (\<lambda>_ P.
       if \<not> CHECK P CHR ''!'' then
         yaml_parser_set_scanner_error P
           (Some (if directive then ''while scanning a tag directive'' else ''while scanning a tag''))
           sm (''did not find expected '!'' @ [CHR 0x27])
       else
         res_bind (READ P []) (\<lambda>s P.
         res_bind (CACHE P 1) (\<lambda>_ P.
         res_bind (read_while n IS_ALPHA s P) (\<lambda>s P.
           if CHECK P CHR ''!'' then READ P s
           else if directive \<and> s \<noteq> octets ''!'' then
             yaml_parser_set_scanner_error P (Some ''while parsing a tag directive'') sm
               (''did not find expected '!'' @ [CHR 0x27])
           else Ok s P)))))"

text \<open>One escaped octet of a URI.\<close>

definition uri_context :: "bool \<Rightarrow> string option" where
  "uri_context directive = Some (if directive then ''while parsing a %TAG directive'' else ''while parsing a tag'')"

definition scan_uri_octet :: "bool \<Rightarrow> yaml_mark \<Rightarrow> ('h, 'z) yaml_reader_scheme
    \<Rightarrow> (byte, ('h, 'z) yaml_reader_scheme) res" where
  "scan_uri_octet directive sm P =
     res_bind (CACHE P 3) (\<lambda>_ P.
       if \<not> (CHECK P CHR ''%'' \<and> IS_HEX_AT P 1 \<and> IS_HEX_AT P 2) then
         yaml_parser_set_scanner_error P (uri_context directive) sm ''did not find URI escaped octet''
       else Ok (ucast (push_bit 4 (AS_HEX_AT P 1) + AS_HEX_AT P 2)) P)"

text \<open>The turns of the loop after the first: \<open>width\<close> trailing octets.\<close>

fun scan_uri_trail :: "nat \<Rightarrow> bool \<Rightarrow> yaml_mark \<Rightarrow> ystr \<Rightarrow> ('h, 'z) yaml_reader_scheme
    \<Rightarrow> (ystr, ('h, 'z) yaml_reader_scheme) res" where
  "scan_uri_trail 0 directive sm s P = Ok s P"
| "scan_uri_trail (Suc width) directive sm s P =
     res_bind (scan_uri_octet directive sm P) (\<lambda>octet P.
       if octet AND 0xC0 \<noteq> 0x80 then
         yaml_parser_set_scanner_error P (uri_context directive) sm
           ''found an incorrect trailing UTF-8 octet''
       else res_bind (SKIP_n 3 P) (\<lambda>_ P. scan_uri_trail width directive sm (s @ [octet]) P))"

definition yaml_parser_scan_uri_escapes :: "bool \<Rightarrow> yaml_mark \<Rightarrow> ystr \<Rightarrow> ('h, 'z) yaml_reader_scheme
    \<Rightarrow> (ystr, ('h, 'z) yaml_reader_scheme) res" where
  "yaml_parser_scan_uri_escapes directive sm s P =
     res_bind (scan_uri_octet directive sm P) (\<lambda>octet P.
       if utf8_width octet = 0 then
         yaml_parser_set_scanner_error P (uri_context directive) sm
           ''found an incorrect leading UTF-8 octet''
       else res_bind (SKIP_n 3 P) (\<lambda>_ P.
         scan_uri_trail (utf8_width octet - 1) directive sm (s @ [octet]) P))"

definition is_uri_char :: "bool \<Rightarrow> ('h, 'z) yaml_reader_scheme \<Rightarrow> bool" where
  "is_uri_char uri_char P \<longleftrightarrow> IS_ALPHA P
     \<or> list_ex (CHECK P) '';/?:@&=+$.%!~*()'' \<or> CHECK P CHR 0x27
     \<or> (uri_char \<and> list_ex (CHECK P) '',[]'')"

definition tag_uri_turn :: "bool \<Rightarrow> yaml_mark \<Rightarrow> ystr \<times> nat \<Rightarrow> ('h, 'z) yaml_reader_scheme
    \<Rightarrow> (ystr \<times> nat, ('h, 'z) yaml_reader_scheme) res" where
  "tag_uri_turn directive sm = (\<lambda>(s, len) P.
     res_bind (if CHECK P CHR ''%''
               then res_bind (allocate P) (\<lambda>_ P. yaml_parser_scan_uri_escapes directive sm s P)
               else READ P s) (\<lambda>s P.
     res_bind (CACHE P 1) (\<lambda>_ P. Ok (s, len + 1) P)))"

definition INITIAL_STRING_SIZE :: nat where "INITIAL_STRING_SIZE = 16"

definition yaml_parser_scan_tag_uri :: "nat \<Rightarrow> bool \<Rightarrow> bool \<Rightarrow> ystr option \<Rightarrow> yaml_mark
    \<Rightarrow> ('h, 'z) yaml_reader_scheme \<Rightarrow> (ystr, ('h, 'z) yaml_reader_scheme) res" where
  "yaml_parser_scan_tag_uri n uri_char directive head sm P =
     (let len = (case head of None \<Rightarrow> 0 | Some h \<Rightarrow> length h) in
      res_bind (STRING_INIT P) (\<lambda>_ P.
      res_bind (res_when (INITIAL_STRING_SIZE \<le> len) allocate P) (\<lambda>_ P.
      res_bind (CACHE P 1) (\<lambda>_ P.
      res_bind (while_loop n (\<lambda>_. is_uri_char uri_char) (tag_uri_turn directive sm)
          (case head of None \<Rightarrow> [] | Some h \<Rightarrow> drop 1 h, len) P) (\<lambda>(s, len) P.
        if len = 0 then
          res_bind (allocate P) (\<lambda>_ P.
            yaml_parser_set_scanner_error P (uri_context directive) sm ''did not find expected tag URI'')
        else Ok s P)))))"

definition yaml_parser_scan_tag_directive_value :: "nat \<Rightarrow> yaml_mark \<Rightarrow> ('h, 'z) yaml_reader_scheme
    \<Rightarrow> (ystr \<times> ystr, ('h, 'z) yaml_reader_scheme) res" where
  "yaml_parser_scan_tag_directive_value n sm P =
     res_bind (CACHE P 1) (\<lambda>_ P.
     res_bind (skip_blanks n P) (\<lambda>_ P.
     res_bind (yaml_parser_scan_tag_handle n True sm P) (\<lambda>handle P.
     res_bind (CACHE P 1) (\<lambda>_ P.
       if \<not> IS_BLANK_AT P 0 then
         yaml_parser_set_scanner_error P (Some ''while scanning a %TAG directive'') sm
           ''did not find expected whitespace''
       else
         res_bind (skip_blanks n P) (\<lambda>_ P.
         res_bind (yaml_parser_scan_tag_uri n True True None sm P) (\<lambda>prefix P.
         res_bind (CACHE P 1) (\<lambda>_ P.
           if \<not> IS_BLANKZ_AT P 0 then
             yaml_parser_set_scanner_error P (Some ''while scanning a %TAG directive'') sm
               ''did not find expected whitespace or line break''
           else Ok (handle, prefix) P)))))))"

definition yaml_parser_scan_directive :: "nat \<Rightarrow> ('h, 'z) yaml_reader_scheme
    \<Rightarrow> (yaml_token, ('h, 'z) yaml_reader_scheme) res" where
  "yaml_parser_scan_directive n P =
     (let sm = mark P in
      res_bind (SKIP P) (\<lambda>_ P.
      res_bind (yaml_parser_scan_directive_name n sm P) (\<lambda>name P.
      res_bind
        (if name = octets ''YAML'' then
           res_bind (yaml_parser_scan_version_directive_value n sm P) (\<lambda>(maj, mnr) P.
             Ok (TOKEN_INIT (YAML_VERSION_DIRECTIVE_TOKEN maj mnr) sm (mark P)) P)
         else if name = octets ''TAG'' then
           res_bind (yaml_parser_scan_tag_directive_value n sm P) (\<lambda>(handle, prefix) P.
             Ok (TOKEN_INIT (YAML_TAG_DIRECTIVE_TOKEN handle prefix) sm (mark P)) P)
         else
           yaml_parser_set_scanner_error P (Some ''while scanning a directive'') sm
             ''found unknown directive name'') (\<lambda>token P.
      res_bind (eat_rest_of_line n ''while scanning a directive'' sm P) (\<lambda>_ P. Ok token P)))))"

text \<open>
  A request whose failure leaves \<open>error\<close> alone: \<open>yaml_parser_scan_tag\<close> returns 0 there without
  setting it.
\<close>

definition allocate_quietly :: "('h, 'z) yaml_reader_scheme \<Rightarrow> (unit, ('h, 'z) yaml_reader_scheme) res" where
  "allocate_quietly P = (if heap P = 0 then Fail P else Ok () (P\<lparr>heap := heap P - 1\<rparr>))"

definition is_tag_handle :: "ystr \<Rightarrow> bool" where
  "is_tag_handle h \<longleftrightarrow> h \<noteq> [] \<and> hd h = of_char CHR ''!'' \<and> length h > 1 \<and> last h = of_char CHR ''!''"

text \<open>The handle and the suffix of a tag.  The handle \<open>''\<close> stands for a verbatim tag and for \<open>!\<close>.\<close>

definition scan_tag_verbatim :: "nat \<Rightarrow> yaml_mark \<Rightarrow> ('h, 'z) yaml_reader_scheme
    \<Rightarrow> (ystr \<times> ystr, ('h, 'z) yaml_reader_scheme) res" where
  "scan_tag_verbatim n sm P =
     res_bind (allocate_quietly P) (\<lambda>_ P.
     res_bind (SKIP_n 2 P) (\<lambda>_ P.
     res_bind (yaml_parser_scan_tag_uri n True False None sm P) (\<lambda>suffix P.
       if \<not> CHECK P CHR ''>'' then
         yaml_parser_set_scanner_error P (Some ''while scanning a tag'') sm
           (''did not find the expected '>'' @ [CHR 0x27])
       else res_bind (SKIP P) (\<lambda>_ P. Ok ([], suffix) P))))"

definition scan_tag_shorthand :: "nat \<Rightarrow> yaml_mark \<Rightarrow> ('h, 'z) yaml_reader_scheme
    \<Rightarrow> (ystr \<times> ystr, ('h, 'z) yaml_reader_scheme) res" where
  "scan_tag_shorthand n sm P =
     res_bind (yaml_parser_scan_tag_handle n False sm P) (\<lambda>handle P.
       if is_tag_handle handle then
         res_bind (yaml_parser_scan_tag_uri n False False None sm P) (\<lambda>suffix P. Ok (handle, suffix) P)
       else
         res_bind (yaml_parser_scan_tag_uri n False False (Some handle) sm P) (\<lambda>suffix P.
         res_bind (allocate_quietly P) (\<lambda>_ P.
           if first_octet suffix = 0 then Ok (suffix, octets ''!'') P
           else Ok (octets ''!'', suffix) P)))"

definition yaml_parser_scan_tag :: "nat \<Rightarrow> ('h, 'z) yaml_scanner_scheme
    \<Rightarrow> (yaml_token, ('h, 'z) yaml_scanner_scheme) res" where
  "yaml_parser_scan_tag n P =
     (let sm = mark P in
      res_bind (CACHE P 2) (\<lambda>_ P.
      res_bind (if CHECK_AT P CHR ''<'' 1 then scan_tag_verbatim n sm P else scan_tag_shorthand n sm P)
        (\<lambda>(handle, suffix) P.
      res_bind (CACHE P 1) (\<lambda>_ P.
        if \<not> IS_BLANKZ_AT P 0 \<and> (flow_level P = 0 \<or> \<not> CHECK P CHR '','') then
          yaml_parser_set_scanner_error P (Some ''while scanning a tag'') sm
            ''did not find expected whitespace or line break''
        else Ok (TOKEN_INIT (YAML_TAG_TOKEN handle suffix) sm (mark P)) P))))"

section \<open>Anchors and aliases\<close>

definition yaml_parser_scan_anchor :: "nat \<Rightarrow> bool \<Rightarrow> ('h, 'z) yaml_reader_scheme
    \<Rightarrow> (yaml_token, ('h, 'z) yaml_reader_scheme) res" where
  "yaml_parser_scan_anchor n is_anchor P =
     res_bind (STRING_INIT P) (\<lambda>_ P.
     (let sm = mark P in
      res_bind (SKIP P) (\<lambda>_ P.
      res_bind (CACHE P 1) (\<lambda>_ P.
      res_bind (read_while n IS_ALPHA [] P) (\<lambda>s P.
        if s = [] \<or> \<not> (IS_BLANKZ_AT P 0 \<or> list_ex (CHECK P) ''?:,]}%@`'') then
          yaml_parser_set_scanner_error P
            (Some (if is_anchor then ''while scanning an anchor'' else ''while scanning an alias''))
            sm ''did not find expected alphabetic or numeric character''
        else
          Ok (TOKEN_INIT (if is_anchor then YAML_ANCHOR_TOKEN s else YAML_ALIAS_TOKEN s) sm (mark P)) P)))))"

end
