(* ===== verification/Yaml_Scan_Scalar.thy ===== *)
theory Yaml_Scan_Scalar
  imports Yaml_Scan_Text
begin

text \<open>
  The scalars of \<^verbatim>\<open>src/scanner.c\<close>: block scalars (literal and folded), quoted scalars with
  their escapes, and plain scalars.  The local variables of the C functions are the records
  \<open>block_vars\<close> and \<open>scalar_vars\<close>.
\<close>

section \<open>Block scalars\<close>

definition scan_chomping :: "('h, 'z) yaml_reader_scheme \<Rightarrow> (int, ('h, 'z) yaml_reader_scheme) res" where
  "scan_chomping P = res_bind (SKIP P) (\<lambda>_ P'. Ok (if CHECK P CHR ''+'' then 1 else -1) P')"

definition scan_increment :: "yaml_mark \<Rightarrow> ('h, 'z) yaml_reader_scheme
    \<Rightarrow> (int, ('h, 'z) yaml_reader_scheme) res" where
  "scan_increment sm P =
     (if CHECK P CHR ''0'' then
        yaml_parser_set_scanner_error P (Some ''while scanning a block scalar'') sm
          ''found an indentation indicator equal to 0''
      else res_bind (SKIP P) (\<lambda>_ P'. Ok (AS_DIGIT P) P'))"

abbreviation at_chomping :: "('h, 'z) yaml_reader_scheme \<Rightarrow> bool" where
  "at_chomping P \<equiv> CHECK P CHR ''+'' \<or> CHECK P CHR ''-''"

text \<open>The chomping method and the indentation increment, in either order.\<close>

definition scan_block_header :: "yaml_mark \<Rightarrow> ('h, 'z) yaml_reader_scheme
    \<Rightarrow> (int \<times> int, ('h, 'z) yaml_reader_scheme) res" where
  "scan_block_header sm P =
     res_bind (CACHE P 1) (\<lambda>_ P.
       if at_chomping P then
         res_bind (scan_chomping P) (\<lambda>chomping P.
         res_bind (CACHE P 1) (\<lambda>_ P.
           if IS_DIGIT P then res_bind (scan_increment sm P) (\<lambda>increment P. Ok (chomping, increment) P)
           else Ok (chomping, 0) P))
       else if IS_DIGIT P then
         res_bind (scan_increment sm P) (\<lambda>increment P.
         res_bind (CACHE P 1) (\<lambda>_ P.
           if at_chomping P then res_bind (scan_chomping P) (\<lambda>chomping P. Ok (chomping, increment) P)
           else Ok (0, increment) P))
       else Ok (0, 0) P)"

record breaks_vars =
  bk_go :: bool
  bk_max_indent :: int
  bk_breaks :: ystr
  bk_end_mark :: yaml_mark

definition below_indent :: "int \<Rightarrow> ('h, 'z) yaml_reader_scheme \<Rightarrow> bool" where
  "below_indent ind P \<longleftrightarrow> ind = 0 \<or> as_int (column (mark P)) < ind"

definition block_breaks_turn :: "nat \<Rightarrow> int \<Rightarrow> yaml_mark \<Rightarrow> breaks_vars \<Rightarrow> ('h, 'z) yaml_reader_scheme
    \<Rightarrow> (breaks_vars, ('h, 'z) yaml_reader_scheme) res" where
  "block_breaks_turn n ind sm v P =
     res_bind (CACHE P 1) (\<lambda>_ P.
     res_bind (skip_while n (\<lambda>P. below_indent ind P \<and> IS_SPACE_AT P 0) P) (\<lambda>_ P.
       let v = v\<lparr>bk_max_indent := max (bk_max_indent v) (as_int (column (mark P)))\<rparr> in
       if below_indent ind P \<and> IS_TAB_AT P 0 then
         yaml_parser_set_scanner_error P (Some ''while scanning a block scalar'') sm
           ''found a tab character where an indentation space is expected''
       else if \<not> IS_BREAK_AT P 0 then Ok (v\<lparr>bk_go := False\<rparr>) P
       else
         res_bind (CACHE P 2) (\<lambda>_ P.
         res_bind (READ_LINE P (bk_breaks v)) (\<lambda>s P.
           Ok (v\<lparr>bk_breaks := s, bk_end_mark := mark P\<rparr>) P))))"

text \<open>The new indentation level, the line breaks read and the new end mark.\<close>

definition yaml_parser_scan_block_scalar_breaks :: "nat \<Rightarrow> int \<Rightarrow> ystr \<Rightarrow> yaml_mark
    \<Rightarrow> ('h, 'z) yaml_scanner_scheme
    \<Rightarrow> (int \<times> ystr \<times> yaml_mark, ('h, 'z) yaml_scanner_scheme) res" where
  "yaml_parser_scan_block_scalar_breaks n ind breaks sm P =
     res_bind (while_loop n (\<lambda>v _. bk_go v) (block_breaks_turn n ind sm)
         \<lparr>bk_go = True, bk_max_indent = 0, bk_breaks = breaks, bk_end_mark = mark P\<rparr> P) (\<lambda>v P.
       Ok (if ind = 0 then max (max (bk_max_indent v) (indent P + 1)) 1 else ind,
           bk_breaks v, bk_end_mark v) P)"

record block_vars =
  bl_string :: ystr
  bl_leading_break :: ystr
  bl_trailing_breaks :: ystr
  bl_leading_blank :: bool
  bl_indent :: int
  bl_end_mark :: yaml_mark

text \<open>What goes between two lines of the scalar.\<close>

definition fold_block_break :: "bool \<Rightarrow> block_vars \<Rightarrow> bool \<Rightarrow> ('h, 'z) yaml_reader_scheme
    \<Rightarrow> (ystr, ('h, 'z) yaml_reader_scheme) res" where
  "fold_block_break literal v trailing_blank P =
     res_bind
       (if \<not> literal \<and> first_octet (bl_leading_break v) = 0x0A \<and> \<not> bl_leading_blank v \<and> \<not> trailing_blank
        then (if first_octet (bl_trailing_breaks v) = 0 then STRING_PUT P (bl_string v) [0x20]
              else Ok (bl_string v) P)
        else JOIN P (bl_string v) (bl_leading_break v)) (\<lambda>s P. JOIN P s (bl_trailing_breaks v))"

definition block_line :: "nat \<Rightarrow> bool \<Rightarrow> yaml_mark \<Rightarrow> block_vars \<Rightarrow> ('h, 'z) yaml_scanner_scheme
    \<Rightarrow> (block_vars, ('h, 'z) yaml_scanner_scheme) res" where
  "block_line n literal sm v P =
     (let blank = IS_BLANK_AT P 0 in
      res_bind (fold_block_break literal v blank P) (\<lambda>s P.
      res_bind (read_while n (\<lambda>P. \<not> IS_BREAKZ_AT P 0) s P) (\<lambda>s P.
      res_bind (CACHE P 2) (\<lambda>_ P.
      res_bind (READ_LINE P []) (\<lambda>lb P.
      res_bind (yaml_parser_scan_block_scalar_breaks n (bl_indent v) [] sm P) (\<lambda>(ind, tb, em) P.
        Ok \<lparr>bl_string = s, bl_leading_break = lb, bl_trailing_breaks = tb,
            bl_leading_blank = blank, bl_indent = ind, bl_end_mark = em\<rparr> P))))))"

definition yaml_parser_scan_block_scalar :: "nat \<Rightarrow> bool \<Rightarrow> ('h, 'z) yaml_scanner_scheme
    \<Rightarrow> (yaml_token, ('h, 'z) yaml_scanner_scheme) res" where
  "yaml_parser_scan_block_scalar n literal P =
     res_bind (STRING_INIT P) (\<lambda>_ P.
     res_bind (STRING_INIT P) (\<lambda>_ P.
     res_bind (STRING_INIT P) (\<lambda>_ P.
     (let sm = mark P in
      res_bind (SKIP P) (\<lambda>_ P.
      res_bind (scan_block_header sm P) (\<lambda>(chomping, increment) P.
      res_bind (eat_rest_of_line n ''while scanning a block scalar'' sm P) (\<lambda>_ P.
      (let ind = (if increment \<noteq> 0 then (if indent P \<ge> 0 then indent P + increment else increment) else 0) in
       res_bind (yaml_parser_scan_block_scalar_breaks n ind [] sm P) (\<lambda>(ind, tb, em) P.
       res_bind (CACHE P 1) (\<lambda>_ P.
       res_bind (while_loop n
           (\<lambda>v P. as_int (column (mark P)) = bl_indent v \<and> \<not> IS_Z_AT P 0) (block_line n literal sm)
           \<lparr>bl_string = [], bl_leading_break = [], bl_trailing_breaks = tb, bl_leading_blank = False,
            bl_indent = ind, bl_end_mark = em\<rparr> P) (\<lambda>v P.
       res_bind (if chomping \<noteq> -1 then JOIN P (bl_string v) (bl_leading_break v)
                 else Ok (bl_string v) P) (\<lambda>s P.
       res_bind (if chomping = 1 then JOIN P s (bl_trailing_breaks v) else Ok s P) (\<lambda>s P.
         Ok (TOKEN_INIT (YAML_SCALAR_TOKEN s
               (if literal then YAML_LITERAL_SCALAR_STYLE else YAML_FOLDED_SCALAR_STYLE))
             sm (bl_end_mark v)) P)))))))))))))"

section \<open>Blanks and breaks inside flow scalars\<close>

record scalar_vars =
  sv_go :: bool
  sv_string :: ystr
  sv_leading_break :: ystr
  sv_trailing_breaks :: ystr
  sv_whitespaces :: ystr
  sv_leading_blanks :: bool
  sv_end_mark :: yaml_mark

definition scalar_vars_init :: "yaml_mark \<Rightarrow> scalar_vars" where
  "scalar_vars_init m = \<lparr>sv_go = True, sv_string = [], sv_leading_break = [], sv_trailing_breaks = [],
     sv_whitespaces = [], sv_leading_blanks = False, sv_end_mark = m\<rparr>"

text \<open>
  One turn of the loop over blanks and breaks.  \<open>bad_tab\<close> is the test of the plain scalar for
  tabs that abuse indentation.
\<close>

definition blanks_turn :: "(scalar_vars \<Rightarrow> ('h, 'z) yaml_reader_scheme \<Rightarrow> bool) \<Rightarrow> yaml_mark
    \<Rightarrow> scalar_vars \<Rightarrow> ('h, 'z) yaml_reader_scheme \<Rightarrow> (scalar_vars, ('h, 'z) yaml_reader_scheme) res" where
  "blanks_turn bad_tab sm v P =
     res_bind
       (if IS_BLANK_AT P 0 then
          (if bad_tab v P then
             yaml_parser_set_scanner_error P (Some ''while scanning a plain scalar'') sm
               ''found a tab character that violates indentation''
           else if \<not> sv_leading_blanks v then
             res_bind (READ P (sv_whitespaces v)) (\<lambda>s P. Ok (v\<lparr>sv_whitespaces := s\<rparr>) P)
           else res_bind (SKIP P) (\<lambda>_ P. Ok v P))
        else
          res_bind (CACHE P 2) (\<lambda>_ P.
            if \<not> sv_leading_blanks v then
              res_bind (READ_LINE P (sv_leading_break v)) (\<lambda>s P.
                Ok (v\<lparr>sv_whitespaces := [], sv_leading_break := s, sv_leading_blanks := True\<rparr>) P)
            else
              res_bind (READ_LINE P (sv_trailing_breaks v)) (\<lambda>s P.
                Ok (v\<lparr>sv_trailing_breaks := s\<rparr>) P))) (\<lambda>v P.
     res_bind (CACHE P 1) (\<lambda>_ P. Ok v P))"

definition consume_blanks :: "nat \<Rightarrow> (scalar_vars \<Rightarrow> ('h, 'z) yaml_reader_scheme \<Rightarrow> bool) \<Rightarrow> yaml_mark
    \<Rightarrow> scalar_vars \<Rightarrow> ('h, 'z) yaml_reader_scheme \<Rightarrow> (scalar_vars, ('h, 'z) yaml_reader_scheme) res" where
  "consume_blanks n bad_tab sm v P =
     while_loop n (\<lambda>_ P. IS_BLANK_AT P 0 \<or> IS_BREAK_AT P 0) (blanks_turn bad_tab sm) v P"

text \<open>Join the white space, or fold the line breaks, that were collected.\<close>

definition fold_breaks :: "scalar_vars \<Rightarrow> ('h, 'z) yaml_reader_scheme
    \<Rightarrow> (scalar_vars, ('h, 'z) yaml_reader_scheme) res" where
  "fold_breaks v P =
     res_bind
       (if first_octet (sv_leading_break v) = 0x0A then
          (if first_octet (sv_trailing_breaks v) = 0 then STRING_PUT P (sv_string v) [0x20]
           else JOIN P (sv_string v) (sv_trailing_breaks v))
        else
          res_bind (JOIN P (sv_string v) (sv_leading_break v)) (\<lambda>s P.
            JOIN P s (sv_trailing_breaks v))) (\<lambda>s P.
       Ok (v\<lparr>sv_string := s, sv_leading_break := [], sv_trailing_breaks := []\<rparr>) P)"

definition join_blanks :: "scalar_vars \<Rightarrow> ('h, 'z) yaml_reader_scheme
    \<Rightarrow> (scalar_vars, ('h, 'z) yaml_reader_scheme) res" where
  "join_blanks v P =
     (if sv_leading_blanks v then fold_breaks v P
      else res_bind (JOIN P (sv_string v) (sv_whitespaces v)) (\<lambda>s P.
        Ok (v\<lparr>sv_string := s, sv_whitespaces := []\<rparr>) P))"

section \<open>Quoted scalars\<close>

text \<open>The octets of a short escape, or the number of hexadecimal digits of a long one.\<close>

definition escape_code :: "byte \<Rightarrow> (ystr + nat) option" where
  "escape_code b =
     (if b = of_char CHR ''0'' then Some (Inl [0])
      else if b = of_char CHR ''a'' then Some (Inl [0x07])
      else if b = of_char CHR ''b'' then Some (Inl [0x08])
      else if b = of_char CHR ''t'' \<or> b = 0x09 then Some (Inl [0x09])
      else if b = of_char CHR ''n'' then Some (Inl [0x0A])
      else if b = of_char CHR ''v'' then Some (Inl [0x0B])
      else if b = of_char CHR ''f'' then Some (Inl [0x0C])
      else if b = of_char CHR ''r'' then Some (Inl [0x0D])
      else if b = of_char CHR ''e'' then Some (Inl [0x1B])
      else if b = 0x20 then Some (Inl [0x20])
      else if b = 0x22 then Some (Inl [0x22])
      else if b = of_char CHR ''/'' then Some (Inl [of_char CHR ''/''])
      else if b = 0x5C then Some (Inl [0x5C])
      else if b = of_char CHR ''N'' then Some (Inl [0xC2, 0x85])
      else if b = of_char CHR ''_'' then Some (Inl [0xC2, 0xA0])
      else if b = of_char CHR ''L'' then Some (Inl [0xE2, 0x80, 0xA8])
      else if b = of_char CHR ''P'' then Some (Inl [0xE2, 0x80, 0xA9])
      else if b = of_char CHR ''x'' then Some (Inr 2)
      else if b = of_char CHR ''u'' then Some (Inr 4)
      else if b = of_char CHR ''U'' then Some (Inr 8)
      else None)"

text \<open>The value of \<open>k\<close> hexadecimal digits from position \<open>i\<close> on; \<open>None\<close> if one is not a digit.\<close>

fun hex_value :: "nat \<Rightarrow> nat \<Rightarrow> 32 word \<Rightarrow> ('h, 'z) yaml_reader_scheme \<Rightarrow> 32 word option" where
  "hex_value 0 i v P = Some v"
| "hex_value (Suc k) i v P =
     (if IS_HEX_AT P i then hex_value k (Suc i) (push_bit 4 v + AS_HEX_AT P i) P else None)"

definition quoted_error :: "('h, 'z) yaml_reader_scheme \<Rightarrow> yaml_mark \<Rightarrow> string
    \<Rightarrow> ('a, ('h, 'z) yaml_reader_scheme) res" where
  "quoted_error P sm msg = yaml_parser_set_scanner_error P (Some ''while parsing a quoted scalar'') sm msg"

definition scan_escape :: "yaml_mark \<Rightarrow> ystr \<Rightarrow> ('h, 'z) yaml_reader_scheme
    \<Rightarrow> (ystr, ('h, 'z) yaml_reader_scheme) res" where
  "scan_escape sm s P =
     res_bind (allocate P) (\<lambda>_ P.
       case escape_code (octet_at P 1) of
         None \<Rightarrow> quoted_error P sm ''found unknown escape character''
       | Some (Inl bs) \<Rightarrow> res_bind (SKIP_n 2 P) (\<lambda>_ P. Ok (s @ bs) P)
       | Some (Inr len) \<Rightarrow>
           res_bind (SKIP_n 2 P) (\<lambda>_ P.
           res_bind (CACHE P len) (\<lambda>_ P.
             case hex_value len 0 0 P of
               None \<Rightarrow> quoted_error P sm ''did not find expected hexdecimal number''
             | Some v \<Rightarrow>
                 if (v \<ge> 0xD800 \<and> v \<le> 0xDFFF) \<or> v > 0x10FFFF then
                   quoted_error P sm ''found invalid Unicode character escape code''
                 else res_bind (SKIP_n len P) (\<lambda>_ P. Ok (s @ encode_utf8 v) P))))"

abbreviation at_quote :: "bool \<Rightarrow> ('h, 'z) yaml_reader_scheme \<Rightarrow> bool" where
  "at_quote single P \<equiv> CHECK P (if single then CHR 0x27 else CHR 0x22)"

abbreviation at_backslash :: "('h, 'z) yaml_reader_scheme \<Rightarrow> bool" where
  "at_backslash P \<equiv> CHECK P (CHR 0x5C)"

text \<open>One turn of the loop over non-blank characters; \<open>sv_go\<close> false is its \<open>break\<close>.\<close>

definition quoted_turn :: "bool \<Rightarrow> yaml_mark \<Rightarrow> scalar_vars \<Rightarrow> ('h, 'z) yaml_reader_scheme
    \<Rightarrow> (scalar_vars, ('h, 'z) yaml_reader_scheme) res" where
  "quoted_turn single sm v P =
     (if at_quote single P \<and> \<not> (single \<and> CHECK_AT P (CHR 0x27) 1) then Ok (v\<lparr>sv_go := False\<rparr>) P
      else if \<not> single \<and> at_backslash P \<and> IS_BREAK_AT P 1 then
        res_bind (CACHE P 3) (\<lambda>_ P. res_bind (SKIP P) (\<lambda>_ P. res_bind (SKIP_LINE P) (\<lambda>_ P.
          Ok (v\<lparr>sv_go := False, sv_leading_blanks := True\<rparr>) P)))
      else
        res_bind
          (if single \<and> at_quote single P then
             res_bind (STRING_PUT P (sv_string v) [0x27]) (\<lambda>s P. res_bind (SKIP_n 2 P) (\<lambda>_ P. Ok s P))
           else if \<not> single \<and> at_backslash P then scan_escape sm (sv_string v) P
           else READ P (sv_string v)) (\<lambda>s P.
        res_bind (CACHE P 2) (\<lambda>_ P. Ok (v\<lparr>sv_string := s\<rparr>) P)))"

text \<open>One turn of the outer loop; \<open>sv_go\<close> false is the closing quote.\<close>

definition flow_scalar_turn :: "nat \<Rightarrow> bool \<Rightarrow> yaml_mark \<Rightarrow> scalar_vars \<Rightarrow> ('h, 'z) yaml_reader_scheme
    \<Rightarrow> (scalar_vars, ('h, 'z) yaml_reader_scheme) res" where
  "flow_scalar_turn n single sm v P =
     res_bind (CACHE P 4) (\<lambda>_ P.
       if at_document_indicator P then
         yaml_parser_set_scanner_error P (Some ''while scanning a quoted scalar'') sm
           ''found unexpected document indicator''
       else if IS_Z_AT P 0 then
         yaml_parser_set_scanner_error P (Some ''while scanning a quoted scalar'') sm
           ''found unexpected end of stream''
       else
         res_bind (CACHE P 2) (\<lambda>_ P.
         res_bind (while_loop n (\<lambda>v P. sv_go v \<and> \<not> IS_BLANKZ_AT P 0) (quoted_turn single sm)
             (v\<lparr>sv_go := True, sv_leading_blanks := False\<rparr>) P) (\<lambda>v P.
         res_bind (CACHE P 1) (\<lambda>_ P.
           if at_quote single P then Ok (v\<lparr>sv_go := False\<rparr>) P
           else
             res_bind (CACHE P 1) (\<lambda>_ P.
             res_bind (consume_blanks n (\<lambda>_ _. False) sm v P) (\<lambda>v P.
             res_bind (join_blanks v P) (\<lambda>v P. Ok (v\<lparr>sv_go := True\<rparr>) P)))))))"

definition yaml_parser_scan_flow_scalar :: "nat \<Rightarrow> bool \<Rightarrow> ('h, 'z) yaml_reader_scheme
    \<Rightarrow> (yaml_token, ('h, 'z) yaml_reader_scheme) res" where
  "yaml_parser_scan_flow_scalar n single P =
     res_bind (STRING_INIT P) (\<lambda>_ P.
     res_bind (STRING_INIT P) (\<lambda>_ P.
     res_bind (STRING_INIT P) (\<lambda>_ P.
     res_bind (STRING_INIT P) (\<lambda>_ P.
     (let sm = mark P in
      res_bind (SKIP P) (\<lambda>_ P.
      res_bind (while_loop n (\<lambda>v _. sv_go v) (flow_scalar_turn n single sm) (scalar_vars_init sm) P)
        (\<lambda>v P.
      res_bind (SKIP P) (\<lambda>_ P.
        Ok (TOKEN_INIT (YAML_SCALAR_TOKEN (sv_string v)
              (if single then YAML_SINGLE_QUOTED_SCALAR_STYLE else YAML_DOUBLE_QUOTED_SCALAR_STYLE))
            sm (mark P)) P))))))))"

section \<open>Plain scalars\<close>

definition plain_turn :: "yaml_mark \<Rightarrow> scalar_vars \<Rightarrow> ('h, 'z) yaml_scanner_scheme
    \<Rightarrow> (scalar_vars, ('h, 'z) yaml_scanner_scheme) res" where
  "plain_turn sm v P =
     (if flow_level P \<noteq> 0 \<and> CHECK P CHR '':'' \<and> list_ex (\<lambda>c. CHECK_AT P c 1) '',?[]{}'' then
        yaml_parser_set_scanner_error P (Some ''while scanning a plain scalar'') sm
          (''found unexpected ':'' @ [CHR 0x27])
      else if (CHECK P CHR '':'' \<and> IS_BLANKZ_AT P 1) \<or> (flow_level P \<noteq> 0 \<and> list_ex (CHECK P) '',[]{}'') then
        Ok (v\<lparr>sv_go := False\<rparr>) P
      else
        res_bind
          (if sv_leading_blanks v \<or> sv_whitespaces v \<noteq> [] then
             res_bind (join_blanks v P) (\<lambda>v P. Ok (v\<lparr>sv_leading_blanks := False\<rparr>) P)
           else Ok v P) (\<lambda>v P.
        res_bind (READ P (sv_string v)) (\<lambda>s P.
          let v = v\<lparr>sv_string := s, sv_end_mark := mark P\<rparr> in
          res_bind (CACHE P 2) (\<lambda>_ P. Ok v P))))"

definition plain_scalar_turn :: "nat \<Rightarrow> int \<Rightarrow> yaml_mark \<Rightarrow> scalar_vars \<Rightarrow> ('h, 'z) yaml_scanner_scheme
    \<Rightarrow> (scalar_vars, ('h, 'z) yaml_scanner_scheme) res" where
  "plain_scalar_turn n ind sm v P =
     res_bind (CACHE P 4) (\<lambda>_ P.
       if at_document_indicator P \<or> CHECK P CHR ''#'' then Ok (v\<lparr>sv_go := False\<rparr>) P
       else
         res_bind (while_loop n (\<lambda>v P. sv_go v \<and> \<not> IS_BLANKZ_AT P 0) (plain_turn sm)
             (v\<lparr>sv_go := True\<rparr>) P) (\<lambda>v P.
           if \<not> (IS_BLANK_AT P 0 \<or> IS_BREAK_AT P 0) then Ok (v\<lparr>sv_go := False\<rparr>) P
           else
             res_bind (CACHE P 1) (\<lambda>_ P.
             res_bind (consume_blanks n
                 (\<lambda>v P. sv_leading_blanks v \<and> as_int (column (mark P)) < ind \<and> IS_TAB_AT P 0) sm v P)
               (\<lambda>v P.
               Ok (v\<lparr>sv_go := \<not> (flow_level P = 0 \<and> as_int (column (mark P)) < ind)\<rparr>) P))))"

definition yaml_parser_scan_plain_scalar :: "nat \<Rightarrow> ('h, 'z) yaml_scanner_scheme
    \<Rightarrow> (yaml_token, ('h, 'z) yaml_scanner_scheme) res" where
  "yaml_parser_scan_plain_scalar n P =
     (let ind = indent P + 1 in
      res_bind (STRING_INIT P) (\<lambda>_ P.
      res_bind (STRING_INIT P) (\<lambda>_ P.
      res_bind (STRING_INIT P) (\<lambda>_ P.
      res_bind (STRING_INIT P) (\<lambda>_ P.
      (let sm = mark P in
       res_bind (while_loop n (\<lambda>v _. sv_go v) (plain_scalar_turn n ind sm) (scalar_vars_init sm) P)
         (\<lambda>v P.
         Ok (TOKEN_INIT (YAML_SCALAR_TOKEN (sv_string v) YAML_PLAIN_SCALAR_STYLE) sm (sv_end_mark v))
            (if sv_leading_blanks v then P\<lparr>simple_key_allowed := True\<rparr> else P))))))))"

end
