(* ===== verification/Yaml_Scanner.thy ===== *)
theory Yaml_Scanner
  imports Yaml_Scan_Scalar
begin

text \<open>
  The first half of the scanner, \<^verbatim>\<open>src/scanner.c\<close> up to \<open>yaml_parser_fetch_plain_scalar\<close>: the
  queue of tokens, the stack of indentation levels, the potential simple keys of each flow
  level, and the fetchers that append tokens to the queue.

  \<open>ENQUEUE\<close> is one request to the allocator.  The index of \<open>QUEUE_INSERT\<close> is computed as an
  unsigned difference; a negative one is \<open>Abort\<close>.
\<close>

section \<open>The queue of tokens\<close>

definition ENQUEUE :: "('h, 'z) yaml_scanner_scheme \<Rightarrow> yaml_token
    \<Rightarrow> (unit, ('h, 'z) yaml_scanner_scheme) res" where
  "ENQUEUE P t = res_bind (allocate P) (\<lambda>_ P. Ok () (P\<lparr>tokens := tokens P @ [t]\<rparr>))"

definition insert_token :: "('h, 'z) yaml_scanner_scheme \<Rightarrow> nat \<Rightarrow> yaml_token
    \<Rightarrow> (unit, ('h, 'z) yaml_scanner_scheme) res" where
  "insert_token P number t =
     (if number < tokens_parsed P then Abort
      else res_bind (QUEUE_INSERT P (tokens P) (number - tokens_parsed P) t) (\<lambda>ts P.
        Ok () (P\<lparr>tokens := ts\<rparr>)))"

section \<open>Simple keys\<close>

definition stale :: "yaml_mark \<Rightarrow> yaml_simple_key \<Rightarrow> bool" where
  "stale m k \<longleftrightarrow> possible k \<and> (line (sk_mark k) < line m \<or> index (sk_mark k) + 1024 < index m)"

text \<open>The loop over the simple keys: the updated keys, and the mark of a required one.\<close>

fun stale_keys :: "yaml_mark \<Rightarrow> yaml_simple_key list \<Rightarrow> yaml_simple_key list \<times> yaml_mark option" where
  "stale_keys m [] = ([], None)"
| "stale_keys m (k # ks) =
     (if stale m k \<and> required k then (k # ks, Some (sk_mark k))
      else let (ks', e) = stale_keys m ks in
        ((if stale m k then k\<lparr>possible := False\<rparr> else k) # ks', e))"

definition simple_key_error :: "('h, 'z) yaml_scanner_scheme \<Rightarrow> yaml_mark
    \<Rightarrow> ('a, ('h, 'z) yaml_scanner_scheme) res" where
  "simple_key_error P m =
     yaml_parser_set_scanner_error P (Some ''while scanning a simple key'') m
       (''could not find expected ':'' @ [CHR 0x27])"

definition yaml_parser_stale_simple_keys :: "('h, 'z) yaml_scanner_scheme
    \<Rightarrow> (unit, ('h, 'z) yaml_scanner_scheme) res" where
  "yaml_parser_stale_simple_keys P =
     (case stale_keys (mark P) (simple_keys P) of
        (ks, None) \<Rightarrow> Ok () (P\<lparr>simple_keys := ks\<rparr>)
      | (ks, Some m) \<Rightarrow> simple_key_error (P\<lparr>simple_keys := ks\<rparr>) m)"

definition set_simple_key :: "yaml_simple_key \<Rightarrow> ('h, 'z) yaml_scanner_scheme \<Rightarrow> ('h, 'z) yaml_scanner_scheme" where
  "set_simple_key k P = P\<lparr>simple_keys := butlast (simple_keys P) @ [k]\<rparr>"

definition yaml_parser_remove_simple_key :: "('h, 'z) yaml_scanner_scheme
    \<Rightarrow> (unit, ('h, 'z) yaml_scanner_scheme) res" where
  "yaml_parser_remove_simple_key P =
     (if simple_keys P = [] then Abort
      else let k = last (simple_keys P) in
        if possible k \<and> required k then simple_key_error P (sk_mark k)
        else Ok () (set_simple_key (k\<lparr>possible := False\<rparr>) P))"

definition yaml_parser_save_simple_key :: "('h, 'z) yaml_scanner_scheme
    \<Rightarrow> (unit, ('h, 'z) yaml_scanner_scheme) res" where
  "yaml_parser_save_simple_key P =
     (let req = (flow_level P = 0 \<and> indent P = int (column (mark P))) in
      if simple_key_allowed P then
        (let k = \<lparr>possible = True, required = req,
                  token_number = tokens_parsed P + length (tokens P), sk_mark = mark P\<rparr> in
         res_bind (yaml_parser_remove_simple_key P) (\<lambda>_ P. Ok () (set_simple_key k P)))
      else Ok () P)"

section \<open>Flow levels and indentation\<close>

definition INT_MAX :: int where "INT_MAX = 2 ^ 31 - 1"

definition empty_simple_key :: yaml_simple_key where
  "empty_simple_key = \<lparr>possible = False, required = False, token_number = 0, sk_mark = zero_mark\<rparr>"

definition push_simple_key :: "('h, 'z) yaml_scanner_scheme \<Rightarrow> (unit, ('h, 'z) yaml_scanner_scheme) res" where
  "push_simple_key P =
     res_bind (PUSH P (simple_keys P) empty_simple_key) (\<lambda>ks P. Ok () (P\<lparr>simple_keys := ks\<rparr>))"

definition yaml_parser_increase_flow_level :: "('h, 'z) yaml_scanner_scheme
    \<Rightarrow> (unit, ('h, 'z) yaml_scanner_scheme) res" where
  "yaml_parser_increase_flow_level P =
     res_bind (push_simple_key P) (\<lambda>_ P.
       if flow_level P = INT_MAX then Fail (P\<lparr>error := YAML_MEMORY_ERROR\<rparr>)
       else Ok () (P\<lparr>flow_level := flow_level P + 1\<rparr>))"

definition yaml_parser_decrease_flow_level :: "('h, 'z) yaml_scanner_scheme
    \<Rightarrow> (unit, ('h, 'z) yaml_scanner_scheme) res" where
  "yaml_parser_decrease_flow_level P =
     (if flow_level P \<noteq> 0 then
        res_bind (POP (simple_keys P) (P\<lparr>flow_level := flow_level P - 1\<rparr>)) (\<lambda>(_, ks) P.
          Ok () (P\<lparr>simple_keys := ks\<rparr>))
      else Ok () P)"

definition yaml_parser_roll_indent :: "('h, 'z) yaml_scanner_scheme \<Rightarrow> int \<Rightarrow> nat option
    \<Rightarrow> yaml_token_data \<Rightarrow> yaml_mark \<Rightarrow> (unit, ('h, 'z) yaml_scanner_scheme) res" where
  "yaml_parser_roll_indent P col number d m =
     (if flow_level P \<noteq> 0 then Ok () P
      else if indent P < col then
        res_bind (PUSH P (indents P) (indent P)) (\<lambda>xs P.
          let P = P\<lparr>indents := xs\<rparr> in
          if col > INT_MAX then Fail (P\<lparr>error := YAML_MEMORY_ERROR\<rparr>)
          else
            let P = P\<lparr>indent := col\<rparr>; t = TOKEN_INIT d m m in
            case number of None \<Rightarrow> ENQUEUE P t | Some k \<Rightarrow> insert_token P k t)
      else Ok () P)"

text \<open>The loop ends: every turn pops an indentation level.\<close>

function unroll_loop :: "int \<Rightarrow> ('h, 'z) yaml_scanner_scheme
    \<Rightarrow> (unit, ('h, 'z) yaml_scanner_scheme) res" where
  "unroll_loop col P =
     (if indent P > col then
        (case ENQUEUE P (TOKEN_INIT YAML_BLOCK_END_TOKEN (mark P) (mark P)) of
           Ok _ P1 \<Rightarrow>
             if indents P1 = [] then Abort
             else unroll_loop col (P1\<lparr>indent := last (indents P1), indents := butlast (indents P1)\<rparr>)
         | Fail P1 \<Rightarrow> Fail P1 | Abort \<Rightarrow> Abort | Hang \<Rightarrow> Hang)
      else Ok () P)"
  by pat_completeness auto
termination
  by (relation "measure (\<lambda>(col, P). length (indents P))")
     (auto simp: ENQUEUE_def allocate_def split: if_splits)

declare unroll_loop.simps [simp del]

definition yaml_parser_unroll_indent :: "('h, 'z) yaml_scanner_scheme \<Rightarrow> int
    \<Rightarrow> (unit, ('h, 'z) yaml_scanner_scheme) res" where
  "yaml_parser_unroll_indent P col = (if flow_level P \<noteq> 0 then Ok () P else unroll_loop col P)"

section \<open>Fetchers\<close>

definition yaml_parser_fetch_stream_start :: "('h, 'z) yaml_scanner_scheme
    \<Rightarrow> (unit, ('h, 'z) yaml_scanner_scheme) res" where
  "yaml_parser_fetch_stream_start P =
     res_bind (push_simple_key (P\<lparr>indent := - 1\<rparr>)) (\<lambda>_ P.
       ENQUEUE (P\<lparr>simple_key_allowed := True, stream_start_produced := True\<rparr>)
         (TOKEN_INIT (YAML_STREAM_START_TOKEN (encoding P)) (mark P) (mark P)))"

text \<open>What the end of the stream, a directive and a document indicator have in common.\<close>

definition reset_scanner :: "('h, 'z) yaml_scanner_scheme \<Rightarrow> (unit, ('h, 'z) yaml_scanner_scheme) res" where
  "reset_scanner P =
     res_bind (yaml_parser_unroll_indent P (- 1)) (\<lambda>_ P.
     res_bind (yaml_parser_remove_simple_key P) (\<lambda>_ P. Ok () (P\<lparr>simple_key_allowed := False\<rparr>)))"

definition yaml_parser_fetch_stream_end :: "('h, 'z) yaml_scanner_scheme
    \<Rightarrow> (unit, ('h, 'z) yaml_scanner_scheme) res" where
  "yaml_parser_fetch_stream_end P =
     (let P = (if column (mark P) \<noteq> 0
               then P\<lparr>mark := (mark P)\<lparr>column := 0, line := line (mark P) + 1\<rparr>\<rparr> else P) in
      res_bind (reset_scanner P) (\<lambda>_ P.
        ENQUEUE P (TOKEN_INIT YAML_STREAM_END_TOKEN (mark P) (mark P))))"

definition yaml_parser_fetch_directive :: "nat \<Rightarrow> ('h, 'z) yaml_scanner_scheme
    \<Rightarrow> (unit, ('h, 'z) yaml_scanner_scheme) res" where
  "yaml_parser_fetch_directive n P =
     res_bind (reset_scanner P) (\<lambda>_ P.
     res_bind (yaml_parser_scan_directive n P) (\<lambda>token P. ENQUEUE P token))"

text \<open>Consume \<open>k\<close> characters and append a token for them.\<close>

definition fetch_indicator :: "nat \<Rightarrow> yaml_token_data \<Rightarrow> ('h, 'z) yaml_scanner_scheme
    \<Rightarrow> (unit, ('h, 'z) yaml_scanner_scheme) res" where
  "fetch_indicator k d P =
     (let sm = mark P in
      res_bind (SKIP_n k P) (\<lambda>_ P. ENQUEUE P (TOKEN_INIT d sm (mark P))))"

definition yaml_parser_fetch_document_indicator :: "yaml_token_data \<Rightarrow> ('h, 'z) yaml_scanner_scheme
    \<Rightarrow> (unit, ('h, 'z) yaml_scanner_scheme) res" where
  "yaml_parser_fetch_document_indicator d P =
     res_bind (reset_scanner P) (\<lambda>_ P. fetch_indicator 3 d P)"

definition yaml_parser_fetch_flow_collection_start :: "yaml_token_data \<Rightarrow> ('h, 'z) yaml_scanner_scheme
    \<Rightarrow> (unit, ('h, 'z) yaml_scanner_scheme) res" where
  "yaml_parser_fetch_flow_collection_start d P =
     res_bind (yaml_parser_save_simple_key P) (\<lambda>_ P.
     res_bind (yaml_parser_increase_flow_level P) (\<lambda>_ P.
       fetch_indicator 1 d (P\<lparr>simple_key_allowed := True\<rparr>)))"

definition yaml_parser_fetch_flow_collection_end :: "yaml_token_data \<Rightarrow> ('h, 'z) yaml_scanner_scheme
    \<Rightarrow> (unit, ('h, 'z) yaml_scanner_scheme) res" where
  "yaml_parser_fetch_flow_collection_end d P =
     res_bind (yaml_parser_remove_simple_key P) (\<lambda>_ P.
     res_bind (yaml_parser_decrease_flow_level P) (\<lambda>_ P.
       fetch_indicator 1 d (P\<lparr>simple_key_allowed := False\<rparr>)))"

definition yaml_parser_fetch_flow_entry :: "('h, 'z) yaml_scanner_scheme
    \<Rightarrow> (unit, ('h, 'z) yaml_scanner_scheme) res" where
  "yaml_parser_fetch_flow_entry P =
     res_bind (yaml_parser_remove_simple_key P) (\<lambda>_ P.
       fetch_indicator 1 YAML_FLOW_ENTRY_TOKEN (P\<lparr>simple_key_allowed := True\<rparr>))"

text \<open>In the block context an entry, a key or a value may open a collection here.\<close>

definition open_block :: "yaml_token_data \<Rightarrow> string \<Rightarrow> ('h, 'z) yaml_scanner_scheme
    \<Rightarrow> (unit, ('h, 'z) yaml_scanner_scheme) res" where
  "open_block d msg P =
     (if flow_level P \<noteq> 0 then Ok () P
      else if \<not> simple_key_allowed P then yaml_parser_set_scanner_error P None (mark P) msg
      else yaml_parser_roll_indent P (int (column (mark P))) None d (mark P))"

definition yaml_parser_fetch_block_entry :: "('h, 'z) yaml_scanner_scheme
    \<Rightarrow> (unit, ('h, 'z) yaml_scanner_scheme) res" where
  "yaml_parser_fetch_block_entry P =
     res_bind (open_block YAML_BLOCK_SEQUENCE_START_TOKEN
         ''block sequence entries are not allowed in this context'' P) (\<lambda>_ P.
     res_bind (yaml_parser_remove_simple_key P) (\<lambda>_ P.
       fetch_indicator 1 YAML_BLOCK_ENTRY_TOKEN (P\<lparr>simple_key_allowed := True\<rparr>)))"

definition yaml_parser_fetch_key :: "('h, 'z) yaml_scanner_scheme
    \<Rightarrow> (unit, ('h, 'z) yaml_scanner_scheme) res" where
  "yaml_parser_fetch_key P =
     res_bind (open_block YAML_BLOCK_MAPPING_START_TOKEN
         ''mapping keys are not allowed in this context'' P) (\<lambda>_ P.
     res_bind (yaml_parser_remove_simple_key P) (\<lambda>_ P.
       fetch_indicator 1 YAML_KEY_TOKEN (P\<lparr>simple_key_allowed := (flow_level P = 0)\<rparr>)))"

definition yaml_parser_fetch_value :: "('h, 'z) yaml_scanner_scheme
    \<Rightarrow> (unit, ('h, 'z) yaml_scanner_scheme) res" where
  "yaml_parser_fetch_value P =
     (if simple_keys P = [] then Abort
      else let k = last (simple_keys P) in
        res_bind
          (if possible k then
             res_bind (insert_token P (token_number k)
                 (TOKEN_INIT YAML_KEY_TOKEN (sk_mark k) (sk_mark k))) (\<lambda>_ P.
             res_bind (yaml_parser_roll_indent P (int (column (sk_mark k))) (Some (token_number k))
                 YAML_BLOCK_MAPPING_START_TOKEN (sk_mark k)) (\<lambda>_ P.
               Ok () ((set_simple_key (k\<lparr>possible := False\<rparr>) P)\<lparr>simple_key_allowed := False\<rparr>)))
           else
             res_bind (open_block YAML_BLOCK_MAPPING_START_TOKEN
                 ''mapping values are not allowed in this context'' P) (\<lambda>_ P.
               Ok () (P\<lparr>simple_key_allowed := (flow_level P = 0)\<rparr>)))
          (\<lambda>_ P. fetch_indicator 1 YAML_VALUE_TOKEN P))"

text \<open>A token that may be a simple key, scanned by \<open>scan\<close>.\<close>

definition fetch_scanned :: "(('h, 'z) yaml_scanner_scheme \<Rightarrow> (yaml_token, ('h, 'z) yaml_scanner_scheme) res)
    \<Rightarrow> ('h, 'z) yaml_scanner_scheme \<Rightarrow> (unit, ('h, 'z) yaml_scanner_scheme) res" where
  "fetch_scanned scan P =
     res_bind (yaml_parser_save_simple_key P) (\<lambda>_ P.
     res_bind (scan (P\<lparr>simple_key_allowed := False\<rparr>)) (\<lambda>token P. ENQUEUE P token))"

definition yaml_parser_fetch_anchor :: "nat \<Rightarrow> bool \<Rightarrow> ('h, 'z) yaml_scanner_scheme
    \<Rightarrow> (unit, ('h, 'z) yaml_scanner_scheme) res" where
  "yaml_parser_fetch_anchor n is_anchor P = fetch_scanned (yaml_parser_scan_anchor n is_anchor) P"

definition yaml_parser_fetch_tag :: "nat \<Rightarrow> ('h, 'z) yaml_scanner_scheme
    \<Rightarrow> (unit, ('h, 'z) yaml_scanner_scheme) res" where
  "yaml_parser_fetch_tag n P = fetch_scanned (yaml_parser_scan_tag n) P"

definition yaml_parser_fetch_block_scalar :: "nat \<Rightarrow> bool \<Rightarrow> ('h, 'z) yaml_scanner_scheme
    \<Rightarrow> (unit, ('h, 'z) yaml_scanner_scheme) res" where
  "yaml_parser_fetch_block_scalar n literal P =
     res_bind (yaml_parser_remove_simple_key P) (\<lambda>_ P.
     res_bind (yaml_parser_scan_block_scalar n literal (P\<lparr>simple_key_allowed := True\<rparr>)) (\<lambda>token P.
       ENQUEUE P token))"

definition yaml_parser_fetch_flow_scalar :: "nat \<Rightarrow> bool \<Rightarrow> ('h, 'z) yaml_scanner_scheme
    \<Rightarrow> (unit, ('h, 'z) yaml_scanner_scheme) res" where
  "yaml_parser_fetch_flow_scalar n single P = fetch_scanned (yaml_parser_scan_flow_scalar n single) P"

definition yaml_parser_fetch_plain_scalar :: "nat \<Rightarrow> ('h, 'z) yaml_scanner_scheme
    \<Rightarrow> (unit, ('h, 'z) yaml_scanner_scheme) res" where
  "yaml_parser_fetch_plain_scalar n P = fetch_scanned (yaml_parser_scan_plain_scalar n) P"

section \<open>The dispatcher\<close>

definition starts_plain :: "('h, 'z) yaml_scanner_scheme \<Rightarrow> bool" where
  "starts_plain P \<longleftrightarrow>
     \<not> (IS_BLANKZ_AT P 0 \<or> list_ex (CHECK P) ''-?:,[]{}#&*!|>%@`'' \<or> CHECK P (CHR 0x27) \<or> CHECK P (CHR 0x22))
     \<or> (CHECK P CHR ''-'' \<and> \<not> IS_BLANK_AT P 1)
     \<or> (flow_level P = 0 \<and> (CHECK P CHR ''?'' \<or> CHECK P CHR '':'') \<and> \<not> IS_BLANKZ_AT P 1)"

text \<open>The tests in the order of the source, after the white space was eaten.\<close>

definition fetch_by_character :: "nat \<Rightarrow> ('h, 'z) yaml_scanner_scheme
    \<Rightarrow> (unit, ('h, 'z) yaml_scanner_scheme) res" where
  "fetch_by_character n P =
     (if IS_Z_AT P 0 then yaml_parser_fetch_stream_end P
      else if column (mark P) = 0 \<and> CHECK P CHR ''%'' then yaml_parser_fetch_directive n P
      else if column (mark P) = 0 \<and> is_indicator P CHR ''-'' \<and> IS_BLANKZ_AT P 3 then
        yaml_parser_fetch_document_indicator YAML_DOCUMENT_START_TOKEN P
      else if column (mark P) = 0 \<and> is_indicator P CHR ''.'' \<and> IS_BLANKZ_AT P 3 then
        yaml_parser_fetch_document_indicator YAML_DOCUMENT_END_TOKEN P
      else if CHECK P CHR ''['' then yaml_parser_fetch_flow_collection_start YAML_FLOW_SEQUENCE_START_TOKEN P
      else if CHECK P CHR ''{'' then yaml_parser_fetch_flow_collection_start YAML_FLOW_MAPPING_START_TOKEN P
      else if CHECK P CHR '']'' then yaml_parser_fetch_flow_collection_end YAML_FLOW_SEQUENCE_END_TOKEN P
      else if CHECK P CHR ''}'' then yaml_parser_fetch_flow_collection_end YAML_FLOW_MAPPING_END_TOKEN P
      else if CHECK P CHR '','' then yaml_parser_fetch_flow_entry P
      else if CHECK P CHR ''-'' \<and> IS_BLANKZ_AT P 1 then yaml_parser_fetch_block_entry P
      else if CHECK P CHR ''?'' \<and> (flow_level P \<noteq> 0 \<or> IS_BLANKZ_AT P 1) then yaml_parser_fetch_key P
      else if CHECK P CHR '':'' \<and> (flow_level P \<noteq> 0 \<or> IS_BLANKZ_AT P 1) then yaml_parser_fetch_value P
      else if CHECK P CHR ''*'' then yaml_parser_fetch_anchor n False P
      else if CHECK P CHR ''&'' then yaml_parser_fetch_anchor n True P
      else if CHECK P CHR ''!'' then yaml_parser_fetch_tag n P
      else if CHECK P CHR ''|'' \<and> flow_level P = 0 then yaml_parser_fetch_block_scalar n True P
      else if CHECK P CHR ''>'' \<and> flow_level P = 0 then yaml_parser_fetch_block_scalar n False P
      else if CHECK P (CHR 0x27) then yaml_parser_fetch_flow_scalar n True P
      else if CHECK P (CHR 0x22) then yaml_parser_fetch_flow_scalar n False P
      else if starts_plain P then yaml_parser_fetch_plain_scalar n P
      else yaml_parser_set_scanner_error P (Some ''while scanning for the next token'') (mark P)
             ''found character that cannot start any token'')"

definition yaml_parser_fetch_next_token :: "nat \<Rightarrow> ('h, 'z) yaml_scanner_scheme
    \<Rightarrow> (unit, ('h, 'z) yaml_scanner_scheme) res" where
  "yaml_parser_fetch_next_token n P =
     res_bind (CACHE P 1) (\<lambda>_ P.
       if \<not> stream_start_produced P then yaml_parser_fetch_stream_start P
       else
         res_bind (yaml_parser_scan_to_next_token n P) (\<lambda>_ P.
         res_bind (yaml_parser_stale_simple_keys P) (\<lambda>_ P.
         res_bind (yaml_parser_unroll_indent P (int (column (mark P)))) (\<lambda>_ P.
         res_bind (CACHE P 4) (\<lambda>_ P. fetch_by_character n P)))))"

text \<open>Whether a potential simple key may occupy the head of the queue.\<close>

definition key_at_head :: "('h, 'z) yaml_scanner_scheme \<Rightarrow> bool" where
  "key_at_head P \<longleftrightarrow> list_ex (\<lambda>k. possible k \<and> token_number k = tokens_parsed P) (simple_keys P)"

fun fetch_loop :: "nat \<Rightarrow> nat \<Rightarrow> ('h, 'z) yaml_scanner_scheme
    \<Rightarrow> (unit, ('h, 'z) yaml_scanner_scheme) res" where
  "fetch_loop n 0 P = Hang"
| "fetch_loop n (Suc m) P =
     res_bind (res_when (tokens P \<noteq> []) yaml_parser_stale_simple_keys P) (\<lambda>_ P.
       if tokens P = [] \<or> key_at_head P
       then res_bind (yaml_parser_fetch_next_token n P) (\<lambda>_ P. fetch_loop n m P)
       else Ok () P)"

definition yaml_parser_fetch_more_tokens :: "nat \<Rightarrow> ('h, 'z) yaml_scanner_scheme
    \<Rightarrow> (unit, ('h, 'z) yaml_scanner_scheme) res" where
  "yaml_parser_fetch_more_tokens n P =
     res_bind (fetch_loop n n P) (\<lambda>_ P. Ok () (P\<lparr>token_available := True\<rparr>))"

definition no_token :: yaml_token where
  "no_token = TOKEN_INIT YAML_NO_TOKEN zero_mark zero_mark"

definition yaml_parser_scan :: "nat \<Rightarrow> ('h, 'z) yaml_scanner_scheme
    \<Rightarrow> (yaml_token, ('h, 'z) yaml_scanner_scheme) res" where
  "yaml_parser_scan n P =
     (if stream_end_produced P \<or> error P \<noteq> YAML_NO_ERROR then Ok no_token P
      else
        res_bind (res_when (\<not> token_available P) (yaml_parser_fetch_more_tokens n) P) (\<lambda>_ P.
          case tokens P of [] \<Rightarrow> Abort
          | t # ts \<Rightarrow> Ok t (P\<lparr>tokens := ts, token_available := False, tokens_parsed := tokens_parsed P + 1,
              stream_end_produced := (stream_end_produced P \<or> tok_data t = YAML_STREAM_END_TOKEN)\<rparr>)))"

end
