(* ===== verification/Yaml_Loader.thy ===== *)
theory Yaml_Loader
  imports Yaml_Parser Yaml_Scanner
begin

text \<open>
  The loader, \<^verbatim>\<open>src/loader.c\<close>: it composes the events of one document into an array of nodes.
  Nodes refer to each other by their index, counted from 1; 0 stands for a value that is still
  missing.  The argument \<open>E\<close> is the call of \<open>yaml_parser_parse\<close> that fetches an event, the
  argument \<open>n\<close> bounds the loop over the events of a document.  The document that
  \<open>parser->document\<close> points to is kept in the parser while it is loaded; the loading context
  \<open>ctx\<close> is the stack of the indices of the open collections.
\<close>

type_synonym 'h event_fetcher = "'h yaml_parser \<Rightarrow> (yaml_event, 'h yaml_parser) res"

section \<open>Errors and limits\<close>

definition yaml_parser_set_composer_error ::
  "'h yaml_parser \<Rightarrow> string \<Rightarrow> yaml_mark \<Rightarrow> ('a, 'h yaml_parser) res" where
  "yaml_parser_set_composer_error P msg m =
     Fail (P\<lparr>error := YAML_COMPOSER_ERROR, problem := Some msg, problem_mark := m\<rparr>)"

definition yaml_parser_set_composer_error_context ::
  "'h yaml_parser \<Rightarrow> string \<Rightarrow> yaml_mark \<Rightarrow> string \<Rightarrow> yaml_mark \<Rightarrow> ('a, 'h yaml_parser) res" where
  "yaml_parser_set_composer_error_context P ctx cm msg m =
     Fail (P\<lparr>error := YAML_COMPOSER_ERROR, err_context := Some ctx, context_mark := cm,
             problem := Some msg, problem_mark := m\<rparr>)"

definition STACK_LIMIT :: "'h yaml_parser \<Rightarrow> 'a list \<Rightarrow> int \<Rightarrow> (unit, 'h yaml_parser) res" where
  "STACK_LIMIT P stack limit =
     (if int (length stack) < limit then Ok () P else Fail (P\<lparr>error := YAML_MEMORY_ERROR\<rparr>))"

section \<open>The document under construction\<close>

text \<open>
  \<open>parser->document->nodes.start[index-1]\<close>: a document that is not there or an index out of
  range is a wrong access.
\<close>

definition doc_node :: "yaml_document \<Rightarrow> int \<Rightarrow> yaml_node option" where
  "doc_node d i = (if 1 \<le> i \<and> i \<le> int (length (nodes d)) then Some (nodes d ! nat (i - 1)) else None)"

definition set_doc_node :: "int \<Rightarrow> yaml_node \<Rightarrow> yaml_document \<Rightarrow> yaml_document" where
  "set_doc_node i nd d = d\<lparr>nodes := (nodes d)[nat (i - 1) := nd]\<rparr>"

definition the_node :: "'h yaml_parser \<Rightarrow> int \<Rightarrow> (yaml_document \<times> yaml_node, 'h yaml_parser) res" where
  "the_node P i =
     (case document P of None \<Rightarrow> Abort
      | Some d \<Rightarrow> (case doc_node d i of None \<Rightarrow> Abort | Some nd \<Rightarrow> Ok (d, nd) P))"

definition the_document :: "'h yaml_parser \<Rightarrow> (yaml_document, 'h yaml_parser) res" where
  "the_document P = (case document P of None \<Rightarrow> Abort | Some d \<Rightarrow> Ok d P)"

definition yaml_parser_delete_aliases :: "'h yaml_parser \<Rightarrow> 'h yaml_parser" where
  "yaml_parser_delete_aliases P = P\<lparr>aliases := []\<rparr>"

section \<open>Anchors\<close>

definition find_alias :: "yaml_alias_data list \<Rightarrow> ystr \<Rightarrow> yaml_alias_data option" where
  "find_alias as a = find (\<lambda>d. cstr (ad_anchor d) = cstr a) as"

definition yaml_parser_register_anchor ::
  "'h yaml_parser \<Rightarrow> int \<Rightarrow> ystr option \<Rightarrow> (unit, 'h yaml_parser) res" where
  "yaml_parser_register_anchor P i anchor =
     (case anchor of
        None \<Rightarrow> Ok () P
      | Some a \<Rightarrow>
          res_bind (the_node P i) (\<lambda>(_, nd) P.
            case find_alias (aliases P) a of
              Some ad \<Rightarrow> yaml_parser_set_composer_error_context P
                ''found duplicate anchor; first occurrence'' (ad_mark ad)
                ''second occurrence'' (node_start_mark nd)
            | None \<Rightarrow>
                res_bind (PUSH P (aliases P) \<lparr>ad_anchor = a, ad_index = i, ad_mark = node_start_mark nd\<rparr>)
                  (\<lambda>as P. Ok () (P\<lparr>aliases := as\<rparr>))))"

section \<open>Nodes\<close>

text \<open>The node becomes an item, a key or a value of the innermost open collection.\<close>

definition yaml_parser_load_node_add ::
  "'h yaml_parser \<Rightarrow> int list \<Rightarrow> int \<Rightarrow> (unit, 'h yaml_parser) res" where
  "yaml_parser_load_node_add P ctx i =
     (if ctx = [] then Ok () P
      else
        let parent_index = last ctx in
        res_bind (the_node P parent_index) (\<lambda>(_, parent) P.
          case node_data parent of
            YAML_SEQUENCE_NODE items style \<Rightarrow>
              res_bind (STACK_LIMIT P items (INT_MAX - 1)) (\<lambda>_ P.
              res_bind (PUSH P items i) (\<lambda>items P.
                Ok () (P\<lparr>document := map_option (set_doc_node parent_index
                  (parent\<lparr>node_data := YAML_SEQUENCE_NODE items style\<rparr>)) (document P)\<rparr>)))
          | YAML_MAPPING_NODE pairs style \<Rightarrow>
              if pairs \<noteq> [] \<and> fst (last pairs) \<noteq> 0 \<and> snd (last pairs) = 0 then
                Ok () (P\<lparr>document := map_option (set_doc_node parent_index
                  (parent\<lparr>node_data := YAML_MAPPING_NODE (butlast pairs @ [(fst (last pairs), i)]) style\<rparr>)) (document P)\<rparr>)
              else
                res_bind (STACK_LIMIT P pairs (INT_MAX - 1)) (\<lambda>_ P.
                res_bind (PUSH P pairs (i, 0)) (\<lambda>pairs P.
                  Ok () (P\<lparr>document := map_option (set_doc_node parent_index
                    (parent\<lparr>node_data := YAML_MAPPING_NODE pairs style\<rparr>)) (document P)\<rparr>)))
          | _ \<Rightarrow> Abort))"

definition yaml_parser_load_alias ::
  "'h yaml_parser \<Rightarrow> ystr \<Rightarrow> yaml_event \<Rightarrow> int list \<Rightarrow> (unit, 'h yaml_parser) res" where
  "yaml_parser_load_alias P anchor event ctx =
     (case find_alias (aliases P) anchor of
        Some ad \<Rightarrow> yaml_parser_load_node_add P ctx (ad_index ad)
      | None \<Rightarrow> yaml_parser_set_composer_error P ''found undefined alias'' (ev_start_mark event))"

text \<open>The tag of a node that has none, or the non-specific tag \<open>!\<close>.\<close>

definition default_tag :: "string \<Rightarrow> ystr option \<Rightarrow> 'h yaml_parser \<Rightarrow> (ystr, 'h yaml_parser) res" where
  "default_tag def tag P =
     (case tag of
        None \<Rightarrow> res_bind (allocate_quietly P) (\<lambda>_ P. Ok (octets def) P)
      | Some t \<Rightarrow> if cstr t = octets ''!'' then res_bind (allocate_quietly P) (\<lambda>_ P. Ok (octets def) P)
                  else Ok t P)"

definition YAML_STR_TAG :: string where "YAML_STR_TAG = ''tag:yaml.org,2002:str''"
definition YAML_SEQ_TAG :: string where "YAML_SEQ_TAG = ''tag:yaml.org,2002:seq''"
definition YAML_MAP_TAG :: string where "YAML_MAP_TAG = ''tag:yaml.org,2002:map''"

text \<open>A node is pushed to the document; its index is the new number of nodes.\<close>

definition push_node :: "'h yaml_parser \<Rightarrow> yaml_node \<Rightarrow> (int, 'h yaml_parser) res" where
  "push_node P nd =
     res_bind (the_document P) (\<lambda>d P.
     res_bind (PUSH P (nodes d) nd) (\<lambda>ns P.
       Ok (int (length ns)) (P\<lparr>document := Some (d\<lparr>nodes := ns\<rparr>)\<rparr>)))"

definition yaml_parser_load_scalar ::
  "'h yaml_parser \<Rightarrow> ystr option \<Rightarrow> ystr option \<Rightarrow> ystr \<Rightarrow> yaml_scalar_style \<Rightarrow> yaml_event \<Rightarrow> int list
    \<Rightarrow> (unit, 'h yaml_parser) res" where
  "yaml_parser_load_scalar P anchor tag v style event ctx =
     res_bind (the_document P) (\<lambda>d P.
     res_bind (STACK_LIMIT P (nodes d) (INT_MAX - 1)) (\<lambda>_ P.
     res_bind (default_tag YAML_STR_TAG tag P) (\<lambda>tag P.
     res_bind (push_node P \<lparr>node_data = YAML_SCALAR_NODE v style, node_tag = tag,
                 node_start_mark = ev_start_mark event, node_end_mark = ev_end_mark event\<rparr>) (\<lambda>i P.
     res_bind (yaml_parser_register_anchor P i anchor) (\<lambda>_ P.
       yaml_parser_load_node_add P ctx i)))))"

text \<open>A collection is pushed, added to its parent and opened.\<close>

definition load_collection ::
  "string \<Rightarrow> yaml_node_data \<Rightarrow> 'h yaml_parser \<Rightarrow> ystr option \<Rightarrow> ystr option \<Rightarrow> yaml_event \<Rightarrow> int list
    \<Rightarrow> (int list, 'h yaml_parser) res" where
  "load_collection def fresh P anchor tag event ctx =
     res_bind (the_document P) (\<lambda>d P.
     res_bind (STACK_LIMIT P (nodes d) (INT_MAX - 1)) (\<lambda>_ P.
     res_bind (default_tag def tag P) (\<lambda>tag P.
     res_bind (allocate P) (\<lambda>_ P.
     res_bind (push_node P \<lparr>node_data = fresh, node_tag = tag,
                 node_start_mark = ev_start_mark event, node_end_mark = ev_end_mark event\<rparr>) (\<lambda>i P.
     res_bind (yaml_parser_register_anchor P i anchor) (\<lambda>_ P.
     res_bind (yaml_parser_load_node_add P ctx i) (\<lambda>_ P.
     res_bind (STACK_LIMIT P ctx (INT_MAX - 1)) (\<lambda>_ P.
       PUSH P ctx i))))))))"

definition yaml_parser_load_sequence ::
  "'h yaml_parser \<Rightarrow> ystr option \<Rightarrow> ystr option \<Rightarrow> yaml_sequence_style \<Rightarrow> yaml_event \<Rightarrow> int list
    \<Rightarrow> (int list, 'h yaml_parser) res" where
  "yaml_parser_load_sequence P anchor tag style event ctx =
     load_collection YAML_SEQ_TAG (YAML_SEQUENCE_NODE [] style) P anchor tag event ctx"

definition yaml_parser_load_mapping ::
  "'h yaml_parser \<Rightarrow> ystr option \<Rightarrow> ystr option \<Rightarrow> yaml_mapping_style \<Rightarrow> yaml_event \<Rightarrow> int list
    \<Rightarrow> (int list, 'h yaml_parser) res" where
  "yaml_parser_load_mapping P anchor tag style event ctx =
     load_collection YAML_MAP_TAG (YAML_MAPPING_NODE [] style) P anchor tag event ctx"

text \<open>The end of a collection: the assertions on the context, the end mark, and the pop.\<close>

definition load_collection_end ::
  "(yaml_node_data \<Rightarrow> bool) \<Rightarrow> 'h yaml_parser \<Rightarrow> yaml_event \<Rightarrow> int list \<Rightarrow> (int list, 'h yaml_parser) res" where
  "load_collection_end kind P event ctx =
     (if ctx = [] then Abort
      else
        let i = last ctx in
        res_bind (the_node P i) (\<lambda>(_, nd) P.
          if \<not> kind (node_data nd) then Abort
          else Ok (butlast ctx) (P\<lparr>document := map_option (set_doc_node i (nd\<lparr>node_end_mark := ev_end_mark event\<rparr>)) (document P)\<rparr>)))"

fun is_sequence_node :: "yaml_node_data \<Rightarrow> bool" where
  "is_sequence_node (YAML_SEQUENCE_NODE _ _) = True"
| "is_sequence_node _ = False"

fun is_mapping_node :: "yaml_node_data \<Rightarrow> bool" where
  "is_mapping_node (YAML_MAPPING_NODE _ _) = True"
| "is_mapping_node _ = False"

definition yaml_parser_load_sequence_end ::
  "'h yaml_parser \<Rightarrow> yaml_event \<Rightarrow> int list \<Rightarrow> (int list, 'h yaml_parser) res" where
  "yaml_parser_load_sequence_end P event ctx = load_collection_end is_sequence_node P event ctx"

definition yaml_parser_load_mapping_end ::
  "'h yaml_parser \<Rightarrow> yaml_event \<Rightarrow> int list \<Rightarrow> (int list, 'h yaml_parser) res" where
  "yaml_parser_load_mapping_end P event ctx = load_collection_end is_mapping_node P event ctx"

section \<open>Documents\<close>

text \<open>One turn of the loop, up to the test of its end: the new context.\<close>

definition load_event :: "yaml_event \<Rightarrow> int list \<Rightarrow> 'h yaml_parser \<Rightarrow> (int list, 'h yaml_parser) res" where
  "load_event event ctx P =
     (case ev_data event of
        YAML_ALIAS_EVENT a \<Rightarrow> res_bind (yaml_parser_load_alias P a event ctx) (\<lambda>_ P. Ok ctx P)
      | YAML_SCALAR_EVENT a t v _ _ s \<Rightarrow> res_bind (yaml_parser_load_scalar P a t v s event ctx) (\<lambda>_ P. Ok ctx P)
      | YAML_SEQUENCE_START_EVENT a t _ s \<Rightarrow> yaml_parser_load_sequence P a t s event ctx
      | YAML_SEQUENCE_END_EVENT \<Rightarrow> yaml_parser_load_sequence_end P event ctx
      | YAML_MAPPING_START_EVENT a t _ s \<Rightarrow> yaml_parser_load_mapping P a t s event ctx
      | YAML_MAPPING_END_EVENT \<Rightarrow> yaml_parser_load_mapping_end P event ctx
      | YAML_DOCUMENT_END_EVENT _ \<Rightarrow> Ok ctx P
      | _ \<Rightarrow> Abort)"

fun yaml_parser_load_nodes :: "'h event_fetcher \<Rightarrow> nat \<Rightarrow> int list \<Rightarrow> 'h yaml_parser \<Rightarrow> (unit, 'h yaml_parser) res" where
  "yaml_parser_load_nodes E 0 ctx P = Hang"
| "yaml_parser_load_nodes E (Suc n) ctx P =
     res_bind (E P) (\<lambda>event P.
     res_bind (load_event event ctx P) (\<lambda>ctx P.
       case ev_data event of
         YAML_DOCUMENT_END_EVENT implicit \<Rightarrow>
           res_bind (the_document P) (\<lambda>d P.
             Ok () (P\<lparr>document := Some (d\<lparr>end_implicit := implicit, doc_end_mark := ev_end_mark event\<rparr>)\<rparr>))
       | _ \<Rightarrow> yaml_parser_load_nodes E n ctx P))"

definition yaml_parser_load_document :: "'h event_fetcher \<Rightarrow> nat \<Rightarrow> yaml_event \<Rightarrow> 'h yaml_parser
    \<Rightarrow> (unit, 'h yaml_parser) res" where
  "yaml_parser_load_document E n event P =
     (case ev_data event of
        YAML_DOCUMENT_START_EVENT vd tds implicit \<Rightarrow>
          res_bind (the_document P) (\<lambda>d P.
          res_bind (allocate (P\<lparr>document := Some (d\<lparr>version_directive := vd, doc_tag_directives := tds,
              start_implicit := implicit, doc_start_mark := ev_start_mark event\<rparr>)\<rparr>)) (\<lambda>_ P.
            yaml_parser_load_nodes E n [] P))
      | _ \<Rightarrow> Abort)"

text \<open>The error path of \<open>yaml_parser_load\<close>, and its body.\<close>

definition load_failed :: "'h yaml_parser \<Rightarrow> 'h yaml_parser" where
  "load_failed P = (yaml_parser_delete_aliases P)\<lparr>document := None\<rparr>"

definition load_stream_start :: "'h event_fetcher \<Rightarrow> 'h yaml_parser \<Rightarrow> (unit, 'h yaml_parser) res" where
  "load_stream_start E P =
     (if stream_start_produced P then Ok () P
      else res_bind (E P) (\<lambda>event P.
        case ev_data event of YAML_STREAM_START_EVENT _ \<Rightarrow> Ok () P | _ \<Rightarrow> Abort))"

definition load_body :: "'h event_fetcher \<Rightarrow> nat \<Rightarrow> 'h yaml_parser \<Rightarrow> (yaml_document, 'h yaml_parser) res" where
  "load_body E n P =
     res_bind (allocate P) (\<lambda>_ P.
     res_bind (load_stream_start E P) (\<lambda>_ P.
       if stream_end_produced P then Ok zero_document P
       else
         res_bind (E P) (\<lambda>event P.
           if ev_data event = YAML_STREAM_END_EVENT then Ok zero_document P
           else
             res_bind (allocate P) (\<lambda>_ P.
             res_bind (yaml_parser_load_document E n event (P\<lparr>aliases := [], document := Some zero_document\<rparr>)) (\<lambda>_ P.
             res_bind (the_document P) (\<lambda>d P.
               Ok d ((yaml_parser_delete_aliases P)\<lparr>document := None\<rparr>)))))))"

definition yaml_parser_load :: "'h event_fetcher \<Rightarrow> nat \<Rightarrow> 'h yaml_parser \<Rightarrow> (yaml_document, 'h yaml_parser) res" where
  "yaml_parser_load E n P =
     (case load_body E n P of Fail P' \<Rightarrow> Fail (load_failed P') | r \<Rightarrow> r)"

end
