(* ===== verification/Yaml_Events.thy ===== *)
theory Yaml_Events
  imports Yaml_Types
begin

text \<open>
  The specification of the parser: the grammar of events as a machine with a stack, and the
  proof that it accepts exactly the events of lists of document trees.
\<close>

section \<open>The grammar of events\<close>

text \<open>
  What the parser promises to its callers (\<^verbatim>\<open>include/yaml.h\<close> and the productions at the head of
  \<^verbatim>\<open>src/parser.c\<close>): a stream is a start, documents and an end; a document is a start, one node
  and an end; a node is an alias, a scalar, or a sequence or mapping with its contents.  The
  open collections are a stack of frames, each of which says what may come next: the root node
  of a document, an entry of a sequence or its end, a key of a mapping or its end, the value for
  the last key.
\<close>

datatype frame = FRoot | FSeq | FKey | FVal

datatype gstate = GStream | GDocs | GDoc "frame list" | GEnd

text \<open>The stack after a node was completed or begun in the top frame.\<close>

fun advance :: "frame list \<Rightarrow> frame list" where
  "advance [] = []"
| "advance (FRoot # fs) = fs"
| "advance (FSeq # fs) = FSeq # fs"
| "advance (FKey # fs) = FVal # fs"
| "advance (FVal # fs) = FKey # fs"

fun ev_step :: "gstate \<Rightarrow> yaml_event_data \<Rightarrow> gstate option" where
  "ev_step GStream (YAML_STREAM_START_EVENT _) = Some GDocs"
| "ev_step GDocs (YAML_DOCUMENT_START_EVENT _ _ _) = Some (GDoc [FRoot])"
| "ev_step GDocs YAML_STREAM_END_EVENT = Some GEnd"
| "ev_step (GDoc []) (YAML_DOCUMENT_END_EVENT _) = Some GDocs"
| "ev_step (GDoc (f # fs)) (YAML_ALIAS_EVENT _) = Some (GDoc (advance (f # fs)))"
| "ev_step (GDoc (f # fs)) (YAML_SCALAR_EVENT _ _ _ _ _ _) = Some (GDoc (advance (f # fs)))"
| "ev_step (GDoc (f # fs)) (YAML_SEQUENCE_START_EVENT _ _ _ _) = Some (GDoc (FSeq # advance (f # fs)))"
| "ev_step (GDoc (f # fs)) (YAML_MAPPING_START_EVENT _ _ _ _) = Some (GDoc (FKey # advance (f # fs)))"
| "ev_step (GDoc (FSeq # fs)) YAML_SEQUENCE_END_EVENT = Some (GDoc fs)"
| "ev_step (GDoc (FKey # fs)) YAML_MAPPING_END_EVENT = Some (GDoc fs)"
| "ev_step _ _ = None"

fun ev_run :: "gstate \<Rightarrow> yaml_event_data list \<Rightarrow> gstate option" where
  "ev_run g [] = Some g"
| "ev_run g (e # es) = (case ev_step g e of None \<Rightarrow> None | Some g' \<Rightarrow> ev_run g' es)"

lemma ev_run_append: "ev_run g (es @ fs) = (case ev_run g es of None \<Rightarrow> None | Some g' \<Rightarrow> ev_run g' fs)"
  by (induction es arbitrary: g) (auto split: option.splits)

section \<open>The trees behind the events\<close>

text \<open>
  The declarative reading of the grammar: trees, written out as events.  The machine accepts
  exactly these sequences.
\<close>

datatype ytree =
    YLeaf yaml_event_data
  | YSeq yaml_event_data "ytree list"
  | YMap yaml_event_data "(ytree \<times> ytree) list"

fun is_leaf_event :: "yaml_event_data \<Rightarrow> bool" where
  "is_leaf_event (YAML_ALIAS_EVENT _) = True"
| "is_leaf_event (YAML_SCALAR_EVENT _ _ _ _ _ _) = True"
| "is_leaf_event _ = False"

fun is_seq_start :: "yaml_event_data \<Rightarrow> bool" where
  "is_seq_start (YAML_SEQUENCE_START_EVENT _ _ _ _) = True"
| "is_seq_start _ = False"

fun is_map_start :: "yaml_event_data \<Rightarrow> bool" where
  "is_map_start (YAML_MAPPING_START_EVENT _ _ _ _) = True"
| "is_map_start _ = False"

fun tree_ok :: "ytree \<Rightarrow> bool" where
  "tree_ok (YLeaf e) = is_leaf_event e"
| "tree_ok (YSeq e ts) = (is_seq_start e \<and> list_all tree_ok ts)"
| "tree_ok (YMap e ps) = (is_map_start e \<and> list_all (\<lambda>(k, v). tree_ok k \<and> tree_ok v) ps)"

fun events_of :: "ytree \<Rightarrow> yaml_event_data list" where
  "events_of (YLeaf e) = [e]"
| "events_of (YSeq e ts) = e # concat (map events_of ts) @ [YAML_SEQUENCE_END_EVENT]"
| "events_of (YMap e ps) = e # concat (map (\<lambda>(k, v). events_of k @ events_of v) ps) @ [YAML_MAPPING_END_EVENT]"

lemma leaf_step: "is_leaf_event e \<Longrightarrow> ev_step (GDoc (f # fs)) e = Some (GDoc (advance (f # fs)))"
  by (cases e) auto
lemma seq_step: "is_seq_start e \<Longrightarrow> ev_step (GDoc (f # fs)) e = Some (GDoc (FSeq # advance (f # fs)))"
  by (cases e) auto
lemma map_step: "is_map_start e \<Longrightarrow> ev_step (GDoc (f # fs)) e = Some (GDoc (FKey # advance (f # fs)))"
  by (cases e) auto

text \<open>Every tree is accepted where a node may come.\<close>

lemma ev_run_seq_entries:
  assumes "\<And>t f fs. t \<in> set ts \<Longrightarrow> tree_ok t \<Longrightarrow> ev_run (GDoc (f # fs)) (events_of t) = Some (GDoc (advance (f # fs)))"
    and "list_all tree_ok ts"
  shows "ev_run (GDoc (FSeq # fs)) (concat (map events_of ts)) = Some (GDoc (FSeq # fs))"
  using assms by (induction ts) (auto simp: ev_run_append)

lemma ev_run_map_entries:
  assumes "\<And>t f fs. t \<in> fst ` set ps \<union> snd ` set ps \<Longrightarrow> tree_ok t \<Longrightarrow>
      ev_run (GDoc (f # fs)) (events_of t) = Some (GDoc (advance (f # fs)))"
    and "list_all (\<lambda>(k, v). tree_ok k \<and> tree_ok v) ps"
  shows "ev_run (GDoc (FKey # fs)) (concat (map (\<lambda>(k, v). events_of k @ events_of v) ps)) = Some (GDoc (FKey # fs))"
  using assms
proof (induction ps)
  case (Cons p ps)
  have "ev_run (GDoc (FKey # fs)) (concat (map (\<lambda>(k, v). events_of k @ events_of v) ps)) = Some (GDoc (FKey # fs))"
    using Cons.prems by (intro Cons.IH) auto
  then show ?case
    using Cons.prems(1) [of "fst p"] Cons.prems(1) [of "snd p"] Cons.prems(2) by (cases p) (auto simp: ev_run_append)
qed simp

lemma ev_run_tree: "tree_ok t \<Longrightarrow> ev_run (GDoc (f # fs)) (events_of t) = Some (GDoc (advance (f # fs)))"
proof (induction t arbitrary: f fs)
  case (YLeaf e)
  then show ?case by (simp add: leaf_step)
next
  case (YSeq e ts)
  then show ?case using ev_run_seq_entries [of ts "advance (f # fs)"] by (simp add: seq_step ev_run_append)
next
  case (YMap e ps)
  have "ev_run (GDoc (FKey # advance (f # fs))) (concat (map (\<lambda>(k, v). events_of k @ events_of v) ps))
      = Some (GDoc (FKey # advance (f # fs)))"
  proof (rule ev_run_map_entries)
    fix t f fs assume "t \<in> fst ` set ps \<union> snd ` set ps" "tree_ok t"
    then show "ev_run (GDoc (f # fs)) (events_of t) = Some (GDoc (advance (f # fs)))"
      using YMap.IH by (fastforce simp: prod_set_simps)
  qed (use YMap.prems in simp)
  then show ?case using YMap.prems by (simp add: map_step ev_run_append)
qed


text \<open>What closes the frames of a stack: the rest of each open collection, from the top down.\<close>

inductive closes :: "frame list \<Rightarrow> yaml_event_data list \<Rightarrow> bool" where
  closes_done: "closes [] []"
| closes_root: "tree_ok t \<Longrightarrow> closes fs es \<Longrightarrow> closes (FRoot # fs) (events_of t @ es)"
| closes_seq: "list_all tree_ok ts \<Longrightarrow> closes fs es \<Longrightarrow>
    closes (FSeq # fs) (concat (map events_of ts) @ YAML_SEQUENCE_END_EVENT # es)"
| closes_key: "list_all (\<lambda>(k, v). tree_ok k \<and> tree_ok v) ps \<Longrightarrow> closes fs es \<Longrightarrow>
    closes (FKey # fs) (concat (map (\<lambda>(k, v). events_of k @ events_of v) ps) @ YAML_MAPPING_END_EVENT # es)"
| closes_val: "tree_ok v \<Longrightarrow> closes (FKey # fs) es \<Longrightarrow> closes (FVal # fs) (events_of v @ es)"

inductive_cases closes_nilE: "closes [] es"
inductive_cases closes_rootE: "closes (FRoot # fs) es"
inductive_cases closes_seqE: "closes (FSeq # fs) es"
inductive_cases closes_keyE: "closes (FKey # fs) es"
inductive_cases closes_valE: "closes (FVal # fs) es"

lemma closes_advance:
  assumes "closes (advance (f # fs)) es" and "tree_ok t"
  shows "closes (f # fs) (events_of t @ es)"
proof (cases f)
  case FSeq
  with assms(1) obtain ts es' where "list_all tree_ok ts" "closes fs es'"
      "es = concat (map events_of ts) @ YAML_SEQUENCE_END_EVENT # es'"
    by (auto elim: closes_seqE)
  then show ?thesis using closes_seq [of "t # ts" fs es'] assms(2) FSeq by simp
next
  case FKey
  with assms(1) obtain v es' where v: "tree_ok v" "closes (FKey # fs) es'" "es = events_of v @ es'"
    by (auto elim: closes_valE)
  from v(2) obtain ps es'' where "list_all (\<lambda>(k, v). tree_ok k \<and> tree_ok v) ps" "closes fs es''"
      "es' = concat (map (\<lambda>(k, v). events_of k @ events_of v) ps) @ YAML_MAPPING_END_EVENT # es''"
    by (auto elim: closes_keyE)
  then show ?thesis using closes_key [of "(t, v) # ps" fs es''] assms(2) v FKey by simp
qed (use assms in \<open>auto intro: closes_root closes_val\<close>)

lemma closes_step:
  assumes "ev_step (GDoc fs) e = Some (GDoc fs')" and "closes fs' es"
  shows "closes fs (e # es)"
proof (cases fs)
  case Nil
  then show ?thesis using assms(1) by (cases e) auto
next
  case (Cons f gs)
  consider "is_leaf_event e" | "is_seq_start e" | "is_map_start e" | "e = YAML_SEQUENCE_END_EVENT" "f = FSeq" "fs' = gs"
    | "e = YAML_MAPPING_END_EVENT" "f = FKey" "fs' = gs"
    using assms(1) Cons by (cases e; cases f) auto
  then show ?thesis
  proof cases
    case 1
    then show ?thesis using closes_advance [of f gs es "YLeaf e"] assms Cons by (simp add: leaf_step)
  next
    case 2
    then have "closes (FSeq # advance (f # gs)) es" using assms Cons by (simp add: seq_step)
    then obtain ts es' where "list_all tree_ok ts" "closes (advance (f # gs)) es'"
        "es = concat (map events_of ts) @ YAML_SEQUENCE_END_EVENT # es'"
      by (auto elim: closes_seqE)
    then show ?thesis using closes_advance [of f gs es' "YSeq e ts"] 2 Cons by simp
  next
    case 3
    then have "closes (FKey # advance (f # gs)) es" using assms Cons by (simp add: map_step)
    then obtain ps es' where "list_all (\<lambda>(k, v). tree_ok k \<and> tree_ok v) ps" "closes (advance (f # gs)) es'"
        "es = concat (map (\<lambda>(k, v). events_of k @ events_of v) ps) @ YAML_MAPPING_END_EVENT # es'"
      by (auto elim: closes_keyE)
    then show ?thesis using closes_advance [of f gs es' "YMap e ps"] 3 Cons by simp
  next
    case 4
    then show ?thesis using closes_seq [of "[]" gs es] assms(2) Cons by simp
  next
    case 5
    then show ?thesis using closes_key [of "[]" gs es] assms(2) Cons by simp
  qed
qed

text \<open>A document: its start event, its root and its end event.\<close>

fun is_doc_start :: "yaml_event_data \<Rightarrow> bool" where
  "is_doc_start (YAML_DOCUMENT_START_EVENT _ _ _) = True"
| "is_doc_start _ = False"

fun is_doc_end :: "yaml_event_data \<Rightarrow> bool" where
  "is_doc_end (YAML_DOCUMENT_END_EVENT _) = True"
| "is_doc_end _ = False"

fun doc_ok :: "yaml_event_data \<times> ytree \<times> yaml_event_data \<Rightarrow> bool" where
  "doc_ok (b, t, e) = (is_doc_start b \<and> tree_ok t \<and> is_doc_end e)"

fun doc_events :: "yaml_event_data \<times> ytree \<times> yaml_event_data \<Rightarrow> yaml_event_data list" where
  "doc_events (b, t, e) = b # events_of t @ [e]"

definition docs_events :: "(yaml_event_data \<times> ytree \<times> yaml_event_data) list \<Rightarrow> yaml_event_data list" where
  "docs_events docs = concat (map doc_events docs) @ [YAML_STREAM_END_EVENT]"

fun completes :: "gstate \<Rightarrow> yaml_event_data list \<Rightarrow> bool" where
  "completes GStream es = (\<exists>enc docs. list_all doc_ok docs \<and> es = YAML_STREAM_START_EVENT enc # docs_events docs)"
| "completes GDocs es = (\<exists>docs. list_all doc_ok docs \<and> es = docs_events docs)"
| "completes (GDoc fs) es = (\<exists>es' d docs. closes fs es' \<and> is_doc_end d \<and> list_all doc_ok docs \<and> es = es' @ d # docs_events docs)"
| "completes GEnd es = (es = [])"

lemma ev_run_completes: "ev_run g es = Some GEnd \<Longrightarrow> completes g es"
proof (induction es arbitrary: g)
  case Nil
  then show ?case by simp
next
  case (Cons e es)
  then obtain g' where g': "ev_step g e = Some g'" "completes g' es" by (auto split: option.splits)
  show ?case
  proof (cases g)
    case GStream
    then show ?thesis using g' by (cases e) auto
  next
    case GDocs
    show ?thesis
    proof (cases "e = YAML_STREAM_END_EVENT")
      case True
      then show ?thesis using g' GDocs by (auto simp: docs_events_def intro: exI [of _ "[]"])
    next
      case False
      then have e: "is_doc_start e" "g' = GDoc [FRoot]" using g'(1) GDocs by (cases e; simp)+
      then obtain es' d docs where *: "closes [FRoot] es'" "is_doc_end d" "list_all doc_ok docs" "es = es' @ d # docs_events docs"
        using g'(2) by auto
      from *(1) obtain t where "tree_ok t" "es' = events_of t" by (auto elim!: closes_rootE closes_nilE)
      then show ?thesis using * e GDocs by (auto simp: docs_events_def intro!: exI [of _ "(e, t, d) # docs"])
    qed
  next
    case (GDoc fs)
    show ?thesis
    proof (cases g')
      case (GDoc fs')
      then show ?thesis using g' \<open>g = GDoc fs\<close> closes_step [of fs e fs'] by fastforce
    next
      case GDocs
      then have "fs = []" "is_doc_end e" using g'(1) \<open>g = GDoc fs\<close> by (cases fs; cases e; cases "hd fs"; auto)+
      then show ?thesis using g'(2) GDocs \<open>g = GDoc fs\<close> closes_done by fastforce
    qed (use g'(1) \<open>g = GDoc fs\<close> in \<open>cases fs; cases e; cases "hd fs"; auto\<close>)+
  next
    case GEnd
    then show ?thesis using g' by (cases e) auto
  qed
qed

lemma ev_run_docs: "list_all doc_ok docs \<Longrightarrow> ev_run GDocs (docs_events docs) = Some GEnd"
proof (induction docs)
  case (Cons d docs)
  obtain b t e where d: "d = (b, t, e)" by (cases d)
  then have "ev_step GDocs b = Some (GDoc [FRoot])" "ev_step (GDoc []) e = Some GDocs" "tree_ok t"
    using Cons.prems by (cases b; cases e; simp)+
  then show ?case using Cons d ev_run_tree [of t FRoot "[]"] by (simp add: docs_events_def ev_run_append)
qed (simp add: docs_events_def)

lemma ev_run_iff_trees:
  "ev_run GStream es = Some GEnd \<longleftrightarrow>
     (\<exists>enc docs. list_all doc_ok docs \<and> es = YAML_STREAM_START_EVENT enc # docs_events docs)"
  using ev_run_completes [of GStream es] ev_run_docs by auto

end
