(* ===== verification/Yaml_Compose.thy ===== *)
theory Yaml_Compose
  imports Yaml_Loader Yaml_Events
begin

text \<open>
  What the loader computes, without its memory and its errors: the tree of a document is composed
  into an array of nodes that refer to each other by index (\<open>compose\<close>), and the same array grows
  event by event (\<open>compose_run\<close>).  The indices of a composed tree are valid, and both ways of
  composing agree.
\<close>

section \<open>Documents as arrays of nodes\<close>

text \<open>A node without its marks.\<close>

type_synonym node_view = "yaml_node_data \<times> ystr"

definition view :: "yaml_node \<Rightarrow> node_view" where
  "view nd = (node_data nd, node_tag nd)"

text \<open>The anchors that were seen, with the index of their nodes.\<close>

type_synonym anchors = "(ystr \<times> int) list"

definition anchors_of :: "yaml_alias_data list \<Rightarrow> anchors" where
  "anchors_of as = map (\<lambda>d. (cstr (ad_anchor d), ad_index d)) as"

definition register :: "ystr option \<Rightarrow> int \<Rightarrow> anchors \<Rightarrow> anchors option" where
  "register anchor i env =
     (case anchor of None \<Rightarrow> Some env
      | Some a \<Rightarrow> if map_of env (cstr a) = None then Some (env @ [(cstr a, i)]) else None)"

definition tag_or :: "string \<Rightarrow> ystr option \<Rightarrow> ystr" where
  "tag_or def tag = (case tag of None \<Rightarrow> octets def | Some t \<Rightarrow> if cstr t = octets ''!'' then octets def else t)"

text \<open>The tree of a document, composed: the index of its root, its nodes in the order of the
  document, and the anchors after it.  The result is \<open>None\<close> for an alias without an anchor and
  for an anchor that is there twice.\<close>

definition compose_leaf :: "yaml_event_data \<Rightarrow> anchors \<Rightarrow> int \<Rightarrow> (int \<times> node_view list \<times> anchors) option" where
  "compose_leaf e env k =
     (case e of
        YAML_ALIAS_EVENT a \<Rightarrow> map_option (\<lambda>i. (i, [], env)) (map_of env (cstr a))
      | YAML_SCALAR_EVENT a t v _ _ s \<Rightarrow>
          map_option (\<lambda>env. (k, [(YAML_SCALAR_NODE v s, tag_or YAML_STR_TAG t)], env)) (register a k env)
      | _ \<Rightarrow> None)"

definition seq_head :: "yaml_event_data \<Rightarrow> (ystr option \<times> (int list \<Rightarrow> node_view)) option" where
  "seq_head e =
     (case e of YAML_SEQUENCE_START_EVENT a t _ s \<Rightarrow> Some (a, \<lambda>is. (YAML_SEQUENCE_NODE is s, tag_or YAML_SEQ_TAG t))
      | _ \<Rightarrow> None)"

definition map_head :: "yaml_event_data \<Rightarrow> (ystr option \<times> ((int \<times> int) list \<Rightarrow> node_view)) option" where
  "map_head e =
     (case e of YAML_MAPPING_START_EVENT a t _ s \<Rightarrow> Some (a, \<lambda>ps. (YAML_MAPPING_NODE ps s, tag_or YAML_MAP_TAG t))
      | _ \<Rightarrow> None)"

text \<open>A collection is registered before its children are composed, which follow it in the array.\<close>

definition compose_collection :: "(ystr option \<times> ('c \<Rightarrow> node_view)) option \<Rightarrow> (anchors \<Rightarrow> int \<Rightarrow> ('c \<times> node_view list \<times> anchors) option)
    \<Rightarrow> anchors \<Rightarrow> int \<Rightarrow> (int \<times> node_view list \<times> anchors) option" where
  "compose_collection head children env k =
     Option.bind head (\<lambda>(a, mk).
     Option.bind (register a k env) (\<lambda>env.
     Option.bind (children env (k + 1)) (\<lambda>(cs, ns, env). Some (k, mk cs # ns, env))))"

definition compose_then :: "(anchors \<Rightarrow> int \<Rightarrow> ('a \<times> node_view list \<times> anchors) option) \<Rightarrow> (anchors \<Rightarrow> int \<Rightarrow> ('b \<times> node_view list \<times> anchors) option)
    \<Rightarrow> ('a \<Rightarrow> 'b \<Rightarrow> 'c) \<Rightarrow> anchors \<Rightarrow> int \<Rightarrow> ('c \<times> node_view list \<times> anchors) option" where
  "compose_then f g mk env k =
     Option.bind (f env k) (\<lambda>(x, ns, env).
     Option.bind (g env (k + int (length ns))) (\<lambda>(y, ns', env). Some (mk x y, ns @ ns', env)))"

function (sequential) compose :: "ytree \<Rightarrow> anchors \<Rightarrow> int \<Rightarrow> (int \<times> node_view list \<times> anchors) option"
  and compose_items :: "ytree list \<Rightarrow> anchors \<Rightarrow> int \<Rightarrow> (int list \<times> node_view list \<times> anchors) option"
  and compose_pairs :: "(ytree \<times> ytree) list \<Rightarrow> anchors \<Rightarrow> int \<Rightarrow> ((int \<times> int) list \<times> node_view list \<times> anchors) option"
  where
  "compose (YLeaf e) = compose_leaf e"
| "compose (YSeq e ts) = compose_collection (seq_head e) (compose_items ts)"
| "compose (YMap e ps) = compose_collection (map_head e) (compose_pairs ps)"
| "compose_items [] = (\<lambda>env k. Some ([], [], env))"
| "compose_items (t # ts) = compose_then (compose t) (compose_items ts) (#)"
| "compose_pairs [] = (\<lambda>env k. Some ([], [], env))"
| "compose_pairs ((t, u) # ps) = compose_then (compose_then (compose t) (compose u) Pair) (compose_pairs ps) (#)"
  by pat_completeness auto

termination
  by (relation "measure (case_sum size (case_sum (size_list size) (size_list (size_prod size size))))") auto

section \<open>Composing event by event\<close>

text \<open>The last pair of a mapping whose value is missing.\<close>

definition open_pair :: "(int \<times> int) list \<Rightarrow> bool" where
  "open_pair ps \<longleftrightarrow> ps \<noteq> [] \<and> fst (last ps) \<noteq> 0 \<and> snd (last ps) = 0"

fun add_item :: "int \<Rightarrow> node_view \<Rightarrow> node_view" where
  "add_item i (YAML_SEQUENCE_NODE is s, t) = (YAML_SEQUENCE_NODE (is @ [i]) s, t)"
| "add_item i (YAML_MAPPING_NODE ps s, t) =
     (YAML_MAPPING_NODE (if open_pair ps then butlast ps @ [(fst (last ps), i)] else ps @ [(i, 0)]) s, t)"
| "add_item i n = n"

definition add_child :: "int list \<Rightarrow> int \<Rightarrow> node_view list \<Rightarrow> node_view list" where
  "add_child ctx i ns = (if ctx = [] then ns else ns[nat (last ctx - 1) := add_item i (ns ! nat (last ctx - 1))])"

type_synonym loading = "node_view list \<times> anchors \<times> int list"

fun compose_step :: "yaml_event_data \<Rightarrow> loading \<Rightarrow> loading option" where
  "compose_step (YAML_ALIAS_EVENT a) (ns, env, ctx) =
     map_option (\<lambda>i. (add_child ctx i ns, env, ctx)) (map_of env (cstr a))"
| "compose_step (YAML_SCALAR_EVENT a t v _ _ s) (ns, env, ctx) =
     (let k = int (length ns) + 1 in
      map_option (\<lambda>env. (add_child ctx k (ns @ [(YAML_SCALAR_NODE v s, tag_or YAML_STR_TAG t)]), env, ctx)) (register a k env))"
| "compose_step (YAML_SEQUENCE_START_EVENT a t _ s) (ns, env, ctx) =
     (let k = int (length ns) + 1 in
      map_option (\<lambda>env. (add_child ctx k (ns @ [(YAML_SEQUENCE_NODE [] s, tag_or YAML_SEQ_TAG t)]), env, ctx @ [k])) (register a k env))"
| "compose_step (YAML_MAPPING_START_EVENT a t _ s) (ns, env, ctx) =
     (let k = int (length ns) + 1 in
      map_option (\<lambda>env. (add_child ctx k (ns @ [(YAML_MAPPING_NODE [] s, tag_or YAML_MAP_TAG t)]), env, ctx @ [k])) (register a k env))"
| "compose_step YAML_SEQUENCE_END_EVENT (ns, env, ctx) = Some (ns, env, butlast ctx)"
| "compose_step YAML_MAPPING_END_EVENT (ns, env, ctx) = Some (ns, env, butlast ctx)"
| "compose_step _ _ = None"

fun compose_run :: "yaml_event_data list \<Rightarrow> loading \<Rightarrow> loading option" where
  "compose_run [] s = Some s"
| "compose_run (e # es) s = Option.bind (compose_step e s) (compose_run es)"

lemma compose_run_append: "compose_run (es @ fs) s = Option.bind (compose_run es s) (compose_run fs)"
  by (induction es arbitrary: s) (auto split: bind_split)

definition ctx_ok :: "node_view list \<Rightarrow> int list \<Rightarrow> bool" where
  "ctx_ok ns ctx \<longleftrightarrow> (\<forall>i \<in> set ctx. 1 \<le> i \<and> i \<le> int (length ns))"

lemma length_add_child [simp]: "length (add_child ctx i ns) = length ns"
  by (simp add: add_child_def)

lemma add_child_append: "ctx_ok ns ctx \<Longrightarrow> add_child ctx i (ns @ ms) = add_child ctx i ns @ ms"
proof (cases "ctx = []")
  case False
  assume "ctx_ok ns ctx"
  then have "nat (last ctx - 1) < length ns" using last_in_set [OF False] by (fastforce simp: ctx_ok_def)
  then show ?thesis using False by (simp add: add_child_def list_update_append nth_append)
qed (simp add: add_child_def)

lemma ctx_ok_longer: "ctx_ok ns ctx \<Longrightarrow> length ns \<le> length ms \<Longrightarrow> ctx_ok ms ctx"
  by (auto simp: ctx_ok_def)

definition env_ok :: "anchors \<Rightarrow> int \<Rightarrow> bool" where
  "env_ok env k \<longleftrightarrow> (\<forall>(a, i) \<in> set env. 1 \<le> i \<and> i \<le> k)"

lemma env_ok_longer: "env_ok env k \<Longrightarrow> k \<le> k' \<Longrightarrow> env_ok env k'"
  by (auto simp: env_ok_def)

lemma env_ok_register: "register a i env = Some env' \<Longrightarrow> env_ok env k \<Longrightarrow> 1 \<le> i \<Longrightarrow> i \<le> k' \<Longrightarrow> k \<le> k' \<Longrightarrow> env_ok env' k'"
  by (fastforce simp: register_def env_ok_def split: option.splits if_splits)

lemma env_ok_lookup: "env_ok env k \<Longrightarrow> map_of env a = Some i \<Longrightarrow> 1 \<le> i \<and> i \<le> k"
  by (auto simp: env_ok_def dest: map_of_SomeD)

text \<open>The indices of a composed tree lie in the array that it belongs to.\<close>

definition child_ok :: "int \<Rightarrow> node_view \<Rightarrow> bool" where
  "child_ok k n = (case fst n of
       YAML_SEQUENCE_NODE is _ \<Rightarrow> \<forall>i \<in> set is. 1 \<le> i \<and> i \<le> k
     | YAML_MAPPING_NODE ps _ \<Rightarrow> \<forall>(i, j) \<in> set ps. 1 \<le> i \<and> i \<le> k \<and> 1 \<le> j \<and> j \<le> k
     | YAML_SCALAR_NODE _ _ \<Rightarrow> True
     | YAML_NO_NODE \<Rightarrow> False)"

lemma child_ok_longer: "child_ok k n \<Longrightarrow> k \<le> k' \<Longrightarrow> child_ok k' n"
  by (fastforce simp: child_ok_def split: yaml_node_data.splits)

text \<open>What a composition yields, for one tree, items or pairs.\<close>

definition composes :: "(int \<Rightarrow> 'c \<Rightarrow> bool) \<Rightarrow> (anchors \<Rightarrow> int \<Rightarrow> ('c \<times> node_view list \<times> anchors) option) \<Rightarrow> bool" where
  "composes Q f \<longleftrightarrow> (\<forall>env k x ns env'. f env k = Some (x, ns, env') \<and> 1 \<le> k \<and> env_ok env (k - 1) \<longrightarrow>
     (let m = k - 1 + int (length ns) in env_ok env' m \<and> Q m x \<and> list_all (child_ok m) ns))"

definition index_ok :: "int \<Rightarrow> int \<Rightarrow> bool" where
  "index_ok k i \<longleftrightarrow> 1 \<le> i \<and> i \<le> k"

lemma composes_leaf: "composes index_ok (compose_leaf e)"
  unfolding composes_def compose_leaf_def
  by (auto split: yaml_event_data.splits simp: child_ok_def index_ok_def intro: env_ok_register dest: env_ok_lookup)

lemma composes_collection:
  assumes "composes Q f" and "\<And>a mk m cs. head = Some (a, mk) \<Longrightarrow> Q m cs \<Longrightarrow> child_ok m (mk cs)"
  shows "composes index_ok (compose_collection head f)"
  unfolding composes_def compose_collection_def
proof (intro allI impI, elim conjE)
  fix env k x ns env'
  assume *: "Option.bind head (\<lambda>(a, mk). Option.bind (register a k env) (\<lambda>env.
     Option.bind (f env (k + 1)) (\<lambda>(cs, ns, env). Some (k, mk cs # ns, env)))) = Some (x, ns, env')" "1 \<le> k" "env_ok env (k - 1)"
  then obtain a mk env1 cs ns' where f: "head = Some (a, mk)" "register a k env = Some env1" "f env1 (k + 1) = Some (cs, ns', env')"
    "x = k" "ns = mk cs # ns'"
    by (auto split: bind_splits)
  have "env_ok env1 k" using env_ok_register [OF f(2) *(3), of k] *(2) by simp
  then have "env_ok env' (k + int (length ns')) \<and> Q (k + int (length ns')) cs \<and> list_all (child_ok (k + int (length ns'))) ns'"
    using assms(1) f(3) *(2) unfolding composes_def by (fastforce simp: Let_def)
  then show "let m = k - 1 + int (length ns) in env_ok env' m \<and> index_ok m x \<and> list_all (child_ok m) ns"
    using assms(2) [OF f(1)] f(4,5) *(2) by (auto simp: Let_def index_ok_def algebra_simps)
qed

lemma composes_then:
  assumes "composes Q f" and "composes R g"
    and "\<And>m m' x y. Q m x \<Longrightarrow> R m' y \<Longrightarrow> m \<le> m' \<Longrightarrow> S m' (mk x y)"
  shows "composes S (compose_then f g mk)"
  unfolding composes_def compose_then_def
proof (intro allI impI, elim conjE)
  fix env k z ns env'
  assume *: "Option.bind (f env k) (\<lambda>(x, ns, env). Option.bind (g env (k + int (length ns))) (\<lambda>(y, ns', env). Some (mk x y, ns @ ns', env)))
     = Some (z, ns, env')" "1 \<le> k" "env_ok env (k - 1)"
  then obtain x y n1 n2 env1 where f: "f env k = Some (x, n1, env1)" "g env1 (k + int (length n1)) = Some (y, n2, env')"
    "z = mk x y" "ns = n1 @ n2"
    by (auto split: bind_splits)
  let ?m = "k - 1 + int (length n1)"
  have 1: "env_ok env1 ?m" "Q ?m x" "list_all (child_ok ?m) n1"
    using assms(1) f(1) *(2,3) unfolding composes_def by (fastforce simp: Let_def)+
  let ?n = "?m + int (length n2)"
  have 2: "env_ok env' ?n" "R ?n y" "list_all (child_ok ?n) n2"
    using assms(2) f(2) *(2) 1(1) unfolding composes_def by (fastforce simp: Let_def algebra_simps)+
  have "list_all (child_ok ?n) n1" using 1(3) child_ok_longer [of ?m] by (auto simp: list_all_iff)
  then show "let m = k - 1 + int (length ns) in env_ok env' m \<and> S m z \<and> list_all (child_ok m) ns"
    using 2 assms(3) [OF 1(2) 2(2)] f(3,4) by (auto simp: Let_def algebra_simps)
qed

lemma composes_tree:
  "composes index_ok (compose t)" "composes (\<lambda>k is. list_all (index_ok k) is) (compose_items ts)"
  "composes (\<lambda>k ps. list_all (\<lambda>(i, j). index_ok k i \<and> index_ok k j) ps) (compose_pairs ps)"
proof (induction t and ts and ps rule: compose_compose_items_compose_pairs.induct)
  case (1 e)
  then show ?case by (simp add: composes_leaf)
next
  case (2 e ts)
  then show ?case
    unfolding compose.simps by (rule composes_collection) (auto simp: seq_head_def child_ok_def list_all_iff index_ok_def split: yaml_event_data.splits)
next
  case (3 e ps)
  then show ?case
    unfolding compose.simps by (rule composes_collection) (auto simp: map_head_def child_ok_def list_all_iff index_ok_def split: yaml_event_data.splits)
next
  case (5 t ts)
  then show ?case unfolding compose_items.simps by (rule composes_then) (auto simp: list_all_iff index_ok_def)
next
  case (7 t u ps)
  have "composes (\<lambda>k (i, j). index_ok k i \<and> index_ok k j) (compose_then (compose t) (compose u) Pair)"
    using 7(1,2) by (rule composes_then) (auto simp: index_ok_def)
  then show ?case using 7(3) unfolding compose_pairs.simps by (rule composes_then) (auto simp: list_all_iff index_ok_def)
qed (simp_all add: composes_def)

lemma composesD:
  assumes "composes Q f" and "f env k = Some (x, ns, env')" and "1 \<le> k" and "env_ok env (k - 1)"
  shows "env_ok env' (k - 1 + int (length ns))" and "Q (k - 1 + int (length ns)) x" and "list_all (child_ok (k - 1 + int (length ns))) ns"
  using assms unfolding composes_def Let_def by blast+

section \<open>Event by event is the same as tree by tree\<close>

text \<open>Children of the collection at the end of the context.\<close>

lemma add_child_last:
  assumes "k = int (length ns) + 1"
  shows "add_child (ctx @ [k]) i (ns @ n # rest) = ns @ add_item i n # rest"
  using assms by (simp add: add_child_def nth_append list_update_append)

lemma ctx_ok_snoc:
  assumes "ctx_ok ns ctx" and "k = int (length ns) + 1"
  shows "ctx_ok (ns @ n # rest) (ctx @ [k])"
  using assms by (auto simp: ctx_ok_def)

definition runs_tree :: "ytree \<Rightarrow> bool" where
  "runs_tree t \<longleftrightarrow> (\<forall>ns env ctx. ctx_ok ns ctx \<and> env_ok env (int (length ns)) \<longrightarrow>
     compose_run (events_of t) (ns, env, ctx)
       = map_option (\<lambda>(i, ms, env'). (add_child ctx i (ns @ ms), env', ctx)) (compose t env (int (length ns) + 1)))"

lemma runs_treeD:
  assumes "runs_tree t" and "ctx_ok ns ctx" and "env_ok env (int (length ns))" and "k = int (length ns) + 1"
  shows "compose_run (events_of t) (ns, env, ctx)
       = map_option (\<lambda>(i, ms, env'). (add_child ctx i (ns @ ms), env', ctx)) (compose t env k)"
  using assms unfolding runs_tree_def by blast

lemma run_items:
  assumes "\<And>t. t \<in> set ts \<Longrightarrow> runs_tree t" and "ctx_ok ns ctx" and "env_ok env (int (length ns) + 1 + int (length rest))"
    and "k = int (length ns) + 1"
  shows "compose_run (concat (map events_of ts)) (ns @ (YAML_SEQUENCE_NODE is s, tg) # rest, env, ctx @ [k])
     = map_option (\<lambda>(js, ms, env'). (ns @ (YAML_SEQUENCE_NODE (is @ js) s, tg) # rest @ ms, env', ctx @ [k]))
         (compose_items ts env (k + int (length rest) + 1))"
  using assms
proof (induction ts arbitrary: "is" env rest)
  case (Cons t ts)
  let ?ns = "ns @ (YAML_SEQUENCE_NODE is s, tg) # rest"
  have run: "compose_run (events_of t) (?ns, env, ctx @ [k])
     = map_option (\<lambda>(i, ms, env'). (ns @ (YAML_SEQUENCE_NODE (is @ [i]) s, tg) # rest @ ms, env', ctx @ [k])) (compose t env (k + int (length rest) + 1))"
    using Cons.prems runs_treeD [of t ?ns "ctx @ [k]" env "k + int (length rest) + 1"] ctx_ok_snoc [OF Cons.prems(2,4), of "(YAML_SEQUENCE_NODE is s, tg)" rest]
    by (simp add: add_child_last algebra_simps)
  show ?case
  proof (cases "compose t env (k + int (length rest) + 1)")
    case None
    then show ?thesis using run by (simp add: compose_run_append compose_then_def)
  next
    case (Some r)
    obtain i ms env' where r: "r = (i, ms, env')" by (cases r)
    have "env_ok env' (int (length ns) + 1 + int (length (rest @ ms)))"
      using composesD(1) [OF composes_tree(1) Some [unfolded r]] Cons.prems(3,4) by (simp add: algebra_simps)
    then have "compose_run (concat (map events_of ts)) (ns @ (YAML_SEQUENCE_NODE (is @ [i]) s, tg) # rest @ ms, env', ctx @ [k])
     = map_option (\<lambda>(js, ms', env'). (ns @ (YAML_SEQUENCE_NODE ((is @ [i]) @ js) s, tg) # (rest @ ms) @ ms', env', ctx @ [k]))
         (compose_items ts env' (k + int (length (rest @ ms)) + 1))"
      using Cons.prems by (intro Cons.IH) auto
    then show ?thesis
      using run Some r
      by (cases "compose_items ts env' (k + int (length (rest @ ms)) + 1)")
        (auto simp: compose_run_append compose_then_def algebra_simps)
  qed
qed simp

lemma run_pairs:
  assumes "\<And>t u. (t, u) \<in> set ps \<Longrightarrow> runs_tree t \<and> runs_tree u" and "ctx_ok ns ctx" and "env_ok env (int (length ns) + 1 + int (length rest))"
    and "k = int (length ns) + 1" and "\<not> open_pair qs"
  shows "compose_run (concat (map (\<lambda>(t, u). events_of t @ events_of u) ps)) (ns @ (YAML_MAPPING_NODE qs s, tg) # rest, env, ctx @ [k])
     = map_option (\<lambda>(js, ms, env'). (ns @ (YAML_MAPPING_NODE (qs @ js) s, tg) # rest @ ms, env', ctx @ [k]))
         (compose_pairs ps env (k + int (length rest) + 1))"
  using assms
proof (induction ps arbitrary: qs env rest)
  case (Cons p ps)
  obtain t u where p: "p = (t, u)" by (cases p)
  have tu: "runs_tree t" "runs_tree u" using Cons.prems(1) [of t u] p by simp_all
  let ?ns = "ns @ (YAML_MAPPING_NODE qs s, tg) # rest"
  have run: "compose_run (events_of t) (?ns, env, ctx @ [k])
     = map_option (\<lambda>(i, ms, env'). (ns @ (YAML_MAPPING_NODE (qs @ [(i, 0)]) s, tg) # rest @ ms, env', ctx @ [k])) (compose t env (k + int (length rest) + 1))"
    using Cons.prems(2-5) runs_treeD [OF tu(1), of ?ns "ctx @ [k]" env "k + int (length rest) + 1"] ctx_ok_snoc [OF Cons.prems(2,4), of "(YAML_MAPPING_NODE qs s, tg)" rest]
    by (simp add: add_child_last algebra_simps)
  show ?case
  proof (cases "compose t env (k + int (length rest) + 1)")
    case None
    then show ?thesis using run p by (simp add: compose_run_append compose_then_def)
  next
    case (Some r)
    obtain i ms env1 where r: "r = (i, ms, env1)" by (cases r)
    have env1: "env_ok env1 (int (length ns) + 1 + int (length (rest @ ms)))" and i: "1 \<le> i"
      using composesD(1,2) [OF composes_tree(1) Some [unfolded r]] Cons.prems(3,4) by (simp_all add: algebra_simps index_ok_def)
    let ?ms = "ns @ (YAML_MAPPING_NODE (qs @ [(i, 0)]) s, tg) # rest @ ms"
    have run2: "compose_run (events_of u) (?ms, env1, ctx @ [k])
     = map_option (\<lambda>(j, ms', env'). (ns @ (YAML_MAPPING_NODE (qs @ [(i, j)]) s, tg) # rest @ ms @ ms', env', ctx @ [k]))
         (compose u env1 (k + int (length rest) + 1 + int (length ms)))"
      using Cons.prems(2-5) env1 i runs_treeD [OF tu(2), of ?ms "ctx @ [k]" env1 "k + int (length rest) + 1 + int (length ms)"]
        ctx_ok_snoc [OF Cons.prems(2,4), of "(YAML_MAPPING_NODE (qs @ [(i, 0)]) s, tg)" "rest @ ms"]
      by (simp add: add_child_last open_pair_def algebra_simps)
    show ?thesis
    proof (cases "compose u env1 (k + int (length rest) + 1 + int (length ms))")
      case None
      then show ?thesis using run run2 Some r p by (simp add: compose_run_append compose_then_def)
    next
      case (Some r2)
      obtain j ms' env2 where r2: "r2 = (j, ms', env2)" by (cases r2)
      have env2: "env_ok env2 (int (length ns) + 1 + int (length (rest @ ms @ ms')))" and j: "1 \<le> j"
        using composesD(1,2) [OF composes_tree(1) Some [unfolded r2]] env1 Cons.prems(3,4) by (simp_all add: algebra_simps index_ok_def)
      have "compose_run (concat (map (\<lambda>(t, u). events_of t @ events_of u) ps)) (ns @ (YAML_MAPPING_NODE (qs @ [(i, j)]) s, tg) # (rest @ ms @ ms'), env2, ctx @ [k])
       = map_option (\<lambda>(js, ms'', env'). (ns @ (YAML_MAPPING_NODE ((qs @ [(i, j)]) @ js) s, tg) # (rest @ ms @ ms') @ ms'', env', ctx @ [k]))
           (compose_pairs ps env2 (k + int (length (rest @ ms @ ms')) + 1))"
        using Cons.prems env2 j by (intro Cons.IH) (auto simp: open_pair_def)
      then show ?thesis
        using run run2 \<open>compose t env (k + int (length rest) + 1) = Some r\<close> Some r r2 p
        by (cases "compose_pairs ps env2 (k + int (length (rest @ ms @ ms')) + 1)")
          (auto simp: compose_run_append compose_then_def algebra_simps)
    qed
  qed
qed simp

lemma run_tree: "tree_ok t \<Longrightarrow> runs_tree t"
proof (induction t)
  case (YLeaf e)
  then show ?case
    unfolding runs_tree_def
    by (cases e) (auto simp: compose_leaf_def Let_def map_conv_bind_option comp_def)
next
  case (YSeq e ts)
  obtain a tg b s where e: "e = YAML_SEQUENCE_START_EVENT a tg b s" using YSeq.prems by (cases e) auto
  show ?case
    unfolding runs_tree_def
  proof (intro allI impI, elim conjE)
    fix ns env ctx assume c: "ctx_ok ns ctx" "env_ok env (int (length ns))"
    let ?k = "int (length ns) + 1"
    show "compose_run (events_of (YSeq e ts)) (ns, env, ctx)
       = map_option (\<lambda>(i, ms, env'). (add_child ctx i (ns @ ms), env', ctx)) (compose (YSeq e ts) env ?k)"
    proof (cases "register a ?k env")
      case None
      then show ?thesis by (simp add: e compose_collection_def seq_head_def)
    next
      case (Some env1)
      let ?ms = "add_child ctx ?k ns"
      have "compose_run (concat (map events_of ts)) (?ms @ (YAML_SEQUENCE_NODE [] s, tag_or YAML_SEQ_TAG tg) # [], env1, ctx @ [?k])
         = map_option (\<lambda>(js, ms, env'). (?ms @ (YAML_SEQUENCE_NODE ([] @ js) s, tag_or YAML_SEQ_TAG tg) # [] @ ms, env', ctx @ [?k]))
             (compose_items ts env1 (?k + int (length ([] :: node_view list)) + 1))"
        using c YSeq Some env_ok_register [OF Some c(2), of ?k]
        by (intro run_items) (auto simp: list_all_iff intro: ctx_ok_longer)
      then show ?thesis
        using Some c(1)
        by (cases "compose_items ts env1 (?k + 1)")
          (auto simp: e compose_collection_def seq_head_def compose_run_append add_child_append Let_def)
    qed
  qed
next
  case (YMap e ps)
  obtain a tg b s where e: "e = YAML_MAPPING_START_EVENT a tg b s" using YMap.prems by (cases e) auto
  show ?case
    unfolding runs_tree_def
  proof (intro allI impI, elim conjE)
    fix ns env ctx assume c: "ctx_ok ns ctx" "env_ok env (int (length ns))"
    let ?k = "int (length ns) + 1"
    show "compose_run (events_of (YMap e ps)) (ns, env, ctx)
       = map_option (\<lambda>(i, ms, env'). (add_child ctx i (ns @ ms), env', ctx)) (compose (YMap e ps) env ?k)"
    proof (cases "register a ?k env")
      case None
      then show ?thesis by (simp add: e compose_collection_def map_head_def)
    next
      case (Some env1)
      let ?ms = "add_child ctx ?k ns"
      have sub: "runs_tree t \<and> runs_tree u" if "(t, u) \<in> set ps" for t u
        using that YMap.IH YMap.prems by (fastforce simp: list_all_iff prod_set_simps)
      have "compose_run (concat (map (\<lambda>(t, u). events_of t @ events_of u) ps)) (?ms @ (YAML_MAPPING_NODE [] s, tag_or YAML_MAP_TAG tg) # [], env1, ctx @ [?k])
         = map_option (\<lambda>(js, ms, env'). (?ms @ (YAML_MAPPING_NODE ([] @ js) s, tag_or YAML_MAP_TAG tg) # [] @ ms, env', ctx @ [?k]))
             (compose_pairs ps env1 (?k + int (length ([] :: node_view list)) + 1))"
        using c sub env_ok_register [OF Some c(2), of ?k]
        by (intro run_pairs) (auto simp: open_pair_def intro: ctx_ok_longer)
      then show ?thesis
        using Some c(1)
        by (cases "compose_pairs ps env1 (?k + 1)")
          (auto simp: e compose_collection_def map_head_def compose_run_append add_child_append Let_def)
    qed
  qed
qed

end
