(* ===== verification/Yaml_Scan_Facts.thy ===== *)
theory Yaml_Scan_Facts
  imports Yaml_Scan_Scalar Yaml_Reader_Facts
begin

text \<open>
  Facts about the text part of the scanner.  Given a source of bounded size, every
  \<open>yaml_parser_scan_\<dots>\<close> function returns: it never moves the pointer past the characters that
  were read, it never runs out of turns if it is given more turns than characters are left,
  and it leaves alone what is not its business.
\<close>

section \<open>Finite sources\<close>

text \<open>
  A source of bounded size: the handler gives at most what it was asked for, and what it gives
  is taken from its data, whose size is \<open>sz\<close>.
\<close>

definition finite_source :: "('h \<Rightarrow> nat) \<Rightarrow> ('h, 'z) yaml_reader_scheme \<Rightarrow> bool" where
  "finite_source sz P \<longleftrightarrow> (\<exists>rh. read_handler P = Some rh
     \<and> (\<forall>d n bs d'. rh d n = Some (bs, d') \<longrightarrow> length bs \<le> n \<and> length bs + sz d' \<le> sz d))"

text \<open>Nothing more to read: the final NUL is in the working buffer.\<close>

definition at_end :: "('h, 'z) yaml_reader_scheme \<Rightarrow> bool" where
  "at_end P \<longleftrightarrow> eof P \<and> raw_buffer P = []"

text \<open>A bound on the characters that are still to be scanned, the final NUL included.\<close>

definition todo :: "('h \<Rightarrow> nat) \<Rightarrow> ('h, 'z) yaml_reader_scheme \<Rightarrow> nat" where
  "todo sz P = unread P + length (raw_buffer P) + sz (read_handler_data P) + (if at_end P then 0 else 1)"

text \<open>The working buffer holds the characters \<open>cs\<close>; NUL is the last one, at the end of the input.\<close>

definition chars :: "('h, 'z) yaml_reader_scheme \<Rightarrow> 32 word list \<Rightarrow> bool" where
  "chars P cs \<longleftrightarrow> buffer P = concat (map encode_utf8 cs) \<and> unread P = length cs \<and> list_all scalar_value cs
     \<and> (if at_end P then cs \<noteq> [] \<and> last cs = 0 \<and> 0 \<notin> set (butlast cs) else 0 \<notin> set cs)"

definition scan_inv :: "('h \<Rightarrow> nat) \<Rightarrow> ('h, 'z) yaml_reader_scheme \<Rightarrow> bool" where
  "scan_inv sz P \<longleftrightarrow> reader_inv P \<and> finite_source sz P \<and> (\<exists>cs. chars P cs)"

lemma finite_source_handler_ok: "finite_source sz P \<Longrightarrow> handler_ok P"
  by (auto simp: finite_source_def handler_ok_def well_behaved_def)

section \<open>Filling the buffer\<close>

text \<open>The states inside \<open>yaml_parser_update_buffer\<close>, before a NUL is put.\<close>

definition fill_state :: "('h \<Rightarrow> nat) \<Rightarrow> ('h, 'z) yaml_reader_scheme \<Rightarrow> ('h, 'z) yaml_reader_scheme \<Rightarrow> bool" where
  "fill_state sz P Q \<longleftrightarrow> finite_source sz Q \<and> unread Q + length (raw_buffer Q) + sz (read_handler_data Q) + 1 \<le> todo sz P
     \<and> (\<exists>cs. buffer Q = concat (map encode_utf8 cs) \<and> unread Q = length cs \<and> list_all scalar_value cs \<and> 0 \<notin> set cs)"

lemma fill_state_put_char:
  assumes "fill_state sz P Q" and "decode_char (encoding Q) (eof Q) (raw_buffer Q) = Decoded v w"
    and "allowed_char v" and "raw_buffer Q \<noteq> []"
  shows "fill_state sz P (put_char Q v w)"
proof -
  have w: "w \<le> length (raw_buffer Q)" "0 < w"
    using decode_char_size [OF assms(2)] decode_char_width [OF assms(2,3)] assms(3,4) by simp_all
  obtain cs where cs: "buffer Q = concat (map encode_utf8 cs)" "unread Q = length cs"
      "list_all scalar_value cs" "0 \<notin> set cs"
    using assms(1) unfolding fill_state_def by blast
  have "\<not> allowed_char 0"
    by (simp add: allowed_char_def)
  then have "v \<noteq> 0" "scalar_value v"
    using assms(3) allowed_char_scalar_value by blast+
  then have "\<exists>cs'. buffer Q @ encode_utf8 v = concat (map encode_utf8 cs') \<and> Suc (unread Q) = length cs'
      \<and> list_all scalar_value cs' \<and> 0 \<notin> set cs'"
    using cs by (intro exI [of _ "cs @ [v]"]) auto
  moreover have "finite_source sz (put_char Q v w)"
    using assms(1) by (simp add: fill_state_def finite_source_def put_char_def)
  moreover have "unread Q + length (raw_buffer Q) + sz (read_handler_data Q) + 1 \<le> todo sz P"
    using assms(1) by (simp add: fill_state_def)
  ultimately show ?thesis
    using w unfolding fill_state_def by (simp add: put_char_def)
qed

lemma fill_state_chars:
  assumes "fill_state sz P Q" and "\<not> at_end Q"
  shows "(\<exists>cs. chars Q cs) \<and> finite_source sz Q \<and> todo sz Q \<le> todo sz P"
  using assms by (auto simp: fill_state_def chars_def todo_def)

lemma fill_state_put_nul:
  assumes "fill_state sz P Q" and "at_end Q"
  shows "(\<exists>cs. chars (put_nul Q) cs) \<and> finite_source sz (put_nul Q) \<and> todo sz (put_nul Q) \<le> todo sz P"
proof -
  obtain cs where cs: "buffer Q = concat (map encode_utf8 cs)" "unread Q = length cs"
      "list_all scalar_value cs" "0 \<notin> set cs"
    using assms(1) unfolding fill_state_def by blast
  then have "chars (put_nul Q) (cs @ [0])"
    using assms(2) by (simp add: chars_def put_nul_def at_end_def encode_utf8_0 scalar_value_def)
  then show ?thesis
    using assms by (auto simp: fill_state_def finite_source_def todo_def put_nul_def at_end_def)
qed

lemma update_raw_buffer_fill_state:
  assumes "fill_state sz P Q"
  shows "wp False (yaml_parser_update_raw_buffer Q) (\<lambda>_ R. fill_state sz P R \<and> unread R = unread Q)
    (reader_failed (\<lambda>R. fill_state sz P R \<and> unread R = unread Q))"
proof (rule update_raw_buffer_rule)
  show "handler_ok Q" using assms finite_source_handler_ok by (auto simp: fill_state_def)
next
  fix rh bs d
  assume *: "read_handler Q = Some rh"
      "rh (read_handler_data Q) (INPUT_RAW_BUFFER_SIZE - length (raw_buffer Q)) = Some (bs, d)"
  then have "length bs + sz d \<le> sz (read_handler_data Q)"
    using assms by (fastforce simp: fill_state_def finite_source_def)
  then show "fill_state sz P (Q\<lparr>raw_pointer := 0, read_handler_data := d, raw_buffer := raw_buffer Q @ bs, eof := (bs = [])\<rparr>)
      \<and> unread (Q\<lparr>raw_pointer := 0, read_handler_data := d, raw_buffer := raw_buffer Q @ bs, eof := (bs = [])\<rparr>) = unread Q"
    using assms by (simp add: fill_state_def finite_source_def)
qed (use assms in \<open>simp_all add: fill_state_def finite_source_def\<close>)

lemma fill_buffer_chars:
  assumes "fill_state sz P Q" and "unread Q < len"
  shows "wp False (fill_buffer True len (Q\<lparr>buffer_pointer := 0\<rparr>))
     (\<lambda>_ P'. (\<exists>cs. chars P' cs) \<and> finite_source sz P' \<and> todo sz P' \<le> todo sz P) (reader_failed (\<lambda>_. True))"
proof (rule wp_mono)
  show "wp False (fill_buffer True len (Q\<lparr>buffer_pointer := 0\<rparr>))
    (\<lambda>b P'. if b then (\<exists>Q. fill_state sz P Q \<and> eof Q \<and> raw_buffer Q = [] \<and> P' = put_nul Q)
          else (fill_state sz P P' \<and> (unread P' < len \<or> \<not> at_end P')) \<and> len \<le> unread P') (reader_failed (fill_state sz P))"
  proof (rule fill_buffer_rule, goal_cases)
    case 1
    then show ?case using assms by (simp add: fill_state_def finite_source_def)
  next
    case (2 Q)
    then show ?case
      by (intro wp_mono [OF update_raw_buffer_fill_state]) (auto elim: reader_failed_mono)
  next
    case (4 Q v w)
    then show ?case using fill_state_put_char by blast
  qed (auto simp: at_end_def)
next
  fix b P' assume "if b then (\<exists>Q. fill_state sz P Q \<and> eof Q \<and> raw_buffer Q = [] \<and> P' = put_nul Q)
          else (fill_state sz P P' \<and> (unread P' < len \<or> \<not> at_end P')) \<and> len \<le> unread P'"
  then show "(\<exists>cs. chars P' cs) \<and> finite_source sz P' \<and> todo sz P' \<le> todo sz P"
    using fill_state_put_nul fill_state_chars by (fastforce simp: at_end_def split: if_splits)
qed (auto elim: reader_failed_mono)

lemma update_buffer_chars:
  fixes P :: "('h, 'z) yaml_reader_scheme"
  assumes "finite_source sz P" and "chars P cs"
  shows "wp False (yaml_parser_update_buffer P len)
    (\<lambda>_ P'. (\<exists>cs. chars P' cs) \<and> finite_source sz P' \<and> todo sz P' \<le> todo sz P) (reader_failed (\<lambda>_. True))"
proof (rule update_buffer_rule)
  let ?Q = "\<lambda>P'. (\<exists>cs. chars P' cs) \<and> finite_source sz P' \<and> todo sz P' \<le> todo sz P"
  assume len: "unread P < len" and fin: "\<not> (eof P \<and> raw_buffer P = [])"
  have P: "fill_state sz P P"
    using assms fin by (auto simp: fill_state_def todo_def at_end_def chars_def)
  have det: "wp False (yaml_parser_determine_encoding P)
      (\<lambda>_ R. (fill_state sz P R \<and> unread R = unread P) \<and> encoding R \<noteq> YAML_ANY_ENCODING)
      (reader_failed (\<lambda>R. fill_state sz P R \<and> unread R = unread P))"
  proof (rule determine_encoding_rule)
    fix R assume "fill_state sz P R \<and> unread R = unread P"
    then show "wp False (yaml_parser_update_raw_buffer R) (\<lambda>_ R. fill_state sz P R \<and> unread R = unread P)
       (reader_failed (\<lambda>R. fill_state sz P R \<and> unread R = unread P))"
      using update_raw_buffer_fill_state [of sz P R] by simp
  qed (use P in \<open>auto simp: fill_state_def finite_source_def skip_bom_def\<close>)
  have fill: "wp False (fill_buffer True len (R\<lparr>buffer_pointer := 0\<rparr>)) (\<lambda>_ P'. ?Q P' \<and> True) (reader_failed (\<lambda>_. True))"
    if "fill_state sz P R \<and> unread R = unread P" for R
    using fill_buffer_chars [of sz P R len] that len by simp
  show "wp False (if encoding P = YAML_ANY_ENCODING then yaml_parser_determine_encoding P else Ok () P)
       (\<lambda>_ P1. wp False (fill_buffer True len (P1\<lparr>buffer_pointer := 0\<rparr>)) 
         (\<lambda>_ P'. ?Q P' \<and> True) (reader_failed (\<lambda>_. True)))
       (reader_failed (\<lambda>_. True))"
  proof (cases "encoding P = YAML_ANY_ENCODING")
    case True
    then show ?thesis
      by (simp, intro wp_mono [OF det]) (use fill in \<open>auto elim: reader_failed_mono\<close>)
  next
    case False
    then show ?thesis using fill P by simp
  qed
qed (use assms in \<open>auto simp: finite_source_def\<close>)

section \<open>Characters in the buffer\<close>

lemma hd_encode_utf8:
  assumes "scalar_value c"
  shows "utf8_width (hd (encode_utf8 c)) = length (encode_utf8 c)"
  using decode_utf8_encode_utf8 [OF assms, of True "[]"]
  by (auto simp: decode_utf8_def Let_def split: if_splits sum.splits prod.splits)

lemma encode_utf8_nonempty: "encode_utf8 c \<noteq> []"
  using length_encode_utf8 [of c] by auto

lemma encode_utf8_ascii: "unat c < 0x80 \<Longrightarrow> encode_utf8 c = [ucast c]"
  by (simp add: encode_utf8_def word_le_nat_alt)

lemma encode_utf8_hd:
  assumes "scalar_value c" and "hd (encode_utf8 c) = b" and "unat b < 0x80"
  shows "c = ucast b" and "encode_utf8 c = [b]"
proof -
  have "length (encode_utf8 c) = 1"
    using hd_encode_utf8 [OF assms(1)] assms(2,3) by (simp add: utf8_width_def byte_masks)
  then have c: "unat c < 0x80"
    by (auto simp: encode_utf8_def word_le_nat_alt split: if_splits)
  then have "b = ucast c" using assms(2) by (simp add: encode_utf8_ascii)
  then show "c = ucast b" "encode_utf8 c = [b]"
    using c by (simp_all add: encode_utf8_ascii word_unat_eq_iff unat_ucast8 unat_ucast32)
qed

lemma octet_at_0:
  assumes "chars P cs"
  shows "octet_at P 0 = (case cs of [] \<Rightarrow> 0 | c # _ \<Rightarrow> hd (encode_utf8 c))"
  using assms encode_utf8_nonempty
  by (cases cs) (auto simp: chars_def octet_at_def hd_append hd_conv_nth nth_append)

lemma octet_nonzero:
  assumes "chars P cs" and "octet_at P 0 \<noteq> 0"
  obtains c cs' where "cs = c # cs'" "c \<noteq> 0" "scalar_value c" "WIDTH P = length (encode_utf8 c)"
proof -
  obtain c cs' where cs: "cs = c # cs'" using assms octet_at_0 [OF assms(1)] by (cases cs) auto
  have "scalar_value c" using assms(1) cs by (simp add: chars_def)
  moreover have "c \<noteq> 0" using assms octet_at_0 [OF assms(1)] cs by (auto simp: encode_utf8_0)
  moreover have "WIDTH P = length (encode_utf8 c)"
    using octet_at_0 [OF assms(1)] cs hd_encode_utf8 [OF \<open>scalar_value c\<close>] by (simp add: WIDTH_def)
  ultimately show thesis using cs that by blast
qed

lemma chars_drop:
  assumes "chars P (c # cs)" and "c \<noteq> 0"
  shows "chars (P\<lparr>mark := m, unread := unread P - 1, buffer := drop (length (encode_utf8 c)) (buffer P),
     buffer_pointer := k\<rparr>) cs"
  using assms by (cases cs) (auto simp: chars_def at_end_def split: if_splits)

section \<open>The relation that scanning keeps\<close>

definition mark_less :: "yaml_mark \<Rightarrow> yaml_mark \<Rightarrow> bool" where
  "mark_less m m' \<longleftrightarrow> line m < line m' \<or> line m = line m' \<and> column m < column m'"

definition scan_to :: "('h \<Rightarrow> nat) \<Rightarrow> ('h, 'z) yaml_reader_scheme \<Rightarrow> bool \<Rightarrow> ('h, 'z) yaml_reader_scheme \<Rightarrow> bool" where
  "scan_to sz P b P' \<longleftrightarrow> scan_inv sz P' \<and> error P' = error P \<and> yaml_reader.more P' = yaml_reader.more P
     \<and> todo sz P' \<le> todo sz P \<and> (mark_less (mark P) (mark P') \<or> mark P' = mark P)
     \<and> (b \<longrightarrow> todo sz P' < todo sz P \<and> mark_less (mark P) (mark P'))"

definition scan_fail :: "('h, 'z) yaml_reader_scheme \<Rightarrow> bool" where
  "scan_fail P \<longleftrightarrow> error P \<in> {YAML_MEMORY_ERROR, YAML_READER_ERROR, YAML_SCANNER_ERROR, YAML_PARSER_ERROR} \<or> heap P = 0"

lemma mark_less_trans: "mark_less m m' \<Longrightarrow> mark_less m' m'' \<Longrightarrow> mark_less m m''"
  by (auto simp: mark_less_def)

lemma mark_less_next [simp]: "mark_less m (next_column m)" "mark_less m (next_line m k)"
  by (auto simp: mark_less_def next_column_def next_line_def)

lemma scan_to_refl: "scan_inv sz P \<Longrightarrow> scan_to sz P False P"
  by (simp add: scan_to_def)

lemma scan_to_trans: "scan_to sz P b Q \<Longrightarrow> scan_to sz Q b' R \<Longrightarrow> scan_to sz P (b \<or> b') R"
  unfolding scan_to_def using mark_less_trans [of "mark P" "mark Q" "mark R"] by auto

lemma scan_to_weaken: "scan_to sz P b Q \<Longrightarrow> (b' \<Longrightarrow> b) \<Longrightarrow> scan_to sz P b' Q"
  by (auto simp: scan_to_def)

lemma scan_to_inv: "scan_to sz P b Q \<Longrightarrow> scan_inv sz Q"
  by (simp add: scan_to_def)

lemma scan_to_todo: "scan_to sz P b Q \<Longrightarrow> todo sz Q \<le> todo sz P"
  by (simp add: scan_to_def)

lemma scan_to_heap: "scan_to sz P b Q \<Longrightarrow> scan_to sz P b (Q\<lparr>heap := k\<rparr>)"
  by (simp add: scan_to_def scan_inv_def reader_inv_def finite_source_def chars_def at_end_def todo_def)

lemma scan_fail_error: "scan_fail (P\<lparr>error := YAML_MEMORY_ERROR\<rparr>)"
  by (simp add: scan_fail_def)

lemma wp_scanner_error [simp]: "wp h (yaml_parser_set_scanner_error P ctx cm msg) Q scan_fail"
  by (simp add: yaml_parser_set_scanner_error_def scan_fail_def)

section \<open>Rules for the macros\<close>

definition ready :: "nat \<Rightarrow> ('h, 'z) yaml_reader_scheme \<Rightarrow> bool" where
  "ready n P \<longleftrightarrow> n \<le> unread P \<or> at_end P"

lemma allocate_wp:
  assumes "scan_to sz P0 b P" and "\<And>k. scan_to sz P0 b (P\<lparr>heap := k\<rparr>) \<Longrightarrow> Q () (P\<lparr>heap := k\<rparr>)"
  shows "wp False (allocate P) Q scan_fail"
  using assms scan_to_heap [OF assms(1)] by (simp add: wp_allocate scan_fail_error)

lemma update_buffer_scan:
  assumes "scan_inv sz P" and "n \<le> 6144"
  shows "wp False (yaml_parser_update_buffer P n) (\<lambda>_ P'. scan_to sz P False P' \<and> ready n P' \<and> mark P' = mark P
     \<and> (\<exists>xs. buffer P' = buffer P @ xs)) scan_fail"
proof -
  obtain cs where cs: "chars P cs" "reader_inv P" "finite_source sz P" using assms(1) by (auto simp: scan_inv_def)
  then have "buffer_chars P" by (auto simp: chars_def buffer_chars_def)
  then have 1: "wp False (yaml_parser_update_buffer P n)
    (\<lambda>_ P'. reader_frame P P' \<and> buffer_chars P') (reader_failed (\<lambda>P'. reader_frame P P' \<and> buffer_chars P'))"
    using cs finite_source_handler_ok by (intro update_buffer_frame) auto
  have 2: "wp False (yaml_parser_update_buffer P n)
    (\<lambda>_ P'. reader_inv P' \<and> handler_ok P' \<and> (n \<le> unread P' \<or> eof P' \<and> raw_buffer P' = []))
    (\<lambda>P'. reader_inv P' \<and> handler_ok P' \<and> error P' = YAML_READER_ERROR)"
    using cs finite_source_handler_ok assms(2) by (intro update_buffer_bounds) auto
  have 3: "wp False (yaml_parser_update_buffer P n)
    (\<lambda>_ P'. (\<exists>cs. chars P' cs) \<and> finite_source sz P' \<and> todo sz P' \<le> todo sz P) (reader_failed (\<lambda>_. True))"
    using cs by (intro update_buffer_chars)
  show ?thesis
    by (rule wp_mono [OF wp_conj [OF 1 wp_conj [OF 2 3]]])
       (auto simp: scan_to_def scan_inv_def ready_def at_end_def reader_frame_def scan_fail_def)
qed

lemma CACHE_wp:
  assumes "scan_to sz P0 b P" and "n \<le> 6144"
    and "\<And>P'. scan_to sz P0 b P' \<Longrightarrow> ready n P' \<Longrightarrow> mark P' = mark P \<Longrightarrow> 
       yaml_reader.more P' = yaml_reader.more P \<Longrightarrow>
       (\<And>k. octet_at P k \<noteq> 0 \<Longrightarrow> octet_at P' k = octet_at P k) \<Longrightarrow> Q () P'"
  shows "wp False (CACHE P n) Q scan_fail"
proof (cases "n \<le> unread P")
  case True
  then show ?thesis using assms by (auto simp: CACHE_def ready_def)
next
  case False
  have "wp False (yaml_parser_update_buffer P n) Q scan_fail"
  proof (rule wp_mono [OF update_buffer_scan [OF scan_to_inv [OF assms(1)] assms(2)]])
    fix u P'
    assume *: "scan_to sz P False P' \<and> ready n P' \<and> mark P' = mark P \<and> (\<exists>xs. buffer P' = buffer P @ xs)"
    then show "Q u P'"
      using scan_to_trans [OF assms(1), of False P'] assms(3) [of P']
      by (auto simp: octet_at_def nth_append scan_to_def split: if_splits)
  qed
  then show ?thesis using False by (simp add: CACHE_def)
qed

lemma length_concat_encode: "length (concat (map encode_utf8 cs)) \<le> 4 * length cs"
proof (induction cs)
  case (Cons c cs)
  then show ?case using length_encode_utf8 [of c] by simp
qed simp

lemma move_wp:
  assumes "scan_to sz P0 b P" and "octet_at P 0 \<noteq> 0" and "mark_less (mark P) m"
    and "\<And>P'. scan_to sz P0 True P' \<Longrightarrow> yaml_reader.more P' = yaml_reader.more P \<Longrightarrow> mark P' = m \<Longrightarrow>
       (\<And>k. octet_at P' k = octet_at P (WIDTH P + k)) \<Longrightarrow> Q () P'"
  shows "wp False (move P (WIDTH P) 1 m) Q scan_fail"
proof -
  obtain cs where cs: "chars P cs" using scan_to_inv [OF assms(1)] by (auto simp: scan_inv_def)
  then obtain c cs' where c: "cs = c # cs'" "c \<noteq> 0" "scalar_value c" "WIDTH P = length (encode_utf8 c)"
    using assms(2) by (rule octet_nonzero)
  let ?P = "P\<lparr>mark := m, unread := unread P - 1, buffer := drop (WIDTH P) (buffer P),
     buffer_pointer := buffer_pointer P + WIDTH P\<rparr>"
  have len: "WIDTH P \<le> length (buffer P)" "unread P \<noteq> 0" using cs c by (simp_all add: chars_def)
  have new: "chars ?P cs'"
    using chars_drop [of P c cs'] cs c by simp
  have "scan_to sz P True ?P"
    using scan_to_inv [OF assms(1)] new len assms(3) length_concat_encode [of cs'] cs c
    by (auto simp: scan_to_def scan_inv_def reader_inv_def finite_source_def todo_def at_end_def chars_def)
  then have "scan_to sz P0 True ?P" using scan_to_trans [OF assms(1), of True ?P] by simp
  then have "Q () ?P" using len by (intro assms(4)) (auto simp: octet_at_def)
  then show ?thesis using len by (simp add: move_def)
qed

lemmas SKIP_wp = move_wp [where m = "next_column (mark P)" and P = P for P, folded SKIP_def, OF _ _ mark_less_next(1)]

lemma octet_at_heap [simp]: "octet_at (P\<lparr>heap := k\<rparr>) i = octet_at P i"
  by (simp add: octet_at_def)

lemma tests_heap [simp]:
  "WIDTH (P\<lparr>heap := k\<rparr>) = WIDTH P" "IS_BREAK_AT (P\<lparr>heap := k\<rparr>) i = IS_BREAK_AT P i"
  "line_break (P\<lparr>heap := k\<rparr>) = line_break P"
  by (simp_all add: WIDTH_def IS_BREAK_AT_def line_break_def)

lemma octet_at_state [simp]: "octet_at (P\<lparr>simple_key_allowed := b\<rparr>) i = octet_at P i"
  by (simp add: octet_at_def)

lemma width_ascii: "octet_at P 0 = c \<Longrightarrow> unat c < 128 \<Longrightarrow> WIDTH P = 1"
  by (simp add: WIDTH_def utf8_width_def byte_masks)

definition ascii_at :: "('h, 'z) yaml_reader_scheme \<Rightarrow> nat \<Rightarrow> bool" where
  "ascii_at P k \<longleftrightarrow> octet_at P k \<noteq> 0 \<and> unat (octet_at P k) < 128"

lemma SKIP_n_wp:
  assumes "scan_to sz P0 b P" and "\<And>i. i < k \<Longrightarrow> ascii_at P i"
    and "\<And>P'. scan_to sz P0 (b \<or> 0 < k) P' \<Longrightarrow> yaml_reader.more P' = yaml_reader.more P \<Longrightarrow> Q () P'"
  shows "wp False (SKIP_n k P) Q scan_fail"
  using assms
proof (induction k arbitrary: b P)
  case 0
  then show ?case by simp
next
  case (Suc k)
  have w: "WIDTH P = 1" using Suc.prems(2) [of 0] by (intro width_ascii [OF refl]) (simp add: ascii_at_def)
  have "wp False (SKIP P) (\<lambda>_ P. wp False (SKIP_n k P) Q scan_fail) scan_fail"
  proof (rule SKIP_wp)
    show "scan_to sz P0 b P" "octet_at P 0 \<noteq> 0" using Suc.prems(1) Suc.prems(2) [of 0] by (auto simp: ascii_at_def)
  next
    fix P' assume *: "scan_to sz P0 True P'" "yaml_reader.more P' = yaml_reader.more P"
        "\<And>i. octet_at P' i = octet_at P (WIDTH P + i)"
    show "wp False (SKIP_n k P') Q scan_fail"
      using Suc.prems * w by (intro Suc.IH [OF *(1)]) (auto simp: ascii_at_def)
  qed
  then show ?case by simp
qed

lemma STRING_PUT_wp:
  assumes "scan_to sz P0 b P" and "\<And>s k. scan_to sz P0 b (P\<lparr>heap := k\<rparr>) \<Longrightarrow> Q s (P\<lparr>heap := k\<rparr>)"
  shows "wp False (STRING_PUT P s bs) Q scan_fail"
  unfolding STRING_PUT_def wp_bind using assms(2) by (intro allocate_wp [OF assms(1)]) simp

lemma JOIN_wp:
  assumes "scan_to sz P0 b P" and "\<And>s k. scan_to sz P0 b (P\<lparr>heap := k\<rparr>) \<Longrightarrow> Q s (P\<lparr>heap := k\<rparr>)"
  shows "wp False (JOIN P a c) Q scan_fail"
proof (cases "c = []")
  case True
  then show ?thesis using assms(1) assms(2) [of "heap P" a] by (simp add: JOIN_def)
next
  case False
  then show ?thesis using STRING_PUT_wp [OF assms(1), of Q] assms(2) by (simp add: JOIN_def)
qed

lemma READ_wp:
  assumes "scan_to sz P0 b P" and "octet_at P 0 \<noteq> 0"
    and "\<And>s P'. scan_to sz P0 True P' \<Longrightarrow> yaml_reader.more P' = yaml_reader.more P \<Longrightarrow> Q s P'"
  shows "wp False (READ P s) Q scan_fail"
  unfolding READ_def wp_bind
proof (rule STRING_PUT_wp [OF assms(1)])
  fix s k assume "scan_to sz P0 b (P\<lparr>heap := k\<rparr>)"
  then show "wp False (SKIP (P\<lparr>heap := k\<rparr>)) (\<lambda>_ P. wp False (Ok s P) Q scan_fail) scan_fail"
    by (rule SKIP_wp) (use assms in auto)
qed

lemma move_2: "res_bind (move P 1 1 m') (\<lambda>_ P. move P 1 1 m) = move P 2 2 m"
  by (auto simp: move_def numeral_2_eq_2)

lemma move_crlf_wp:
  assumes "scan_to sz P0 b P" and "octet_at P 0 = 0x0D" and "octet_at P 1 = 0x0A"
    and "\<And>P'. scan_to sz P0 True P' \<Longrightarrow> yaml_reader.more P' = yaml_reader.more P \<Longrightarrow> Q () P'"
  shows "wp False (move P 2 2 (next_line (mark P) k)) Q scan_fail"
proof -
  have w: "WIDTH P = 1" using assms(2) by (rule width_ascii) simp
  have "wp False (move P (WIDTH P) 1 (next_column (mark P)))
      (\<lambda>_ P'. wp False (move P' 1 1 (next_line (mark P) k)) Q scan_fail) scan_fail"
  proof (rule move_wp [OF assms(1)])
    fix P' assume *: "scan_to sz P0 True P'" "yaml_reader.more P' = yaml_reader.more P"
        "mark P' = next_column (mark P)" "\<And>i. octet_at P' i = octet_at P (WIDTH P + i)"
    have o: "octet_at P' 0 = 0x0A" using *(4) [of 0] w assms(3) by simp
    have w': "WIDTH P' = 1" using o by (rule width_ascii) simp
    have "wp False (move P' (WIDTH P') 1 (next_line (mark P) k)) Q scan_fail"
      using * o assms(4)
      by (intro move_wp [OF *(1)]) (auto simp: mark_less_def next_line_def next_column_def)
    then show "wp False (move P' 1 1 (next_line (mark P) k)) Q scan_fail" by (simp only: w')
  qed (use assms in simp_all)
  then show ?thesis unfolding w move_2 [of P "next_column (mark P)", symmetric] by simp
qed

lemma IS_BREAK_nonzero: "IS_BREAK_AT P k \<Longrightarrow> octet_at P k \<noteq> 0"
  by (auto simp: IS_BREAK_AT_def)

lemma SKIP_LINE_wp:
  assumes "scan_to sz P0 b P"
    and "\<And>P'. scan_to sz P0 (b \<or> IS_BREAK_AT P 0) P' \<Longrightarrow> yaml_reader.more P' = yaml_reader.more P \<Longrightarrow> Q () P'"
  shows "wp False (SKIP_LINE P) Q scan_fail"
proof (cases "IS_BREAK_AT P 0")
  case True
  show ?thesis
  proof (cases "IS_CRLF P")
    case crlf: True
    have "wp False (move P 2 2 (next_line (mark P) 2)) Q scan_fail"
      using crlf True assms(2) by (intro move_crlf_wp [OF assms(1)]) (auto simp: IS_CRLF_def)
    then show ?thesis using crlf by (simp add: SKIP_LINE_def)
  next
    case False
    have "wp False (move P (WIDTH P) 1 (next_line (mark P) 1)) Q scan_fail"
      using True assms(2) by (intro move_wp [OF assms(1) IS_BREAK_nonzero]) auto
    then show ?thesis using True False by (simp add: SKIP_LINE_def)
  qed
next
  case False
  then show ?thesis using assms by (auto simp: SKIP_LINE_def IS_CRLF_def IS_BREAK_AT_def)
qed

lemma line_break_cases:
  "line_break P = Some (octs, cs, out) \<longleftrightarrow> IS_BREAK_AT P 0 \<and>
     (if IS_CRLF P then octs = 2 \<and> cs = 2 \<and> out = [0x0A]
      else octs = WIDTH P \<and> cs = 1 \<and> out = (if WIDTH P = 3 then take 3 (buffer P) else [0x0A]))"
  by (auto simp: line_break_def IS_BREAK_AT_def IS_CRLF_def WIDTH_def utf8_width_def numeral_2_eq_2 [symmetric])

lemma line_break_None: "line_break P = None \<longleftrightarrow> \<not> IS_BREAK_AT P 0"
  by (auto simp: line_break_def IS_BREAK_AT_def numeral_2_eq_2 [symmetric])

lemma READ_LINE_wp:
  assumes "scan_to sz P0 b P"
    and "\<And>s P'. scan_to sz P0 (b \<or> IS_BREAK_AT P 0) P' \<Longrightarrow> yaml_reader.more P' = yaml_reader.more P \<Longrightarrow> Q s P'"
  shows "wp False (READ_LINE P s) Q scan_fail"
  unfolding READ_LINE_def wp_bind
proof (rule allocate_wp [OF assms(1)])
  fix k assume k: "scan_to sz P0 b (P\<lparr>heap := k\<rparr>)"
  show "wp False (case line_break (P\<lparr>heap := k\<rparr>) of Some (octs, cs, out) \<Rightarrow>
      res_bind (move (P\<lparr>heap := k\<rparr>) octs cs (next_line (mark (P\<lparr>heap := k\<rparr>)) cs)) (\<lambda>_ P. Ok (s @ out) P)
     | None \<Rightarrow> Ok s (P\<lparr>heap := k\<rparr>)) Q scan_fail"
  proof (cases "line_break P")
    case None
    moreover have "\<not> IS_BREAK_AT P 0" using None by (simp add: line_break_None)
    ultimately show ?thesis using k assms(2) [of "P\<lparr>heap := k\<rparr>" s] by simp
  next
    case (Some r)
    obtain octs cs out where r: "r = (octs, cs, out)" by (cases r)
    have br: "IS_BREAK_AT P 0" using Some r by (simp add: line_break_cases)
    have "wp False (move (P\<lparr>heap := k\<rparr>) octs cs (next_line (mark (P\<lparr>heap := k\<rparr>)) cs)) (\<lambda>_. Q (s @ out)) scan_fail"
    proof (cases "IS_CRLF P")
      case True
      then have *: "octs = 2" "cs = 2" using Some r by (simp_all add: line_break_cases)
      show ?thesis unfolding *
        by (rule move_crlf_wp [OF k]) (use True br assms(2) in \<open>auto simp: IS_CRLF_def\<close>)
    next
      case False
      then have *: "octs = WIDTH (P\<lparr>heap := k\<rparr>)" "cs = 1" using Some r by (simp_all add: line_break_cases)
      show ?thesis unfolding *
        by (rule move_wp [OF k]) (use br assms(2) IS_BREAK_nonzero [OF br] in auto)
    qed
    then show ?thesis using Some r by simp
  qed
qed

section \<open>Rules for the simple loops\<close>

lemma skip_while_wp:
  assumes "scan_to sz P0 b P" and "todo sz P0 < n" and "\<And>P. c P \<Longrightarrow> octet_at P 0 \<noteq> 0"
    and "\<And>P'. scan_to sz P0 (b \<or> c P) P' \<Longrightarrow> yaml_reader.more P' = yaml_reader.more P \<Longrightarrow> \<not> c P' \<Longrightarrow>
       (\<not> c P \<Longrightarrow> P' = P) \<Longrightarrow> Q () P'"
  shows "wp False (skip_while n c P) Q scan_fail"
proof -
  let ?I = "\<lambda>P'. scan_to sz P0 b P' \<and> yaml_reader.more P' = yaml_reader.more P \<and> (P' = P \<or> scan_to sz P0 True P' \<and> c P)"
  have "wp False (skip_while n c P) (\<lambda>_ P'. ?I P' \<and> \<not> c P') scan_fail"
    unfolding skip_while_def
  proof (rule wp_while_loop [where I = "\<lambda>_. ?I" and m = "\<lambda>_. todo sz"])
    show "?I P" "todo sz P < n" using assms(1,2) scan_to_todo [OF assms(1)] by auto
  next
    fix a P' assume I: "?I P'" and c: "c P'"
    have P': "scan_to sz P' False P'" using I scan_to_inv scan_to_refl by blast
    show "wp False (res_bind (SKIP P') (\<lambda>_ P. CACHE P 1)) (\<lambda>_ P''. ?I P'' \<and> todo sz P'' < todo sz P') scan_fail"
      unfolding wp_bind
    proof (rule SKIP_wp [OF P' assms(3) [OF c]])
      fix P1 assume 1: "scan_to sz P' True P1" "yaml_reader.more P1 = yaml_reader.more P'"
      show "wp False (CACHE P1 1) (\<lambda>_ P''. ?I P'' \<and> todo sz P'' < todo sz P') scan_fail"
      proof (rule CACHE_wp [OF 1(1)])
        fix P2 assume 2: "scan_to sz P' True P2" "yaml_reader.more P2 = yaml_reader.more P1"
        have "scan_to sz P0 True P2" using scan_to_trans [of sz P0 b P' True P2] I 2 by simp
        moreover from this have "scan_to sz P0 b P2" by (rule scan_to_weaken) simp
        ultimately show "?I P2 \<and> todo sz P2 < todo sz P'"
          using I c 1 2 by (auto simp: scan_to_def)
      qed simp
    qed
  qed
  then show ?thesis
    by (rule wp_mono) (use assms(4) in \<open>auto elim: scan_to_weaken\<close>)
qed

lemma read_while_wp:
  assumes "scan_to sz P0 b P" and "todo sz P0 < n" and "\<And>P. c P \<Longrightarrow> octet_at P 0 \<noteq> 0"
    and "\<And>s P'. scan_to sz P0 (b \<or> c P) P' \<Longrightarrow> yaml_reader.more P' = yaml_reader.more P \<Longrightarrow> \<not> c P' \<Longrightarrow>
       (\<not> c P \<Longrightarrow> P' = P) \<Longrightarrow> Q s P'"
  shows "wp False (read_while n c s P) Q scan_fail"
proof -
  let ?I = "\<lambda>P'. scan_to sz P0 b P' \<and> yaml_reader.more P' = yaml_reader.more P \<and> (P' = P \<or> scan_to sz P0 True P' \<and> c P)"
  have "wp False (read_while n c s P) (\<lambda>_ P'. ?I P' \<and> \<not> c P') scan_fail"
    unfolding read_while_def
  proof (rule wp_while_loop [where I = "\<lambda>_. ?I" and m = "\<lambda>_. todo sz"])
    show "?I P" "todo sz P < n" using assms(1,2) scan_to_todo [OF assms(1)] by auto
  next
    fix s P' assume I: "?I P'" and c: "c P'"
    have P': "scan_to sz P' False P'" using I scan_to_inv scan_to_refl by blast
    show "wp False (res_bind (READ P' s) (\<lambda>s P. res_bind (CACHE P 1) (\<lambda>_ P. Ok s P)))
        (\<lambda>_ P''. ?I P'' \<and> todo sz P'' < todo sz P') scan_fail"
      unfolding wp_bind
    proof (rule READ_wp [OF P' assms(3) [OF c]])
      fix s P1 assume 1: "scan_to sz P' True P1" "yaml_reader.more P1 = yaml_reader.more P'"
      show "wp False (CACHE P1 1) (\<lambda>_ Pa. wp False (Ok s Pa) (\<lambda>_ P''. ?I P'' \<and> todo sz P'' < todo sz P') scan_fail) scan_fail"
      proof (rule CACHE_wp [OF 1(1)])
        fix P2 assume 2: "scan_to sz P' True P2" "yaml_reader.more P2 = yaml_reader.more P1"
        have "scan_to sz P0 True P2" using scan_to_trans [of sz P0 b P' True P2] I 2 by simp
        moreover from this have "scan_to sz P0 b P2" by (rule scan_to_weaken) simp
        ultimately show "wp False (Ok s P2) (\<lambda>_ P''. ?I P'' \<and> todo sz P'' < todo sz P') scan_fail"
          using I c 1 2 by (auto simp: scan_to_def)
      qed simp
    qed
  qed
  then show ?thesis
    by (rule wp_mono) (use assms(4) in \<open>auto elim: scan_to_weaken\<close>)
qed


end
