(* ===== verification/Yaml_Text_Facts.thy ===== *)
theory Yaml_Text_Facts
  imports Yaml_Scan_Facts
begin

text \<open>
  Every function that scans the text of a token is safe and ends: white space, directives,
  tags, anchors and the three kinds of scalars.  A rule \<open>f_wp\<close> says that \<open>f\<close>, started in a
  state that scanning can reach from \<open>P0\<close>, with more turns than characters are left, fails with
  an error or returns in a state that scanning can reach from \<open>P0\<close>.
\<close>

section \<open>Tests\<close>

lemmas tests = CHECK_AT_def IS_ALPHA_def IS_DIGIT_def IS_Z_AT_def IS_BOM_def IS_SPACE_AT_def IS_TAB_AT_def IS_BLANK_AT_def
  IS_BREAK_AT_def IS_BREAKZ_AT_def IS_BLANKZ_AT_def in_range_def Let_def

lemma not_BREAKZ_nonzero: "\<not> IS_BREAKZ_AT P k \<Longrightarrow> octet_at P k \<noteq> 0"
  by (auto simp: IS_BREAKZ_AT_def IS_Z_AT_def)
lemma not_BLANKZ_nonzero: "\<not> IS_BLANKZ_AT P k \<Longrightarrow> octet_at P k \<noteq> 0"
  by (auto simp: IS_BLANKZ_AT_def dest: not_BREAKZ_nonzero)
lemma BLANK_nonzero: "IS_BLANK_AT P k \<Longrightarrow> octet_at P k \<noteq> 0"
  by (auto simp: IS_BLANK_AT_def IS_SPACE_AT_def IS_TAB_AT_def)
lemma ALPHA_nonzero: "IS_ALPHA P \<Longrightarrow> octet_at P 0 \<noteq> 0"
  by (auto simp: IS_ALPHA_def in_range_def Let_def)
lemma DIGIT_nonzero: "IS_DIGIT P \<Longrightarrow> octet_at P 0 \<noteq> 0"
  by (auto simp: IS_DIGIT_def in_range_def Let_def)
lemma CHECK_nonzero: "CHECK_AT P c k \<Longrightarrow> (of_char c :: byte) \<noteq> 0 \<Longrightarrow> octet_at P k \<noteq> 0"
  by (auto simp: CHECK_AT_def)
lemma scan_to_any: "scan_to sz P0 True P \<Longrightarrow> scan_to sz P0 b P"
  by (erule scan_to_weaken) simp

lemma skip_while_weak:
  assumes "scan_to sz P0 b P" and "todo sz P0 < n" and "\<And>P. c P \<Longrightarrow> octet_at P 0 \<noteq> 0"
    and "\<And>P'. scan_to sz P0 b P' \<Longrightarrow> Q () P'"
  shows "wp False (skip_while n c P) Q scan_fail"
  by (rule skip_while_wp [OF assms(1-3)]) (auto intro: assms(4) scan_to_weaken)

lemma read_while_weak:
  assumes "scan_to sz P0 b P" and "todo sz P0 < n" and "\<And>P. c P \<Longrightarrow> octet_at P 0 \<noteq> 0"
    and "\<And>s P'. scan_to sz P0 b P' \<Longrightarrow> Q s P'"
  shows "wp False (read_while n c s P) Q scan_fail"
  by (rule read_while_wp [OF assms(1-3)]) (auto intro: assms(4) scan_to_weaken)

lemma SKIP_LINE_weak:
  assumes "scan_to sz P0 b P" and "\<And>P'. scan_to sz P0 b P' \<Longrightarrow> Q () P'"
  shows "wp False (SKIP_LINE P) Q scan_fail"
  by (rule SKIP_LINE_wp [OF assms(1)]) (auto intro: assms(2) scan_to_weaken)

lemma READ_LINE_weak:
  assumes "scan_to sz P0 b P" and "\<And>s P'. scan_to sz P0 b P' \<Longrightarrow> Q s P'"
  shows "wp False (READ_LINE P s) Q scan_fail"
  by (rule READ_LINE_wp [OF assms(1)]) (auto intro: assms(2) scan_to_weaken)

lemma skip_comment_wp:
  assumes "scan_to sz P0 b P" and "todo sz P0 < n"
    and "\<And>P'. scan_to sz P0 b P' \<Longrightarrow> Q () P'"
  shows "wp False (skip_comment n P) Q scan_fail"
  using assms unfolding skip_comment_def res_when_def
  by (auto elim!: skip_while_weak dest: not_BREAKZ_nonzero)

lemma eat_rest_of_line_wp:
  assumes "scan_to sz P0 b P" and "todo sz P0 < n"
    and "\<And>P'. scan_to sz P0 b P' \<Longrightarrow> Q () P'"
  shows "wp False (eat_rest_of_line n ctx sm P) Q scan_fail"
  using assms unfolding eat_rest_of_line_def skip_blanks_def skip_break_def res_when_def
  by (auto elim!: skip_while_weak CACHE_wp SKIP_LINE_weak skip_comment_wp dest: BLANK_nonzero)

lemmas scan_elims = skip_while_weak read_while_weak CACHE_wp SKIP_wp SKIP_LINE_weak READ_wp READ_LINE_weak allocate_wp
  STRING_PUT_wp JOIN_wp skip_comment_wp eat_rest_of_line_wp

lemmas nonzero = not_BREAKZ_nonzero not_BLANKZ_nonzero BLANK_nonzero ALPHA_nonzero DIGIT_nonzero IS_BREAK_nonzero

lemma directive_name_wp:
  assumes "scan_to sz P0 b P" and "todo sz P0 < n" and "\<And>s P'. scan_to sz P0 b P' \<Longrightarrow> Q s P'"
  shows "wp False (yaml_parser_scan_directive_name n sm P) Q scan_fail"
  using assms unfolding yaml_parser_scan_directive_name_def
  by (auto elim!: scan_elims dest: nonzero scan_to_weaken)

lemma version_digit_wp:
  assumes "scan_inv sz P" and "IS_DIGIT P" and "len \<le> MAX_NUMBER_LENGTH" and "0 \<le> v" and "v < 10 ^ len"
    and "\<And>v len P'. scan_to sz P True P' \<Longrightarrow> len \<le> MAX_NUMBER_LENGTH \<Longrightarrow> 0 \<le> v \<Longrightarrow> v < 10 ^ len \<Longrightarrow> Q (v, len) P'"
  shows "wp False (version_digit sm (v, len) P) Q scan_fail"
proof (cases "len + 1 > MAX_NUMBER_LENGTH")
  case True
  then show ?thesis by (simp add: version_digit_def)
next
  case False
  have d: "0 \<le> AS_DIGIT P" "AS_DIGIT P < 10"
    using assms(2) by (auto simp: IS_DIGIT_def AS_DIGIT_def in_range_def word_le_def)
  have v: "v * 10 + AS_DIGIT P < 10 ^ Suc len" using assms(5) d by simp
  have "wp False (SKIP P) (\<lambda>_ P. wp False (CACHE P 1) (\<lambda>_. Q (v * 10 + AS_DIGIT P', Suc len)) scan_fail) scan_fail"
    if "P' = P" for P'
    using scan_to_refl [OF assms(1)] assms(4) False d v that DIGIT_nonzero [OF assms(2)]
    by (auto elim!: SKIP_wp CACHE_wp intro!: assms(6))
  then show ?thesis using False by (simp add: version_digit_def Let_def)
qed

lemma version_number_wp:
  assumes "scan_to sz P0 b P" and "todo sz P0 < n" 
    and "\<And>v P'. scan_to sz P0 b P' \<Longrightarrow> 0 \<le> v \<Longrightarrow> v < 10 ^ MAX_NUMBER_LENGTH \<Longrightarrow> Q v P'"
  shows "wp False (yaml_parser_scan_version_directive_number n sm P) Q scan_fail"
  unfolding yaml_parser_scan_version_directive_number_def wp_bind
proof (rule CACHE_wp [OF assms(1)])
  fix P1 assume P1: "scan_to sz P0 b P1"
  let ?I = "\<lambda>(v, len) P'. scan_to sz P0 b P' \<and> len \<le> MAX_NUMBER_LENGTH \<and> 0 \<le> v \<and> v < (10 :: int) ^ len"
  have "wp False (while_loop n (\<lambda>_. IS_DIGIT) (version_digit sm) (0, 0) P1) (\<lambda>a P'. ?I a P' \<and> \<not> IS_DIGIT P') scan_fail"
  proof (rule wp_while_loop [where m = "\<lambda>_. todo sz"])
    fix a P' assume I: "?I a P'" and c: "IS_DIGIT P'"
    obtain v len where a: "a = (v, len)" by (cases a)
    have "?I (v', len') P'' \<and> todo sz P'' < todo sz P'"
      if "scan_to sz P' True P''" "len' \<le> MAX_NUMBER_LENGTH" "0 \<le> v'" "v' < 10 ^ len'" for v' len' P''
      using that I a scan_to_trans [of sz P0 b P' True P''] by (auto simp: scan_to_def)
    then show "wp False (version_digit sm a P') (\<lambda>a' P''. ?I a' P'' \<and> todo sz P'' < todo sz P') scan_fail"
      unfolding a using I a c scan_to_inv by (intro version_digit_wp [of sz]) auto
  qed (use P1 assms in \<open>auto dest: scan_to_todo\<close>)
  then show "wp False (while_loop n (\<lambda>_. IS_DIGIT) (version_digit sm) (0, 0) P1)
     (\<lambda>a P. wp False ((case a of (v, len) \<Rightarrow> \<lambda>P. if len = 0 then
         yaml_parser_set_scanner_error P (Some ''while scanning a %YAML directive'') sm
           ''did not find expected version number''
       else Ok v P) P) Q scan_fail) scan_fail"
  proof (rule wp_mono)
    fix a P' assume *: "?I a P' \<and> \<not> IS_DIGIT P'"
    obtain v len where a: "a = (v, len)" by (cases a)
    have "(10 :: int) ^ len \<le> 10 ^ MAX_NUMBER_LENGTH" using * a by (intro power_increasing) auto
    then show "wp False ((case a of (v, len) \<Rightarrow> \<lambda>P. if len = 0 then
         yaml_parser_set_scanner_error P (Some ''while scanning a %YAML directive'') sm
           ''did not find expected version number''
       else Ok v P) P') Q scan_fail"
      using * a by (auto intro!: assms(3) simp: order.strict_trans2)
  qed
qed simp

lemma version_value_wp:
  assumes "scan_to sz P0 b P" and "todo sz P0 < n" and "\<And>v P'. scan_to sz P0 b P' \<Longrightarrow> Q v P'"
  shows "wp False (yaml_parser_scan_version_directive_value n sm P) Q scan_fail"
  using assms unfolding yaml_parser_scan_version_directive_value_def skip_blanks_def
  by (auto elim!: scan_elims version_number_wp dest: nonzero CHECK_nonzero intro: scan_to_any)

lemma tag_handle_wp:
  assumes "scan_to sz P0 b P" and "todo sz P0 < n" and "\<And>s P'. scan_to sz P0 True P' \<Longrightarrow> Q s P'"
  shows "wp False (yaml_parser_scan_tag_handle n d sm P) Q scan_fail"
  using assms(1,2) unfolding yaml_parser_scan_tag_handle_def
  by (auto elim!: scan_elims dest: nonzero CHECK_nonzero intro: scan_to_any intro!: assms(3))


lemma in_range_ascii: "in_range c lo hi \<Longrightarrow> unat (of_char lo :: byte) \<noteq> 0 \<Longrightarrow> unat (of_char hi :: byte) < 128 \<Longrightarrow> c \<noteq> 0 \<and> unat c < 128"
  by (auto simp: in_range_def word_le_nat_alt)

lemma HEX_ascii: "IS_HEX_AT P k \<Longrightarrow> ascii_at P k"
  by (auto simp: IS_HEX_AT_def ascii_at_def Let_def dest: in_range_ascii)

lemma CHECK_ascii: "CHECK_AT P c k \<Longrightarrow> unat (of_char c :: byte) \<noteq> 0 \<Longrightarrow> unat (of_char c :: byte) < 128 \<Longrightarrow> ascii_at P k"
  by (auto simp: CHECK_AT_def ascii_at_def)

lemma CHECK_ascii_iff: "CHECK_AT P c k \<Longrightarrow> ascii_at P k \<longleftrightarrow> (of_char c :: byte) \<noteq> 0 \<and> unat (of_char c :: byte) < 128"
  by (auto simp: CHECK_AT_def ascii_at_def)

lemma wp_allocate_error [simp]: "wp h (allocate P) (\<lambda>_ _. True) scan_fail"
  by (simp add: wp_allocate scan_fail_error)

lemma less_3: "(i :: nat) < 3 \<longleftrightarrow> i = 0 \<or> i = 1 \<or> i = 2"
  by auto

lemma scan_uri_octet_wp:
  assumes "scan_to sz P0 b P"
    and "\<And>c P'. scan_to sz P0 b P' \<Longrightarrow> (\<And>i. i < 3 \<Longrightarrow> ascii_at P' i) \<Longrightarrow> Q c P'"
  shows "wp False (scan_uri_octet d sm P) Q scan_fail"
  using assms(1) unfolding scan_uri_octet_def
  by (auto elim!: scan_elims intro!: assms(2) simp: less_3 dest!: CHECK_ascii_iff HEX_ascii)

lemma scan_uri_trail_wp:
  assumes "scan_to sz P0 b P" and "\<And>s P'. scan_to sz P0 b P' \<Longrightarrow> Q s P'"
  shows "wp False (scan_uri_trail k d sm s P) Q scan_fail"
  using assms(1)
proof (induction k arbitrary: s P)
  case (Suc k)
  then show ?case
    by (auto elim!: scan_uri_octet_wp SKIP_n_wp intro!: Suc.IH intro: scan_to_any)
qed (use assms(2) in simp)

lemma uri_escapes_wp:
  assumes "scan_to sz P0 b P" and "\<And>s P'. scan_to sz P0 True P' \<Longrightarrow> Q s P'"
  shows "wp False (yaml_parser_scan_uri_escapes d sm s P) Q scan_fail"
  using assms(1) unfolding yaml_parser_scan_uri_escapes_def
  by (auto elim!: scan_uri_octet_wp SKIP_n_wp scan_uri_trail_wp intro!: assms(2))

lemma is_uri_char_nonzero: "is_uri_char u P \<Longrightarrow> octet_at P 0 \<noteq> 0"
  by (auto simp: is_uri_char_def list_ex_iff CHECK_AT_def dest: ALPHA_nonzero)

lemma tag_uri_turn_wp:
  assumes "scan_to sz P0 b P" and "is_uri_char u P" and "\<And>s P'. scan_to sz P0 True P' \<Longrightarrow> Q s P'"
  shows "wp False (tag_uri_turn d sm a P) Q scan_fail"
  using assms(1) is_uri_char_nonzero [OF assms(2)] unfolding tag_uri_turn_def
  by (cases a) (auto elim!: scan_elims uri_escapes_wp intro!: assms(3))

text \<open>A loop whose turns all consume characters.\<close>

lemma scan_loop_wp:
  assumes "scan_to sz P0 b P" and "todo sz P0 < n"
    and "\<And>a P R. scan_to sz P False P \<Longrightarrow> todo sz P \<le> todo sz P0 \<Longrightarrow> c a P \<Longrightarrow>
      (\<And>a' P'. scan_to sz P True P' \<Longrightarrow> R a' P') \<Longrightarrow> wp False (f a P) R scan_fail"
    and "\<And>a' P'. scan_to sz P0 (b \<or> c a P) P' \<Longrightarrow> \<not> c a' P' \<Longrightarrow> (\<not> c a P \<Longrightarrow> a' = a \<and> P' = P) \<Longrightarrow> Q a' P'"
  shows "wp False (while_loop n c f a P) Q scan_fail"
proof -
  let ?I = "\<lambda>a' P'. scan_to sz P0 b P' \<and> (P' = P \<and> a' = a \<or> scan_to sz P0 True P' \<and> c a P)"
  have "wp False (while_loop n c f a P) (\<lambda>a P'. ?I a P' \<and> \<not> c a P') scan_fail"
  proof (rule wp_while_loop [where m = "\<lambda>_. todo sz"])
    show "?I a P" "todo sz P < n" using assms(1,2) scan_to_todo [OF assms(1)] by auto
  next
    fix a' P' assume I: "?I a' P'" and c: "c a' P'"
    show "wp False (f a' P') (\<lambda>a'' P''. ?I a'' P'' \<and> todo sz P'' < todo sz P') scan_fail"
    proof (rule assms(3))
      show "scan_to sz P' False P'" "c a' P'" "todo sz P' \<le> todo sz P0"
        using I c scan_to_inv scan_to_refl scan_to_todo by blast+
      fix a'' P'' assume "scan_to sz P' True P''"
      moreover from this have "scan_to sz P0 True P''" using scan_to_trans [of sz P0 b P' True P''] I by simp
      ultimately show "?I a'' P'' \<and> todo sz P'' < todo sz P'"
        using I c scan_to_any [of sz P0 P'' b] by (auto simp: scan_to_def)
    qed
  qed
  then show ?thesis
    by (rule wp_mono) (use assms(4) in \<open>auto elim: scan_to_weaken\<close>)
qed

lemma tag_uri_wp:
  assumes "scan_to sz P0 b P" and "todo sz P0 < n" and "\<And>s P'. scan_to sz P0 b P' \<Longrightarrow> Q s P'"
  shows "wp False (yaml_parser_scan_tag_uri n u d h sm P) Q scan_fail"
  using assms(1,2) unfolding yaml_parser_scan_tag_uri_def Let_def res_when_def
  by (auto elim!: scan_elims scan_loop_wp intro: scan_to_any scan_to_weaken intro!: assms(3) tag_uri_turn_wp split: if_splits)


lemma tag_directive_value_wp:
  assumes "scan_to sz P0 b P" and "todo sz P0 < n" and "\<And>v P'. scan_to sz P0 b P' \<Longrightarrow> Q v P'"
  shows "wp False (yaml_parser_scan_tag_directive_value n sm P) Q scan_fail"
  using assms(1,2) unfolding yaml_parser_scan_tag_directive_value_def skip_blanks_def
  by (auto elim!: scan_elims tag_handle_wp tag_uri_wp dest: nonzero intro: scan_to_any intro!: assms(3))

lemma directive_wp:
  assumes "scan_to sz P0 b P" and "todo sz P0 < n" and "octet_at P 0 \<noteq> 0" and "\<And>t P'. scan_to sz P0 True P' \<Longrightarrow> Q t P'"
  shows "wp False (yaml_parser_scan_directive n P) Q scan_fail"
  using assms(1-3) unfolding yaml_parser_scan_directive_def Let_def
  by (auto elim!: scan_elims directive_name_wp version_value_wp tag_directive_value_wp intro!: assms(4))

lemma allocate_quietly_wp:
  assumes "scan_to sz P0 b P" and "\<And>k. scan_to sz P0 b (P\<lparr>heap := k\<rparr>) \<Longrightarrow> Q () (P\<lparr>heap := k\<rparr>)"
  shows "wp False (allocate_quietly P) Q scan_fail"
  using assms scan_to_heap [OF assms(1)] by (simp add: allocate_quietly_def scan_fail_def)

lemma tests_heap' [simp]: "CHECK_AT (P\<lparr>heap := k\<rparr>) c i = CHECK_AT P c i" "ascii_at (P\<lparr>heap := k\<rparr>) i = ascii_at P i"
  by (simp_all add: CHECK_AT_def ascii_at_def)

lemma less_2: "(i :: nat) < 2 \<longleftrightarrow> i = 0 \<or> i = 1"
  by auto

lemma tag_verbatim_wp:
  assumes "scan_to sz P0 b P" and "todo sz P0 < n" and "ascii_at P 0" and "ascii_at P 1"
    and "\<And>v P'. scan_to sz P0 True P' \<Longrightarrow> Q v P'"
  shows "wp False (scan_tag_verbatim n sm P) Q scan_fail"
  using assms(1-4) unfolding scan_tag_verbatim_def
  by (auto elim!: scan_elims allocate_quietly_wp SKIP_n_wp tag_uri_wp dest: CHECK_nonzero simp: less_2 intro!: assms(5))

lemma tag_shorthand_wp:
  assumes "scan_to sz P0 b P" and "todo sz P0 < n" and "octet_at P 0 \<noteq> 0"
    and "\<And>v P'. scan_to sz P0 True P' \<Longrightarrow> Q v P'"
  shows "wp False (scan_tag_shorthand n sm P) Q scan_fail"
  using assms(1-3) unfolding scan_tag_shorthand_def
  by (auto elim!: scan_elims allocate_quietly_wp tag_handle_wp tag_uri_wp dest: CHECK_nonzero intro!: assms(4))

lemma tag_wp:
  assumes "scan_to sz P0 b P" and "todo sz P0 < n" and "ascii_at P 0"
    and "\<And>v P'. scan_to sz P0 True P' \<Longrightarrow> Q v P'"
  shows "wp False (yaml_parser_scan_tag n P) Q scan_fail"
  unfolding yaml_parser_scan_tag_def Let_def wp_bind
proof (rule CACHE_wp [OF assms(1)], goal_cases)
  case (2 P1)
  have "ascii_at P1 0" "octet_at P1 0 \<noteq> 0" using assms(3) 2(5) [of 0] by (auto simp: ascii_at_def)
  then show ?case
    using 2(1) assms(2)
    by (auto elim!: tag_verbatim_wp tag_shorthand_wp scan_elims dest!: CHECK_ascii_iff intro!: assms(4))
qed simp

lemma anchor_wp:
  assumes "scan_to sz P0 b P" and "todo sz P0 < n" and "octet_at P 0 \<noteq> 0"
    and "\<And>v P'. scan_to sz P0 True P' \<Longrightarrow> Q v P'"
  shows "wp False (yaml_parser_scan_anchor n a P) Q scan_fail"
  using assms(1-3) unfolding yaml_parser_scan_anchor_def Let_def
  by (auto elim!: scan_elims dest: nonzero intro!: assms(4))


end
