(* ===== verification/Yaml_Scalar_Facts.thy ===== *)
theory Yaml_Scalar_Facts
  imports Yaml_Text_Facts
begin

text \<open>
  The loops of the scanner that end by a flag, and the scalars: from a state that satisfies the
  invariant of the scanner and a finite source, white space, block scalars, quoted scalars and
  plain scalars are scanned with success or an error, never with an access outside the working
  buffer, and within the number of turns that the length of the input allows.
\<close>

section \<open>Loops with a flag\<close>

text \<open>
  A loop ends by its condition or by a flag \<open>g\<close>.  A turn moves on, or it clears the flag in a
  state with the property \<open>S\<close>; \<open>J\<close> is what every turn establishes.
\<close>

lemma flag_loop_wp:
  assumes "scan_to sz P0 b P" and "Suc (todo sz P0) < n" and "\<And>a P. c a P \<Longrightarrow> g a"
    and turn: "\<And>a P R. scan_to sz P False P \<Longrightarrow> todo sz P \<le> todo sz P0 \<Longrightarrow> c a P \<Longrightarrow>
      (\<And>a' P'. scan_to sz P False P' \<Longrightarrow> scan_to sz P True P' \<or> S P' \<and> \<not> g a' \<Longrightarrow> J a' P' \<Longrightarrow> R a' P') \<Longrightarrow>
      wp False (f a P) R scan_fail"
    and post: "\<And>a' P'. scan_to sz P0 b P' \<Longrightarrow> \<not> c a' P' \<Longrightarrow>
      (scan_to sz P0 True P' \<or> S P') \<and> J a' P' \<or> P' = P \<and> a' = a \<Longrightarrow> Q a' P'"
  shows "wp False (while_loop n c f a P) Q scan_fail"
proof -
  let ?I = "\<lambda>a' P'. scan_to sz P0 b P' \<and>
    ((scan_to sz P0 True P' \<or> S P' \<and> \<not> g a') \<and> J a' P' \<or> P' = P \<and> a' = a)"
  have "wp False (while_loop n c f a P) (\<lambda>a P'. ?I a P' \<and> \<not> c a P') scan_fail"
  proof (rule wp_while_loop [where m = "\<lambda>a P. todo sz P + (if g a then 1 else 0)"])
    show "?I a P" "todo sz P + (if g a then 1 else 0) < n" using assms(1,2) scan_to_todo [OF assms(1)] by auto
  next
    fix a' P' assume I: "?I a' P'" and c: "c a' P'"
    show "wp False (f a' P') (\<lambda>a'' P''. ?I a'' P'' \<and>
        todo sz P'' + (if g a'' then 1 else 0) < todo sz P' + (if g a' then 1 else 0)) scan_fail"
    proof (rule turn)
      show "scan_to sz P' False P'" "c a' P'" "todo sz P' \<le> todo sz P0"
        using I c scan_to_inv scan_to_refl scan_to_todo by blast+
      fix a'' P'' assume *: "scan_to sz P' False P''" "scan_to sz P' True P'' \<or> S P'' \<and> \<not> g a''" "J a'' P''"
      have "scan_to sz P0 b P''" using scan_to_trans [of sz P0 b P' False P''] I * by simp
      moreover have "scan_to sz P0 True P'' \<or> S P'' \<and> \<not> g a''"
        using scan_to_trans [of sz P0 b P' True P''] I * by auto
      ultimately show "?I a'' P'' \<and>
        todo sz P'' + (if g a'' then 1 else 0) < todo sz P' + (if g a' then 1 else 0)"
        using * assms(3) [OF c] by (auto simp: scan_to_def)
    qed
  qed
  then show ?thesis
    by (rule wp_mono) (auto intro: post)
qed

section \<open>White space between tokens\<close>

lemma IS_BREAK_same:
  "IS_BREAK_AT P i \<Longrightarrow> (\<And>k. octet_at P k \<noteq> 0 \<Longrightarrow> octet_at P' k = octet_at P k) \<Longrightarrow> IS_BREAK_AT P' i"
  unfolding IS_BREAK_AT_def by (elim disjE conjE) simp_all

lemma IS_BLANK_same:
  "IS_BLANK_AT P i \<Longrightarrow> (\<And>k. octet_at P k \<noteq> 0 \<Longrightarrow> octet_at P' k = octet_at P k) \<Longrightarrow> IS_BLANK_AT P' i"
  unfolding IS_BLANK_AT_def IS_SPACE_AT_def IS_TAB_AT_def by (elim disjE) simp_all

lemma CHECK_same:
  "CHECK_AT P c i \<Longrightarrow> (of_char c :: byte) \<noteq> 0 \<Longrightarrow> (\<And>k. octet_at P k \<noteq> 0 \<Longrightarrow> octet_at P' k = octet_at P k) \<Longrightarrow> CHECK_AT P' c i"
  unfolding CHECK_AT_def by simp

lemma skip_break_wp:
  assumes "scan_to sz P0 b P" and "IS_BREAK_AT P 0" and "\<And>P'. scan_to sz P0 True P' \<Longrightarrow> Q () P'"
  shows "wp False (skip_break P) Q scan_fail"
  unfolding skip_break_def wp_bind
proof (rule CACHE_wp [OF assms(1)], goal_cases)
  case (2 P1)
  have "IS_BREAK_AT P1 0" using assms(2) 2(5) by (rule IS_BREAK_same)
  then show ?case by (intro SKIP_LINE_wp [OF 2(1)]) (use assms(3) in auto)
qed simp

text \<open>The flag \<open>simple_key_allowed\<close> may change on the way to the next token.\<close>

definition scan_to_key :: "('h \<Rightarrow> nat) \<Rightarrow> ('h, 'z) yaml_scanner_scheme \<Rightarrow> bool \<Rightarrow> ('h, 'z) yaml_scanner_scheme \<Rightarrow> bool" where
  "scan_to_key sz P b P' \<longleftrightarrow> scan_to sz (P\<lparr>simple_key_allowed := simple_key_allowed P'\<rparr>) b P'"

lemma scan_inv_key [simp]: "scan_inv sz (P\<lparr>simple_key_allowed := b\<rparr>) = scan_inv sz P"
  by (simp add: scan_inv_def reader_inv_def finite_source_def chars_def at_end_def)

lemma todo_key [simp]: "todo sz (P\<lparr>simple_key_allowed := b\<rparr>) = todo sz P"
  by (simp add: todo_def at_end_def)

text \<open>The extension of the reader's group is the scanner's group.\<close>

lemma reader_more: "yaml_reader.more P = yaml_scanner_ext (stream_start_produced P) (stream_end_produced P)
    (flow_level P) (tokens P) (tokens_parsed P) (token_available P) (indents P) (indent P)
    (simple_key_allowed P) (simple_keys P) (yaml_scanner.more P)"
  by (subst (1) yaml_scanner.surjective [of P]) (rule yaml_reader.select_convs)

lemma scanner_fields:
  "yaml_reader.more P' = yaml_reader.more P \<longleftrightarrow> stream_start_produced P' = stream_start_produced P
   \<and> stream_end_produced P' = stream_end_produced P \<and> flow_level P' = flow_level P \<and> tokens P' = tokens P
   \<and> tokens_parsed P' = tokens_parsed P \<and> token_available P' = token_available P \<and> indents P' = indents P
   \<and> indent P' = indent P \<and> simple_key_allowed P' = simple_key_allowed P \<and> simple_keys P' = simple_keys P
   \<and> yaml_scanner.more P' = yaml_scanner.more P"
  unfolding reader_more by (rule yaml_scanner.ext_inject)

lemma more_key: "yaml_reader.more P' = yaml_reader.more P \<Longrightarrow>
    yaml_reader.more (P'\<lparr>simple_key_allowed := k\<rparr>) = yaml_reader.more (P\<lparr>simple_key_allowed := k\<rparr>)"
  unfolding scanner_fields by simp

lemma scan_to_key_set:
  "scan_to sz P b P' \<Longrightarrow> scan_to_key sz P b (P'\<lparr>simple_key_allowed := k\<rparr>)"
  using more_key [of P' P k] by (simp add: scan_to_key_def scan_to_def)

lemma scan_to_key: "scan_to sz P b P' \<Longrightarrow> scan_to_key sz P b P'"
  using scan_to_key_set [of sz P b P' "simple_key_allowed P'"] by simp

lemma scan_to_key_trans: "scan_to_key sz P b Q \<Longrightarrow> scan_to_key sz Q b' R \<Longrightarrow> scan_to_key sz P (b \<or> b') R"
  using scan_to_trans [of sz "P\<lparr>simple_key_allowed := simple_key_allowed R\<rparr>" b "Q\<lparr>simple_key_allowed := simple_key_allowed R\<rparr>" b' R]
    more_key [of Q "P\<lparr>simple_key_allowed := simple_key_allowed Q\<rparr>" "simple_key_allowed R"]
  by (simp add: scan_to_key_def scan_to_def)

lemma scan_to_key_inv: "scan_to_key sz P b Q \<Longrightarrow> scan_inv sz Q"
  by (simp add: scan_to_key_def scan_to_def)

lemma scan_to_key_todo: "scan_to_key sz P b Q \<Longrightarrow> todo sz Q \<le> todo sz P" "scan_to_key sz P b Q \<Longrightarrow> b \<Longrightarrow> todo sz Q < todo sz P"
  by (simp_all add: scan_to_key_def scan_to_def)

lemma IS_BOM_nonzero: "IS_BOM P \<Longrightarrow> octet_at P 0 \<noteq> 0"
  by (simp add: IS_BOM_def)

lemma TAB_nonzero: "IS_TAB_AT P k \<Longrightarrow> octet_at P k \<noteq> 0"
  by (simp add: IS_TAB_AT_def)

lemma to_next_token_turn_wp:
  assumes "scan_inv sz P" and "todo sz P < n"
  shows "wp False (to_next_token_turn n P) (\<lambda>go P'. scan_to_key sz P go P') scan_fail"
  using scan_to_refl [OF assms(1)] assms(2) unfolding to_next_token_turn_def res_when_def
  by (auto elim!: scan_elims skip_break_wp dest: CHECK_nonzero TAB_nonzero IS_BOM_nonzero
     intro: scan_to_key_set scan_to_key scan_to_any)

lemma scan_to_next_token_wp:
  assumes "scan_inv sz P" and "Suc (todo sz P) < n"
  shows "wp False (yaml_parser_scan_to_next_token n P) (\<lambda>_ P'. scan_to_key sz P False P') scan_fail"
proof -
  let ?I = "\<lambda>(_ :: bool) P'. scan_to_key sz P False P'"
  have "wp False (while_loop n (\<lambda>go _. go) (\<lambda>_. to_next_token_turn n) True P) (\<lambda>a P'. ?I a P' \<and> \<not> a) scan_fail"
  proof (rule wp_while_loop [where m = "\<lambda>go P. todo sz P + (if go then 1 else 0)"])
    show "?I True P" using scan_to_key [OF scan_to_refl [OF assms(1)]] .
  next
    fix a P' assume I: "?I a P'" and a: "a"
    show "wp False (to_next_token_turn n P') (\<lambda>a' P''. ?I a' P'' \<and> todo sz P'' + (if a' then 1 else 0) < todo sz P' + (if a then 1 else 0)) scan_fail"
    proof (rule wp_mono [OF to_next_token_turn_wp [OF scan_to_key_inv [OF I]]])
      show "todo sz P' < n" using assms(2) scan_to_key_todo(1) [OF I] by simp
      fix go P'' assume *: "scan_to_key sz P' go P''"
      then have "scan_to_key sz P go P''" using scan_to_key_trans [OF I *] by simp
      then show "?I go P'' \<and> todo sz P'' + (if go then 1 else 0) < todo sz P' + (if a then 1 else 0)"
        using a scan_to_key_todo [of sz P' go P''] * by (cases go) (auto simp: scan_to_key_def intro: scan_to_any)
    qed
  qed (use assms in simp)
  then show ?thesis unfolding yaml_parser_scan_to_next_token_def wp_bind by (rule wp_mono) auto
qed

section \<open>Block scalars\<close>

lemma chomping_wp:
  assumes "scan_to sz P0 b P" and "octet_at P 0 \<noteq> 0" and "\<And>v P'. scan_to sz P0 True P' \<Longrightarrow> Q v P'"
  shows "wp False (scan_chomping P) Q scan_fail"
  using assms(1,2) unfolding scan_chomping_def by (auto elim!: scan_elims intro!: assms(3))

lemma increment_wp:
  assumes "scan_to sz P0 b P" and "octet_at P 0 \<noteq> 0" and "\<And>v P'. scan_to sz P0 True P' \<Longrightarrow> Q v P'"
  shows "wp False (scan_increment sm P) Q scan_fail"
  using assms(1,2) unfolding scan_increment_def by (auto elim!: scan_elims intro!: assms(3))

lemma block_header_wp:
  assumes "scan_to sz P0 b P" and "\<And>v P'. scan_to sz P0 b P' \<Longrightarrow> Q v P'"
  shows "wp False (scan_block_header sm P) Q scan_fail"
  using assms(1) unfolding scan_block_header_def
  by (auto elim!: scan_elims chomping_wp increment_wp dest: CHECK_nonzero DIGIT_nonzero intro: scan_to_any intro!: assms(2))

lemma SPACE_nonzero: "IS_SPACE_AT P k \<Longrightarrow> octet_at P k \<noteq> 0"
  by (simp add: IS_SPACE_AT_def)

lemma read_break_wp:
  assumes "scan_to sz P0 b P" and "IS_BREAK_AT P 0" and "\<And>s P'. scan_to sz P0 True P' \<Longrightarrow> Q s P'"
  shows "wp False (res_bind (CACHE P 2) (\<lambda>_ P. READ_LINE P s)) Q scan_fail"
  unfolding wp_bind
proof (rule CACHE_wp [OF assms(1)], goal_cases)
  case (2 P1)
  have "IS_BREAK_AT P1 0" using assms(2) 2(5) by (rule IS_BREAK_same)
  then show ?case by (intro READ_LINE_wp [OF 2(1)]) (use assms(3) in auto)
qed simp

lemmas read_break_wp' = read_break_wp [unfolded wp_bind]

lemma block_breaks_turn_wp:
  assumes "scan_to sz P False P" and "todo sz P < n" and "bk_go v"
    and "\<And>v' P'. scan_to sz P False P' \<Longrightarrow> scan_to sz P True P' \<or> \<not> bk_go v' \<Longrightarrow> Q v' P'"
  shows "wp False (block_breaks_turn n ind sm v P) Q scan_fail"
  using assms(1,2) unfolding block_breaks_turn_def Let_def
  by (auto elim!: scan_elims read_break_wp' dest: SPACE_nonzero intro: scan_to_any intro!: assms(4))

lemma block_scalar_breaks_wp:
  assumes "scan_to sz P0 b P" and "Suc (todo sz P0) < n" and "\<And>v P'. scan_to sz P0 b P' \<Longrightarrow> Q v P'"
  shows "wp False (yaml_parser_scan_block_scalar_breaks n ind s sm P) Q scan_fail"
  unfolding yaml_parser_scan_block_scalar_breaks_def wp_bind
proof (rule flag_loop_wp [where g = bk_go and S = "\<lambda>_. True" and J = "\<lambda>_ _. True", OF assms(1,2)], goal_cases)
  case (2 v P R)
  then show ?case using assms(2) by (intro block_breaks_turn_wp) auto
qed (use assms(3) in auto)

lemma fold_block_break_wp:
  assumes "scan_to sz P0 b P" and "\<And>s k. scan_to sz P0 b (P\<lparr>heap := k\<rparr>) \<Longrightarrow> Q s (P\<lparr>heap := k\<rparr>)"
  shows "wp False (fold_block_break l v tb P) Q scan_fail"
  using assms(1) unfolding fold_block_break_def
  by (auto elim!: JOIN_wp STRING_PUT_wp intro!: assms(2))

lemma block_line_wp:
  assumes "scan_to sz P False P" and "Suc (todo sz P) < n" and "\<not> IS_Z_AT P 0"
    and "\<And>v' P'. scan_to sz P True P' \<Longrightarrow> Q v' P'"
  shows "wp False (block_line n l sm v P) Q scan_fail"
  unfolding block_line_def Let_def wp_bind
proof (rule fold_block_break_wp [OF assms(1)], goal_cases)
  case (1 s k)
  show ?case
  proof (rule read_while_wp [OF 1], goal_cases)
    case (3 s P')
    have weak: "scan_to sz P False P'" by (rule scan_to_weaken [OF 3(1)]) simp
    show ?case
    proof (cases "IS_BREAKZ_AT P 0")
      case True
      then have "IS_BREAK_AT P' 0" using 3 assms(3) by (auto simp: IS_BREAKZ_AT_def IS_Z_AT_def)
      then show ?thesis 
        using weak assms(2,4) by (auto elim!: read_break_wp' block_scalar_breaks_wp)
    next
      case False
      then have "scan_to sz P True P'" using 3 by (auto simp: IS_BREAKZ_AT_def IS_Z_AT_def)
      then show ?thesis 
        using assms(2,4)
        by (auto elim!: scan_elims block_scalar_breaks_wp)
    qed
  qed (use assms(2) in \<open>auto dest: nonzero\<close>)
qed

lemma block_lines_wp:
  assumes "scan_to sz P0 b P" and "Suc (todo sz P0) < n" and "\<And>v' P'. scan_to sz P0 b P' \<Longrightarrow> Q v' P'"
  shows "wp False (while_loop n (\<lambda>v P. as_int (column (mark P)) = bl_indent v \<and> \<not> IS_Z_AT P 0) (block_line n l sm) v P)
    Q scan_fail"
  using assms(2) by (intro scan_loop_wp [OF assms(1)] block_line_wp) (auto intro: assms(3) scan_to_weaken)

lemma block_scalar_wp:
  assumes "scan_to sz P0 b P" and "Suc (todo sz P0) < n" and "octet_at P 0 \<noteq> 0"
    and "\<And>v' P'. scan_to sz P0 True P' \<Longrightarrow> Q v' P'"
  shows "wp False (yaml_parser_scan_block_scalar n l P) Q scan_fail"
  using assms(1-3) unfolding yaml_parser_scan_block_scalar_def Let_def
  by (auto elim!: scan_elims block_header_wp block_scalar_breaks_wp block_lines_wp intro!: assms(4))

section \<open>Blanks and breaks inside flow scalars\<close>

lemma blanks_turn_wp:
  assumes "scan_to sz P False P" and "IS_BLANK_AT P 0 \<or> IS_BREAK_AT P 0"
    and "\<And>v' P'. scan_to sz P True P' \<Longrightarrow> Q v' P'"
  shows "wp False (blanks_turn t sm v P) Q scan_fail"
  using assms(1,2) unfolding blanks_turn_def
  by (auto elim!: CACHE_wp READ_wp SKIP_wp read_break_wp' dest: BLANK_nonzero intro!: assms(3))

lemma consume_blanks_wp:
  assumes "scan_to sz P0 b P" and "todo sz P0 < n"
    and "\<And>v' P'. scan_to sz P0 (b \<or> IS_BLANK_AT P 0 \<or> IS_BREAK_AT P 0) P' \<Longrightarrow> Q v' P'"
  shows "wp False (consume_blanks n t sm v P) Q scan_fail"
  unfolding consume_blanks_def
  by (rule scan_loop_wp [OF assms(1,2)]) (auto intro: assms(3) blanks_turn_wp)

lemma join_blanks_wp:
  assumes "scan_to sz P0 b P" and "\<And>v' k. scan_to sz P0 b (P\<lparr>heap := k\<rparr>) \<Longrightarrow> Q v' (P\<lparr>heap := k\<rparr>)"
  shows "wp False (join_blanks v P) Q scan_fail"
  using assms(1) unfolding join_blanks_def fold_breaks_def
  by (auto elim!: JOIN_wp STRING_PUT_wp intro!: assms(2))

section \<open>Quoted scalars\<close>

lemma escape_ascii: "escape_code b = Some r \<Longrightarrow> b \<noteq> 0 \<and> unat b < 128"
  by (auto simp: escape_code_def split: if_splits)

lemma hex_value_ascii: "hex_value k i v P = Some w \<Longrightarrow> j < k \<Longrightarrow> ascii_at P (i + j)"
proof (induction k arbitrary: i v j)
  case (Suc k)
  then show ?case using HEX_ascii [of P i] Suc.IH [of "Suc i" _ "j - 1"] by (cases j) (auto split: if_splits)
qed simp

lemma escape_length: "escape_code b = Some (Inr k) \<Longrightarrow> 0 < k \<and> k \<le> 8"
  by (auto simp: escape_code_def split: if_splits)

lemma scan_hex_wp:
  assumes "scan_to sz P0 True P" and "len \<le> 8" and "\<And>s P'. scan_to sz P0 True P' \<Longrightarrow> Q s P'"
  shows "wp False (CACHE P len) (\<lambda>_ P.
     wp False (case hex_value len 0 0 P of
               None \<Rightarrow> quoted_error P sm m1
             | Some v \<Rightarrow> if c v then quoted_error P sm m2 else res_bind (SKIP_n len P) (\<lambda>_ P. Ok (f v) P)) Q scan_fail) scan_fail"
proof (rule CACHE_wp [OF assms(1)], goal_cases)
  case (2 P2)
  show ?case
  proof (cases "hex_value len 0 0 P2")
    case (Some v)
    have "wp False (SKIP_n len P2) (\<lambda>_. Q (f v)) scan_fail"
      by (rule SKIP_n_wp [OF 2(1)]) (use hex_value_ascii [OF Some] assms(3) in auto)
    then show ?thesis using Some by (simp add: quoted_error_def)
  qed (simp add: quoted_error_def)
qed (use assms(2) in simp)

lemma scan_escape_wp:
  assumes "scan_to sz P0 b P" and "at_backslash P" and "\<And>s P'. scan_to sz P0 True P' \<Longrightarrow> Q s P'"
  shows "wp False (scan_escape sm s P) Q scan_fail"
  unfolding scan_escape_def wp_bind
proof (rule allocate_wp [OF assms(1)], goal_cases)
  case (1 k)
  show ?case
  proof (cases "escape_code (octet_at P 1)")
    case None
    then show ?thesis by (simp add: quoted_error_def)
  next
    case (Some r)
    have ascii: "ascii_at (P\<lparr>heap := k\<rparr>) i" if "i < 2" for i
      using that escape_ascii [OF Some] CHECK_ascii [OF assms(2)] by (auto simp: less_2 ascii_at_def)
    show ?thesis
    proof (cases r)
      case (Inl bs)
      have "wp False (SKIP_n 2 (P\<lparr>heap := k\<rparr>)) (\<lambda>_. Q (s @ bs)) scan_fail"
        by (rule SKIP_n_wp [OF 1 ascii]) (auto intro: assms(3))
      then show ?thesis using Some Inl by simp
    next
      case (Inr len)
      then have "wp False (SKIP_n 2 (P\<lparr>heap := k\<rparr>)) (\<lambda>_ P. wp False (CACHE P len) (\<lambda>_ P.
        wp False (case hex_value len 0 0 P of
               None \<Rightarrow> quoted_error P sm ''did not find expected hexdecimal number''
             | Some v \<Rightarrow>
                 if (v \<ge> 0xD800 \<and> v \<le> 0xDFFF) \<or> v > 0x10FFFF then
                   quoted_error P sm ''found invalid Unicode character escape code''
                 else res_bind (SKIP_n len P) (\<lambda>_ P. Ok (s @ encode_utf8 v) P)) Q scan_fail) scan_fail) scan_fail"
        using escape_length Some by (intro SKIP_n_wp [OF 1 ascii] scan_hex_wp assms(3)) auto
      then show ?thesis using Some Inr by simp
    qed
  qed
qed

lemma at_quote_ascii: "at_quote single P \<Longrightarrow> ascii_at P 0" "CHECK_AT P (CHR 0x27) k \<Longrightarrow> ascii_at P k"
  by (auto split: if_splits intro: CHECK_ascii)

lemma skip_two_quotes_wp:
  assumes "scan_to sz P0 b P" and "CHECK P (CHR 0x27)" and "CHECK_AT P (CHR 0x27) 1"
    and "\<And>P'. scan_to sz P0 True P' \<Longrightarrow> Q () P'"
  shows "wp False (SKIP_n 2 P) Q scan_fail"
  using assms(2,3) by (intro SKIP_n_wp [OF assms(1)]) (auto simp: less_2 intro: at_quote_ascii assms(4))

lemma quoted_turn_wp:
  assumes "scan_to sz P False P" and "\<not> IS_BLANKZ_AT P 0"
    and "\<And>v' P'. scan_to sz P False P' \<Longrightarrow> scan_to sz P True P' \<or> at_quote single P' \<and> \<not> sv_go v' \<Longrightarrow> Q v' P'"
  shows "wp False (quoted_turn single sm v P) Q scan_fail"
  using assms(1,2) unfolding quoted_turn_def
  by (auto elim!: scan_elims scan_escape_wp skip_two_quotes_wp dest: nonzero intro!: assms(3) intro: scan_to_any)

lemma quoted_text_wp:
  assumes "scan_to sz P False P" and "Suc (todo sz P) < n"
    and "\<And>v' P'. scan_to sz P False P' \<Longrightarrow>
      scan_to sz P True P' \<or> at_quote single P' \<or> P' = P \<and> IS_BLANKZ_AT P 0 \<Longrightarrow> Q v' P'"
  shows "wp False (while_loop n (\<lambda>v P. sv_go v \<and> \<not> IS_BLANKZ_AT P 0) (quoted_turn single sm)
      (v\<lparr>sv_go := True, sv_leading_blanks := False\<rparr>) P) Q scan_fail"
proof (rule flag_loop_wp [where g = sv_go and S = "at_quote single" and J = "\<lambda>_ _. True", OF assms(1,2)], goal_cases)
  case (2 v P R)
  then show ?case by (intro quoted_turn_wp) auto
next
  case (3 v' P')
  then show ?case by (intro assms(3)) auto
qed auto

lemma at_quote_same:
  "at_quote single P \<Longrightarrow> (\<And>k. octet_at P k \<noteq> 0 \<Longrightarrow> octet_at P' k = octet_at P k) \<Longrightarrow> at_quote single P'"
  by (auto elim!: CHECK_same split: if_splits)

lemma BLANKZ_same:
  "IS_BLANKZ_AT P i \<Longrightarrow> \<not> IS_Z_AT P i \<Longrightarrow> (\<And>k. octet_at P k \<noteq> 0 \<Longrightarrow> octet_at P' k = octet_at P k) \<Longrightarrow>
     IS_BLANK_AT P' i \<or> IS_BREAK_AT P' i"
  using IS_BLANK_same [of P i P'] IS_BREAK_same [of P i P'] by (auto simp: IS_BLANKZ_AT_def IS_BREAKZ_AT_def)

text \<open>What follows the text up to a blank: the closing quote, or blanks.\<close>

lemma quoted_rest_wp:
  assumes "scan_to sz P0 b P" and "todo sz P0 < n"
    and "b \<or> at_quote single P \<or> IS_BLANK_AT P 0 \<or> IS_BREAK_AT P 0"
    and "\<And>v' P'. scan_to sz P0 False P' \<Longrightarrow> (if sv_go v' then scan_to sz P0 True P' else at_quote single P') \<Longrightarrow> Q v' P'"
  shows "wp False (CACHE P 1) (\<lambda>_ P. wp False
           (if at_quote single P then Ok (v\<lparr>sv_go := False\<rparr>) P
           else
             res_bind (CACHE P 1) (\<lambda>_ P.
             res_bind (consume_blanks n t sm v P) (\<lambda>v P.
             res_bind (join_blanks v P) (\<lambda>v P. Ok (v\<lparr>sv_go := True\<rparr>) P)))) Q scan_fail) scan_fail"
proof (rule CACHE_wp [OF assms(1)], goal_cases)
  case (2 P1)
  show ?case
  proof (cases "at_quote single P1")
    case True
    have "scan_to sz P0 False P1" using 2(1) by (rule scan_to_weaken) simp
    then show ?thesis using True by (auto intro!: assms(4))
  next
    case False
    then have 3: "b \<or> IS_BLANK_AT P1 0 \<or> IS_BREAK_AT P1 0"
      using assms(3) at_quote_same [OF _ 2(5), of single] IS_BLANK_same [OF _ 2(5), of 0] IS_BREAK_same [OF _ 2(5), of 0] by blast
    have "wp False (CACHE P1 1) (\<lambda>_ P. wp False (consume_blanks n t sm v P) (\<lambda>v P. wp False
          (join_blanks v P) (\<lambda>v P. Q (v\<lparr>sv_go := True\<rparr>) P) scan_fail) scan_fail) scan_fail"
    proof (rule CACHE_wp [OF 2(1)], goal_cases)
      case (2 P2)
      then have 4: "b \<or> IS_BLANK_AT P2 0 \<or> IS_BREAK_AT P2 0"
        using 3 IS_BLANK_same [OF _ 2(5), of 0] IS_BREAK_same [OF _ 2(5), of 0] by blast
      show ?case
        using 4 by (intro consume_blanks_wp [OF 2(1) assms(2)] join_blanks_wp [where sz = sz and b = True])
          (auto intro!: assms(4) dest: scan_to_any [of _ _ _ False])
    qed simp
    then show ?thesis using False by simp
  qed
qed simp

lemma flow_scalar_turn_wp:
  assumes "scan_to sz P False P" and "Suc (todo sz P) < n"
    and "\<And>v' P'. scan_to sz P False P' \<Longrightarrow> (if sv_go v' then scan_to sz P True P' else at_quote single P') \<Longrightarrow> Q v' P'"
  shows "wp False (flow_scalar_turn n single sm v P) Q scan_fail"
  unfolding flow_scalar_turn_def wp_bind
proof (rule CACHE_wp [OF assms(1)], goal_cases)
  case (2 P1)
  show ?case
  proof (cases "at_document_indicator P1 \<or> IS_Z_AT P1 0")
    case True
    then show ?thesis by auto
  next
    case False
    have "wp False (CACHE P1 2) (\<lambda>_ P. wp False (while_loop n (\<lambda>v P. sv_go v \<and> \<not> IS_BLANKZ_AT P 0) (quoted_turn single sm)
      (v\<lparr>sv_go := True, sv_leading_blanks := False\<rparr>) P) (\<lambda>v P. wp False (CACHE P 1) (\<lambda>_ P. wp False
           (if at_quote single P then Ok (v\<lparr>sv_go := False\<rparr>) P
           else
             res_bind (CACHE P 1) (\<lambda>_ P.
             res_bind (consume_blanks n (\<lambda>_ _. False) sm v P) (\<lambda>v P.
             res_bind (join_blanks v P) (\<lambda>v P. Ok (v\<lparr>sv_go := True\<rparr>) P)))) Q scan_fail) scan_fail) scan_fail) scan_fail"
    proof (rule CACHE_wp [OF 2(1)], goal_cases)
      case (2 P2)
      have z: "\<not> IS_Z_AT P2 0" using False 2(5) by (auto simp: IS_Z_AT_def)
      have P2: "scan_to sz P2 False P2" using 2(1) scan_to_inv scan_to_refl by blast
      show ?case
      proof (rule quoted_text_wp [OF P2], goal_cases)
        case (2 v' P3)
        let ?b = "scan_to sz P2 True P3"
        have "scan_to sz P ?b P3" using scan_to_trans [OF \<open>scan_to sz P False P2\<close>, of ?b P3] 2(1)
          by (cases ?b) auto
        then show ?case
          by (rule quoted_rest_wp) (use 2 z assms(2,3) in \<open>auto simp: IS_BLANKZ_AT_def IS_BREAKZ_AT_def\<close>)
      qed (use assms(2) scan_to_todo [OF 2(1)] in simp)
    qed simp
    then show ?thesis using False by simp
  qed
qed simp

lemma quoted_scalar_loop_wp:
  assumes "scan_to sz P0 True P" and "Suc (todo sz P0) < n"
    and "\<And>v P'. scan_to sz P0 True P' \<Longrightarrow> at_quote single P' \<Longrightarrow> Q v P'"
  shows "wp False (while_loop n (\<lambda>v _. sv_go v) (flow_scalar_turn n single sm) (scalar_vars_init m) P) Q scan_fail"
proof (rule flag_loop_wp [where g = sv_go and S = "at_quote single"
      and J = "\<lambda>v P. \<not> sv_go v \<longrightarrow> at_quote single P", OF assms(1,2)], goal_cases)
  case (2 v P R)
  then show ?case using assms(2) by (intro flow_scalar_turn_wp) (auto split: if_splits)
qed (use assms(3) in \<open>auto simp: scalar_vars_init_def\<close>)

lemma flow_scalar_wp:
  assumes "scan_to sz P0 b P" and "Suc (todo sz P0) < n" and "octet_at P 0 \<noteq> 0"
    and "\<And>v' P'. scan_to sz P0 True P' \<Longrightarrow> Q v' P'"
  shows "wp False (yaml_parser_scan_flow_scalar n single P) Q scan_fail"
  using assms(1-3) unfolding yaml_parser_scan_flow_scalar_def Let_def
  by (auto elim!: allocate_wp SKIP_wp quoted_scalar_loop_wp dest: at_quote_ascii(1) simp: ascii_at_def intro!: assms(4))

section \<open>Plain scalars\<close>

lemma plain_turn_wp:
  assumes "scan_to sz P False P" and "\<not> IS_BLANKZ_AT P 0"
    and "\<And>v' P'. scan_to sz P False P' \<Longrightarrow> scan_to sz P True P' \<or> \<not> sv_go v' \<Longrightarrow> Q v' P'"
  shows "wp False (plain_turn sm v P) Q scan_fail"
  using assms(1,2) unfolding plain_turn_def Let_def
  by (auto elim!: scan_elims join_blanks_wp dest: nonzero intro!: assms(3) intro: scan_to_any)

text \<open>The characters that a plain scalar may start with: the first turn consumes one.\<close>

definition plain_start :: "('h, 'z) yaml_scanner_scheme \<Rightarrow> bool" where
  "plain_start P \<longleftrightarrow> \<not> IS_BLANKZ_AT P 0 \<and> \<not> (CHECK P CHR '':'' \<and> IS_BLANKZ_AT P 1)
     \<and> \<not> (flow_level P \<noteq> 0 \<and> list_ex (CHECK P) '',[]{}'')"

lemma plain_turn_start_wp:
  assumes "scan_to sz P False P" and "plain_start P"
    and "\<And>v' P'. scan_to sz P True P' \<Longrightarrow> Q v' P'"
  shows "wp False (plain_turn sm v P) Q scan_fail"
  using assms(1,2) unfolding plain_turn_def Let_def plain_start_def
  by (auto elim!: scan_elims join_blanks_wp dest: nonzero intro!: assms(3))

lemma plain_text_wp:
  assumes "scan_to sz P0 b P" and "Suc (todo sz P0) < n"
    and "\<And>v' P'. scan_to sz P0 b P' \<Longrightarrow> Q v' P'"
  shows "wp False (while_loop n (\<lambda>v P. sv_go v \<and> \<not> IS_BLANKZ_AT P 0) (plain_turn sm) v P) Q scan_fail"
proof (rule flag_loop_wp [where g = sv_go and S = "\<lambda>_. True" and J = "\<lambda>_ _. True", OF assms(1,2)], goal_cases)
  case (2 v P R)
  then show ?case by (intro plain_turn_wp) auto
qed (use assms(3) in auto)

lemma plain_text_start_wp:
  assumes "scan_to sz P False P" and "Suc (todo sz P) < n" and "plain_start P" and "sv_go v"
    and "\<And>v' P'. scan_to sz P True P' \<Longrightarrow> Q v' P'"
  shows "wp False (while_loop n (\<lambda>v P. sv_go v \<and> \<not> IS_BLANKZ_AT P 0) (plain_turn sm) v P) Q scan_fail"
proof (cases n)
  case (Suc m)
  let ?c = "\<lambda>v P. sv_go v \<and> \<not> IS_BLANKZ_AT P 0"
  have "wp False (plain_turn sm v P) (\<lambda>v P. wp False (while_loop m ?c (plain_turn sm) v P) Q scan_fail) scan_fail"
  proof (rule plain_turn_start_wp [OF assms(1,3)], rule plain_text_wp)
    fix v' P' v'' P'' assume 1: "scan_to sz P True P'"
    then show "scan_to sz P' False P'" using scan_to_inv scan_to_refl by blast
    show "Suc (todo sz P') < m" using 1 assms(2) Suc by (auto simp: scan_to_def)
    assume "scan_to sz P' False P''"
    then show "Q v'' P''" using scan_to_trans [OF 1, of False P''] assms(5) by simp
  qed
  then show ?thesis using Suc assms(3,4) by (simp add: plain_start_def)
qed (use assms(2) in simp)

text \<open>What follows the text up to a blank: the end of the scalar, or blanks.\<close>

lemma plain_rest_wp:
  assumes "scan_to sz P0 b P" and "todo sz P0 < n"
    and "\<And>v' P'. scan_to sz P0 b P' \<Longrightarrow> scan_to sz P0 True P' \<or> \<not> sv_go v' \<Longrightarrow> Q v' P'"
  shows "wp False (if \<not> (IS_BLANK_AT P 0 \<or> IS_BREAK_AT P 0) then Ok (v\<lparr>sv_go := False\<rparr>) P
           else res_bind (CACHE P 1) (\<lambda>_ P. res_bind (consume_blanks n t sm v P)
               (\<lambda>v P. Ok (v\<lparr>sv_go := g P\<rparr>) P))) Q scan_fail"
proof (cases "IS_BLANK_AT P 0 \<or> IS_BREAK_AT P 0")
  case True
  have "wp False (CACHE P 1) (\<lambda>_ P. wp False (consume_blanks n t sm v P) (\<lambda>v P. Q (v\<lparr>sv_go := g P\<rparr>) P) scan_fail) scan_fail"
  proof (rule CACHE_wp [OF assms(1)], goal_cases)
    case (2 P1)
    have "IS_BLANK_AT P1 0 \<or> IS_BREAK_AT P1 0"
      using True IS_BLANK_same [OF _ 2(5), of 0] IS_BREAK_same [OF _ 2(5), of 0] by blast
    then show ?case
      by (intro consume_blanks_wp [OF 2(1) assms(2)]) (auto intro: assms(3) scan_to_any)
  qed simp
  then show ?thesis using True by simp
qed (use assms in auto)

lemma plain_scalar_turn_wp:
  assumes "scan_to sz P False P" and "Suc (todo sz P) < n"
    and "\<And>v' P'. scan_to sz P False P' \<Longrightarrow> scan_to sz P True P' \<or> \<not> sv_go v' \<Longrightarrow> Q v' P'"
  shows "wp False (plain_scalar_turn n ind sm v P) Q scan_fail"
  unfolding plain_scalar_turn_def wp_bind
proof (rule CACHE_wp [OF assms(1)], goal_cases)
  case (2 P1)
  show ?case
  proof (cases "at_document_indicator P1 \<or> CHECK P1 CHR ''#''")
    case True
    then show ?thesis using 2(1) by (auto intro!: assms(3))
  next
    case False
    have "wp False (while_loop n (\<lambda>v P. sv_go v \<and> \<not> IS_BLANKZ_AT P 0) (plain_turn sm) (v\<lparr>sv_go := True\<rparr>) P1) 
      (\<lambda>v P. wp False (if \<not> (IS_BLANK_AT P 0 \<or> IS_BREAK_AT P 0) then Ok (v\<lparr>sv_go := False\<rparr>) P
           else
             res_bind (CACHE P 1) (\<lambda>_ P.
             res_bind (consume_blanks n
                 (\<lambda>v P. sv_leading_blanks v \<and> as_int (column (mark P)) < ind \<and> IS_TAB_AT P 0) sm v P)
               (\<lambda>v P.
               Ok (v\<lparr>sv_go := \<not> (flow_level P = 0 \<and> as_int (column (mark P)) < ind)\<rparr>) P))) Q scan_fail) scan_fail"
      using assms(2) by (intro plain_text_wp [OF 2(1)] plain_rest_wp assms(3)) auto
    then show ?thesis using False by simp
  qed
qed simp

lemma CACHE_ready: "ready k P \<Longrightarrow> finite_source sz P \<Longrightarrow> CACHE P k = Ok () P"
  by (auto simp: CACHE_def ready_def at_end_def yaml_parser_update_buffer_def finite_source_def)

lemma plain_scalar_turn_start_wp:
  assumes "scan_to sz P False P" and "Suc (todo sz P) < n" and "ready 4 P" and "plain_start P"
    and "\<not> at_document_indicator P" and "\<not> CHECK P CHR ''#''"
    and "\<And>v' P'. scan_to sz P True P' \<Longrightarrow> Q v' P'"
  shows "wp False (plain_scalar_turn n ind sm v P) Q scan_fail"
proof -
  have "CACHE P 4 = Ok () P"
    using scan_to_inv [OF assms(1)] by (intro CACHE_ready [OF assms(3)]) (auto simp: scan_inv_def)
  moreover have "wp False (while_loop n (\<lambda>v P. sv_go v \<and> \<not> IS_BLANKZ_AT P 0) (plain_turn sm) (v\<lparr>sv_go := True\<rparr>) P)
      (\<lambda>v P. wp False (if \<not> (IS_BLANK_AT P 0 \<or> IS_BREAK_AT P 0) then Ok (v\<lparr>sv_go := False\<rparr>) P
           else
             res_bind (CACHE P 1) (\<lambda>_ P.
             res_bind (consume_blanks n
                 (\<lambda>v P. sv_leading_blanks v \<and> as_int (column (mark P)) < ind \<and> IS_TAB_AT P 0) sm v P)
               (\<lambda>v P.
               Ok (v\<lparr>sv_go := \<not> (flow_level P = 0 \<and> as_int (column (mark P)) < ind)\<rparr>) P))) Q scan_fail) scan_fail"
    using assms(2) by (intro plain_text_start_wp [OF assms(1,2,4)] plain_rest_wp [where b = True] assms(7)) auto
  ultimately show ?thesis
    using assms(5,6) unfolding plain_scalar_turn_def wp_bind by simp
qed

lemma plain_scalar_loop_wp:
  assumes "scan_to sz P False P" and "Suc (todo sz P) < n" and "ready 4 P" and "plain_start P"
    and "\<not> at_document_indicator P" and "\<not> CHECK P CHR ''#''"
    and "\<And>v' P'. scan_to sz P True P' \<Longrightarrow> Q v' P'"
  shows "wp False (while_loop n (\<lambda>v _. sv_go v) (plain_scalar_turn n ind sm) (scalar_vars_init m) P) Q scan_fail"
proof (cases n)
  case (Suc k)
  have "wp False (plain_scalar_turn n ind sm (scalar_vars_init m) P)
    (\<lambda>v P. wp False (while_loop k (\<lambda>v _. sv_go v) (plain_scalar_turn n ind sm) v P) Q scan_fail) scan_fail"
  proof (rule plain_scalar_turn_start_wp [OF assms(1-6)])
    fix v' P' assume 1: "scan_to sz P True P'"
    then have P': "scan_to sz P' False P'" using scan_to_inv scan_to_refl by blast
    have todo: "Suc (todo sz P') < k" using 1 assms(2) Suc by (auto simp: scan_to_def)
    show "wp False (while_loop k (\<lambda>v _. sv_go v) (plain_scalar_turn n ind sm) v' P') Q scan_fail"
    proof (rule flag_loop_wp [where g = sv_go and S = "\<lambda>_. True" and J = "\<lambda>_ _. True", OF P' todo], goal_cases)
      case (2 v P R)
      then show ?case using todo Suc by (intro plain_scalar_turn_wp) auto
    next
      case (3 v'' P'')
      then show ?case using scan_to_trans [OF 1, of False P''] assms(7) by simp
    qed
  qed
  then show ?thesis using Suc by (simp add: scalar_vars_init_def)
qed (use assms(2) in simp)

lemma ready_heap [simp]: "ready k (P\<lparr>heap := h\<rparr>) = ready k P"
  by (simp add: ready_def at_end_def)

lemma todo_heap [simp]: "todo sz (P\<lparr>heap := h\<rparr>) = todo sz P"
  by (simp add: todo_def at_end_def)

lemma starts_heap [simp]: "plain_start (P\<lparr>heap := h\<rparr>) = plain_start P"
  "at_document_indicator (P\<lparr>heap := h\<rparr>) = at_document_indicator P"
  by (simp_all add: plain_start_def at_document_indicator_def is_indicator_def tests list_ex_iff)

lemma scan_to_from_heap: "scan_to sz (P\<lparr>heap := h\<rparr>) b P' = scan_to sz P b P'"
  by (simp add: scan_to_def)

lemma plain_scalar_wp:
  assumes "scan_inv sz P" and "Suc (todo sz P) < n" and "ready 4 P" and "plain_start P"
    and "\<not> at_document_indicator P" and "\<not> CHECK P CHR ''#''"
  shows "wp False (yaml_parser_scan_plain_scalar n P) (\<lambda>_ P'. scan_to_key sz P True P') scan_fail"
proof -
  have *: "wp False (allocate P') Q scan_fail"
    if "P' = P\<lparr>heap := h\<rparr>" "\<And>h. Q () (P\<lparr>heap := h\<rparr>)" for P' Q h
    using that by (simp add: wp_allocate scan_fail_error)
  have "wp False (while_loop n (\<lambda>v _. sv_go v) (plain_scalar_turn n ind sm) (scalar_vars_init m) (P\<lparr>heap := h\<rparr>))
     (\<lambda>v P'. scan_to_key sz P True (if sv_leading_blanks v then P'\<lparr>simple_key_allowed := True\<rparr> else P')) scan_fail" for h ind sm m
    using assms scan_to_heap [OF scan_to_refl [OF assms(1)], of h]
    by (intro plain_scalar_loop_wp [where sz = sz])
       (auto simp: scan_to_from_heap intro: scan_to_key scan_to_key_set scan_to_refl)
  then show ?thesis unfolding yaml_parser_scan_plain_scalar_def Let_def wp_bind
    by (intro * [of _ "heap P"] *) auto
qed

end
