(* ===== verification/Yaml_Scanner_Facts.thy ===== *)
theory Yaml_Scanner_Facts
  imports Yaml_Scanner Yaml_Scalar_Facts Yaml_Api
begin

text \<open>
  Facts about the queue of tokens: the invariant that every fetcher keeps, the proof that
  fetching tokens from a finite source always comes back with a token or an error, and the
  interface that the scanner offers to its caller.
\<close>

text \<open>The reader's group does not depend on the scanner's group.\<close>

lemma scan_inv_scanner [simp]:
  "scan_inv sz (P\<lparr>tokens := x0\<rparr>) = scan_inv sz P"
  "scan_inv sz (P\<lparr>simple_keys := x1\<rparr>) = scan_inv sz P"
  "scan_inv sz (P\<lparr>indents := x2\<rparr>) = scan_inv sz P"
  "scan_inv sz (P\<lparr>indent := x3\<rparr>) = scan_inv sz P"
  "scan_inv sz (P\<lparr>flow_level := x4\<rparr>) = scan_inv sz P"
  "scan_inv sz (P\<lparr>token_available := x5\<rparr>) = scan_inv sz P"
  "scan_inv sz (P\<lparr>stream_start_produced := x6\<rparr>) = scan_inv sz P"
  "scan_inv sz (P\<lparr>stream_end_produced := x7\<rparr>) = scan_inv sz P"
  "scan_inv sz (P\<lparr>tokens_parsed := x8\<rparr>) = scan_inv sz P"
  by (simp_all add: scan_inv_def reader_inv_def finite_source_def chars_def at_end_def)

lemma scan_inv_heap [simp]: "scan_inv sz (P\<lparr>heap := k\<rparr>) = scan_inv sz P"
  by (simp add: scan_inv_def reader_inv_def finite_source_def chars_def at_end_def)

lemma todo_scanner [simp]:
  "todo sz (P\<lparr>tokens := x0\<rparr>) = todo sz P"
  "todo sz (P\<lparr>simple_keys := x1\<rparr>) = todo sz P"
  "todo sz (P\<lparr>indents := x2\<rparr>) = todo sz P"
  "todo sz (P\<lparr>indent := x3\<rparr>) = todo sz P"
  "todo sz (P\<lparr>flow_level := x4\<rparr>) = todo sz P"
  "todo sz (P\<lparr>token_available := x5\<rparr>) = todo sz P"
  "todo sz (P\<lparr>stream_start_produced := x6\<rparr>) = todo sz P"
  "todo sz (P\<lparr>stream_end_produced := x7\<rparr>) = todo sz P"
  "todo sz (P\<lparr>tokens_parsed := x8\<rparr>) = todo sz P"
  by (simp_all add: todo_def at_end_def)

section \<open>The invariant of the scanner\<close>

text \<open>A potential simple key stands for a token that was not handed out yet.\<close>

definition key_ok :: "nat \<Rightarrow> nat \<Rightarrow> yaml_simple_key \<Rightarrow> bool" where
  "key_ok parsed len k \<longleftrightarrow> (possible k \<longrightarrow> parsed \<le> token_number k \<and> token_number k \<le> parsed + len)"

text \<open>
  After the start of the stream there is one simple key per flow level, and the indentation
  levels grow from \<open>- 1\<close>; before it there is nothing.
\<close>

definition queue_inv :: "('h, 'z) yaml_scanner_scheme \<Rightarrow> bool" where
  "queue_inv P \<longleftrightarrow>
     (if stream_start_produced P then
        0 \<le> flow_level P \<and> int (length (simple_keys P)) = flow_level P + 1
        \<and> list_all (key_ok (tokens_parsed P) (length (tokens P))) (simple_keys P)
        \<and> hd (indents P @ [indent P]) = - 1 \<and> sorted_wrt (<) (indents P @ [indent P])
      else tokens P = [] \<and> simple_keys P = [] \<and> indents P = [] \<and> flow_level P = 0)"

text \<open>Potential simple keys lie before the mark, strictly if \<open>b\<close>.\<close>

definition keys_before :: "bool \<Rightarrow> ('h, 'z) yaml_scanner_scheme \<Rightarrow> bool" where
  "keys_before b P \<longleftrightarrow> list_all (\<lambda>k. possible k \<longrightarrow> mark_less (sk_mark k) (mark P) \<or> \<not> b \<and> sk_mark k = mark P)
     (simple_keys P)"

text \<open>
  How many tokens may still come: those in the queue, one block end for every indentation level,
  and at most four for every character.  The start and the end of the stream are not counted.
\<close>

definition counted :: "yaml_token \<Rightarrow> bool" where
  "counted t \<longleftrightarrow> \<not> is_YAML_STREAM_START_TOKEN (tok_data t) \<and> tok_data t \<noteq> YAML_STREAM_END_TOKEN"

definition token_work :: "('h \<Rightarrow> nat) \<Rightarrow> ('h, 'z) yaml_scanner_scheme \<Rightarrow> nat" where
  "token_work sz P = length (filter counted (tokens P)) + length (indents P) + 4 * todo sz P"

lemma length_counted: "length (filter counted (ts @ [t])) \<le> Suc (length (filter counted ts))"
  by simp

definition scanner_frame :: "('h, 'z) yaml_scanner_scheme \<Rightarrow> ('h, 'z) yaml_scanner_scheme \<Rightarrow> bool" where
  "scanner_frame P P' \<longleftrightarrow> error P' = error P \<and> yaml_scanner.more P' = yaml_scanner.more P
     \<and> stream_end_produced P' = stream_end_produced P \<and> tokens_parsed P' = tokens_parsed P"

text \<open>From \<open>P0\<close> a fetcher came to \<open>P\<close> and owes \<open>c\<close> tokens; it has consumed characters if \<open>b\<close>.\<close>

definition scanning :: "('h \<Rightarrow> nat) \<Rightarrow> ('h, 'z) yaml_scanner_scheme \<Rightarrow> nat \<Rightarrow> bool \<Rightarrow> ('h, 'z) yaml_scanner_scheme \<Rightarrow> bool" where
  "scanning sz P0 c b P \<longleftrightarrow> scan_inv sz P \<and> stream_start_produced P \<and> queue_inv P \<and> keys_before b P
     \<and> scanner_frame P0 P \<and> todo sz P \<le> todo sz P0 \<and> (b \<longrightarrow> todo sz P < todo sz P0)
     \<and> token_work sz P + (if b then 4 else 0) \<le> token_work sz P0 + c"

lemma keys_before_scan_to:
  assumes "keys_before b P" and "simple_keys P' = simple_keys P"
    and "mark_less (mark P) (mark P') \<or> \<not> b' \<and> mark P' = mark P"
  shows "keys_before (b \<or> b') P'"
  using assms(1,3) mark_less_trans [of _ "mark P" "mark P'"] unfolding keys_before_def assms(2)
  by (auto simp: list_all_iff)

lemma scanning_scan_to:
  assumes "scanning sz P0 c b P" and "scan_to_key sz P b' P'"
  shows "scanning sz P0 c (b \<or> b') P'"
proof -
  have same: "stream_start_produced P' = stream_start_produced P" "stream_end_produced P' = stream_end_produced P"
    "flow_level P' = flow_level P" "tokens P' = tokens P" "tokens_parsed P' = tokens_parsed P"
    "indents P' = indents P" "indent P' = indent P" "simple_keys P' = simple_keys P"
    "yaml_scanner.more P' = yaml_scanner.more P"
    using assms(2) by (simp_all add: scan_to_key_def scan_to_def scanner_fields)
  have "keys_before (b \<or> b') P'"
    using assms by (intro keys_before_scan_to [of b P]) (auto simp: scanning_def same scan_to_key_def scan_to_def)
  moreover have "queue_inv P'" using assms(1) by (simp add: scanning_def queue_inv_def same)
  ultimately show ?thesis
    using assms by (auto simp: scanning_def scan_to_key_def scan_to_def same scanner_frame_def token_work_def)
qed

lemma scanning_weaken: "scanning sz P0 c b P \<Longrightarrow> (b' \<Longrightarrow> b) \<Longrightarrow> c \<le> c' \<Longrightarrow> scanning sz P0 c' b' P"
  by (auto simp: scanning_def keys_before_def list_all_iff)

lemma scanning_inv: "scanning sz P0 c b P \<Longrightarrow> scan_inv sz P"
  by (simp add: scanning_def)

section \<open>Rules for the operations of the scanner\<close>

text \<open>The characters ahead are the same.\<close>

definition same_text :: "('h, 'z) yaml_scanner_scheme \<Rightarrow> ('h, 'z) yaml_scanner_scheme \<Rightarrow> bool" where
  "same_text P P' \<longleftrightarrow> buffer P' = buffer P \<and> mark P' = mark P \<and> unread P' = unread P \<and> at_end P' = at_end P"

lemma same_text_octet: "same_text P P' \<Longrightarrow> octet_at P' i = octet_at P i"
  by (simp add: same_text_def octet_at_def)

lemma same_text_ready: "same_text P P' \<Longrightarrow> ready k P' = ready k P"
  by (simp add: same_text_def ready_def)

lemma queue_inv_heap [simp]: "queue_inv (P\<lparr>heap := k\<rparr>) = queue_inv P"
  by (simp add: queue_inv_def)

lemma scanning_heap: "scanning sz P0 c b P \<Longrightarrow> scanning sz P0 c b (P\<lparr>heap := k\<rparr>)"
  using scan_to_heap [OF scan_to_refl, of sz P k]
  by (auto simp: scanning_def scan_to_def keys_before_def scanner_frame_def token_work_def)

lemma scanning_key: "scanning sz P0 c b (P\<lparr>simple_key_allowed := k\<rparr>) = scanning sz P0 c b P"
  by (simp add: scanning_def keys_before_def scanner_frame_def token_work_def queue_inv_def)


lemma scan_fail_flow: "scan_fail (P\<lparr>flow_level := x\<rparr>) = scan_fail P" "scan_fail (P\<lparr>simple_keys := x2\<rparr>) = scan_fail P"
  by (simp_all add: scan_fail_def)

lemma alloc_scanning_wp:
  assumes "scanning sz P0 c b P" and "\<And>k. scanning sz P0 c b (P\<lparr>heap := k\<rparr>) \<Longrightarrow> Q () (P\<lparr>heap := k\<rparr>)"
  shows "wp False (allocate P) Q scan_fail"
  using assms scanning_heap [OF assms(1)] by (simp add: wp_allocate scan_fail_error)

text \<open>Appending tokens and replacing the key of the current level.\<close>

lemma key_ok_longer: "list_all (key_ok p n) ks \<Longrightarrow> n \<le> m \<Longrightarrow> list_all (key_ok p m) ks"
  by (auto simp: list_all_iff key_ok_def)

lemma scanning_tokens:
  assumes "scanning sz P0 c b P" and "length (tokens P) \<le> length ts" and "length (filter counted ts) + c \<le> length (filter counted (tokens P)) + c'"
  shows "scanning sz P0 c' b (P\<lparr>tokens := ts\<rparr>)"
  using assms key_ok_longer [OF _ assms(2)]
  by (auto simp: scanning_def keys_before_def scanner_frame_def token_work_def queue_inv_def)

lemma scanning_indent:
  assumes "scanning sz P0 c b P" and "hd (is @ [i]) = - 1" and "sorted_wrt (<) (is @ [i])" and "length is + c \<le> length (indents P) + c'"
  shows "scanning sz P0 c' b (P\<lparr>indents := is, indent := i\<rparr>)"
  using assms
  by (auto simp: scanning_def keys_before_def scanner_frame_def token_work_def queue_inv_def)

lemma scanning_keys:
  assumes "scanning sz P0 c b P" and "keys_before b' (P\<lparr>simple_keys := ks\<rparr>)" and "b' \<Longrightarrow> b"
    and "int (length ks) = fl + 1" and "0 \<le> fl"
    and "list_all (key_ok (tokens_parsed P) (length (tokens P))) ks"
  shows "scanning sz P0 c b' (P\<lparr>flow_level := fl, simple_keys := ks\<rparr>)"
  using assms
  by (auto simp: scanning_def keys_before_def scanner_frame_def token_work_def queue_inv_def)

lemma insert_token_wp:
  assumes "scanning sz P0 c b P"
    and "tokens_parsed P \<le> i" and "i \<le> tokens_parsed P + length (tokens P)"
    and "\<And>ts k. scanning sz P0 (Suc c) b (P\<lparr>heap := k, tokens := ts\<rparr>) \<Longrightarrow> length ts = length (tokens P) + 1 \<Longrightarrow>
       Q () (P\<lparr>heap := k, tokens := ts\<rparr>)"
  shows "wp False (insert_token P i t) Q scan_fail"
proof -
  define j where "j = i - tokens_parsed P"
  have j: "j \<le> length (tokens P)" using assms(2,3) by (simp add: j_def)
  have "filter counted (take j (tokens P)) @ filter counted (drop j (tokens P)) = filter counted (tokens P)"
    by (simp flip: filter_append)
  then have len: "length (filter counted (take j (tokens P))) + length (filter counted (drop j (tokens P))) = length (filter counted (tokens P))"
    by (metis length_append)
  have 1: "scanning sz P0 (Suc c) b (P\<lparr>heap := k, tokens := take j (tokens P) @ [t] @ drop j (tokens P)\<rparr>)" for k
    by (rule scanning_tokens [OF scanning_heap [OF assms(1)]]) (use j len in auto)
  show ?thesis
    unfolding insert_token_def QUEUE_INSERT_def j_def [symmetric]
    using assms(2) j assms(4) [OF 1] by (auto simp: wp_allocate scan_fail_error)
qed

text \<open>Keys that were dropped.\<close>

definition fewer_keys :: "yaml_simple_key list \<Rightarrow> yaml_simple_key list \<Rightarrow> bool" where
  "fewer_keys ks ks' \<longleftrightarrow> list_all2 (\<lambda>k k'. possible k' \<longrightarrow> k' = k) ks ks'"

lemma fewer_keys_all:
  "fewer_keys ks ks' \<Longrightarrow> list_all (\<lambda>k. possible k \<longrightarrow> Q k) ks \<Longrightarrow> list_all (\<lambda>k. possible k \<longrightarrow> Q k) ks'"
  unfolding fewer_keys_def by (induction rule: list_all2_induct) auto

lemma fewer_keys_drop_last:
  "ks \<noteq> [] \<Longrightarrow> \<not> possible k \<Longrightarrow> fewer_keys ks (butlast ks @ [k])"
  using list_all2_append [of "butlast ks" "butlast ks" _ "[last ks]" "[k]"]
  by (simp add: fewer_keys_def list_all2_same)

lemma scanning_fewer_keys:
  assumes "scanning sz P0 c b P" and "fewer_keys (simple_keys P) ks"
  shows "scanning sz P0 c b (P\<lparr>simple_keys := ks\<rparr>)"
proof -
  have len: "length ks = length (simple_keys P)" using assms(2) by (simp add: fewer_keys_def list_all2_lengthD)
  have "list_all (key_ok (tokens_parsed P) (length (tokens P))) ks"
    using fewer_keys_all [OF assms(2), of "\<lambda>k. tokens_parsed P \<le> token_number k \<and> token_number k \<le> tokens_parsed P + length (tokens P)"]
      assms(1) by (auto simp: scanning_def queue_inv_def list_all_iff key_ok_def)
  moreover have "keys_before b (P\<lparr>simple_keys := ks\<rparr>)"
    using fewer_keys_all [OF assms(2)] assms(1) by (simp add: scanning_def keys_before_def)
  ultimately have "scanning sz P0 c b (P\<lparr>flow_level := flow_level P, simple_keys := ks\<rparr>)"
    using assms(1) len by (intro scanning_keys [OF assms(1)]) (auto simp: scanning_def queue_inv_def)
  then show ?thesis by simp
qed

lemma stale_keys_result:
  "stale_keys m ks = (ks', e) \<Longrightarrow> fewer_keys ks ks' \<and> (e = None \<longrightarrow> list_all (\<lambda>k. \<not> stale m k) ks')"
  by (induction ks arbitrary: ks' e) (auto simp: fewer_keys_def stale_def list_all2_same split: if_splits prod.splits)

lemma stale_simple_keys_wp:
  assumes "scanning sz P0 c b P"
    and "\<And>ks. scanning sz P0 c b (P\<lparr>simple_keys := ks\<rparr>) \<Longrightarrow> fewer_keys (simple_keys P) ks \<Longrightarrow> list_all (\<lambda>k. \<not> stale (mark P) k) ks \<Longrightarrow>
      Q () (P\<lparr>simple_keys := ks\<rparr>)"
  shows "wp False (yaml_parser_stale_simple_keys P) Q scan_fail"
  using stale_keys_result [of "mark P" "simple_keys P"] assms(2) [OF scanning_fewer_keys [OF assms(1)]]
  unfolding yaml_parser_stale_simple_keys_def simple_key_error_def by (auto split: prod.splits option.splits)

lemma scanning_nonempty: "scanning sz P0 c b P \<Longrightarrow> simple_keys P \<noteq> []"
  by (auto simp: scanning_def queue_inv_def)

lemma remove_simple_key_wp:
  assumes "scanning sz P0 c b P"
    and "\<And>ks. scanning sz P0 c b (P\<lparr>simple_keys := ks\<rparr>) \<Longrightarrow> ks \<noteq> [] \<Longrightarrow> \<not> possible (last ks) \<Longrightarrow> fewer_keys (simple_keys P) ks \<Longrightarrow> Q () (P\<lparr>simple_keys := ks\<rparr>)"
  shows "wp False (yaml_parser_remove_simple_key P) Q scan_fail"
proof -
  let ?k = "(last (simple_keys P))\<lparr>possible := False\<rparr>"
  have "fewer_keys (simple_keys P) (butlast (simple_keys P) @ [?k])"
    by (rule fewer_keys_drop_last [OF scanning_nonempty [OF assms(1)]]) simp
  then show ?thesis
    using scanning_nonempty [OF assms(1)] assms(2) [OF scanning_fewer_keys [OF assms(1)]]
    by (auto simp: yaml_parser_remove_simple_key_def set_simple_key_def Let_def simple_key_error_def)
qed

lemma save_simple_key_wp:
  assumes "scanning sz P0 c False P" and "\<And>P'. scanning sz P0 c False P' \<Longrightarrow> same_text P P' \<Longrightarrow> flow_level P' = flow_level P \<Longrightarrow> indent P' = indent P \<Longrightarrow> Q () P'"
  shows "wp False (yaml_parser_save_simple_key P) Q scan_fail"
proof -
  let ?k = "\<lparr>possible = True, required = flow_level P = 0 \<and> indent P = int (column (mark P)),
     token_number = tokens_parsed P + length (tokens P), sk_mark = mark P\<rparr>"
  have *: "scanning sz P0 c False (P\<lparr>flow_level := flow_level P, simple_keys := butlast ks @ [?k]\<rparr>)" 
    if "scanning sz P0 c False (P\<lparr>simple_keys := ks\<rparr>)" "ks \<noteq> []" for ks
    using that assms(1) by (intro scanning_keys [OF assms(1)])
      (auto simp: scanning_def queue_inv_def keys_before_def list_all_iff key_ok_def dest: in_set_butlastD)
  have "wp False (yaml_parser_remove_simple_key P) (\<lambda>_ P'. Q () (set_simple_key ?k P')) scan_fail"
  proof (rule remove_simple_key_wp [OF assms(1)])
    fix ks assume "scanning sz P0 c False (P\<lparr>simple_keys := ks\<rparr>)" "ks \<noteq> []"
    from * [OF this] show "Q () (set_simple_key ?k (P\<lparr>simple_keys := ks\<rparr>))"
      by (intro assms(2)) (simp_all add: set_simple_key_def same_text_def at_end_def)
  qed
  then show ?thesis
    using assms(1) assms(2) [OF assms(1)] by (simp add: yaml_parser_save_simple_key_def Let_def same_text_def)
qed

lemma swap_keys: "P\<lparr>simple_keys := ks, flow_level := fl\<rparr> = P\<lparr>flow_level := fl, simple_keys := ks\<rparr>"
  by simp

lemma increase_flow_level_wp:
  assumes "scanning sz P0 c b P" and "\<And>P'. scanning sz P0 c b P' \<Longrightarrow> same_text P P' \<Longrightarrow> Q () P'"
  shows "wp False (yaml_parser_increase_flow_level P) Q scan_fail"
proof -
  have "scanning sz P0 c b ((P\<lparr>heap := k\<rparr>)\<lparr>flow_level := flow_level P + 1, simple_keys := simple_keys P @ [empty_simple_key]\<rparr>)" for k
    using assms(1) by (intro scanning_keys [OF scanning_heap [OF assms(1)]])
      (auto simp: scanning_def queue_inv_def keys_before_def key_ok_def empty_simple_key_def list_all_iff)
  from assms(2) [OF this] show ?thesis
    by (auto simp: swap_keys yaml_parser_increase_flow_level_def push_simple_key_def PUSH_def wp_allocate scan_fail_error scan_fail_flow same_text_def at_end_def)
qed

lemma decrease_flow_level_wp:
  assumes "scanning sz P0 c b P" and "\<And>fl ks. scanning sz P0 c b (P\<lparr>flow_level := fl, simple_keys := ks\<rparr>) \<Longrightarrow> Q () (P\<lparr>flow_level := fl, simple_keys := ks\<rparr>)"
  shows "wp False (yaml_parser_decrease_flow_level P) Q scan_fail"
proof -
  have "scanning sz P0 c b (P\<lparr>flow_level := flow_level P - 1, simple_keys := butlast (simple_keys P)\<rparr>)" if "flow_level P \<noteq> 0"
    using assms(1) that by (intro scanning_keys [OF assms(1)])
      (auto simp: scanning_def queue_inv_def keys_before_def list_all_iff dest: in_set_butlastD)
  with assms(2) assms(2) [where fl = "flow_level P" and ks = "simple_keys P"] show ?thesis
    using assms(1) scanning_nonempty [OF assms(1)] by (auto simp: yaml_parser_decrease_flow_level_def wp_POP)
qed


lemma unroll_loop_wp:
  assumes "scanning sz P0 c b P" and "- 1 \<le> col"
    and "\<And>P'. scanning sz P0 c b P' \<Longrightarrow> same_text P P' \<Longrightarrow> flow_level P' = flow_level P \<Longrightarrow> simple_keys P' = simple_keys P \<Longrightarrow> Q () P'"
  shows "wp False (unroll_loop col P) Q scan_fail"
  using assms
proof (induction col P rule: unroll_loop.induct)
  case (1 col P)
  show ?case
  proof (cases "indent P > col")
    case True
    let ?t = "TOKEN_INIT YAML_BLOCK_END_TOKEN (mark P) (mark P)"
    have hd: "hd (indents P @ [indent P]) = - 1" "sorted_wrt (<) (indents P @ [indent P])"
      using 1(2) by (simp_all add: scanning_def queue_inv_def)
    then have ne: "indents P \<noteq> []" using True 1(3) by (cases "indents P") auto
    show ?thesis
    proof (cases "heap P = 0")
      case False
      let ?P1 = "P\<lparr>heap := heap P - 1, tokens := tokens P @ [?t]\<rparr>"
      let ?P2 = "?P1\<lparr>indents := butlast (indents P), indent := last (indents P)\<rparr>"
      have swap: "?P1\<lparr>indent := last (indents ?P1), indents := butlast (indents ?P1)\<rparr> = ?P2" by simp
      have "scanning sz P0 (Suc c) b ?P1"
        by (rule scanning_tokens [OF scanning_heap [OF 1(2)]]) simp_all
      then have P2: "scanning sz P0 c b ?P2"
        using hd ne by (intro scanning_indent) (auto simp: sorted_wrt_append hd_append split: if_splits)
      have E: "ENQUEUE P ?t = Ok () ?P1" using False by (simp add: ENQUEUE_def allocate_def)
      have "wp False (unroll_loop col (?P1\<lparr>indent := last (indents ?P1), indents := butlast (indents ?P1)\<rparr>)) Q scan_fail"
      proof (rule 1(1) [OF True E])
        fix P' assume *: "scanning sz P0 c b P'"
          "same_text (?P1\<lparr>indent := last (indents ?P1), indents := butlast (indents ?P1)\<rparr>) P'"
          "flow_level P' = flow_level (?P1\<lparr>indent := last (indents ?P1), indents := butlast (indents ?P1)\<rparr>)"
          "simple_keys P' = simple_keys (?P1\<lparr>indent := last (indents ?P1), indents := butlast (indents ?P1)\<rparr>)"
        then show "Q () P'" by (intro 1(4)) (simp_all add: same_text_def at_end_def)
      qed (use ne P2 [folded swap] 1(3) in simp_all)
      then show ?thesis
        using True ne E unfolding unroll_loop.simps [of col P] by simp
    qed (use True in \<open>simp add: unroll_loop.simps [of col P] ENQUEUE_def allocate_def scan_fail_error\<close>)
  next
    case False
    then show ?thesis using 1(2,4) unfolding unroll_loop.simps [of col P] by (simp add: same_text_def)
  qed
qed

lemma unroll_indent_wp:
  assumes "scanning sz P0 c b P" and "- 1 \<le> col"
    and "\<And>P'. scanning sz P0 c b P' \<Longrightarrow> same_text P P' \<Longrightarrow> flow_level P' = flow_level P \<Longrightarrow> simple_keys P' = simple_keys P \<Longrightarrow> Q () P'"
  shows "wp False (yaml_parser_unroll_indent P col) Q scan_fail"
proof (cases "flow_level P = 0")
  case True
  then show ?thesis
    using unroll_loop_wp [where Q = Q, OF assms] by (simp only: yaml_parser_unroll_indent_def) simp
next
  case False
  have "Q () P" by (rule assms(3) [OF assms(1)]) (simp_all add: same_text_def)
  then show ?thesis using False by (simp add: yaml_parser_unroll_indent_def)
qed

lemma sorted_wrt_snoc_less: "sorted_wrt (<) (is @ [i]) \<Longrightarrow> i < j \<Longrightarrow> sorted_wrt (<) ((is @ [i]) @ [j :: int])"
  by (auto simp: sorted_wrt_append)

lemma roll_indent_wp:
  assumes "scanning sz P0 c b P"
    and "\<And>k. number = Some k \<Longrightarrow> tokens_parsed P \<le> k \<and> k \<le> tokens_parsed P + length (tokens P)"
    and "\<And>P'. scanning sz P0 (c + 2) b P' \<Longrightarrow> same_text P P' \<Longrightarrow> simple_keys P' = simple_keys P \<Longrightarrow> Q () P'"
  shows "wp False (yaml_parser_roll_indent P col number d m) Q scan_fail"
proof -
  have sorted: "hd (indents P @ [indent P]) = - 1" "sorted_wrt (<) (indents P @ [indent P])"
    using assms(1) by (simp_all add: scanning_def queue_inv_def)
  let ?P = "\<lambda>k. (P\<lparr>heap := k\<rparr>)\<lparr>indents := indents P @ [indent P], indent := col\<rparr>"
  have P': "scanning sz P0 (Suc c) b (?P k)" if "indent P < col" for k
    using sorted that by (intro scanning_indent [OF scanning_heap [OF assms(1)]] sorted_wrt_snoc_less) (auto simp: hd_append split: if_splits)
  have "wp False (case number of None \<Rightarrow> ENQUEUE (?P k) (TOKEN_INIT d m m) | Some i \<Rightarrow> insert_token (?P k) i (TOKEN_INIT d m m))
      Q scan_fail" if "indent P < col" for k
  proof (cases number)
    case None
    have "wp False (ENQUEUE (?P k) (TOKEN_INIT d m m)) Q scan_fail"
      unfolding ENQUEUE_def wp_bind
      by (rule alloc_scanning_wp [OF P' [OF that]])
         (auto intro!: assms(3) scanning_tokens simp: same_text_def at_end_def)
    then show ?thesis using None by simp
  next
    case (Some i)
    have "wp False (insert_token (?P k) i (TOKEN_INIT d m m)) Q scan_fail"
      by (rule insert_token_wp [OF P' [OF that]])
         (use assms(2) [OF Some] in \<open>auto intro!: assms(3) simp: same_text_def at_end_def\<close>)
    then show ?thesis using Some by simp
  qed
  then show ?thesis
    using scanning_weaken [OF assms(1), of b "c + 2"] assms(3) [of P]
    by (auto simp: yaml_parser_roll_indent_def wp_PUSH scan_fail_error Let_def scan_fail_def same_text_def)
qed

lemma reset_scanner_wp:
  assumes "scanning sz P0 c b P" 
    and "\<And>P'. scanning sz P0 c b P' \<Longrightarrow> same_text P P' \<Longrightarrow> fewer_keys (simple_keys P) (simple_keys P') \<Longrightarrow> Q () P'"
  shows "wp False (reset_scanner P) Q scan_fail"
  unfolding reset_scanner_def wp_bind
proof (rule unroll_indent_wp [OF assms(1)], simp, rule remove_simple_key_wp)
  fix P' ks assume "same_text P P'" "simple_keys P' = simple_keys P" "fewer_keys (simple_keys P') ks" "scanning sz P0 c b (P'\<lparr>simple_keys := ks\<rparr>)"
  then show "wp False (Ok () (P'\<lparr>simple_keys := ks, simple_key_allowed := False\<rparr>)) Q scan_fail"
    by (auto intro!: assms(2) simp: scanning_key same_text_def at_end_def)
qed

section \<open>The fetchers\<close>

definition lines_past :: "('h, 'z) yaml_scanner_scheme \<Rightarrow> bool" where
  "lines_past P \<longleftrightarrow> list_all (\<lambda>k. possible k \<longrightarrow> line (sk_mark k) < line (mark P)) (simple_keys P)"

definition fetched :: "('h \<Rightarrow> nat) \<Rightarrow> ('h, 'z) yaml_scanner_scheme \<Rightarrow> ('h, 'z) yaml_scanner_scheme \<Rightarrow> bool" where
  "fetched sz P0 P \<longleftrightarrow> scan_inv sz P \<and> stream_start_produced P \<and> queue_inv P \<and> keys_before True P \<and> scanner_frame P0 P
     \<and> todo sz P \<le> todo sz P0 \<and> token_work sz P \<le> token_work sz P0 \<and> tokens P \<noteq> []
     \<and> (todo sz P < todo sz P0 \<or> \<not> stream_start_produced P0 \<or> lines_past P)"

lemma ENQUEUE_fetched_wp:
  assumes "scanning sz P0 c b P" and "keys_before True P" and "b \<and> c \<le> 3 \<or> c = 0 \<and> lines_past P \<and> \<not> counted t"
  shows "wp False (ENQUEUE P t) (\<lambda>_. fetched sz P0) scan_fail"
proof -
  let ?P = "\<lambda>k. P\<lparr>heap := k, tokens := tokens P @ [t]\<rparr>"
  have "list_all (key_ok (tokens_parsed P) (Suc (length (tokens P)))) (simple_keys P)"
    by (rule key_ok_longer [of _ "length (tokens P)"]) (use assms in \<open>auto simp: scanning_def queue_inv_def\<close>)
  then have "queue_inv (?P k)" for k
    using assms(1) by (simp add: scanning_def queue_inv_def)
  moreover have "token_work sz (?P k) \<le> token_work sz P0" for k
    using assms by (auto simp: scanning_def token_work_def)
  moreover have "todo sz P < todo sz P0 \<or> lines_past (?P k)" for k
    using assms by (auto simp: scanning_def lines_past_def)
  ultimately have "fetched sz P0 (?P k)" for k
    using assms(1,2) by (auto simp: fetched_def scanning_def keys_before_def scanner_frame_def)
  then show ?thesis by (simp add: ENQUEUE_def wp_allocate scan_fail_error)
qed

lemma ENQUEUE_last_wp:
  assumes "scanning sz P0 c True P" and "c \<le> 3"
  shows "wp False (ENQUEUE P t) (\<lambda>_. fetched sz P0) scan_fail"
  using assms by (intro ENQUEUE_fetched_wp [OF assms(1)]) (auto simp: scanning_def)

lemma scanning_refl: "scanning sz P0 c b P \<Longrightarrow> scan_to sz P False P"
  using scanning_inv scan_to_refl by blast

lemma fetch_indicator_wp:
  assumes "scanning sz P0 c b P" and "\<And>i. i < k \<Longrightarrow> ascii_at P i" and "0 < k" and "c \<le> 3"
  shows "wp False (fetch_indicator k d P) (\<lambda>_. fetched sz P0) scan_fail"
  unfolding fetch_indicator_def Let_def wp_bind
proof (rule SKIP_n_wp [OF scanning_refl [OF assms(1)] assms(2)], assumption)
  fix P' assume "scan_to sz P (False \<or> 0 < k) P'"
  then have "scanning sz P0 c True P'" 
    using assms(3) scanning_scan_to [OF assms(1) scan_to_key, of True P'] by simp
  then show "wp False (ENQUEUE P' (TOKEN_INIT d (mark P) (mark P'))) (\<lambda>_. fetched sz P0) scan_fail"
    using assms(4) by (rule ENQUEUE_last_wp)
qed

lemma fetch_stream_start_wp:
  assumes "scan_inv sz P" and "queue_inv P" and "\<not> stream_start_produced P"
  shows "wp False (yaml_parser_fetch_stream_start P) (\<lambda>_. fetched sz P) scan_fail"
proof -
  let ?t = "TOKEN_INIT (YAML_STREAM_START_TOKEN (encoding P)) (mark P) (mark P)"
  have t: "\<not> counted ?t" by (simp add: counted_def TOKEN_INIT_def)
  show ?thesis
    using assms t
    by (auto simp: yaml_parser_fetch_stream_start_def push_simple_key_def ENQUEUE_def wp_PUSH wp_allocate scan_fail_error
        scan_fail_def fetched_def queue_inv_def keys_before_def key_ok_def empty_simple_key_def
        scanner_frame_def token_work_def)
qed

lemma fetch_directive_wp:
  assumes "scanning sz P0 0 b P" and "todo sz P0 < n" and "octet_at P 0 \<noteq> 0"
  shows "wp False (yaml_parser_fetch_directive n P) (\<lambda>_. fetched sz P0) scan_fail"
  unfolding yaml_parser_fetch_directive_def wp_bind
proof (rule reset_scanner_wp [OF assms(1)])
  fix P' assume *: "scanning sz P0 0 b P'" "same_text P P'"
  have "todo sz P' < n" using * assms(2) by (auto simp: scanning_def)
  then show "wp False (yaml_parser_scan_directive n P') (\<lambda>t P. wp False (ENQUEUE P t) (\<lambda>_. fetched sz P0) scan_fail) scan_fail"
    using assms(3) same_text_octet [OF *(2), of 0] scanning_scan_to [OF *(1) scan_to_key, of True]
    by (intro directive_wp [OF scanning_refl [OF *(1)]] ENQUEUE_last_wp) auto
qed

lemma same_text_ascii: "same_text P P' \<Longrightarrow> ascii_at P i \<Longrightarrow> ascii_at P' i"
  by (simp add: ascii_at_def same_text_octet)

lemma same_text_key: "same_text P (P'\<lparr>simple_key_allowed := k\<rparr>) = same_text P P'"
  by (simp add: same_text_def at_end_def)

lemma fetch_document_indicator_wp:
  assumes "scanning sz P0 0 b P" and "\<And>i. i < 3 \<Longrightarrow> ascii_at P i"
  shows "wp False (yaml_parser_fetch_document_indicator d P) (\<lambda>_. fetched sz P0) scan_fail"
  unfolding yaml_parser_fetch_document_indicator_def wp_bind
  using assms(2) by (intro reset_scanner_wp [OF assms(1)] fetch_indicator_wp) (auto intro: same_text_ascii)

text \<open>One character, after an operation that leaves the text alone.\<close>

lemma fetch_one_wp:
  assumes "scanning sz P0 c b P'" and "same_text P P'" and "ascii_at P 0" and "c \<le> 3"
  shows "wp False (fetch_indicator 1 d (P'\<lparr>simple_key_allowed := k\<rparr>)) (\<lambda>_. fetched sz P0) scan_fail"
  using assms same_text_ascii [of P P'] by (intro fetch_indicator_wp) (auto simp: scanning_key ascii_at_def)

lemma same_text_keys: "same_text P P' \<Longrightarrow> same_text P (P'\<lparr>simple_keys := ks\<rparr>)"
  by (simp add: same_text_def at_end_def)

lemma same_text_trans: "same_text P P' \<Longrightarrow> same_text P' P'' \<Longrightarrow> same_text P P''"
  by (simp add: same_text_def)

lemma same_text_refl [simp]: "same_text P P"
  by (simp add: same_text_def)

lemma flow_collection_start_wp:
  assumes "scanning sz P0 0 False P" and "ascii_at P 0"
  shows "wp False (yaml_parser_fetch_flow_collection_start d P) (\<lambda>_. fetched sz P0) scan_fail"
  unfolding yaml_parser_fetch_flow_collection_start_def wp_bind
  using assms(2) by (intro save_simple_key_wp [OF assms(1)] increase_flow_level_wp fetch_one_wp) (auto intro: same_text_trans)

lemma flow_collection_end_wp:
  assumes "scanning sz P0 0 False P" and "ascii_at P 0"
  shows "wp False (yaml_parser_fetch_flow_collection_end d P) (\<lambda>_. fetched sz P0) scan_fail"
  unfolding yaml_parser_fetch_flow_collection_end_def wp_bind
  using assms(2) by (intro remove_simple_key_wp [OF assms(1)] decrease_flow_level_wp fetch_one_wp [where P = P])
     (auto simp: same_text_def at_end_def)

lemma flow_entry_wp:
  assumes "scanning sz P0 0 False P" and "ascii_at P 0"
  shows "wp False (yaml_parser_fetch_flow_entry P) (\<lambda>_. fetched sz P0) scan_fail"
  unfolding yaml_parser_fetch_flow_entry_def wp_bind
  using assms(2) by (intro remove_simple_key_wp [OF assms(1)] fetch_one_wp [where P = P]) (auto intro: same_text_keys)

lemma open_block_wp:
  assumes "scanning sz P0 c b P" and "\<And>P'. scanning sz P0 (c + 2) b P' \<Longrightarrow> same_text P P' \<Longrightarrow> simple_keys P' = simple_keys P \<Longrightarrow> Q () P'"
  shows "wp False (open_block d msg P) Q scan_fail"
proof -
  have "Q () P" by (rule assms(2) [OF scanning_weaken [OF assms(1)]]) simp_all
  moreover have "wp False (yaml_parser_roll_indent P (int (column (mark P))) None d (mark P)) Q scan_fail"
    by (rule roll_indent_wp [OF assms(1)]) (auto intro: assms(2))
  ultimately show ?thesis by (simp add: open_block_def)
qed

lemma block_entry_wp:
  assumes "scanning sz P0 0 False P" and "ascii_at P 0"
  shows "wp False (yaml_parser_fetch_block_entry P) (\<lambda>_. fetched sz P0) scan_fail"
  unfolding yaml_parser_fetch_block_entry_def wp_bind
  using assms(2) by (intro open_block_wp [OF assms(1)] remove_simple_key_wp fetch_one_wp [where P = P])
    (auto intro: same_text_keys)

lemma fetch_key_wp:
  assumes "scanning sz P0 0 False P" and "ascii_at P 0"
  shows "wp False (yaml_parser_fetch_key P) (\<lambda>_. fetched sz P0) scan_fail"
  unfolding yaml_parser_fetch_key_def wp_bind
  using assms(2) by (intro open_block_wp [OF assms(1)] remove_simple_key_wp fetch_one_wp [where P = P])
    (auto intro: same_text_keys)

lemma last_key_ok:
  assumes "scanning sz P0 c b P" and "possible (last (simple_keys P))"
  shows "tokens_parsed P \<le> token_number (last (simple_keys P))"
    "token_number (last (simple_keys P)) \<le> tokens_parsed P + length (tokens P)"
  using assms scanning_nonempty [OF assms(1)] by (auto simp: scanning_def queue_inv_def list_all_iff key_ok_def)

lemma fetch_simple_key_value_wp:
  fixes P :: "('h, 'z) yaml_scanner_scheme"
  assumes "scanning sz P0 0 False P" and "ascii_at P 0" and "possible k" and "k = last (simple_keys P)"
  shows "wp False (insert_token P (token_number k) (TOKEN_INIT YAML_KEY_TOKEN (sk_mark k) (sk_mark k))) (\<lambda>_ P.
     wp False (yaml_parser_roll_indent P (int (column (sk_mark k))) (Some (token_number k))
         YAML_BLOCK_MAPPING_START_TOKEN (sk_mark k)) (\<lambda>_ P.
     wp False (fetch_indicator 1 YAML_VALUE_TOKEN
        ((set_simple_key (k\<lparr>possible := False\<rparr>) P)\<lparr>simple_key_allowed := False\<rparr>)) (\<lambda>_. fetched sz P0) scan_fail) scan_fail) scan_fail"
proof (rule insert_token_wp [OF assms(1)], goal_cases)
  case (3 ts h)
  show ?case
  proof (rule roll_indent_wp [OF 3(1)])
    fix P' assume *: "scanning sz P0 (Suc 0 + 2) False P'" "same_text (P\<lparr>heap := h, tokens := ts\<rparr>) P'"
    have "scanning sz P0 (Suc 0 + 2) False (set_simple_key (k\<lparr>possible := False\<rparr>) P')"
      unfolding set_simple_key_def
      by (intro scanning_fewer_keys [OF *(1)] fewer_keys_drop_last scanning_nonempty [OF *(1)]) simp
    moreover have "same_text P (set_simple_key (k\<lparr>possible := False\<rparr>) P')"
      using *(2) by (simp add: same_text_def at_end_def set_simple_key_def)
    ultimately show "wp False (fetch_indicator 1 YAML_VALUE_TOKEN
        ((set_simple_key (k\<lparr>possible := False\<rparr>) P')\<lparr>simple_key_allowed := False\<rparr>)) (\<lambda>_. fetched sz P0) scan_fail"
      using assms(2) by (rule fetch_one_wp) simp
  qed (use last_key_ok [OF assms(1)] assms(3,4) 3(2) in auto)
qed (use last_key_ok [OF assms(1)] assms(3,4) in auto)

lemma fetch_value_wp:
  assumes "scanning sz P0 0 False P" and "ascii_at P 0"
  shows "wp False (yaml_parser_fetch_value P) (\<lambda>_. fetched sz P0) scan_fail"
proof (cases "possible (last (simple_keys P))")
  case True
  then show ?thesis
    using fetch_simple_key_value_wp [OF assms True refl] scanning_nonempty [OF assms(1)]
    by (simp add: yaml_parser_fetch_value_def Let_def)
next
  case False
  have "wp False (open_block YAML_BLOCK_MAPPING_START_TOKEN msg P) (\<lambda>_ P'. wp False (fetch_indicator 1 YAML_VALUE_TOKEN
      (P'\<lparr>simple_key_allowed := (flow_level P' = 0)\<rparr>)) (\<lambda>_. fetched sz P0) scan_fail) scan_fail" for msg
    using assms(2) by (intro open_block_wp [OF assms(1)] fetch_one_wp [where P = P]) auto
  then show ?thesis
    using False scanning_nonempty [OF assms(1)] by (simp add: yaml_parser_fetch_value_def Let_def)
qed

lemma fetch_scanned_wp:
  assumes "scanning sz P0 0 False P"
    and "\<And>P'. scanning sz P0 0 False P' \<Longrightarrow> same_text P P' \<Longrightarrow> flow_level P' = flow_level P \<Longrightarrow>
       wp False (scan P') (\<lambda>_. scan_to_key sz P' True) scan_fail"
  shows "wp False (fetch_scanned scan P) (\<lambda>_. fetched sz P0) scan_fail"
  unfolding fetch_scanned_def wp_bind
proof (rule save_simple_key_wp [OF assms(1)])
  fix P' assume *: "scanning sz P0 0 False P'" "same_text P P'" "flow_level P' = flow_level P"
  let ?P = "P'\<lparr>simple_key_allowed := False\<rparr>"
  have P: "scanning sz P0 0 False ?P" using *(1) by (simp add: scanning_key)
  have "wp False (scan ?P) (\<lambda>_. scan_to_key sz ?P True) scan_fail"
    using * P by (intro assms(2)) (simp_all add: same_text_key)
  then show "wp False (scan ?P) (\<lambda>t P. wp False (ENQUEUE P t) (\<lambda>_. fetched sz P0) scan_fail) scan_fail"
    by (rule wp_mono) (use scanning_scan_to [OF P] in \<open>auto intro: ENQUEUE_last_wp\<close>)
qed

lemma fetch_tokens_wp:
  fixes P :: "('h, 'z) yaml_scanner_scheme"
  assumes "scanning sz P0 0 False P" and "Suc (todo sz P0) < n" and "ascii_at P 0"
  shows "wp False (yaml_parser_fetch_anchor n a P) (\<lambda>_. fetched sz P0) scan_fail"
    "wp False (yaml_parser_fetch_tag n P) (\<lambda>_. fetched sz P0) scan_fail"
    "wp False (yaml_parser_fetch_flow_scalar n single P) (\<lambda>_. fetched sz P0) scan_fail"
proof -
  have *: "Suc (todo sz P') < n" "ascii_at P' 0" "octet_at P' 0 \<noteq> 0" "scan_to sz P' False P'"
    if "scanning sz P0 0 False P'" "same_text P P'" for P' :: "('h, 'z) yaml_scanner_scheme"
    using that assms(2,3) same_text_ascii [OF that(2) assms(3)] scanning_refl [OF that(1)] by (auto simp: scanning_def ascii_at_def)
  show "wp False (yaml_parser_fetch_anchor n a P) (\<lambda>_. fetched sz P0) scan_fail"
    unfolding yaml_parser_fetch_anchor_def
    by (rule fetch_scanned_wp [OF assms(1)], rule anchor_wp) (auto dest: * intro: scan_to_key Suc_lessD)
  show "wp False (yaml_parser_fetch_tag n P) (\<lambda>_. fetched sz P0) scan_fail"
    unfolding yaml_parser_fetch_tag_def
    by (rule fetch_scanned_wp [OF assms(1)], rule tag_wp) (auto dest: * intro: scan_to_key Suc_lessD)
  show "wp False (yaml_parser_fetch_flow_scalar n single P) (\<lambda>_. fetched sz P0) scan_fail"
    unfolding yaml_parser_fetch_flow_scalar_def
    by (rule fetch_scanned_wp [OF assms(1)], rule flow_scalar_wp) (auto dest: * intro: scan_to_key)
qed

lemma fetch_block_scalar_wp:
  assumes "scanning sz P0 0 False P" and "Suc (todo sz P0) < n" and "ascii_at P 0"
  shows "wp False (yaml_parser_fetch_block_scalar n l P) (\<lambda>_. fetched sz P0) scan_fail"
  unfolding yaml_parser_fetch_block_scalar_def wp_bind
proof (rule remove_simple_key_wp [OF assms(1)])
  fix ks assume *: "scanning sz P0 0 False (P\<lparr>simple_keys := ks\<rparr>)"
  let ?P = "P\<lparr>simple_keys := ks, simple_key_allowed := True\<rparr>"
  have P: "scanning sz P0 0 False ?P" using * by (simp add: scanning_key)
  have "octet_at ?P 0 \<noteq> 0" using assms(3) by (auto simp: ascii_at_def octet_at_def split: if_splits)
  moreover have "Suc (todo sz ?P) < n" using * assms(2) by (auto simp: scanning_def)
  ultimately show "wp False (yaml_parser_scan_block_scalar n l ?P)
      (\<lambda>t P. wp False (ENQUEUE P t) (\<lambda>_. fetched sz P0) scan_fail) scan_fail"
    using scanning_scan_to [OF P scan_to_key, of True]
    by (intro block_scalar_wp [OF scanning_refl [OF P]] ENQUEUE_last_wp) auto
qed

lemma plain_start_same:
  assumes "same_text P P'" and "flow_level P' = flow_level P"
  shows "plain_start P' = plain_start P" "at_document_indicator P' = at_document_indicator P" "CHECK_AT P' c i = CHECK_AT P c i"
  using assms same_text_octet [OF assms(1)]
  by (simp_all add: plain_start_def at_document_indicator_def is_indicator_def tests list_ex_iff same_text_def)

lemma fetch_plain_scalar_wp:
  assumes "scanning sz P0 0 False P" and "Suc (todo sz P0) < n" and "ready 4 P" and "plain_start P"
    and "\<not> at_document_indicator P" and "\<not> CHECK P CHR ''#''"
  shows "wp False (yaml_parser_fetch_plain_scalar n P) (\<lambda>_. fetched sz P0) scan_fail"
  unfolding yaml_parser_fetch_plain_scalar_def
proof (rule fetch_scanned_wp [OF assms(1)], rule plain_scalar_wp)
  fix P' assume "scanning sz P0 0 False P'" "same_text P P'" "flow_level P' = flow_level P"
  then show "scan_inv sz P'" "Suc (todo sz P') < n" "ready 4 P'" "plain_start P'" "\<not> at_document_indicator P'" "\<not> CHECK P' CHR ''#''"
    using assms plain_start_same [of P P'] same_text_ready [of P P'] by (auto simp: scanning_def)
qed

text \<open>The end of the stream is on a line of its own, so no simple key survives it.\<close>

lemma scan_inv_mark [simp]: "scan_inv sz (P\<lparr>mark := m\<rparr>) = scan_inv sz P" "todo sz (P\<lparr>mark := m\<rparr>) = todo sz P"
  by (simp_all add: scan_inv_def reader_inv_def finite_source_def chars_def at_end_def todo_def)

lemma fetch_stream_end_wp:
  assumes "scanning sz P0 0 False P" and "keys_before True P"
  shows "wp False (yaml_parser_fetch_stream_end P) (\<lambda>_. fetched sz P0) scan_fail"
proof -
  let ?P = "if column (mark P) \<noteq> 0 then P\<lparr>mark := (mark P)\<lparr>column := 0, line := line (mark P) + 1\<rparr>\<rparr> else P"
  have past: "lines_past ?P" "keys_before True ?P"
    using assms(2) by (auto simp: lines_past_def keys_before_def mark_less_def list_all_iff)
  have "keys_before False ?P" using past(2) by (auto simp: keys_before_def list_all_iff)
  then have P: "scanning sz P0 0 False ?P"
    using assms(1) by (auto simp: scanning_def queue_inv_def scanner_frame_def token_work_def)
  show ?thesis
    unfolding yaml_parser_fetch_stream_end_def Let_def wp_bind
  proof (rule reset_scanner_wp [OF P])
    fix P' assume *: "scanning sz P0 0 False P'" "same_text ?P P'" "fewer_keys (simple_keys ?P) (simple_keys P')"
    have "lines_past P'" "keys_before True P'"
      using past fewer_keys_all [OF *(3)] *(2) by (simp_all add: lines_past_def keys_before_def same_text_def)
    then show "wp False (ENQUEUE P' (TOKEN_INIT YAML_STREAM_END_TOKEN (mark P') (mark P'))) (\<lambda>_. fetched sz P0) scan_fail"
      by (intro ENQUEUE_fetched_wp [OF *(1)]) (simp_all add: counted_def TOKEN_INIT_def)
  qed
qed

section \<open>The dispatcher\<close>

lemma not_BLANKZ_ascii: "CHECK_AT P c k \<Longrightarrow> (of_char c :: byte) \<notin> {0, 0x20, 0x09, 0x0D, 0x0A, 0xC2, 0xE2} \<Longrightarrow> \<not> IS_BLANKZ_AT P k"
  by (simp add: CHECK_AT_def IS_BLANKZ_AT_def IS_BREAKZ_AT_def IS_BLANK_AT_def IS_SPACE_AT_def IS_TAB_AT_def IS_BREAK_AT_def IS_Z_AT_def)

lemma CHECK_unique: "CHECK_AT P c k \<Longrightarrow> CHECK_AT P d k \<Longrightarrow> (of_char c :: byte) = of_char d"
  by (simp add: CHECK_AT_def)

lemma starts_plain_start:
  assumes "starts_plain P" and "\<not> list_ex (CHECK P) '',[]{}''"
    and "\<not> (CHECK P CHR '':'' \<and> (flow_level P \<noteq> 0 \<or> IS_BLANKZ_AT P 1))"
  shows "plain_start P" and "\<not> CHECK P CHR ''#''"
proof -
  consider "\<not> IS_BLANKZ_AT P 0" "\<not> CHECK P CHR ''#''" | c where "CHECK P c" "c \<in> set ''-?:''"
    using assms(1) unfolding starts_plain_def by auto
  then have *: "\<not> IS_BLANKZ_AT P 0 \<and> \<not> CHECK P CHR ''#''"
  proof cases
    case 2
    then show ?thesis using not_BLANKZ_ascii [OF 2(1)] CHECK_unique [OF 2(1), of "CHR ''#''"] by auto
  qed simp
  then show "plain_start P" "\<not> CHECK P CHR ''#''" using assms(2,3) unfolding plain_start_def by blast+
qed

lemma wp_ifI: "(b \<Longrightarrow> wp h r Q E) \<Longrightarrow> (\<not> b \<Longrightarrow> wp h r' Q E) \<Longrightarrow> wp h (if b then r else r') Q E"
  by simp

lemma fetch_by_character_wp:
  assumes "scanning sz P0 0 False P" and "keys_before True P" and "ready 4 P" and "Suc (todo sz P0) < n"
  shows "wp False (fetch_by_character n P) (\<lambda>_. fetched sz P0) scan_fail"
proof -
  have c: "ascii_at P k" if "CHECK_AT P c k" "0 < unat (of_char c :: byte) \<and> unat (of_char c :: byte) < 128" for c k
    using that by (intro CHECK_ascii) auto
  have ind: "ascii_at P i" if "is_indicator P c" "i < 3" "0 < unat (of_char c :: byte) \<and> unat (of_char c :: byte) < 128" for c i
    using that c [of c 0] c [of c 1] c [of c 2] by (auto simp: is_indicator_def less_3)
  have plain: "wp False (yaml_parser_fetch_plain_scalar n P) (\<lambda>_. fetched sz P0) scan_fail"
    if "starts_plain P" "\<not> list_ex (CHECK P) '',[]{}''" 
      "\<not> (CHECK P CHR '':'' \<and> (flow_level P \<noteq> 0 \<or> IS_BLANKZ_AT P 1))" "\<not> at_document_indicator P"
    using that starts_plain_start [OF that(1-3)] by (intro fetch_plain_scalar_wp [OF assms(1,4,3)]) auto
  show ?thesis
    unfolding fetch_by_character_def
    by (intro wp_ifI fetch_stream_end_wp [OF assms(1,2)] fetch_directive_wp [OF assms(1)] fetch_document_indicator_wp [OF assms(1)]
        flow_collection_start_wp [OF assms(1)] flow_collection_end_wp [OF assms(1)] flow_entry_wp [OF assms(1)]
        block_entry_wp [OF assms(1)] fetch_key_wp [OF assms(1)] fetch_value_wp [OF assms(1)] fetch_tokens_wp [OF assms(1,4)]
        fetch_block_scalar_wp [OF assms(1,4)] plain)
       (use assms(4) in \<open>simp add: at_document_indicator_def IS_Z_AT_def; fail\<close> | (elim conjE)?, (erule c | erule (1) ind), simp
         | unfold at_document_indicator_def, blast)+
qed

section \<open>Fetching tokens\<close>

text \<open>The invariant between two calls of the scanner.\<close>

definition fetch_inv :: "('h \<Rightarrow> nat) \<Rightarrow> ('h, 'z) yaml_scanner_scheme \<Rightarrow> bool" where
  "fetch_inv sz P \<longleftrightarrow> scan_inv sz P \<and> queue_inv P \<and> keys_before True P"

lemma fetch_inv_scanning: "fetch_inv sz P \<Longrightarrow> stream_start_produced P \<Longrightarrow> scanning sz P 0 False P"
  by (auto simp: fetch_inv_def scanning_def scanner_frame_def keys_before_def list_all_iff)

lemma keys_before_same: "keys_before True P \<Longrightarrow> fewer_keys (simple_keys P) ks \<Longrightarrow> keys_before True (P\<lparr>simple_keys := ks\<rparr>)"
  using fewer_keys_all [of "simple_keys P" ks] by (simp add: keys_before_def)

lemma keys_before_to:
  assumes "keys_before True P" and "scan_to_key sz P b P'"
  shows "keys_before True P'"
  using assms keys_before_scan_to [OF assms(1), of P' False]
  by (auto simp: scan_to_key_def scan_to_def scanner_fields)

lemma CACHE_scanning_wp:
  assumes "scanning sz P0 c b P" and "n \<le> 6144"
    and "\<And>P'. scanning sz P0 c b P' \<Longrightarrow> ready n P' \<Longrightarrow> mark P' = mark P \<Longrightarrow> simple_keys P' = simple_keys P \<Longrightarrow> Q () P'"
  shows "wp False (CACHE P n) Q scan_fail"
  by (rule CACHE_wp [OF scanning_refl [OF assms(1)] assms(2)])
     (use scanning_scan_to [OF assms(1) scan_to_key, of False] in \<open>auto intro!: assms(3) simp: scanner_fields\<close>)

lemma CACHE_not_started_wp:
  assumes "fetch_inv sz P" and "\<not> stream_start_produced P" and "n \<le> 6144"
    and "\<And>P'. fetch_inv sz P' \<Longrightarrow> \<not> stream_start_produced P' \<Longrightarrow> todo sz P' \<le> todo sz P \<Longrightarrow> tokens P' = tokens P \<Longrightarrow> indents P' = indents P \<Longrightarrow> scanner_frame P P' \<Longrightarrow> Q () P'"
  shows "wp False (CACHE P n) Q scan_fail"
proof (rule CACHE_wp [OF scan_to_refl assms(3)])
  fix P' assume *: "scan_to sz P False P'" "yaml_reader.more P' = yaml_reader.more P"
  have "queue_inv P'" using * assms(1) by (simp add: fetch_inv_def queue_inv_def scanner_fields)
  moreover have "keys_before True P'" using calculation assms(2) * by (auto simp: keys_before_def queue_inv_def scanner_fields)
  ultimately show "Q () P'" using * assms(2) by (intro assms(4)) (auto simp: fetch_inv_def scan_to_def scanner_fields scanner_frame_def)
qed (use assms(1) in \<open>simp add: fetch_inv_def\<close>)

lemma fetched_from: "fetched sz P P'' \<Longrightarrow> scanner_frame P0 P \<Longrightarrow> todo sz P \<le> todo sz P0 \<Longrightarrow> tokens P = tokens P0 \<Longrightarrow>
   indents P = indents P0 \<Longrightarrow> stream_start_produced P0 = stream_start_produced P \<Longrightarrow> fetched sz P0 P''"
  by (auto simp: fetched_def scanner_frame_def token_work_def)

lemma fetch_next_token_wp:
  assumes "fetch_inv sz P" and "Suc (todo sz P) < n"
  shows "wp False (yaml_parser_fetch_next_token n P) (\<lambda>_. fetched sz P) scan_fail"
proof (cases "stream_start_produced P")
  case False
  show ?thesis
    unfolding yaml_parser_fetch_next_token_def wp_bind
  proof (rule CACHE_not_started_wp [OF assms(1) False], simp, goal_cases)
    case (1 P')
    have "wp False (yaml_parser_fetch_stream_start P') (\<lambda>_. fetched sz P) scan_fail"
      by (rule wp_mono [OF fetch_stream_start_wp]) (use 1 False in \<open>auto simp: fetch_inv_def intro: fetched_from\<close>)
    then show ?case using 1(2) by simp
  qed
next
  case True
  have *: "wp False (yaml_parser_scan_to_next_token n P1) (\<lambda>_ P. wp False (yaml_parser_stale_simple_keys P) (\<lambda>_ P.
      wp False (yaml_parser_unroll_indent P (int (column (mark P)))) (\<lambda>_ P. wp False (CACHE P 4) (\<lambda>_ P.
      wp False (fetch_by_character n P) (\<lambda>_. fetched sz P0) scan_fail) scan_fail) scan_fail) scan_fail) scan_fail"
    if P1: "scanning sz P0 0 False P1" "keys_before True P1" "Suc (todo sz P0) < n" for P1 P0
  proof (rule wp_mono [OF scan_to_next_token_wp])
    fix P2 assume "scan_to_key sz P1 False P2"
    then have 2: "scanning sz P0 0 False P2" "keys_before True P2"
      using scanning_scan_to [OF P1(1), of False P2] keys_before_to [OF P1(2)] by auto
    show "wp False (yaml_parser_stale_simple_keys P2) (\<lambda>_ P.
      wp False (yaml_parser_unroll_indent P (int (column (mark P)))) (\<lambda>_ P. wp False (CACHE P 4) (\<lambda>_ P.
      wp False (fetch_by_character n P) (\<lambda>_. fetched sz P0) scan_fail) scan_fail) scan_fail) scan_fail"
    proof (rule stale_simple_keys_wp [OF 2(1)], rule unroll_indent_wp, assumption, simp, rule CACHE_scanning_wp, assumption, simp,
        rule fetch_by_character_wp, assumption)
      fix ks P3 P4 assume "fewer_keys (simple_keys P2) ks" "same_text (P2\<lparr>simple_keys := ks\<rparr>) P3"
        "simple_keys P3 = simple_keys (P2\<lparr>simple_keys := ks\<rparr>)" "mark P4 = mark P3" "simple_keys P4 = simple_keys P3"
      then show "keys_before True P4" using keys_before_same [OF 2(2)] by (simp add: keys_before_def same_text_def)
    qed (use P1(3) in auto)
  qed (use P1 in \<open>auto simp: scanning_def\<close>)
  show ?thesis
    unfolding yaml_parser_fetch_next_token_def wp_bind
  proof (rule CACHE_scanning_wp [OF fetch_inv_scanning [OF assms(1) True]], simp, goal_cases)
    case (1 P')
    have "keys_before True P'" using assms(1) 1(3,4) by (simp add: fetch_inv_def keys_before_def)
    moreover have "stream_start_produced P'" using 1(1) by (simp add: scanning_def)
    ultimately show ?case using * [OF 1(1) _ assms(2)] by simp
  qed
qed

lemma fetched_inv: "fetched sz P0 P \<Longrightarrow> fetch_inv sz P"
  by (simp add: fetched_def fetch_inv_def)

lemma stale_lines_past:
  assumes "lines_past P" and "fewer_keys (simple_keys P) ks" and "list_all (\<lambda>k. \<not> stale (mark P) k) ks"
  shows "\<not> key_at_head (P\<lparr>simple_keys := ks\<rparr>)"
  using fewer_keys_all [OF assms(2), of "\<lambda>k. line (sk_mark k) < line (mark P)"] assms(1,3)
  by (auto simp: lines_past_def key_at_head_def stale_def list_all_iff list_ex_iff)

text \<open>
  The loop ends: a fetched token consumes characters, or it starts the stream, or it ends the
  stream, and after the end no potential simple key is left.
\<close>

definition fetch_work :: "('h \<Rightarrow> nat) \<Rightarrow> ('h, 'z) yaml_scanner_scheme \<Rightarrow> nat" where
  "fetch_work sz P = todo sz P + (if stream_start_produced P then 0 else 1) + (if tokens P \<noteq> [] \<and> lines_past P then 0 else 1)"

definition fetched_some :: "('h \<Rightarrow> nat) \<Rightarrow> ('h, 'z) yaml_scanner_scheme \<Rightarrow> ('h, 'z) yaml_scanner_scheme \<Rightarrow> bool" where
  "fetched_some sz P0 P \<longleftrightarrow> fetch_inv sz P \<and> scanner_frame P0 P \<and> todo sz P \<le> todo sz P0
     \<and> token_work sz P \<le> token_work sz P0"

lemma fetched_some_trans: "fetched_some sz P Q \<Longrightarrow> fetched_some sz Q R \<Longrightarrow> fetched_some sz P R"
  by (auto simp: fetched_some_def scanner_frame_def)

lemma fetched_fetched_some: "fetched sz P Q \<Longrightarrow> fetched_some sz P Q"
  by (simp add: fetched_def fetched_some_def fetch_inv_def)

text \<open>The test at the head of the loop.\<close>

lemma fetch_test_wp:
  assumes "fetch_inv sz P"
    and "\<And>P'. fetched_some sz P P' \<Longrightarrow> tokens P' = tokens P \<Longrightarrow> stream_start_produced P' = stream_start_produced P \<Longrightarrow>
      (tokens P \<noteq> [] \<Longrightarrow> lines_past P \<Longrightarrow> \<not> key_at_head P') \<Longrightarrow> (lines_past P' \<Longrightarrow> tokens P \<noteq> [] \<Longrightarrow> \<not> key_at_head P') \<Longrightarrow> Q () P'"
  shows "wp False (res_when (tokens P \<noteq> []) yaml_parser_stale_simple_keys P) Q scan_fail"
proof (cases "tokens P = []")
  case True
  have "fetched_some sz P P" using assms(1) by (simp add: fetched_some_def scanner_frame_def)
  then show ?thesis using True assms(2) [of P] by (simp add: res_when_def)
next
  case False
  then have started: "stream_start_produced P" using assms(1) by (auto simp: fetch_inv_def queue_inv_def split: if_splits)
  have "wp False (yaml_parser_stale_simple_keys P) Q scan_fail"
  proof (rule stale_simple_keys_wp [OF fetch_inv_scanning [OF assms(1) started]])
    fix ks assume *: "scanning sz P 0 False (P\<lparr>simple_keys := ks\<rparr>)" "fewer_keys (simple_keys P) ks" "list_all (\<lambda>k. \<not> stale (mark P) k) ks"
    have "fetched_some sz P (P\<lparr>simple_keys := ks\<rparr>)"
      using *(1) keys_before_same [OF _ *(2)] assms(1) by (simp add: fetched_some_def fetch_inv_def scanning_def)
    moreover have "\<not> key_at_head (P\<lparr>simple_keys := ks\<rparr>)" if "lines_past (P\<lparr>simple_keys := ks\<rparr>)"
      using that *(3) by (auto simp: lines_past_def key_at_head_def stale_def list_all_iff list_ex_iff)
    ultimately show "Q () (P\<lparr>simple_keys := ks\<rparr>)"
      using stale_lines_past [OF _ *(2,3)] by (intro assms(2)) auto
  qed
  then show ?thesis using False by (simp add: res_when_def)
qed

lemma fetch_loop_wp:
  assumes "fetch_inv sz P" and "fetch_work sz P < m" and "Suc (todo sz P) < n"
  shows "wp False (fetch_loop n m P) (\<lambda>_ P'. fetched_some sz P P' \<and> tokens P' \<noteq> [] \<and> \<not> key_at_head P') scan_fail"
  using assms
proof (induction m arbitrary: P)
  case 0
  then show ?case by simp
next
  case (Suc m)
  show ?case
    unfolding fetch_loop.simps wp_bind
  proof (rule fetch_test_wp [OF Suc.prems(1)], goal_cases)
    case (1 P1)
    show ?case
    proof (cases "tokens P1 = [] \<or> key_at_head P1")
      case True
      have P1: "fetch_inv sz P1" "todo sz P1 \<le> todo sz P" using 1(1) by (simp_all add: fetched_some_def)
      have "wp False (yaml_parser_fetch_next_token n P1) (\<lambda>_ P2. wp False (fetch_loop n m P2)
         (\<lambda>_ P'. fetched_some sz P P' \<and> tokens P' \<noteq> [] \<and> \<not> key_at_head P') scan_fail) scan_fail"
      proof (rule wp_mono [OF fetch_next_token_wp [OF P1(1)]])
        fix P2 assume 2: "fetched sz P1 P2"
        have "\<not> (tokens P1 \<noteq> [] \<and> lines_past P1)" using True 1 by auto
        then have "fetch_work sz P2 < fetch_work sz P1" using 2 by (auto simp: fetched_def fetch_work_def)
        moreover have "fetch_work sz P1 \<le> fetch_work sz P" using P1(2) 1 True by (auto simp: fetch_work_def)
        ultimately have "fetch_work sz P2 < m" using Suc.prems(2) by simp
        moreover have "todo sz P2 \<le> todo sz P" using 2 P1(2) by (simp add: fetched_def)
        ultimately show "wp False (fetch_loop n m P2)
         (\<lambda>_ P'. fetched_some sz P P' \<and> tokens P' \<noteq> [] \<and> \<not> key_at_head P') scan_fail"
          using fetched_some_trans [OF 1(1) fetched_fetched_some [OF 2]] Suc.prems(3)
          by (intro wp_mono [OF Suc.IH [OF fetched_inv [OF 2]]]) (auto intro: fetched_some_trans)
      qed (use Suc.prems(3) P1 in auto)
      then show ?thesis using True by simp
    next
      case False
      then show ?thesis using 1(1) by simp
    qed
  qed
qed

lemma fetch_more_tokens_wp:
  assumes "fetch_inv sz P" and "todo sz P + 2 < n"
  shows "wp False (yaml_parser_fetch_more_tokens n P)
    (\<lambda>_ P'. fetched_some sz P P' \<and> token_available P' \<and> tokens P' \<noteq> [] \<and> \<not> key_at_head P') scan_fail"
  unfolding yaml_parser_fetch_more_tokens_def wp_bind
  by (rule wp_mono [OF fetch_loop_wp [OF assms(1)]])
     (use assms(2) in \<open>auto simp: fetch_work_def fetched_some_def fetch_inv_def queue_inv_def keys_before_def scanner_frame_def
        token_work_def key_at_head_def\<close>)

section \<open>Handing out tokens\<close>

definition scanner_inv :: "('h \<Rightarrow> nat) \<Rightarrow> ('h, 'z) yaml_scanner_scheme \<Rightarrow> bool" where
  "scanner_inv sz P \<longleftrightarrow> fetch_inv sz P \<and> (token_available P \<longrightarrow> tokens P \<noteq> [] \<and> \<not> key_at_head P)"

text \<open>The head of the queue leaves it.\<close>

lemma take_token_inv:
  assumes "fetch_inv sz P" and "tokens P = t # ts" and "\<not> key_at_head P"
  shows "scanner_inv sz (P\<lparr>tokens := ts, token_available := False, tokens_parsed := tokens_parsed P + 1,
     stream_end_produced := e\<rparr>)"
proof -
  have started: "stream_start_produced P" using assms(1,2) by (auto simp: fetch_inv_def queue_inv_def split: if_splits)
  have "list_all (key_ok (Suc (tokens_parsed P)) (length ts)) (simple_keys P)"
    using assms started by (fastforce simp: fetch_inv_def queue_inv_def key_ok_def list_all_iff key_at_head_def list_ex_iff)
  then show ?thesis
    using assms(1) started by (simp add: scanner_inv_def fetch_inv_def queue_inv_def keys_before_def)
qed

lemma peek_wp:
  assumes "scanner_inv sz P" and "todo sz P + 2 < n"
  shows "wp False (res_when (\<not> token_available P) (yaml_parser_fetch_more_tokens n) P)
    (\<lambda>_ P'. fetched_some sz P P' \<and> token_available P' \<and> tokens P' \<noteq> [] \<and> \<not> key_at_head P') scan_fail"
proof (cases "token_available P")
  case True
  then show ?thesis using assms(1) by (simp add: res_when_def scanner_inv_def fetched_some_def scanner_frame_def)
next
  case False
  then show ?thesis using fetch_more_tokens_wp [of sz P n] assms by (simp add: res_when_def scanner_inv_def)
qed

lemma yaml_parser_scan_wp:
  assumes "scanner_inv sz P" and "todo sz P + 2 < n"
  shows "wp False (yaml_parser_scan n P) (\<lambda>_ P'. scanner_inv sz P' \<and> todo sz P' \<le> todo sz P) scan_fail"
proof (cases "stream_end_produced P \<or> error P \<noteq> YAML_NO_ERROR")
  case True
  then show ?thesis using assms(1) by (simp add: yaml_parser_scan_def)
next
  case False
  have "wp False (case tokens P' of [] \<Rightarrow> Abort | t # ts \<Rightarrow> Ok t (P'\<lparr>tokens := ts, token_available := False,
      tokens_parsed := tokens_parsed P' + 1, stream_end_produced := stream_end_produced P' \<or> tok_data t = YAML_STREAM_END_TOKEN\<rparr>))
      (\<lambda>_ P'. scanner_inv sz P' \<and> todo sz P' \<le> todo sz P) scan_fail"
    if "fetched_some sz P P'" "tokens P' \<noteq> []" "\<not> key_at_head P'" for P'
    using that take_token_inv [of sz P'] by (auto simp: fetched_some_def split: list.splits)
  then have "wp False (res_when (\<not> token_available P) (yaml_parser_fetch_more_tokens n) P) (\<lambda>_ P'. wp False
     (case tokens P' of [] \<Rightarrow> Abort | t # ts \<Rightarrow> Ok t (P'\<lparr>tokens := ts, token_available := False,
      tokens_parsed := tokens_parsed P' + 1, stream_end_produced := stream_end_produced P' \<or> tok_data t = YAML_STREAM_END_TOKEN\<rparr>))
      (\<lambda>_ P'. scanner_inv sz P' \<and> todo sz P' \<le> todo sz P) scan_fail) scan_fail"
    by (intro wp_mono [OF peek_wp [OF assms]]) auto
  then show ?thesis using False by (simp add: yaml_parser_scan_def)
qed

section \<open>The input\<close>

text \<open>
  What the scanner needs from a read handler: it gives at most what it was asked for, out of a
  supply that it uses up.
\<close>

locale finite_handler =
  fixes rh :: "'h yaml_read_handler" and sz :: "'h \<Rightarrow> nat"
  assumes bounded: "rh d n = Some (bs, d') \<Longrightarrow> length bs \<le> n \<and> length bs + sz d' \<le> sz d"
begin

lemma initial_state:
  "scanner_inv sz ((zero_parser h d0)\<lparr>read_handler := Some rh, read_handler_data := d\<rparr>)"
  "todo sz ((zero_parser h d0)\<lparr>read_handler := Some rh, read_handler_data := d\<rparr>) = sz d + 1"
  by (auto simp: scanner_inv_def fetch_inv_def scan_inv_def reader_inv_def finite_source_def chars_def at_end_def queue_inv_def
      keys_before_def zero_parser_def todo_def dest!: bounded)

end

interpretation string_handler: finite_handler yaml_string_read_handler length
  by unfold_locales (auto simp: yaml_string_read_handler_eq)

lemma allocate_n_Ok: "allocate_n k P = Ok u P' \<Longrightarrow> \<exists>h. P' = P\<lparr>heap := h\<rparr>"
proof (induction k arbitrary: P)
  case 0
  then show ?case by (auto intro: exI [of _ "heap P"])
next
  case (Suc k)
  then show ?case by (fastforce simp: res_bind_eq_Ok allocate_def split: if_splits)
qed

lemma string_parser_state:
  assumes "string_parser h input = Ok () P"
  shows "\<exists>h'. P = (zero_parser h' [])\<lparr>read_handler := Some yaml_string_read_handler, read_handler_data := input\<rparr>"
  using assms allocate_n_Ok [of 8 "zero_parser h []"]
  by (fastforce simp: string_parser_def yaml_parser_initialize_def yaml_parser_set_input_string_def res_bind_eq_Ok
      zero_parser_def split: if_splits)

lemma string_parser_inv:
  assumes "string_parser h input = Ok () P"
  shows "scanner_inv length P" and "todo length P = length input + 1" and "error P = YAML_NO_ERROR"
  using string_parser_state [OF assms] string_handler.initial_state
  by (auto simp: zero_parser_def)

end
