(* ===== verification/Yaml_Automaton.thy ===== *)
theory Yaml_Automaton
  imports Yaml_Scanner_Facts Yaml_Parser Yaml_Events
begin

text \<open>
  The states of the parser, read as states of the grammar of events: what the state and the
  stack of states still have to produce, the marks they keep, the invariant of both, and a bound
  on the number of events.
\<close>

section \<open>The states of the parser and the grammar of events\<close>

text \<open>What a state of the parser is about to produce, as frames.\<close>

fun frames_of :: "yaml_parser_state \<Rightarrow> frame list" where
  "frames_of YAML_PARSE_BLOCK_SEQUENCE_FIRST_ENTRY_STATE = [FSeq]"
| "frames_of YAML_PARSE_BLOCK_SEQUENCE_ENTRY_STATE = [FSeq]"
| "frames_of YAML_PARSE_INDENTLESS_SEQUENCE_ENTRY_STATE = [FSeq]"
| "frames_of YAML_PARSE_BLOCK_MAPPING_FIRST_KEY_STATE = [FKey]"
| "frames_of YAML_PARSE_BLOCK_MAPPING_KEY_STATE = [FKey]"
| "frames_of YAML_PARSE_BLOCK_MAPPING_VALUE_STATE = [FVal]"
| "frames_of YAML_PARSE_FLOW_SEQUENCE_FIRST_ENTRY_STATE = [FSeq]"
| "frames_of YAML_PARSE_FLOW_SEQUENCE_ENTRY_STATE = [FSeq]"
| "frames_of YAML_PARSE_FLOW_SEQUENCE_ENTRY_MAPPING_KEY_STATE = [FKey, FSeq]"
| "frames_of YAML_PARSE_FLOW_SEQUENCE_ENTRY_MAPPING_VALUE_STATE = [FVal, FSeq]"
| "frames_of YAML_PARSE_FLOW_SEQUENCE_ENTRY_MAPPING_END_STATE = [FKey, FSeq]"
| "frames_of YAML_PARSE_FLOW_MAPPING_FIRST_KEY_STATE = [FKey]"
| "frames_of YAML_PARSE_FLOW_MAPPING_KEY_STATE = [FKey]"
| "frames_of YAML_PARSE_FLOW_MAPPING_VALUE_STATE = [FVal]"
| "frames_of YAML_PARSE_FLOW_MAPPING_EMPTY_VALUE_STATE = [FVal]"
| "frames_of _ = []"

text \<open>The states whose collection has not been entered yet: its start token is still ahead.\<close>

fun first_state :: "yaml_parser_state \<Rightarrow> bool" where
  "first_state YAML_PARSE_BLOCK_SEQUENCE_FIRST_ENTRY_STATE = True"
| "first_state YAML_PARSE_BLOCK_MAPPING_FIRST_KEY_STATE = True"
| "first_state YAML_PARSE_FLOW_SEQUENCE_FIRST_ENTRY_STATE = True"
| "first_state YAML_PARSE_FLOW_MAPPING_FIRST_KEY_STATE = True"
| "first_state _ = False"

text \<open>The marks that a state keeps on the stack of marks.\<close>

definition marks_of :: "yaml_parser_state \<Rightarrow> nat" where
  "marks_of st = (if frames_of st = [] \<or> first_state st \<or> st = YAML_PARSE_INDENTLESS_SEQUENCE_ENTRY_STATE then 0 else 1)"

definition pending_frames :: "yaml_parser_state list \<Rightarrow> frame list" where
  "pending_frames ss = concat (map frames_of (rev ss))"

lemma pending_snoc [simp]: "pending_frames (ss @ [s]) = frames_of s @ pending_frames ss"
  by (simp add: pending_frames_def)

lemma pending_doc [simp]: "pending_frames [] = []" "pending_frames [YAML_PARSE_DOCUMENT_END_STATE] = []"
  by (simp_all add: pending_frames_def)

text \<open>The stack: the end of the document below, and states of entered collections above it.\<close>

definition stack_ok :: "yaml_parser_state list \<Rightarrow> bool" where
  "stack_ok ss \<longleftrightarrow> ss \<noteq> [] \<and> hd ss = YAML_PARSE_DOCUMENT_END_STATE
     \<and> list_all (\<lambda>s. frames_of s \<noteq> [] \<and> \<not> first_state s) (tl ss)"

lemma stack_ok_doc [simp]: "stack_ok [YAML_PARSE_DOCUMENT_END_STATE]"
  by (simp add: stack_ok_def)

lemma stack_ok_push: "stack_ok ss \<Longrightarrow> frames_of s \<noteq> [] \<Longrightarrow> \<not> first_state s \<Longrightarrow> stack_ok (ss @ [s])"
  by (auto simp: stack_ok_def)

fun outer_state :: "yaml_parser_state \<Rightarrow> gstate option" where
  "outer_state YAML_PARSE_STREAM_START_STATE = Some GStream"
| "outer_state YAML_PARSE_IMPLICIT_DOCUMENT_START_STATE = Some GDocs"
| "outer_state YAML_PARSE_DOCUMENT_START_STATE = Some GDocs"
| "outer_state YAML_PARSE_DOCUMENT_END_STATE = Some (GDoc [])"
| "outer_state YAML_PARSE_END_STATE = Some GEnd"
| "outer_state _ = None"

definition root_state :: "yaml_parser_state \<Rightarrow> bool" where
  "root_state st \<longleftrightarrow> st = YAML_PARSE_DOCUMENT_CONTENT_STATE \<or> st = YAML_PARSE_BLOCK_NODE_STATE"

definition states_ok :: "yaml_parser_state \<Rightarrow> yaml_parser_state list \<Rightarrow> bool" where
  "states_ok st ss \<longleftrightarrow>
     (if outer_state st \<noteq> None then ss = []
      else if root_state st then ss = [YAML_PARSE_DOCUMENT_END_STATE]
      else frames_of st \<noteq> [] \<and> stack_ok ss)"

definition grammar_state :: "yaml_parser_state \<Rightarrow> yaml_parser_state list \<Rightarrow> gstate" where
  "grammar_state st ss =
     (case outer_state st of Some g \<Rightarrow> g
      | None \<Rightarrow> if root_state st then GDoc [FRoot] else GDoc (frames_of st @ pending_frames ss))"

lemma frames_outer: "frames_of st \<noteq> [] \<Longrightarrow> outer_state st = None \<and> \<not> root_state st"
  by (cases st) (auto simp: root_state_def)

lemma first_frames: "first_state st \<Longrightarrow> frames_of st \<noteq> []"
  by (cases st) auto

text \<open>A node is complete: its caller's state is resumed.\<close>

lemma resume:
  assumes "stack_ok (ss @ [s])"
  shows "states_ok s ss" and "grammar_state s ss = GDoc (frames_of s @ pending_frames ss)" and "\<not> first_state s"
proof -
  have "s = YAML_PARSE_DOCUMENT_END_STATE \<and> ss = [] \<or> frames_of s \<noteq> [] \<and> \<not> first_state s \<and> stack_ok ss"
    using assms by (cases ss) (auto simp: stack_ok_def)
  then show "states_ok s ss" "grammar_state s ss = GDoc (frames_of s @ pending_frames ss)" "\<not> first_state s"
    using frames_outer [of s] by (auto simp: states_ok_def grammar_state_def)
qed

definition marks_ok :: "yaml_parser_state \<Rightarrow> yaml_parser_state list \<Rightarrow> nat \<Rightarrow> bool" where
  "marks_ok st ss m \<longleftrightarrow> m = marks_of st + sum_list (map marks_of ss)"

text \<open>The part of the parser's state that the automaton works on.\<close>

definition automaton_ok :: "'h yaml_parser \<Rightarrow> bool" where
  "automaton_ok P \<longleftrightarrow> states_ok (state P) (states P) \<and> marks_ok (state P) (states P) (length (marks P))
     \<and> (first_state (state P) \<longrightarrow> token_available P \<and> counted (hd (tokens P)))"

abbreviation grammar_of :: "'h yaml_parser \<Rightarrow> gstate" where
  "grammar_of P \<equiv> grammar_state (state P) (states P)"

text \<open>
  How many events a state can produce without a token that is counted, and the sum of these over
  the stack; the events that are still to come are bounded by it and by the tokens.
\<close>

fun rank :: "yaml_parser_state \<Rightarrow> nat" where
  "rank YAML_PARSE_STREAM_START_STATE = 6"
| "rank YAML_PARSE_IMPLICIT_DOCUMENT_START_STATE = 5"
| "rank YAML_PARSE_DOCUMENT_START_STATE = 1"
| "rank YAML_PARSE_DOCUMENT_CONTENT_STATE = 2"
| "rank YAML_PARSE_BLOCK_NODE_STATE = 2"
| "rank YAML_PARSE_DOCUMENT_END_STATE = 2"
| "rank YAML_PARSE_INDENTLESS_SEQUENCE_ENTRY_STATE = 1"
| "rank YAML_PARSE_BLOCK_MAPPING_VALUE_STATE = 1"
| "rank YAML_PARSE_FLOW_SEQUENCE_ENTRY_MAPPING_KEY_STATE = 4"
| "rank YAML_PARSE_FLOW_SEQUENCE_ENTRY_MAPPING_VALUE_STATE = 2"
| "rank YAML_PARSE_FLOW_SEQUENCE_ENTRY_MAPPING_END_STATE = 1"
| "rank YAML_PARSE_FLOW_MAPPING_VALUE_STATE = 1"
| "rank YAML_PARSE_FLOW_MAPPING_EMPTY_VALUE_STATE = 1"
| "rank _ = 0"

definition event_budget :: "nat \<Rightarrow> 'h yaml_parser \<Rightarrow> nat" where
  "event_budget w P = 5 * w + rank (state P) + sum_list (map rank (states P))"

end
