(* ===== verification/Yaml_Parser_Facts.thy ===== *)
theory Yaml_Parser_Facts
  imports Yaml_Automaton
begin

text \<open>
  The productions of the parser against the grammar of events.  The tokens come from a source
  that is described by its laws only; every production produces the event that the grammar
  expects, keeps the invariant of the stacks, and uses up part of the bound on the events.
\<close>

section \<open>The source of tokens\<close>

definition same_parser :: "'h yaml_parser \<Rightarrow> 'h yaml_parser \<Rightarrow> bool" where
  "same_parser P P' \<longleftrightarrow> error P' = error P \<and> state P' = state P \<and> states P' = states P \<and> marks P' = marks P
     \<and> tag_directives P' = tag_directives P \<and> aliases P' = aliases P \<and> document P' = document P"

text \<open>
  What the parser relies on: fetching makes a token available or fails with an error, it keeps
  the parser's own fields, and taking the head of the queue is allowed once it is available.
  Only the end of the stream closes the source.
  \<open>work\<close> bounds the tokens that are still to come.
\<close>

locale token_source =
  fixes F :: "'h fetcher" and inv :: "'h yaml_parser \<Rightarrow> bool" and work :: "'h yaml_parser \<Rightarrow> nat"
  assumes fetch: "inv P \<Longrightarrow> \<not> token_available P \<Longrightarrow>
      wp False (F P) (\<lambda>_ P'. inv P' \<and> token_available P' \<and> same_parser P P' \<and> work P' \<le> work P) scan_fail"
    and available: "inv P \<Longrightarrow> token_available P \<Longrightarrow> tokens P \<noteq> []"
    and take_head: "inv P \<Longrightarrow> token_available P \<Longrightarrow> tokens P = t # ts \<Longrightarrow> e = (tok_data t = YAML_STREAM_END_TOKEN) \<Longrightarrow>
      (\<not> e \<longrightarrow> inv (P\<lparr>token_available := False, tokens_parsed := tokens_parsed P + 1, stream_end_produced := e, tokens := ts\<rparr>))
      \<and> work (P\<lparr>token_available := False, tokens_parsed := tokens_parsed P + 1, stream_end_produced := e, tokens := ts\<rparr>)
         + (if counted t then 1 else 0) \<le> work P"
    and inv_update [simp]: "inv (P\<lparr>heap := h\<rparr>) = inv P" "inv (P\<lparr>state := st\<rparr>) = inv P" "inv (P\<lparr>states := ss\<rparr>) = inv P"
      "inv (P\<lparr>marks := ms\<rparr>) = inv P" "inv (P\<lparr>tag_directives := tds\<rparr>) = inv P"
    and work_update [simp]: "work (P\<lparr>heap := h\<rparr>) = work P" "work (P\<lparr>state := st\<rparr>) = work P" "work (P\<lparr>states := ss\<rparr>) = work P"
      "work (P\<lparr>marks := ms\<rparr>) = work P" "work (P\<lparr>tag_directives := tds\<rparr>) = work P"
begin

text \<open>From \<open>P0\<close> the parser came to \<open>P\<close>, where the token \<open>t\<close> is at the head of the queue.\<close>

definition at_token :: "yaml_token \<Rightarrow> 'h yaml_parser \<Rightarrow> bool" where
  "at_token t P \<longleftrightarrow> inv P \<and> token_available P \<and> tokens P \<noteq> [] \<and> hd (tokens P) = t"

lemma at_token_update [simp]: "at_token t (P\<lparr>heap := h\<rparr>) = at_token t P" "at_token t (P\<lparr>state := st\<rparr>) = at_token t P"
  "at_token t (P\<lparr>states := ss\<rparr>) = at_token t P" "at_token t (P\<lparr>marks := ms\<rparr>) = at_token t P"
  "at_token t (P\<lparr>tag_directives := tds\<rparr>) = at_token t P"
  by (simp_all add: at_token_def)

lemma at_token_inv: "at_token t P \<Longrightarrow> inv P" and at_token_available: "at_token t P \<Longrightarrow> token_available P"
  by (simp_all add: at_token_def)

lemma PEEK_TOKEN_wp:
  assumes "inv P"
    and "\<And>t P'. at_token t P' \<Longrightarrow> same_parser P P' \<Longrightarrow> work P' \<le> work P \<Longrightarrow> Q t P'"
  shows "wp False (PEEK_TOKEN F P) Q scan_fail"
proof (cases "token_available P")
  case True
  then obtain t ts where "tokens P = t # ts" using available [OF assms(1)] by (cases "tokens P") auto
  then show ?thesis
    using True assms(1) assms(2) [of t P] by (simp add: PEEK_TOKEN_def peek_head_def at_token_def same_parser_def)
next
  case False
  have "wp False (F P) (\<lambda>_ P'. wp False (peek_head P') Q scan_fail) scan_fail"
  proof (rule wp_mono [OF fetch [OF assms(1) False]])
    fix P' assume *: "inv P' \<and> token_available P' \<and> same_parser P P' \<and> work P' \<le> work P"
    then obtain t ts where "tokens P' = t # ts" using available [of P'] by (cases "tokens P'") auto
    then show "wp False (peek_head P') Q scan_fail" using * by (auto simp: peek_head_def at_token_def intro!: assms(2))
  qed
  then show ?thesis using False by (simp add: PEEK_TOKEN_def)
qed

lemma PEEK_TOKEN_unchecked_wp:
  assumes "inv P" and "token_available P" and "\<And>t P'. at_token t P \<Longrightarrow> Q t P"
  shows "wp False (PEEK_TOKEN_unchecked F P) Q scan_fail"
proof -
  obtain t ts where "tokens P = t # ts" using available [OF assms(1,2)] by (cases "tokens P") auto
  then show ?thesis using assms by (simp add: PEEK_TOKEN_unchecked_def PEEK_TOKEN_def peek_head_def at_token_def)
qed

lemma SKIP_any_wp:
  assumes "at_token t P"
    and "\<And>P'. (tok_data t \<noteq> YAML_STREAM_END_TOKEN \<Longrightarrow> inv P') \<Longrightarrow> same_parser P P' \<Longrightarrow>
      work P' + (if counted t then 1 else 0) \<le> work P \<Longrightarrow> Q () P'"
  shows "wp False (SKIP_TOKEN P) Q scan_fail"
proof -
  obtain ts where ts: "tokens P = t # ts" using assms(1) by (cases "tokens P") (auto simp: at_token_def)
  show ?thesis
    unfolding SKIP_TOKEN_def using ts take_head [OF _ _ ts refl] assms
    by (auto simp: at_token_def same_parser_def intro!: assms(2))
qed

lemma SKIP_TOKEN_wp:
  assumes "at_token t P" and "tok_data t \<noteq> YAML_STREAM_END_TOKEN"
    and "\<And>P'. inv P' \<Longrightarrow> same_parser P P' \<Longrightarrow> work P' + (if counted t then 1 else 0) \<le> work P \<Longrightarrow> Q () P'"
  shows "wp False (SKIP_TOKEN P) Q scan_fail"
  using assms by (auto intro: SKIP_any_wp)

lemma counted_open: "counted t \<Longrightarrow> tok_data t \<noteq> YAML_STREAM_END_TOKEN"
  by (simp add: counted_def)

lemma parser_error_wp [simp]:
  "wp False (yaml_parser_set_parser_error P msg m) Q scan_fail"
  "wp False (yaml_parser_set_parser_error_context P ctx cm msg m) Q scan_fail"
  by (simp_all add: yaml_parser_set_parser_error_def yaml_parser_set_parser_error_context_def scan_fail_def)


section \<open>Rules for the parts of the productions\<close>

lemma allocate_parser_wp:
  assumes "\<And>k. Q () (P\<lparr>heap := k\<rparr>)"
  shows "wp False (allocate P) Q scan_fail"
  using assms by (simp add: wp_allocate scan_fail_error)

lemma push_state_wp:
  assumes "\<And>k. Q () (P\<lparr>heap := k, states := states P @ [st]\<rparr>)"
  shows "wp False (push_state P st) Q scan_fail"
  using assms by (simp add: push_state_def wp_PUSH scan_fail_error)

lemma push_mark_wp:
  assumes "\<And>k. Q () (P\<lparr>heap := k, marks := marks P @ [m]\<rparr>)"
  shows "wp False (push_mark P m) Q scan_fail"
  using assms by (simp add: push_mark_def wp_PUSH scan_fail_error)

lemma pop_state_wp:
  assumes "states P = ss @ [s]" and "Q () (P\<lparr>state := s, states := ss\<rparr>)"
  shows "wp False (pop_state P) Q scan_fail"
  using assms by (simp add: pop_state_def wp_POP)

lemma pop_mark_wp:
  assumes "marks P \<noteq> []" and "Q (last (marks P)) (P\<lparr>marks := butlast (marks P)\<rparr>)"
  shows "wp False (pop_mark P) Q scan_fail"
  using assms by (simp add: pop_mark_def wp_POP)

text \<open>
  One production from \<open>P0\<close>: the event \<open>e\<close> is what the grammar expects, and the new state stands
  for the rest.
\<close>

definition produced :: "'h yaml_parser \<Rightarrow> yaml_event \<Rightarrow> 'h yaml_parser \<Rightarrow> bool" where
  "produced P0 e P \<longleftrightarrow> (state P \<noteq> YAML_PARSE_END_STATE \<longrightarrow> inv P) \<and> automaton_ok P \<and> work P \<le> work P0 \<and> error P = error P0
     \<and> ev_step (grammar_of P0) (ev_data e) = Some (grammar_of P) \<and> event_budget (work P) P < event_budget (work P0) P0"

text \<open>The productions for a node, with the state to resume at the top of the stack.\<close>

definition node_event :: "'h yaml_parser \<Rightarrow> yaml_event_data \<Rightarrow> 'h yaml_parser \<Rightarrow> bool" where
  "node_event P0 d P \<longleftrightarrow> inv P \<and> work P \<le> work P0 \<and> error P = error P0 \<and> marks P = marks P0
     \<and> (is_leaf_event d \<and> states P0 = states P @ [state P]
        \<or> is_seq_start d \<and> states P = states P0 \<and> frames_of (state P) = [FSeq] \<and> marks_of (state P) = 0
          \<and> rank (state P) \<le> 1 \<and> (first_state (state P) \<longrightarrow> token_available P \<and> counted (hd (tokens P)))
        \<or> is_map_start d \<and> states P = states P0 \<and> frames_of (state P) = [FKey] \<and> marks_of (state P) = 0
          \<and> rank (state P) \<le> 1 \<and> (first_state (state P) \<longrightarrow> token_available P \<and> counted (hd (tokens P))))"

lemma ev_data_EVENT_INIT [simp]: "ev_data (EVENT_INIT d a b) = d"
  by (simp add: EVENT_INIT_def)

lemma parse_properties_wp:
  assumes "at_token t P"
    and "\<And>np t' P'. at_token t' P' \<Longrightarrow> same_parser P P' \<Longrightarrow> work P' \<le> work P \<Longrightarrow> Q (np, t') P'"
  shows "wp False (parse_properties F t P) Q scan_fail"
proof -
  have *: "wp False (SKIP_TOKEN P1) (\<lambda>_ P. wp False (PEEK_TOKEN F P) R scan_fail) scan_fail"
    if "at_token t1 P1" "tok_data t1 \<noteq> YAML_STREAM_END_TOKEN" "\<And>t2 P2. at_token t2 P2 \<Longrightarrow> same_parser P1 P2 \<Longrightarrow> work P2 \<le> work P1 \<Longrightarrow> R t2 P2" for t1 P1 R
    using that(1,2) by (rule SKIP_TOKEN_wp, intro PEEK_TOKEN_wp that(3)) (auto simp: same_parser_def)
  have refl: "Q (np, t) P" for np by (rule assms(2) [OF assms(1)]) (simp_all add: same_parser_def)
  show ?thesis
    unfolding parse_properties_def Let_def
    using refl
    by (auto split!: yaml_token_data.split intro!: * [OF assms(1)] * intro: assms(2) simp: same_parser_def)
qed

lemma resolve_tag_wp:
  assumes "\<And>tag k. Q tag (P\<lparr>heap := k\<rparr>)"
  shows "wp False (resolve_tag np P) Q scan_fail"
  using assms assms [of _ "heap P"]
  by (auto simp: resolve_tag_def intro!: allocate_parser_wp split: option.splits)

lemma marks_of_first: "first_state st \<Longrightarrow> marks_of st = 0"
  by (simp add: marks_of_def)

lemma leaf_scalar_wp:
  assumes "at_token t P" and "states P = ss @ [s]" and "same_parser P0 P" and "work P \<le> work P0" and "is_leaf_event d"
    and "tok_data t \<noteq> YAML_STREAM_END_TOKEN"
  shows "wp False (pop_state P) (\<lambda>_ P. wp False (SKIP_TOKEN P) (\<lambda>_. node_event P0 d) scan_fail) scan_fail"
proof (rule pop_state_wp [OF assms(2)], rule SKIP_TOKEN_wp)
  show "at_token t (P\<lparr>state := s, states := ss\<rparr>)" "tok_data t \<noteq> YAML_STREAM_END_TOKEN" using assms(1,6) by simp_all
next
  fix P' assume "inv P'" "same_parser (P\<lparr>state := s, states := ss\<rparr>) P'"
    "work P' + (if counted t then 1 else 0) \<le> work (P\<lparr>state := s, states := ss\<rparr>)"
  then show "node_event P0 d P'"
    using assms by (auto simp: node_event_def same_parser_def)
qed

lemma node_content_wp:
  assumes "at_token t P" and "states P = ss @ [s]" and "same_parser P0 P" and "work P \<le> work P0"
  shows "wp False (node_content block indentless np tag t P) (\<lambda>e. node_event P0 (ev_data e)) scan_fail"
proof -
  have seq: "node_event P0 (YAML_SEQUENCE_START_EVENT a tg i sty) (P\<lparr>state := st\<rparr>)"
    if "frames_of st = [FSeq]" "marks_of st = 0" "rank st \<le> 1" "first_state st \<longrightarrow> counted t" for a tg i sty st
    using that assms unfolding at_token_def by (auto simp: node_event_def same_parser_def)
  have map: "node_event P0 (YAML_MAPPING_START_EVENT a tg i sty) (P\<lparr>state := st\<rparr>)"
    if "frames_of st = [FKey]" "marks_of st = 0" "rank st \<le> 1" "first_state st \<longrightarrow> counted t" for a tg i sty st
    using that assms unfolding at_token_def by (auto simp: node_event_def same_parser_def)
  have scalar: "wp False (pop_state P) (\<lambda>_ P. wp False (SKIP_TOKEN P) (\<lambda>_. node_event P0 (YAML_SCALAR_EVENT a tg v p q sty)) scan_fail) scan_fail"
    if "tok_data t \<noteq> YAML_STREAM_END_TOKEN" for a tg v p q sty using assms that by (intro leaf_scalar_wp) auto
  have empty: "wp False (allocate P) (\<lambda>_ P. wp False (pop_state P) (\<lambda>_. node_event P0 (YAML_SCALAR_EVENT a tg v p q sty)) scan_fail) scan_fail"
    for a tg v p q sty
    using assms at_token_inv [OF assms(1)]
    by (intro allocate_parser_wp pop_state_wp [where ss = ss and s = s]) (auto simp: node_event_def same_parser_def)
  show ?thesis
    unfolding node_content_def Let_def
    by (cases "tok_data t") (simp_all add: seq map scalar empty marks_of_def counted_def)
qed

lemma parse_node_wp:
  assumes "inv P" and "states P = ss @ [s]"
  shows "wp False (yaml_parser_parse_node F P block indentless) (\<lambda>e. node_event P (ev_data e)) scan_fail"
proof -
  have one: "wp False (pop_state P1) (\<lambda>_ P'. wp False (SKIP_TOKEN P') (\<lambda>_. node_event P (YAML_ALIAS_EVENT a)) scan_fail) scan_fail"
    if "at_token t P1" "same_parser P P1" "work P1 \<le> work P" "tok_data t \<noteq> YAML_STREAM_END_TOKEN" for a t P1
    using that assms(2) by (intro leaf_scalar_wp [where ss = ss and s = s]) (auto simp: same_parser_def)
  have content: "wp False (resolve_tag np P2) (\<lambda>tag P. wp False (node_content block indentless np tag t' P) (\<lambda>e. node_event P0 (ev_data e)) scan_fail) scan_fail"
    if "at_token t' P2" "same_parser P0 P2" "work P2 \<le> work P0" "states P0 = ss @ [s]" for np t' P2 P0
    using that by (intro resolve_tag_wp node_content_wp [where ss = ss and s = s]) (auto simp: same_parser_def)
  show ?thesis
    unfolding yaml_parser_parse_node_def wp_bind
  proof (rule PEEK_TOKEN_wp [OF assms(1)])
    fix t P1 assume 1: "at_token t P1" "same_parser P P1" "work P1 \<le> work P"
    have other: "wp False (parse_properties F t P1) (\<lambda>p. case p of (np, t') \<Rightarrow> \<lambda>P2. wp False (resolve_tag np P2)
        (\<lambda>tag P3. wp False (node_content block indentless np tag t' P3) (\<lambda>e. node_event P (ev_data e)) scan_fail) scan_fail) scan_fail"
      using 1(1)
    proof (rule parse_properties_wp)
      fix np t' P' assume "at_token t' P'" "same_parser P1 P'" "work P' \<le> work P1"
      then show "(case (np, t') of (np, t') \<Rightarrow> \<lambda>P2. wp False (resolve_tag np P2)
        (\<lambda>tag P3. wp False (node_content block indentless np tag t' P3) (\<lambda>e. node_event P (ev_data e)) scan_fail) scan_fail) P'"
        unfolding prod.case using 1 assms(2) by (intro content) (auto simp: same_parser_def)
    qed
    show "wp False (case tok_data t of
           YAML_ALIAS_TOKEN a \<Rightarrow>
             res_bind (pop_state P1) (\<lambda>_ P. res_bind (SKIP_TOKEN P) (\<lambda>_ P.
               Ok (EVENT_INIT (YAML_ALIAS_EVENT a) (tok_start_mark t) (tok_end_mark t)) P))
         | _ \<Rightarrow>
             res_bind (parse_properties F t P1) (\<lambda>(np, token) P.
             res_bind (resolve_tag np P) (\<lambda>tag P.
               node_content block indentless np tag token P))) (\<lambda>e. node_event P (ev_data e)) scan_fail"
      using one [OF 1] other by (cases "tok_data t") (simp_all add: case_prod_unfold)
  qed
qed

section \<open>The productions\<close>

text \<open>
  Inside a production: the states are those of the beginning, the mark of the collection was
  pushed when it is being entered, \<open>c\<close> tokens were consumed, and the node that comes belongs to
  the grammar's top frame.
\<close>

definition marks_below :: "'h yaml_parser \<Rightarrow> nat" where
  "marks_below P = sum_list (map marks_of (states P))"

definition entering :: "nat \<Rightarrow> nat \<Rightarrow> 'h yaml_parser \<Rightarrow> 'h yaml_parser \<Rightarrow> bool" where
  "entering m c P0 P \<longleftrightarrow> inv P \<and> work P + c \<le> work P0 \<and> error P = error P0 \<and> states P = states P0
     \<and> length (marks P) = m + marks_below P0"

definition inside :: "frame list \<Rightarrow> 'h yaml_parser \<Rightarrow> bool" where
  "inside fs P \<longleftrightarrow> frames_of (state P) = fs \<and> fs \<noteq> [] \<and> stack_ok (states P)"

lemma inside_grammar: "inside fs P \<Longrightarrow> grammar_of P = GDoc (fs @ pending_frames (states P))"
  using frames_outer [of "state P"] by (auto simp: inside_def grammar_state_def)

lemma inside_stack:
  assumes "inside fs P"
  obtains ss s where "states P = ss @ [s]" "stack_ok (ss @ [s])"
  using assms by (cases "states P" rule: rev_cases) (auto simp: inside_def stack_ok_def)

lemma entering_step:
  assumes "entering m c P0 P" and "inv P'" and "same_parser P P'" and "work P' \<le> work P"
  shows "entering m c P0 P'"
  using assms by (auto simp: entering_def same_parser_def)

lemma entering_update [simp]: "entering m c P0 (P\<lparr>heap := h\<rparr>) = entering m c P0 P" "entering m c P0 (P\<lparr>state := st\<rparr>) = entering m c P0 P"
  by (simp_all add: entering_def marks_below_def)

lemma advance_append: "fs \<noteq> [] \<Longrightarrow> fs \<noteq> [FRoot] \<Longrightarrow> advance (fs @ gs) = advance fs @ gs"
  by (cases fs rule: advance.cases) auto

lemma frames_not_root: "frames_of st = fs \<Longrightarrow> hd fs \<noteq> FRoot \<or> fs = []"
  by (cases st) auto

text \<open>Where the next state stands for the advanced frames of the production.\<close>

definition next_state :: "nat \<Rightarrow> frame list \<Rightarrow> yaml_parser_state \<Rightarrow> bool" where
  "next_state m fs st \<longleftrightarrow> frames_of st = advance fs \<and> \<not> first_state st \<and> marks_of st = m \<and> frames_of st \<noteq> []"

lemma produced_same_stack:
  assumes "inside fs P0" and "entering m c P0 P" and "frames_of (state P) \<noteq> []" and "\<not> first_state (state P)"
    and "marks_of (state P) = m" and "rank (state P) < rank (state P0) + 5 * c"
    and "ev_step (GDoc (fs @ pending_frames (states P0))) (ev_data e) = Some (GDoc (frames_of (state P) @ pending_frames (states P0)))"
  shows "produced P0 e P"
proof -
  have st: "states P = states P0" "stack_ok (states P)"
    using assms(1,2) by (auto simp: entering_def inside_def)
  have "grammar_of P = GDoc (frames_of (state P) @ pending_frames (states P0))"
    using inside_grammar [of "frames_of (state P)" P] st assms(3) by (simp add: inside_def)
  then have "ev_step (grammar_of P0) (ev_data e) = Some (grammar_of P)"
    using assms(7) inside_grammar [OF assms(1)] by simp
  moreover have "automaton_ok P"
    using st assms(2-5) frames_outer [of "state P"]
    by (auto simp: automaton_ok_def states_ok_def marks_ok_def entering_def marks_below_def)
  ultimately show ?thesis using assms(2,6) by (simp add: produced_def entering_def event_budget_def)
qed

lemma produced_leaf:
  assumes "inside fs P0" and "entering m c P0 P" and "next_state m fs (state P)" and "is_leaf_event (ev_data e)"
    and "rank (state P) < rank (state P0) + 5 * c"
  shows "produced P0 e P"
proof -
  from assms(1) obtain f fr where fs: "fs = f # fr" and f: "f \<noteq> FRoot"
    using frames_not_root [of "state P0" fs] by (cases fs) (auto simp: inside_def)
  show ?thesis
    using assms(3,5) leaf_step [OF assms(4)] advance_append [of fs "pending_frames (states P0)"] f
    by (intro produced_same_stack [OF assms(1,2)]) (auto simp: fs next_state_def)
qed

lemma produced_collection:
  assumes "inside fs P0" and "entering m c P0 P" and "next_state m fs st"
    and "inv P'" and "work P' \<le> work P" and "error P' = error P" and "marks P' = marks P" and "states P' = states P @ [st]"
    and "marks_of (state P') = 0" and "first_state (state P') \<longrightarrow> token_available P' \<and> counted (hd (tokens P'))"
    and "is_seq_start (ev_data e) \<and> frames_of (state P') = [FSeq] \<or> is_map_start (ev_data e) \<and> frames_of (state P') = [FKey]"
    and "rank (state P') \<le> 1" and "rank st + 1 < rank (state P0) + 5 * c"
  shows "produced P0 e P'"
proof -
  from assms(1) obtain f fr where fs: "fs = f # fr" and f: "f \<noteq> FRoot"
    using frames_not_root [of "state P0" fs] by (cases fs) (auto simp: inside_def)
  have stack: "stack_ok (states P')"
    using assms(1-3,8) by (auto simp: inside_def entering_def next_state_def intro: stack_ok_push)
  have fr: "frames_of (state P') \<noteq> []" using assms(11) by auto
  have "grammar_of P' = GDoc (frames_of (state P') @ advance fs @ pending_frames (states P0))"
    using inside_grammar [of "frames_of (state P')" P'] stack fr assms(2,3,8)
    by (simp add: inside_def entering_def next_state_def)
  moreover have "grammar_of P0 = GDoc (f # fr @ pending_frames (states P0))"
    using inside_grammar [OF assms(1)] fs by simp
  moreover have "advance (f # fr @ pending_frames (states P0)) = advance fs @ pending_frames (states P0)"
    using advance_append [of fs "pending_frames (states P0)"] fs f by simp
  ultimately have "ev_step (grammar_of P0) (ev_data e) = Some (grammar_of P')"
    using assms(11) by (auto simp: seq_step map_step)
  moreover have "automaton_ok P'"
    using stack fr assms(2,3,7-10) frames_outer [of "state P'"]
    by (auto simp: automaton_ok_def states_ok_def marks_ok_def entering_def next_state_def marks_below_def)
  ultimately show ?thesis using assms(2,4-6,8,12,13) by (simp add: produced_def entering_def event_budget_def)
qed

lemma node_then_wp:
  assumes "inside fs P0" and "entering m c P0 P" and "next_state m fs st" and "rank st + 1 < rank (state P0) + 5 * c"
  shows "wp False (node_then F P st block indentless) (produced P0) scan_fail"
  unfolding node_then_def wp_bind
proof (rule push_state_wp)
  fix k
  let ?P = "P\<lparr>heap := k, states := states P @ [st]\<rparr>"
  have "inv ?P" using assms(2) by (simp add: entering_def)
  then have "wp False (yaml_parser_parse_node F ?P block indentless) (\<lambda>e. node_event ?P (ev_data e)) scan_fail"
    by (rule parse_node_wp) simp
  then show "wp False (yaml_parser_parse_node F ?P block indentless) (produced P0) scan_fail"
  proof (rule wp_mono)
    fix e :: yaml_event and P' assume e: "node_event ?P (ev_data e) P'"
    show "produced P0 e P'"
    proof (cases "is_leaf_event (ev_data e)")
      case True
      then have "states P' = states P \<and> state P' = st" using e by (auto simp: node_event_def elim!: is_seq_start.elims is_map_start.elims)
      then show ?thesis
        using e assms True by (intro produced_leaf [of fs P0 m c P']) (auto simp: node_event_def entering_def)
    next
      case False
      then show ?thesis
        using e assms by (intro produced_collection [of fs P0 m c P st P']) (auto simp: node_event_def)
    qed
  qed simp
qed

lemma empty_then_wp:
  assumes "inside fs P0" and "entering m c P0 P" and "next_state m fs st" and "rank st < rank (state P0) + 5 * c"
  shows "wp False (empty_then P st mk) (produced P0) scan_fail"
  unfolding empty_then_def yaml_parser_process_empty_scalar_def wp_bind
  using assms by (intro allocate_parser_wp) (auto intro!: produced_leaf [where fs = fs and m = m and c = c])

text \<open>The rules for tokens, for a production that began in \<open>P0\<close>.\<close>

definition looking :: "nat \<Rightarrow> nat \<Rightarrow> 'h yaml_parser \<Rightarrow> yaml_token \<Rightarrow> 'h yaml_parser \<Rightarrow> bool" where
  "looking m c P0 t P \<longleftrightarrow> entering m c P0 P \<and> at_token t P"

lemma looking_entering: "looking m c P0 t P \<Longrightarrow> entering m c P0 P"
  by (simp add: looking_def)

lemma PEEK_entering:
  assumes "entering m c P0 P" and "\<And>t P'. looking m c P0 t P' \<Longrightarrow> Q t P'"
  shows "wp False (PEEK_TOKEN F P) Q scan_fail"
proof (rule PEEK_TOKEN_wp)
  show "inv P" using assms(1) by (simp add: entering_def)
next
  fix t P' assume "at_token t P'" "same_parser P P'" "work P' \<le> work P"
  then show "Q t P'"
    by (intro assms(2)) (auto simp: looking_def intro: entering_step [OF assms(1)] dest: at_token_inv)
qed

lemma SKIP_entering:
  assumes "looking m c P0 t P" and "counted t" and "\<And>P'. entering m 1 P0 P' \<Longrightarrow> state P' = state P \<Longrightarrow> Q () P'"
  shows "wp False (SKIP_TOKEN P) Q scan_fail"
proof (rule SKIP_TOKEN_wp)
  show "at_token t P" using assms(1) by (simp add: looking_def)
  show "tok_data t \<noteq> YAML_STREAM_END_TOKEN" using assms(2) by (rule counted_open)
  fix P' assume "inv P'" "same_parser P P'" "work P' + (if counted t then 1 else 0) \<le> work P"
  then show "Q () P'"
    using assms(1,2) by (intro assms(3)) (auto simp: looking_def entering_def same_parser_def)
qed

lemma SKIP_PEEK_entering:
  assumes "looking m c P0 t P" and "counted t" and "\<And>t' P'. looking m 1 P0 t' P' \<Longrightarrow> Q t' P'"
  shows "wp False (SKIP_TOKEN P) (\<lambda>_ P. wp False (PEEK_TOKEN F P) Q scan_fail) scan_fail"
  using assms by (auto intro!: SKIP_entering [OF assms(1,2)] PEEK_entering)

lemma enter_collection_wp:
  assumes "automaton_ok P" and "inv P" and "first \<longleftrightarrow> first_state (state P)" and "inside fs P"
    and "first \<or> marks_of (state P) = 1" and "\<And>P'. entering 1 (if first then 1 else 0) P P' \<Longrightarrow> Q () P'"
  shows "wp False (enter_collection F P first) Q scan_fail"
proof (cases first)
  case True
  have m: "length (marks P) = marks_below P"
    using True assms(1,3) by (simp add: automaton_ok_def marks_ok_def marks_of_first marks_below_def)
  have "wp False (PEEK_TOKEN_unchecked F P) (\<lambda>t P. wp False (push_mark P (tok_start_mark t)) (\<lambda>_ P. wp False (SKIP_TOKEN P) Q scan_fail) scan_fail) scan_fail"
  proof (rule PEEK_TOKEN_unchecked_wp [OF assms(2)])
    show "token_available P" using True assms(1,3) by (simp add: automaton_ok_def)
    fix t assume t: "at_token t P"
    show "wp False (push_mark P (tok_start_mark t)) (\<lambda>_ P. wp False (SKIP_TOKEN P) Q scan_fail) scan_fail"
    proof (rule push_mark_wp, rule SKIP_entering)
      show "counted t" using t True assms(1,3) by (simp add: automaton_ok_def at_token_def)
      fix k show "looking 1 0 P t (P\<lparr>heap := k, marks := marks P @ [tok_start_mark t]\<rparr>)"
        using t assms(2) m by (simp add: looking_def entering_def)
    qed (use assms(6) True in simp)
  qed
  then show ?thesis using True by (simp add: enter_collection_def)
next
  case False
  then have "entering 1 0 P P"
    using assms(1,2,5) by (auto simp: entering_def automaton_ok_def marks_ok_def marks_below_def)
  then show ?thesis using False assms(6) by (simp add: enter_collection_def)
qed

definition closing :: "frame \<Rightarrow> yaml_event_data \<Rightarrow> bool" where
  "closing f d \<longleftrightarrow> f = FSeq \<and> d = YAML_SEQUENCE_END_EVENT \<or> f = FKey \<and> d = YAML_MAPPING_END_EVENT"

lemma produced_end:
  assumes "inside [f] P0" and "closing f (ev_data e)" and "states P0 = ss @ [s]"
    and "inv P" and "work P + c \<le> work P0" and "error P = error P0" and "state P = s" and "states P = ss"
    and "length (marks P) = marks_below P0" and "0 < rank (state P0) + 5 * c"
  shows "produced P0 e P"
proof -
  have stack: "stack_ok (ss @ [s])" using assms(1,3) by (simp add: inside_def)
  note r = resume [OF stack]
  have "ev_step (grammar_of P0) (ev_data e) = Some (grammar_of P)"
    using inside_grammar [OF assms(1)] assms(2,3,7,8) r by (auto simp: closing_def)
  then show ?thesis
    using assms r by (auto simp: produced_def automaton_ok_def marks_ok_def marks_below_def event_budget_def)
qed

lemma leave_collection_wp:
  assumes "inside [f] P0" and "closing f d" and "looking 1 c P0 t P" and "counted t"
  shows "wp False (leave_collection d t P) (produced P0) scan_fail"
proof -
  obtain ss s where ss: "states P0 = ss @ [s]" by (rule inside_stack [OF assms(1)])
  have P: "states P = ss @ [s]" "length (marks P) = 1 + marks_below P0" "at_token t P" "work P \<le> work P0" "error P = error P0"
    using assms(3) ss by (auto simp: looking_def entering_def)
  have nonempty: "marks (P\<lparr>state := s, states := ss\<rparr>) \<noteq> []" using P(2) by auto
  show ?thesis
    unfolding leave_collection_def wp_bind
  proof (rule pop_state_wp [OF P(1)], rule pop_mark_wp [OF nonempty], rule SKIP_TOKEN_wp)
    let ?P = "P\<lparr>state := s, states := ss, marks := butlast (marks (P\<lparr>state := s, states := ss\<rparr>))\<rparr>"
    show "at_token t ?P" "tok_data t \<noteq> YAML_STREAM_END_TOKEN" using P(3) counted_open [OF assms(4)] by simp_all
    fix P' assume "inv P'" "same_parser ?P P'" "work P' + (if counted t then 1 else 0) \<le> work ?P"
    then show "wp False (Ok (EVENT_INIT d (tok_start_mark t) (tok_end_mark t)) P') (produced P0) scan_fail"
      using P ss assms(2,4) unfolding wp.simps
      by (intro produced_end [OF assms(1), where c = 1]) (auto simp: same_parser_def)
  qed
qed

lemma collection_error_wp:
  assumes "looking 1 c P0 t P"
  shows "wp False (collection_error P ctx msg t') Q scan_fail"
  unfolding collection_error_def wp_bind
  using assms by (intro pop_mark_wp) (auto simp: looking_def entering_def)

lemma if_ok: "(c \<Longrightarrow> A) \<Longrightarrow> (\<not> c \<Longrightarrow> B) \<Longrightarrow> if c then A else B"
  by simp

text \<open>An entry after its indicator: a node, or an empty scalar where none comes.\<close>

lemma entry_wp:
  assumes "inside fs P0" and "looking m c P0 t P" and "next_state m fs st" and "counted t" and "rank st < 4"
  shows "wp False (SKIP_TOKEN P) (\<lambda>_ P. wp False (PEEK_TOKEN F P) (\<lambda>t' P.
      if test t' then wp False (node_then F P st b i) (produced P0) scan_fail
      else wp False (empty_then P st (mk t')) (produced P0) scan_fail) scan_fail) scan_fail"
  using assms by (auto intro!: SKIP_PEEK_entering [OF assms(2,4)] intro: node_then_wp empty_then_wp looking_entering)

lemmas entering_rules = node_then_wp [OF _ looking_entering] empty_then_wp [OF _ looking_entering]

lemma block_sequence_entry_wp:
  assumes "automaton_ok P" and "inv P" and "inside [FSeq] P" and "first = first_state (state P)" and "first \<or> marks_of (state P) = 1"
  shows "wp False (yaml_parser_parse_block_sequence_entry F P first) (produced P) scan_fail"
  unfolding yaml_parser_parse_block_sequence_entry_def wp_bind Let_def wp_if
  by (rule enter_collection_wp [OF assms(1,2,4,3,5)], rule PEEK_entering, assumption,
      intro if_ok entry_wp [OF assms(3)] leave_collection_wp [OF assms(3)] collection_error_wp, assumption)
    (simp_all add: next_state_def marks_of_def closing_def counted_def)

lemma entering_refl:
  "automaton_ok P \<Longrightarrow> inv P \<Longrightarrow> marks_of (state P) = m \<Longrightarrow> entering m 0 P P"
  by (auto simp: entering_def automaton_ok_def marks_ok_def marks_below_def)

lemma indentless_sequence_entry_wp:
  assumes "automaton_ok P" and "inv P" and "inside [FSeq] P" and "state P = YAML_PARSE_INDENTLESS_SEQUENCE_ENTRY_STATE"
  shows "wp False (yaml_parser_parse_indentless_sequence_entry F P) (produced P) scan_fail"
proof -
  obtain ss s where ss: "states P = ss @ [s]" by (rule inside_stack [OF assms(3)])
  have leave: "wp False (pop_state P') (\<lambda>_. produced P (EVENT_INIT YAML_SEQUENCE_END_EVENT m m)) scan_fail"
    if "looking 0 0 P t P'" for m t P'
    using that ss assms(3,4)
    by (intro pop_state_wp [of _ ss s]) (auto simp: looking_def entering_def closing_def intro!: produced_end [where c = 0])
  have "entering 0 0 P P" using assms by (intro entering_refl) (simp_all add: marks_of_def)
  then show ?thesis
    unfolding yaml_parser_parse_indentless_sequence_entry_def wp_bind Let_def wp_if
    by (rule PEEK_entering, intro if_ok entry_wp [OF assms(3)]) (auto simp: next_state_def marks_of_def counted_def intro: leave)
qed

lemma block_mapping_key_wp:
  assumes "automaton_ok P" and "inv P" and "inside [FKey] P" and "first = first_state (state P)" and "first \<or> marks_of (state P) = 1"
  shows "wp False (yaml_parser_parse_block_mapping_key F P first) (produced P) scan_fail"
  unfolding yaml_parser_parse_block_mapping_key_def wp_bind Let_def wp_if
  by (rule enter_collection_wp [OF assms(1,2,4,3,5)], rule PEEK_entering, assumption,
      intro if_ok entry_wp [OF assms(3)] leave_collection_wp [OF assms(3)] collection_error_wp, assumption)
    (simp_all add: next_state_def marks_of_def closing_def counted_def)

lemma block_mapping_value_wp:
  assumes "automaton_ok P" and "inv P" and "inside [FVal] P" and "marks_of (state P) = 1" and "rank (state P) = 1"
  shows "wp False (yaml_parser_parse_block_mapping_value F P) (produced P) scan_fail"
  unfolding yaml_parser_parse_block_mapping_value_def wp_bind Let_def wp_if
  by (rule PEEK_entering [OF entering_refl [OF assms(1,2,4)]], intro if_ok entry_wp [OF assms(3)] entering_rules(2) [OF assms(3)])
    (auto simp: next_state_def marks_of_def counted_def assms(5))

lemma flow_separator_wp:
  assumes "looking 1 (if first then 1 else 0) P0 t P" and "\<And>t' P'. looking 1 1 P0 t' P' \<Longrightarrow> Q t' P'"
  shows "wp False (flow_separator F first ctx msg t P) Q scan_fail"
  unfolding flow_separator_def wp_bind wp_if wp.simps
  by (intro if_ok SKIP_PEEK_entering [OF assms(1)] collection_error_wp [OF assms(1)] assms(2))
     (use assms(1) in \<open>simp_all add: counted_def\<close>)

text \<open>A pair inside a flow sequence begins a mapping of its own, without a mark.\<close>

lemma pair_wp:
  assumes "inside [FSeq] P0" and "looking 1 c P0 t P" and "counted t"
  shows "wp False (SKIP_TOKEN (P\<lparr>state := YAML_PARSE_FLOW_SEQUENCE_ENTRY_MAPPING_KEY_STATE\<rparr>))
      (\<lambda>_. produced P0 (EVENT_INIT (YAML_MAPPING_START_EVENT None None True YAML_FLOW_MAPPING_STYLE) a b)) scan_fail"
  by (rule SKIP_entering [where m = 1 and t = t and ?P0.0 = P0 and c = c], use assms(2) in \<open>simp add: looking_def\<close>, rule assms(3))
     (auto intro!: produced_same_stack [OF assms(1)] simp: marks_of_def)

lemma flow_sequence_entry_wp:
  assumes "automaton_ok P" and "inv P" and "inside [FSeq] P" and "first = first_state (state P)" and "first \<or> marks_of (state P) = 1"
  shows "wp False (yaml_parser_parse_flow_sequence_entry F P first) (produced P) scan_fail"
  unfolding yaml_parser_parse_flow_sequence_entry_def wp_bind Let_def wp_if wp.simps
  by (rule enter_collection_wp [OF assms(1,2,4,3,5)], rule PEEK_entering, assumption,
      intro if_ok flow_separator_wp entering_rules [OF assms(3)] pair_wp [OF assms(3)] leave_collection_wp [OF assms(3)])
    (auto simp: next_state_def marks_of_def closing_def counted_def)

lemma flow_sequence_entry_mapping_key_wp:
  assumes "automaton_ok P" and "inv P" and "inside [FKey, FSeq] P" and "marks_of (state P) = 1" and "rank (state P) = 4"
  shows "wp False (yaml_parser_parse_flow_sequence_entry_mapping_key F P) (produced P) scan_fail"
  unfolding yaml_parser_parse_flow_sequence_entry_mapping_key_def wp_bind Let_def wp_if
  by (rule PEEK_entering [OF entering_refl [OF assms(1,2,4)]],
      intro if_ok entering_rules(1) [OF assms(3)] SKIP_entering empty_then_wp [OF assms(3)])
    (auto simp: next_state_def marks_of_def counted_def assms(5))

lemma flow_sequence_entry_mapping_value_wp:
  assumes "automaton_ok P" and "inv P" and "inside [FVal, FSeq] P" and "marks_of (state P) = 1" and "rank (state P) = 2"
  shows "wp False (yaml_parser_parse_flow_sequence_entry_mapping_value F P) (produced P) scan_fail"
  unfolding yaml_parser_parse_flow_sequence_entry_mapping_value_def wp_bind Let_def wp_if
  by (rule PEEK_entering [OF entering_refl [OF assms(1,2,4)]],
      intro if_ok entry_wp [OF assms(3)] entering_rules(2) [OF assms(3)])
    (auto simp: next_state_def marks_of_def counted_def assms(5))

lemma flow_sequence_entry_mapping_end_wp:
  assumes "automaton_ok P" and "inv P" and "inside [FKey, FSeq] P" and "marks_of (state P) = 1" and "rank (state P) = 1"
  shows "wp False (yaml_parser_parse_flow_sequence_entry_mapping_end F P) (produced P) scan_fail"
  unfolding yaml_parser_parse_flow_sequence_entry_mapping_end_def wp_bind wp.simps
  by (rule PEEK_entering [OF entering_refl [OF assms(1,2,4)]], rule produced_same_stack [OF assms(3), where c = 0])
    (auto simp: marks_of_def looking_def assms(5))

lemma flow_mapping_key_wp:
  assumes "automaton_ok P" and "inv P" and "inside [FKey] P" and "first = first_state (state P)" and "first \<or> marks_of (state P) = 1"
  shows "wp False (yaml_parser_parse_flow_mapping_key F P first) (produced P) scan_fail"
  unfolding yaml_parser_parse_flow_mapping_key_def wp_bind Let_def wp_if wp.simps
  by (rule enter_collection_wp [OF assms(1,2,4,3,5)], rule PEEK_entering, assumption,
      intro if_ok flow_separator_wp entry_wp [OF assms(3)] entering_rules(1) [OF assms(3)] leave_collection_wp [OF assms(3)])
    (auto simp: next_state_def marks_of_def closing_def counted_def)

lemma flow_mapping_value_wp:
  assumes "automaton_ok P" and "inv P" and "inside [FVal] P" and "marks_of (state P) = 1" and "rank (state P) = 1"
  shows "wp False (yaml_parser_parse_flow_mapping_value F P emptyv) (produced P) scan_fail"
  unfolding yaml_parser_parse_flow_mapping_value_def wp_bind Let_def wp_if
  by (rule PEEK_entering [OF entering_refl [OF assms(1,2,4)]],
      intro if_ok entry_wp [OF assms(3)] entering_rules(2) [OF assms(3)])
    (auto simp: next_state_def marks_of_def counted_def assms(5))

section \<open>Documents\<close>

text \<open>Directives change the tag directives, and nothing else that the automaton works on.\<close>

definition same_states :: "'h yaml_parser \<Rightarrow> 'h yaml_parser \<Rightarrow> bool" where
  "same_states P P' \<longleftrightarrow> error P' = error P \<and> state P' = state P \<and> states P' = states P \<and> marks P' = marks P
     \<and> work P' \<le> work P"

lemma same_states_refl [simp]: "same_states P P" "same_states P (P'\<lparr>heap := k\<rparr>) = same_states P P'"
  "same_states P (P'\<lparr>tag_directives := tds\<rparr>) = same_states P P'"
  by (simp_all add: same_states_def)

lemma same_states_trans: "same_states P P' \<Longrightarrow> same_states P' P'' \<Longrightarrow> same_states P P''"
  by (simp add: same_states_def)

lemma same_parser_states: "same_parser P P' \<Longrightarrow> work P' \<le> work P \<Longrightarrow> same_states P P'"
  by (simp add: same_states_def same_parser_def)

lemma skip_document_ends_wp:
  assumes "at_token t P" and "work P < n"
  shows "wp False (skip_document_ends F n t P) (\<lambda>t' P'. at_token t' P' \<and> same_states P P') scan_fail"
  using assms
proof (induction n arbitrary: t P)
  case (Suc n)
  show ?case
  proof (cases "tok_data t = YAML_DOCUMENT_END_TOKEN")
    case True
    then have d: "counted t" by (simp add: counted_def)
    have "wp False (SKIP_TOKEN P) (\<lambda>_ P1. wp False (PEEK_TOKEN F P1) (\<lambda>t1 P2. wp False (skip_document_ends F n t1 P2)
        (\<lambda>t' P'. at_token t' P' \<and> same_states P P') scan_fail) scan_fail) scan_fail"
    proof (rule SKIP_TOKEN_wp [OF Suc(2) counted_open [OF d]], rule PEEK_TOKEN_wp, assumption)
      fix P1 t1 P2 assume 1: "same_parser P P1" "work P1 + (if counted t then 1 else 0) \<le> work P"
        "at_token t1 P2" "same_parser P1 P2" "work P2 \<le> work P1"
      then have s: "same_states P P2" "work P2 < n" using Suc(3) d by (auto simp: same_states_def same_parser_def)
      show "wp False (skip_document_ends F n t1 P2) (\<lambda>t' P'. at_token t' P' \<and> same_states P P') scan_fail"
        by (rule wp_mono [OF Suc(1) [OF 1(3) s(2)]]) (auto intro: same_states_trans s(1))
    qed
    then show ?thesis using True by simp
  qed (use Suc in simp)
qed simp

lemma SKIP_PEEK_wp:
  assumes "at_token t P" and "counted t" and "\<And>t' P'. at_token t' P' \<Longrightarrow> same_states P P' \<Longrightarrow> work P' < work P \<Longrightarrow> Q t' P'"
  shows "wp False (SKIP_TOKEN P) (\<lambda>_ P. wp False (PEEK_TOKEN F P) Q scan_fail) scan_fail"
proof (rule SKIP_TOKEN_wp [OF assms(1) counted_open [OF assms(2)]], rule PEEK_TOKEN_wp, assumption)
  fix P1 t1 P2 assume 1: "same_parser P P1" "work P1 + (if counted t then 1 else 0) \<le> work P"
    "at_token t1 P2" "same_parser P1 P2" "work P2 \<le> work P1"
  then show "Q t1 P2" using assms(2) by (intro assms(3)) (auto simp: same_states_def same_parser_def)
qed

lemma PUSH_parser_wp:
  assumes "\<And>k. Q (xs @ [x]) (P\<lparr>heap := k\<rparr>)"
  shows "wp False (PUSH P xs x) Q scan_fail"
  using assms by (simp add: wp_PUSH scan_fail_error)

lemma append_tag_directive_wp:
  assumes "\<And>k tds. Q () (P\<lparr>heap := k, tag_directives := tds\<rparr>)"
  shows "wp False (yaml_parser_append_tag_directive P v dup m) Q scan_fail"
proof -
  have "Q () P" using assms [where k = "heap P" and tds = "tag_directives P"] by simp
  then show ?thesis
    unfolding yaml_parser_append_tag_directive_def wp_bind wp_if wp.simps
    using assms by (intro if_ok allocate_parser_wp PUSH_parser_wp) simp_all
qed

lemma default_directives_wp:
  assumes "\<And>k tds. Q () (P\<lparr>heap := k, tag_directives := tds\<rparr>)"
  shows "wp False (append_default_directives ds m P) Q scan_fail"
  using assms
proof (induction ds arbitrary: P)
  case Nil
  then show ?case using Nil [where k = "heap P" and tds = "tag_directives P"] by simp
next
  case (Cons d ds)
  show ?case
    unfolding append_default_directives.simps wp_bind
  proof (rule append_tag_directive_wp, rule Cons(1))
    fix k tds k' tds'
    show "Q () (P\<lparr>heap := k, tag_directives := tds, heap := k', tag_directives := tds'\<rparr>)"
      using Cons(2) [where k = k' and tds = tds'] by simp
  qed
qed

lemma directives_loop_wp:
  assumes "at_token t P" and "work P < n"
  shows "wp False (directives_loop F n vd tds t P) (\<lambda>(_, _, t') P'. at_token t' P' \<and> same_states P P') scan_fail"
  using assms
proof (induction n arbitrary: vd tds t P)
  case (Suc n)
  have rest: "wp False (SKIP_TOKEN P1) (\<lambda>_ P1. wp False (PEEK_TOKEN F P1) (\<lambda>t1 P2. wp False (directives_loop F n vd' tds' t1 P2)
        (\<lambda>(_, _, t') P'. at_token t' P' \<and> same_states P P') scan_fail) scan_fail) scan_fail"
    if "at_token t P1" "same_states P P1" "counted t" for vd' tds' P1
  proof (rule SKIP_PEEK_wp [OF that(1,3)])
    fix t1 P2 assume 1: "at_token t1 P2" "same_states P1 P2" "work P2 < work P1"
    have w: "work P2 < n" using 1(3) that(2) Suc(3) by (simp add: same_states_def)
    show "wp False (directives_loop F n vd' tds' t1 P2) (\<lambda>(_, _, t') P'. at_token t' P' \<and> same_states P P') scan_fail"
      by (rule wp_mono [OF Suc(1) [OF 1(1) w]]) (auto intro: same_states_trans [OF same_states_trans [OF that(2) 1(2)]])
  qed
  show ?case
  proof (cases "tok_data t")
    case (YAML_VERSION_DIRECTIVE_TOKEN maj mnr)
    then have "counted t" by (simp add: counted_def)
    then show ?thesis
      using YAML_VERSION_DIRECTIVE_TOKEN Suc(2) by (auto intro!: allocate_parser_wp rest)
  next
    case (YAML_TAG_DIRECTIVE_TOKEN h p)
    then have "counted t" by (simp add: counted_def)
    then show ?thesis
      using YAML_TAG_DIRECTIVE_TOKEN Suc(2) by (auto intro!: append_tag_directive_wp PUSH_parser_wp rest)
  qed (use Suc(2) in simp_all)
qed simp

lemma process_directives_wp:
  assumes "inv P" and "work P < n" and "\<And>r P'. inv P' \<Longrightarrow> same_states P P' \<Longrightarrow> Q r P'"
  shows "wp False (yaml_parser_process_directives F n P) Q scan_fail"
  unfolding yaml_parser_process_directives_def wp_bind
proof (rule allocate_parser_wp, rule PEEK_TOKEN_wp)
  fix k show "inv (P\<lparr>heap := k\<rparr>)" using assms(1) by simp
  fix t P1 assume 1: "at_token t P1" "same_parser (P\<lparr>heap := k\<rparr>) P1" "work P1 \<le> work (P\<lparr>heap := k\<rparr>)"
  then have s: "same_states P P1" and w: "work P1 < n" using assms(2) by (auto simp: same_states_def same_parser_def)
  have "wp False (append_default_directives default_tag_directives m P2) (\<lambda>_. Q (vd, tds)) scan_fail"
    if "at_token t' P2" "same_states P1 P2" for t' P2 m vd tds
    using that same_states_trans [OF s that(2)]
    by (auto intro!: default_directives_wp assms(3) dest: at_token_inv)
  then show "wp False (directives_loop F n None [] t P1) (\<lambda>a b. wp False ((case a of (vd, tds, token) \<Rightarrow> \<lambda>P.
      res_bind (append_default_directives default_tag_directives (tok_start_mark token) P) (\<lambda>_. Ok (vd, tds))) b) Q scan_fail) scan_fail"
    by (intro wp_mono [OF directives_loop_wp [OF 1(1) w]]) auto
qed

lemma outer_frames: "outer_state st = Some g \<Longrightarrow> frames_of st = [] \<and> \<not> first_state st"
  by (cases st) auto

lemma produced_outer:
  assumes "states P = []" and "outer_state (state P0) = Some g" and "outer_state (state P) = Some g'" and "states P0 = []"
    and "state P \<noteq> YAML_PARSE_END_STATE \<longrightarrow> inv P" and "same_states P0 (P\<lparr>state := state P0\<rparr>)" and "marks P0 = []" and "ev_step g (ev_data e) = Some g'"
    and "rank (state P) < rank (state P0)"
  shows "produced P0 e P"
  using assms outer_frames [OF assms(3)]
  by (auto simp: produced_def same_states_def automaton_ok_def states_ok_def marks_ok_def marks_of_def grammar_state_def event_budget_def)

lemma docs_rank: "outer_state st = Some GDocs \<Longrightarrow> 0 < rank st"
  by (cases st) auto

lemma produced_document_start:
  assumes "outer_state (state P0) = Some GDocs" and "states P0 = []" and "marks P0 = []"
    and "inv P" and "same_states P0 (P\<lparr>state := state P0, states := []\<rparr>)"
    and "root_state (state P)" and "states P = [YAML_PARSE_DOCUMENT_END_STATE]"
    and "ev_data e = YAML_DOCUMENT_START_EVENT vd tds i" and "work P + c \<le> work P0" and "4 < rank (state P0) + 5 * c"
  shows "produced P0 e P"
proof -
  have "rank (state P) = 2" using assms(6) by (auto simp: root_state_def)
  then have "event_budget (work P) P < event_budget (work P0) P0"
    using assms(2,7,9,10) by (simp add: event_budget_def)
  then show ?thesis
    using assms
    by (auto simp: produced_def same_states_def automaton_ok_def states_ok_def marks_ok_def marks_of_def grammar_state_def root_state_def)
qed

lemma automaton_outer:
  assumes "automaton_ok P" and "outer_state (state P) = Some g"
  shows "states P = []" and "marks P = []"
  using assms outer_frames [OF assms(2)] by (auto simp: automaton_ok_def states_ok_def marks_ok_def marks_of_def)

lemma stream_start_wp:
  assumes "automaton_ok P" and "inv P" and "state P = YAML_PARSE_STREAM_START_STATE"
  shows "wp False (yaml_parser_parse_stream_start F P) (produced P) scan_fail"
proof -
  have e: "states P = []" "marks P = []" using automaton_outer [OF assms(1)] assms(3) by simp_all
  have "wp False (SKIP_TOKEN (P1\<lparr>state := YAML_PARSE_IMPLICIT_DOCUMENT_START_STATE\<rparr>))
      (\<lambda>_. produced P (EVENT_INIT (YAML_STREAM_START_EVENT enc) a b)) scan_fail"
    if "at_token t P1" "same_parser P P1" "work P1 \<le> work P" "tok_data t \<noteq> YAML_STREAM_END_TOKEN" for t P1 enc a b
    using that e assms(3)
    by (intro SKIP_TOKEN_wp [where t = t]) (auto intro!: produced_outer simp: same_states_def same_parser_def)
  then show ?thesis
    unfolding yaml_parser_parse_stream_start_def wp_bind
    by (intro PEEK_TOKEN_wp [OF assms(2)]) (auto split: yaml_token_data.split)
qed

lemma document_start_wp:
  assumes "automaton_ok P" and "inv P" and "outer_state (state P) = Some GDocs" and "work P < n"
    and "implicit \<Longrightarrow> rank (state P) = 5"
  shows "wp False (yaml_parser_parse_document_start F n P implicit) (produced P) scan_fail"
proof -
  note e = automaton_outer [OF assms(1,3)]
  have bare: "wp False (yaml_parser_process_directives F n P1) (\<lambda>_ P'. wp False (push_state P' YAML_PARSE_DOCUMENT_END_STATE)
      (\<lambda>_ P'. produced P (EVENT_INIT (YAML_DOCUMENT_START_EVENT None [] True) m m) (P'\<lparr>state := YAML_PARSE_BLOCK_NODE_STATE\<rparr>)) scan_fail) scan_fail"
    if "at_token t P1" "same_states P P1" "implicit" for t P1 m
    using that e assms(3,4,5) at_token_inv [OF that(1)]
    by (auto intro!: process_directives_wp push_state_wp produced_document_start [where c = 0] simp: same_states_def root_state_def)
  have doc: "wp False (push_state P2 YAML_PARSE_DOCUMENT_END_STATE) (\<lambda>_ P'. wp False (SKIP_TOKEN (P'\<lparr>state := YAML_PARSE_DOCUMENT_CONTENT_STATE\<rparr>))
      (\<lambda>_. produced P (EVENT_INIT (YAML_DOCUMENT_START_EVENT vd tds False) a b)) scan_fail) scan_fail"
    if "at_token t P2" "same_states P P2" "tok_data t = YAML_DOCUMENT_START_TOKEN" for t P2 vd tds a b
    using that e assms(3)
    by (intro push_state_wp SKIP_TOKEN_wp [where t = t])
      (auto intro!: produced_document_start [where c = 1] simp: counted_def same_states_def same_parser_def root_state_def)
  have explicit: "wp False (yaml_parser_process_directives F n P1) (\<lambda>r. case r of (vd, tds) \<Rightarrow> \<lambda>P'. wp False (PEEK_TOKEN F P')
      (\<lambda>t P'. tok_data t = YAML_DOCUMENT_START_TOKEN
         \<longrightarrow> wp False (push_state P' YAML_PARSE_DOCUMENT_END_STATE) (\<lambda>_ P'. wp False (SKIP_TOKEN (P'\<lparr>state := YAML_PARSE_DOCUMENT_CONTENT_STATE\<rparr>))
      (\<lambda>_. produced P (EVENT_INIT (YAML_DOCUMENT_START_EVENT vd tds False) a (tok_end_mark t))) scan_fail) scan_fail)
         scan_fail) scan_fail"
    if "at_token t P1" "same_states P P1" for t P1 a
    using that assms(4) at_token_inv [OF that(1)]
    by (auto intro!: process_directives_wp PEEK_TOKEN_wp doc simp: same_states_def same_parser_def)
  have stop: "wp False (SKIP_TOKEN (P1\<lparr>state := YAML_PARSE_END_STATE\<rparr>)) (\<lambda>_. produced P (EVENT_INIT YAML_STREAM_END_EVENT a b)) scan_fail"
    if "at_token t P1" "same_states P P1" for t P1 a b
    using that e assms(3) docs_rank [OF assms(3)]
    by (intro SKIP_any_wp [where t = t]) (auto intro!: produced_outer simp: same_states_def same_parser_def)
  have ends: "wp False (if \<not> implicit then skip_document_ends F n t P1 else Ok t P1) (\<lambda>t' P'. at_token t' P' \<and> same_states P P') scan_fail"
    if "at_token t P1" "same_states P P1" for t P1
    using that assms(4) skip_document_ends_wp [of t P1 n]
    by (auto elim!: wp_mono intro: same_states_trans simp: same_states_def)
  show ?thesis
    unfolding yaml_parser_parse_document_start_def wp_bind
  proof (rule PEEK_TOKEN_wp [OF assms(2)], rule wp_mono [OF ends], assumption)
    fix t P' t1 P1 assume "at_token t1 P1 \<and> same_states P P1"
    then have 1: "at_token t1 P1" "same_states P P1" by simp_all
    show "wp False (if implicit \<and> \<not> is_document_head (tok_data t1) then
         res_bind (yaml_parser_process_directives F n P1) (\<lambda>_ P.
         res_bind (push_state P YAML_PARSE_DOCUMENT_END_STATE) (\<lambda>_ P.
           Ok (EVENT_INIT (YAML_DOCUMENT_START_EVENT None [] True)
                 (tok_start_mark t1) (tok_start_mark t1))
              (P\<lparr>state := YAML_PARSE_BLOCK_NODE_STATE\<rparr>)))
       else if tok_data t1 \<noteq> YAML_STREAM_END_TOKEN then
         (let sm = tok_start_mark t1 in
          res_bind (yaml_parser_process_directives F n P1) (\<lambda>(vd, tds) P.
          res_bind (PEEK_TOKEN F P) (\<lambda>token P.
            if tok_data token \<noteq> YAML_DOCUMENT_START_TOKEN then
              yaml_parser_set_parser_error P ''did not find expected <document start>''
                (tok_start_mark token)
            else
              res_bind (push_state P YAML_PARSE_DOCUMENT_END_STATE) (\<lambda>_ P.
              res_bind (SKIP_TOKEN (P\<lparr>state := YAML_PARSE_DOCUMENT_CONTENT_STATE\<rparr>)) (\<lambda>_ P.
                Ok (EVENT_INIT (YAML_DOCUMENT_START_EVENT vd tds False) sm (tok_end_mark token)) P)))))
       else
         res_bind (SKIP_TOKEN (P1\<lparr>state := YAML_PARSE_END_STATE\<rparr>)) (\<lambda>_ P.
           Ok (EVENT_INIT YAML_STREAM_END_EVENT (tok_start_mark t1) (tok_end_mark t1)) P)) (produced P) scan_fail"
      using bare [OF 1] stop [OF 1] explicit [OF 1] by (auto simp: Let_def case_prod_unfold)
  qed (auto intro: same_parser_states)
qed

lemma document_end_wp:
  assumes "automaton_ok P" and "inv P" and "state P = YAML_PARSE_DOCUMENT_END_STATE"
  shows "wp False (yaml_parser_parse_document_end F P) (produced P) scan_fail"
proof -
  have e: "states P = []" "marks P = []" using automaton_outer [OF assms(1)] assms(3) by simp_all
  have out: "produced P (EVENT_INIT (YAML_DOCUMENT_END_EVENT i) a b) (P'\<lparr>tag_directives := [], state := YAML_PARSE_DOCUMENT_START_STATE\<rparr>)"
    if "inv P'" "same_states P P'" for i a b P'
    using that e assms(3) by (auto intro!: produced_outer simp: same_states_def)
  have skip: "wp False (SKIP_TOKEN P1) (\<lambda>_ P'. produced P (EVENT_INIT (YAML_DOCUMENT_END_EVENT i) a b)
      (P'\<lparr>tag_directives := [], state := YAML_PARSE_DOCUMENT_START_STATE\<rparr>)) scan_fail"
    if "at_token t P1" "same_states P P1" "tok_data t \<noteq> YAML_STREAM_END_TOKEN" for t P1 i a b
    using that by (intro SKIP_TOKEN_wp [OF that(1,3)] out) (auto simp: same_states_def same_parser_def)
  show ?thesis
    unfolding yaml_parser_parse_document_end_def wp_bind
    by (intro PEEK_TOKEN_wp [OF assms(2)])
      (auto intro: out [OF at_token_inv same_parser_states] skip [OF _ same_parser_states])
qed

text \<open>The root node of a document.\<close>

lemma produced_root:
  assumes "root_state (state P0)" and "automaton_ok P0" and "node_event P (ev_data e) P'"
    and "same_states P0 P"
  shows "produced P0 e P'"
proof -
  have r: "outer_state (state P0) = None" "states P0 = [YAML_PARSE_DOCUMENT_END_STATE]" "marks P0 = []"
    using assms(1,2) by (auto simp: automaton_ok_def states_ok_def root_state_def marks_ok_def marks_of_def)
  have g: "grammar_of P0 = GDoc [FRoot]" using r assms(1) by (simp add: grammar_state_def)
  have rank: "rank (state P0) = 2" using assms(1) by (auto simp: root_state_def)
  have P': "inv P'" "work P' \<le> work P0" "error P' = error P0" "marks P' = []"
    using assms(3,4) r(3) by (auto simp: node_event_def same_states_def)
  consider (leaf) "is_leaf_event (ev_data e)" "states P' = []" "state P' = YAML_PARSE_DOCUMENT_END_STATE"
    | (coll) fr where "frames_of (state P') = [fr]" "ev_step (GDoc [FRoot]) (ev_data e) = Some (GDoc [fr])"
        "marks_of (state P') = 0" "first_state (state P') \<longrightarrow> token_available P' \<and> counted (hd (tokens P'))" "rank (state P') \<le> 1" "states P' = [YAML_PARSE_DOCUMENT_END_STATE]"
    using assms(3,4) r(2) seq_step map_step by (fastforce simp: node_event_def same_states_def)
  then show ?thesis
  proof cases
    case leaf
    then show ?thesis
      using P' g rank r(2) leaf_step [OF leaf(1), of FRoot "[]"]
      by (auto simp: event_budget_def produced_def automaton_ok_def states_ok_def marks_ok_def marks_of_def grammar_state_def)
  next
    case coll
    then show ?thesis
      using P' g rank r(2) frames_outer [of "state P'"]
      by (auto simp: event_budget_def produced_def automaton_ok_def states_ok_def marks_ok_def marks_of_def [of YAML_PARSE_DOCUMENT_END_STATE] grammar_state_def)
  qed
qed

lemma parse_root_wp:
  assumes "root_state (state P0)" and "automaton_ok P0" and "inv P" and "same_states P0 P"
  shows "wp False (yaml_parser_parse_node F P True False) (produced P0) scan_fail"
proof -
  have "states P = [] @ [YAML_PARSE_DOCUMENT_END_STATE]"
    using assms(1,2,4) by (auto simp: automaton_ok_def states_ok_def root_state_def same_states_def)
  from parse_node_wp [OF assms(3) this] show ?thesis
    by (rule wp_mono) (auto intro: produced_root [OF assms(1,2) _ assms(4)])
qed

lemma document_content_wp:
  assumes "automaton_ok P" and "inv P" and "state P = YAML_PARSE_DOCUMENT_CONTENT_STATE"
  shows "wp False (yaml_parser_parse_document_content F P) (produced P) scan_fail"
proof -
  have r: "root_state (state P)" and ss: "states P = [] @ [YAML_PARSE_DOCUMENT_END_STATE]"
    using assms(1,3) by (auto simp: automaton_ok_def states_ok_def root_state_def)
  have empty: "wp False (pop_state P1) (\<lambda>_ P. wp False (yaml_parser_process_empty_scalar P m) (produced P0) scan_fail) scan_fail"
    if "at_token t P1" "same_states P P1" "P0 = P" for t P1 m P0
  proof (rule pop_state_wp)
    show "states P1 = [] @ [YAML_PARSE_DOCUMENT_END_STATE]" using that(2) ss by (simp add: same_states_def)
    show "wp False (yaml_parser_process_empty_scalar (P1\<lparr>state := YAML_PARSE_DOCUMENT_END_STATE, states := []\<rparr>) m) (produced P0) scan_fail"
      unfolding yaml_parser_process_empty_scalar_def wp_bind that(3)
      using that(1,2) ss
      by (intro allocate_parser_wp) (auto intro!: produced_root [OF r assms(1), where P = P] simp: node_event_def same_states_def dest: at_token_inv)
  qed
  show ?thesis
    unfolding yaml_parser_parse_document_content_def wp_bind
  proof (rule PEEK_TOKEN_wp [OF assms(2)])
    fix t P1 assume 1: "at_token t P1" "same_parser P P1" "work P1 \<le> work P"
    note s = same_parser_states [OF 1(2,3)]
    show "wp False (if is_document_head (tok_data t) \<or> tok_data t = YAML_DOCUMENT_END_TOKEN then
         res_bind (pop_state P1) (\<lambda>_ P. yaml_parser_process_empty_scalar P (tok_start_mark t))
       else yaml_parser_parse_node F P1 True False) (produced P) scan_fail"
      using empty [OF 1(1) s refl] parse_root_wp [OF r assms(1) at_token_inv [OF 1(1)] s] by simp
  qed
qed

section \<open>One call of the parser\<close>

lemma states_inside:
  assumes "automaton_ok P" and "frames_of (state P) = f # fs"
  shows "inside (f # fs) P"
  using assms frames_outer [of "state P"] by (auto simp: automaton_ok_def states_ok_def inside_def)

lemma unused_states:
  assumes "automaton_ok P"
  shows "state P \<noteq> YAML_PARSE_BLOCK_NODE_OR_INDENTLESS_SEQUENCE_STATE" "state P \<noteq> YAML_PARSE_FLOW_NODE_STATE"
  using assms by (auto simp: automaton_ok_def states_ok_def root_state_def)

lemmas inside_wp = block_sequence_entry_wp indentless_sequence_entry_wp block_mapping_key_wp block_mapping_value_wp
  flow_sequence_entry_wp flow_sequence_entry_mapping_key_wp flow_sequence_entry_mapping_value_wp
  flow_sequence_entry_mapping_end_wp flow_mapping_key_wp flow_mapping_value_wp

lemma state_machine_wp:
  assumes "automaton_ok P" and "inv P" and "work P < n" and "state P \<noteq> YAML_PARSE_END_STATE"
  shows "wp False (yaml_parser_state_machine F n (state P) P) (produced P) scan_fail"
proof -
  note i = states_inside [OF assms(1)]
  note out = stream_start_wp [OF assms(1,2)] document_start_wp [OF assms(1,2) _ assms(3)] document_end_wp [OF assms(1,2)]
    document_content_wp [OF assms(1,2)] parse_root_wp [OF _ assms(1,2)] root_state_def
  note ins = inside_wp [OF assms(1,2) i]
  show ?thesis
    using unused_states [OF assms(1)] assms(4)
    by (cases "state P") (simp_all add: out ins marks_of_def)
qed

lemma parse_wp:
  assumes "automaton_ok P" and "inv P" and "work P < n"
  shows "wp False (yaml_parser_parse F n P)
    (\<lambda>e P'. if stream_end_produced P \<or> error P \<noteq> YAML_NO_ERROR \<or> state P = YAML_PARSE_END_STATE
            then e = no_event \<and> P' = P else produced P e P') scan_fail"
  using state_machine_wp [OF assms] by (simp add: yaml_parser_parse_def)

end

end
