(* ===== verification/Yaml_Loader_Facts.thy ===== *)
theory Yaml_Loader_Facts
  imports Yaml_Compose Yaml_Parser_Facts
begin

text \<open>
  The operations of the loader implement the steps of the composition: the document, the aliases
  and the context of a call stand for the frames of the grammar, an event that the grammar allows
  is loaded as \<open>compose_step\<close> says, and the only errors are missing memory and wrong references.
\<close>

section \<open>The context and the grammar\<close>

text \<open>What an open collection expects next, and the frames of a context.\<close>

definition frame_of :: "node_view \<Rightarrow> frame" where
  "frame_of n = (case fst n of YAML_SEQUENCE_NODE _ _ \<Rightarrow> FSeq
     | YAML_MAPPING_NODE ps _ \<Rightarrow> if open_pair ps then FVal else FKey | _ \<Rightarrow> FRoot)"

definition ctx_frames :: "node_view list \<Rightarrow> int list \<Rightarrow> frame list" where
  "ctx_frames ns ctx = map (\<lambda>i. frame_of (ns ! nat (i - 1))) (rev ctx)"

lemma ctx_frames_snoc: "ctx_frames ns (ctx @ [i]) = frame_of (ns ! nat (i - 1)) # ctx_frames ns ctx"
  by (simp add: ctx_frames_def)

lemma ctx_frames_cong: "(\<And>i. i \<in> set ctx \<Longrightarrow> ns ! nat (i - 1) = ms ! nat (i - 1)) \<Longrightarrow> ctx_frames ns ctx = ctx_frames ms ctx"
  by (simp add: ctx_frames_def)

lemma ctx_frames_append: "ctx_ok ns ctx \<Longrightarrow> ctx_frames (ns @ ms) ctx = ctx_frames ns ctx"
  by (rule ctx_frames_cong) (auto simp: ctx_ok_def nth_append)

lemma frame_add_item: "frame_of n \<noteq> FRoot \<Longrightarrow> i \<noteq> 0 \<Longrightarrow> frame_of (add_item i n) # fs = advance (frame_of n # fs)"
  by (cases "(i, n)" rule: add_item.cases) (auto simp: frame_of_def open_pair_def split: if_splits)

lemma ctx_frames_add_child:
  assumes "ctx_ok ns ctx" and "sorted_wrt (<) ctx" and "FRoot \<notin> set (ctx_frames ns ctx)" and "i \<noteq> 0"
  shows "ctx_frames (add_child ctx i ns) ctx = advance (ctx_frames ns ctx)"
proof (cases ctx rule: rev_cases)
  case Nil
  then show ?thesis by (simp add: ctx_frames_def)
next
  case (snoc c j)
  have j: "1 \<le> j" "nat (j - 1) < length ns" using assms(1) snoc by (auto simp: ctx_ok_def)
  have "ctx_frames (add_child ctx i ns) c = ctx_frames ns c"
  proof (rule ctx_frames_cong)
    fix x assume "x \<in> set c"
    then have "x < j" "1 \<le> x" using assms(1,2) snoc by (auto simp: sorted_wrt_append ctx_ok_def)
    then show "add_child ctx i ns ! nat (x - 1) = ns ! nat (x - 1)" using snoc by (simp add: add_child_def)
  qed
  moreover have "add_child ctx i ns ! nat (j - 1) = add_item i (ns ! nat (j - 1))" using snoc j by (simp add: add_child_def)
  moreover have "frame_of (ns ! nat (j - 1)) \<noteq> FRoot" using assms(3) snoc by (auto simp: ctx_frames_snoc)
  ultimately show ?thesis using snoc assms(4) frame_add_item by (simp add: ctx_frames_snoc)
qed

text \<open>The loading state stands for the frames of the grammar.\<close>

fun loading_ok :: "frame list \<Rightarrow> loading \<Rightarrow> bool" where
  "loading_ok fs (ns, env, ctx) \<longleftrightarrow>
     (if ns = [] then fs = [FRoot] \<and> ctx = [] else fs = ctx_frames ns ctx \<and> FRoot \<notin> set (ctx_frames ns ctx))
     \<and> sorted_wrt (<) ctx \<and> ctx_ok ns ctx \<and> env_ok env (int (length ns))"

lemma loading_add:
  assumes "loading_ok (f # fs) (ns, env, ctx)" and "1 \<le> i" and "i \<le> int (length (ns @ ms))" and "ms = [] \<longrightarrow> ns \<noteq> []"
    and "env_ok env' (int (length (ns @ ms)))"
  shows "loading_ok (advance (f # fs)) (add_child ctx i (ns @ ms), env', ctx)"
proof (cases "ns = []")
  case True
  then show ?thesis using assms by (auto simp: add_child_def ctx_frames_def ctx_ok_def)
next
  case False
  then have s: "f # fs = ctx_frames ns ctx" "FRoot \<notin> set (ctx_frames ns ctx)" "sorted_wrt (<) ctx" "ctx_ok ns ctx"
    using assms(1) by auto
  have ok: "ctx_ok (ns @ ms) ctx" "ctx_ok (add_child ctx i (ns @ ms)) ctx" using s(4) by (auto intro: ctx_ok_longer)
  have "ctx_frames (add_child ctx i (ns @ ms)) ctx = advance (f # fs)"
    using ctx_frames_add_child [OF ok(1) s(3), of i] ctx_frames_append [OF s(4), of ms] s(1,2) assms(2) by simp
  moreover have "FRoot \<notin> set (f # fs)" using s(1,2) by simp
  then have "FRoot \<notin> set (advance (f # fs))" by (cases f) auto
  moreover have "add_child ctx i (ns @ ms) \<noteq> []" using False length_add_child [of ctx i "ns @ ms"] by force
  ultimately show ?thesis using s(3) ok(2) assms(5) by simp
qed

lemma loading_open:
  assumes "loading_ok (f # fs) (ns, env, ctx)" and "k = int (length ns) + 1" and "frame_of n = g" and "g \<noteq> FRoot"
    and "env_ok env' k"
  shows "loading_ok (g # advance (f # fs)) (add_child ctx k (ns @ [n]), env', ctx @ [k])"
proof -
  have ok: "ctx_ok ns ctx" using assms(1) by (auto split: if_splits)
  have "loading_ok (advance (f # fs)) (add_child ctx k (ns @ [n]), env', ctx)"
    using assms by (intro loading_add) (auto simp: add.commute)
  moreover have "add_child ctx k (ns @ [n]) = add_child ctx k ns @ [n]" using ok by (rule add_child_append)
  ultimately show ?thesis
    using assms(2-4) ok [unfolded ctx_ok_def]
    by (auto simp: ctx_frames_snoc nth_append sorted_wrt_append ctx_ok_def ctx_frames_def split: if_splits)
qed

lemma loading_close:
  assumes "loading_ok (f # fs) (ns, env, ctx)" and "f \<noteq> FRoot"
  shows "loading_ok fs (ns, env, butlast ctx)" and "ctx \<noteq> []" and "frame_of (ns ! nat (last ctx - 1)) = f"
  using assms by (cases ctx rule: rev_cases; auto simp: ctx_frames_def sorted_wrt_append ctx_ok_def split: if_splits)+

lemma loading_step:
  assumes "loading_ok fs s" and "ev_step (GDoc fs) d = Some (GDoc fs')" and "compose_step d s = Some s'"
  shows "loading_ok fs' s'"
proof -
  obtain ns env ctx where s: "s = (ns, env, ctx)" by (cases s)
  obtain f gs where fs: "fs = f # gs" using assms(2,3) s by (cases fs; cases d) auto
  note ok = assms(1) [unfolded s fs]
  have env: "env_ok env (int (length ns))" using ok by simp
  have reg: "env_ok env' (int (length ns) + 1)" if "register a (int (length ns) + 1) env = Some env'" for a env'
    using env_ok_register [OF that env] by simp
  show ?thesis
  proof (cases d)
    case (YAML_ALIAS_EVENT a)
    then obtain i where i: "map_of env (cstr a) = Some i" "s' = (add_child ctx i ns, env, ctx)" using assms(3) s by auto
    then have "1 \<le> i \<and> i \<le> int (length ns)" using env by (auto dest: env_ok_lookup)
    then have "loading_ok (advance (f # gs)) (add_child ctx i (ns @ []), env, ctx)" using env by (intro loading_add [OF ok]) auto
    then show ?thesis using i assms(2) fs YAML_ALIAS_EVENT by (simp del: loading_ok.simps)
  next
    case (YAML_SCALAR_EVENT a t v p q st)
    then show ?thesis
      using assms(2,3) s fs reg loading_add [OF ok, of "int (length ns) + 1" "[(YAML_SCALAR_NODE v st, tag_or YAML_STR_TAG t)]"]
      by (auto simp: Let_def algebra_simps simp del: loading_ok.simps)
  next
    case (YAML_SEQUENCE_START_EVENT a t p st)
    then show ?thesis
      using assms(2,3) s fs reg loading_open [OF ok refl, of "(YAML_SEQUENCE_NODE [] st, tag_or YAML_SEQ_TAG t)" FSeq]
      by (auto simp: Let_def frame_of_def simp del: loading_ok.simps)
  next
    case (YAML_MAPPING_START_EVENT a t p st)
    then show ?thesis
      using assms(2,3) s fs reg loading_open [OF ok refl, of "(YAML_MAPPING_NODE [] st, tag_or YAML_MAP_TAG t)" FKey]
      by (auto simp: Let_def frame_of_def open_pair_def simp del: loading_ok.simps)
  next
    case YAML_SEQUENCE_END_EVENT
    then show ?thesis using assms(2,3) s fs loading_close(1) [OF ok] by (cases f) (auto simp del: loading_ok.simps)
  next
    case YAML_MAPPING_END_EVENT
    then show ?thesis using assms(2,3) s fs loading_close(1) [OF ok] by (cases f) (auto simp del: loading_ok.simps)
  qed (use assms(3) s in auto)
qed

section \<open>Rules for the operations of the loader\<close>

text \<open>A failure is recorded, or the memory is used up; an error of the composer has a reason.\<close>

definition load_fail :: "bool \<Rightarrow> 'h yaml_parser \<Rightarrow> bool" where
  "load_fail b P \<longleftrightarrow> scan_fail P \<or> error P = YAML_COMPOSER_ERROR \<and> b"

text \<open>The loader changes the document, the aliases and the memory.\<close>

definition loading_of :: "yaml_document \<Rightarrow> 'h yaml_parser \<Rightarrow> int list \<Rightarrow> loading" where
  "loading_of d P ctx = (map view (nodes d), anchors_of (aliases P), ctx)"

lemma composer_error_wp [simp]:
  "b \<Longrightarrow> wp False (yaml_parser_set_composer_error P msg m) Q (load_fail b)"
  "b \<Longrightarrow> wp False (yaml_parser_set_composer_error_context P c cm msg m) Q (load_fail b)"
  by (simp_all add: yaml_parser_set_composer_error_def yaml_parser_set_composer_error_context_def load_fail_def scan_fail_def)

lemma load_fail_memory: "load_fail b (P\<lparr>error := YAML_MEMORY_ERROR\<rparr>)"
  by (simp add: load_fail_def scan_fail_def)

lemma PUSH_load_wp: "(\<And>h. Q (xs @ [x]) (P\<lparr>heap := h\<rparr>)) \<Longrightarrow> wp False (PUSH P xs x) Q (load_fail b)"
  by (simp add: wp_PUSH load_fail_memory)

lemma allocate_load_wp: "(\<And>h. Q () (P\<lparr>heap := h\<rparr>)) \<Longrightarrow> wp False (allocate P) Q (load_fail b)"
  by (simp add: wp_allocate load_fail_memory)

lemma STACK_LIMIT_wp: "Q () P \<Longrightarrow> wp False (STACK_LIMIT P xs n) Q (load_fail b)"
  by (simp add: STACK_LIMIT_def load_fail_memory)

lemma default_tag_wp:
  assumes "\<And>h. Q (tag_or def tag) (P\<lparr>heap := h\<rparr>)" and "error P = YAML_NO_ERROR"
  shows "wp False (default_tag def tag P) Q (load_fail b)"
  using assms assms(1) [of "heap P"]
  by (auto simp: default_tag_def tag_or_def allocate_quietly_def load_fail_def scan_fail_def split: option.splits)

lemma find_alias_eq: "map_of (anchors_of as) (cstr a) = map_option ad_index (find_alias as a)"
  by (induction as) (auto simp: anchors_of_def find_alias_def)

lemma the_node_Ok:
  assumes "document P = Some d" and "1 \<le> i" and "i \<le> int (length (nodes d))"
  shows "the_node P i = Ok (d, nodes d ! nat (i - 1)) P"
  using assms by (simp add: the_node_def doc_node_def)

lemma register_anchor_wp:
  assumes "document P = Some d" and "1 \<le> i" and "i \<le> int (length (nodes d))"
    and "\<And>h as. register a i (anchors_of (aliases P)) = Some (anchors_of as) \<Longrightarrow> Q () (P\<lparr>heap := h, aliases := as\<rparr>)"
    and "register a i (anchors_of (aliases P)) = None \<Longrightarrow> b"
  shows "wp False (yaml_parser_register_anchor P i a) Q (load_fail b)"
proof (cases a)
  case None
  then show ?thesis using assms(4) [where h = "heap P" and as = "aliases P"] by (simp add: yaml_parser_register_anchor_def register_def)
next
  case (Some x)
  show ?thesis
  proof (cases "find_alias (aliases P) x")
    case None
    let ?as = "aliases P @ [\<lparr>ad_anchor = x, ad_index = i, ad_mark = node_start_mark (nodes d ! nat (i - 1))\<rparr>]"
    have "register a i (anchors_of (aliases P)) = Some (anchors_of ?as)"
      using Some None by (simp add: register_def find_alias_eq) (simp add: anchors_of_def)
    then have "Q () (P\<lparr>heap := h, aliases := ?as\<rparr>)" for h by (rule assms(4))
    then show ?thesis
      using Some None the_node_Ok [OF assms(1-3)]
      by (auto simp: yaml_parser_register_anchor_def intro!: PUSH_load_wp)
  next
    case (Some ad)
    then show ?thesis
      using \<open>a = Some x\<close> assms(5) the_node_Ok [OF assms(1-3)]
      by (auto simp: yaml_parser_register_anchor_def register_def find_alias_eq)
  qed
qed

lemma view_update: "i < length xs \<Longrightarrow> map view (xs[i := nd]) = (map view xs)[i := view nd]"
  by (simp add: map_update)

lemma load_node_add_wp:
  assumes "document P = Some d" and "ctx_ok (map view (nodes d)) ctx" and "FRoot \<notin> set (ctx_frames (map view (nodes d)) ctx)"
    and "\<And>h ns. map view ns = add_child ctx i (map view (nodes d)) \<Longrightarrow> Q () (P\<lparr>heap := h, document := Some (d\<lparr>nodes := ns\<rparr>)\<rparr>)"
  shows "wp False (yaml_parser_load_node_add P ctx i) Q (load_fail b)"
proof (cases ctx rule: rev_cases)
  case Nil
  have "P\<lparr>heap := heap P, document := Some (d\<lparr>nodes := nodes d\<rparr>)\<rparr> = P" using assms(1) by simp
  then show ?thesis
    using Nil assms(4) [of "nodes d" "heap P"] by (simp add: yaml_parser_load_node_add_def add_child_def)
next
  case (snoc c j)
  have j: "1 \<le> j" "j \<le> int (length (nodes d))" using assms(2) snoc by (auto simp: ctx_ok_def)
  then have lt: "nat (j - 1) < length (nodes d)" by simp
  let ?nd = "nodes d ! nat (j - 1)"
  have f: "frame_of (view ?nd) \<noteq> FRoot" using assms(3) snoc lt by (auto simp: ctx_frames_snoc)
  have put: "Q () (P\<lparr>heap := h, document := Some (d\<lparr>nodes := (nodes d)[nat (j - 1) := ?nd\<lparr>node_data := nd\<rparr>]\<rparr>)\<rparr>)"
    if "(nd, node_tag ?nd) = add_item i (view ?nd)" for h nd
    using snoc lt that by (intro assms(4)) (simp add: view_update add_child_def, simp add: view_def)
  note put' = put [where h = "heap P", simplified]
  show ?thesis
    using snoc f assms(1) the_node_Ok [OF assms(1) j] put put'
    by (cases "node_data ?nd")
      (auto simp: yaml_parser_load_node_add_def frame_of_def view_def open_pair_def set_doc_node_def
        intro!: STACK_LIMIT_wp PUSH_load_wp)
qed


lemma push_node_wp:
  assumes "document P = Some d"
    and "\<And>h. Q (int (length (nodes d)) + 1) (P\<lparr>heap := h, document := Some (d\<lparr>nodes := nodes d @ [nd]\<rparr>)\<rparr>)"
  shows "wp False (push_node P nd) Q (load_fail b)"
  using assms by (auto simp: push_node_def the_document_def add.commute intro!: PUSH_load_wp)

text \<open>What a successful step of the loader has done.\<close>

definition loader_frame :: "'h yaml_parser \<Rightarrow> 'h yaml_parser \<Rightarrow> bool" where
  "loader_frame P P' \<longleftrightarrow> P' = P\<lparr>heap := heap P', aliases := aliases P', document := document P'\<rparr>"

definition composed :: "yaml_document \<Rightarrow> 'h yaml_parser \<Rightarrow> loading option \<Rightarrow> int list \<Rightarrow> 'h yaml_parser \<Rightarrow> bool" where
  "composed d P s ctx P' \<longleftrightarrow> loader_frame P P'
     \<and> (\<exists>ns. document P' = Some (d\<lparr>nodes := ns\<rparr>) \<and> s = Some (map view ns, anchors_of (aliases P'), ctx))"

text \<open>A new node: pushed, registered and added to its parent.\<close>

lemma new_node_wp:
  assumes d: "document P = Some d" and ok: "loading_ok (f # fs) (loading_of d P ctx)" and n: "view nd = n"
    and Q: "\<And>P' ns. loader_frame P P' \<Longrightarrow> document P' = Some (d\<lparr>nodes := ns\<rparr>)
       \<Longrightarrow> map view ns = add_child ctx (int (length (nodes d)) + 1) (map view (nodes d) @ [n])
       \<Longrightarrow> register a (int (length (nodes d)) + 1) (anchors_of (aliases P)) = Some (anchors_of (aliases P')) \<Longrightarrow> Q (int (length (nodes d)) + 1) P'"
    and b: "register a (int (length (nodes d)) + 1) (anchors_of (aliases P)) = None \<Longrightarrow> b"
  shows "wp False (push_node P nd) (\<lambda>i P. wp False (yaml_parser_register_anchor P i a)
    (\<lambda>_ P. wp False (yaml_parser_load_node_add P ctx i) (\<lambda>_. Q i) (load_fail b)) (load_fail b)) (load_fail b)"
proof -
  let ?k = "int (length (nodes d)) + 1" and ?d = "d\<lparr>nodes := nodes d @ [nd]\<rparr>"
  have ctx: "ctx_ok (map view (nodes d)) ctx" "FRoot \<notin> set (ctx_frames (map view (nodes d)) ctx)"
    using ok by (auto simp: loading_of_def ctx_frames_def split: if_splits)
  then have ctx': "ctx_ok (map view (nodes ?d)) ctx" "FRoot \<notin> set (ctx_frames (map view (nodes ?d)) ctx)"
    using ctx_frames_append [OF ctx(1)] by (auto intro: ctx_ok_longer)
  show ?thesis
  proof (rule push_node_wp [OF d], rule register_anchor_wp)
    fix h h' as
    let ?P1 = "P\<lparr>heap := h, document := Some ?d\<rparr>"
    assume r: "register a ?k (anchors_of (aliases ?P1)) = Some (anchors_of as)"
    show "wp False (yaml_parser_load_node_add (?P1\<lparr>heap := h', aliases := as\<rparr>) ctx ?k) (\<lambda>_. Q ?k) (load_fail b)"
    proof (rule load_node_add_wp [where d = ?d])
      fix h'' ns
      assume ns: "map view ns = add_child ctx ?k (map view (nodes ?d))"
      show "Q ?k (?P1\<lparr>heap := h', aliases := as, heap := h'', document := Some (?d\<lparr>nodes := ns\<rparr>)\<rparr>)"
        using r ns n by (intro Q [of _ ns]) (simp_all add: loader_frame_def)
    qed (use ctx' in auto)
  qed (use b in auto)
qed

lemma loader_frame_heap: "loader_frame (P\<lparr>heap := h\<rparr>) P' \<Longrightarrow> loader_frame P P'"
  by (simp add: loader_frame_def)

lemma load_scalar_wp:
  assumes "document P = Some d" and "loading_ok (f # fs) (loading_of d P ctx)" and "error P = YAML_NO_ERROR"
  shows "wp False (yaml_parser_load_scalar P a t v s e ctx)
    (\<lambda>_. composed d P (compose_step (YAML_SCALAR_EVENT a t v p q s) (loading_of d P ctx)) ctx)
    (load_fail (compose_step (YAML_SCALAR_EVENT a t v p q s) (loading_of d P ctx) = None))"
  unfolding yaml_parser_load_scalar_def wp_bind the_document_def assms(1) option.case wp.simps
  by (rule STACK_LIMIT_wp, rule default_tag_wp, rule new_node_wp [where d = d])
    (use assms in \<open>auto simp: loading_of_def view_def composed_def Let_def loader_frame_heap simp del: loading_ok.simps\<close>)

lemma load_collection_wp:
  assumes "document P = Some d" and "loading_ok (f # fs) (loading_of d P ctx)" and "error P = YAML_NO_ERROR"
    and Q: "\<And>P' ns. loader_frame P P' \<Longrightarrow> document P' = Some (d\<lparr>nodes := ns\<rparr>)
       \<Longrightarrow> map view ns = add_child ctx (int (length (nodes d)) + 1) (map view (nodes d) @ [(fresh, tag_or def t)])
       \<Longrightarrow> register a (int (length (nodes d)) + 1) (anchors_of (aliases P)) = Some (anchors_of (aliases P'))
       \<Longrightarrow> Q (ctx @ [int (length (nodes d)) + 1]) P'"
    and b: "register a (int (length (nodes d)) + 1) (anchors_of (aliases P)) = None \<Longrightarrow> b"
  shows "wp False (load_collection def fresh P a t e ctx) Q (load_fail b)"
  unfolding load_collection_def wp_bind the_document_def assms(1) option.case wp.simps
proof (rule STACK_LIMIT_wp, rule default_tag_wp, rule allocate_load_wp, rule new_node_wp [where d = d])
  fix h h' P' ns
  assume P': "loader_frame (P\<lparr>heap := h, heap := h'\<rparr>) P'" "document P' = Some (d\<lparr>nodes := ns\<rparr>)"
    "map view ns = add_child ctx (int (length (nodes d)) + 1) (map view (nodes d) @ [(fresh, tag_or def t)])"
    "register a (int (length (nodes d)) + 1) (anchors_of (aliases (P\<lparr>heap := h, heap := h'\<rparr>))) = Some (anchors_of (aliases P'))"
  have "loader_frame P (P'\<lparr>heap := h''\<rparr>)" for h'' using P'(1) by (cases P; cases P'; simp add: loader_frame_def)
  then show "wp False (STACK_LIMIT P' ctx (INT_MAX - 1)) (\<lambda>_ P''. wp False (PUSH P'' ctx (int (length (nodes d)) + 1)) Q (load_fail b)) (load_fail b)"
    using P' by (intro STACK_LIMIT_wp PUSH_load_wp Q) auto
qed (use assms in \<open>auto simp: loading_of_def view_def simp del: loading_ok.simps\<close>)

lemma load_alias_wp:
  assumes "document P = Some d" and "loading_ok (f # fs) (loading_of d P ctx)"
  shows "wp False (yaml_parser_load_alias P a e ctx)
    (\<lambda>_. composed d P (compose_step (YAML_ALIAS_EVENT a) (loading_of d P ctx)) ctx)
    (load_fail (compose_step (YAML_ALIAS_EVENT a) (loading_of d P ctx) = None))"
proof (cases "find_alias (aliases P) a")
  case None
  then show ?thesis by (simp add: yaml_parser_load_alias_def loading_of_def find_alias_eq)
next
  case (Some ad)
  have "wp False (yaml_parser_load_node_add P ctx (ad_index ad))
    (\<lambda>_. composed d P (compose_step (YAML_ALIAS_EVENT a) (loading_of d P ctx)) ctx)
    (load_fail (compose_step (YAML_ALIAS_EVENT a) (loading_of d P ctx) = None))"
    using assms Some
    by (intro load_node_add_wp [where d = d])
      (auto simp: loading_of_def find_alias_eq composed_def loader_frame_def ctx_frames_def split: if_splits)
  then show ?thesis using Some by (simp add: yaml_parser_load_alias_def)
qed

lemma load_collection_end_wp:
  assumes "document P = Some d" and "loading_ok (f # fs) (loading_of d P ctx)" and "f \<noteq> FRoot"
    and "\<And>n. frame_of n = f \<Longrightarrow> kind (fst n)"
  shows "wp False (load_collection_end kind P e ctx)
    (composed d P (Some (map view (nodes d), anchors_of (aliases P), butlast ctx))) (load_fail b)"
proof -
  note cl = loading_close [OF assms(2,3) [unfolded loading_of_def]]
  have i: "1 \<le> last ctx" "last ctx \<le> int (length (nodes d))"
    using assms(2) cl(2) last_in_set [OF cl(2)] by (auto simp: loading_of_def ctx_ok_def split: if_splits)
  then have lt: "nat (last ctx - 1) < length (nodes d)" by simp
  have "kind (node_data (nodes d ! nat (last ctx - 1)))" using assms(4) [OF cl(3)] lt by (simp add: view_def)
  moreover have "map view ((nodes d)[nat (last ctx - 1) := (nodes d ! nat (last ctx - 1))\<lparr>node_end_mark := m\<rparr>]) = map view (nodes d)" for m
    using lt by (intro nth_equalityI) (auto simp: nth_list_update view_def)
  ultimately show ?thesis
    using assms(1) cl(2) the_node_Ok [OF assms(1) i]
    by (auto simp: load_collection_end_def Let_def composed_def loader_frame_def set_doc_node_def intro!: exI)
qed

lemma load_event_wp:
  assumes "document P = Some d" and "loading_ok fs (loading_of d P ctx)" and "error P = YAML_NO_ERROR"
    and "ev_step (GDoc fs) (ev_data e) = Some (GDoc fs')"
  shows "wp False (load_event e ctx P) (composed d P (compose_step (ev_data e) (loading_of d P ctx)))
    (load_fail (compose_step (ev_data e) (loading_of d P ctx) = None))"
proof -
  obtain f gs where fs: "fs = f # gs" using assms(4) by (cases fs; cases "ev_data e") auto
  note ok = assms(1) assms(2) [unfolded fs]
  show ?thesis
  proof (cases "ev_data e")
    case (YAML_ALIAS_EVENT a)
    then show ?thesis using load_alias_wp [OF ok] by (simp add: load_event_def)
  next
    case (YAML_SCALAR_EVENT a t v p q s)
    then show ?thesis using load_scalar_wp [OF ok assms(3)] by (simp add: load_event_def)
  next
    case (YAML_SEQUENCE_START_EVENT a t p s)
    then show ?thesis
      by (simp add: load_event_def yaml_parser_load_sequence_def)
        (rule load_collection_wp [OF ok assms(3)]; auto simp: composed_def loading_of_def Let_def)
  next
    case (YAML_MAPPING_START_EVENT a t p s)
    then show ?thesis
      by (simp add: load_event_def yaml_parser_load_mapping_def)
        (rule load_collection_wp [OF ok assms(3)]; auto simp: composed_def loading_of_def Let_def)
  next
    case YAML_SEQUENCE_END_EVENT
    then have f: "f = FSeq" using assms(4) fs by (cases f) auto
    have "is_sequence_node (fst n)" if "frame_of n = f" for n :: node_view
      using that f by (cases "fst n") (auto simp: frame_of_def split: if_splits)
    then show ?thesis
      using YAML_SEQUENCE_END_EVENT f load_collection_end_wp [OF ok, of is_sequence_node] by (simp add: load_event_def yaml_parser_load_sequence_end_def loading_of_def)
  next
    case YAML_MAPPING_END_EVENT
    then have f: "f = FKey" using assms(4) fs by (cases f) auto
    have "is_mapping_node (fst n)" if "frame_of n = f" for n :: node_view
      using that f by (cases "fst n") (auto simp: frame_of_def split: if_splits)
    then show ?thesis
      using YAML_MAPPING_END_EVENT f load_collection_end_wp [OF ok, of is_mapping_node] by (simp add: load_event_def yaml_parser_load_mapping_end_def loading_of_def)
  qed (use assms(4) fs in \<open>cases f; auto\<close>)+
qed

end
