(* ===== verification/Yaml_Document.thy ===== *)
theory Yaml_Document
  imports Yaml_Loader_Facts
begin

text \<open>
  The loader on a source of events that is described by its laws only (locale \<open>event_source\<close>):
  it returns, and the document is composed from the tree of the events that were fetched.
\<close>

section \<open>The events of a document\<close>

text \<open>The events that were fetched on the way, where the loader changes its own fields in between.\<close>

inductive fetches :: "'h event_fetcher \<Rightarrow> 'h yaml_parser \<Rightarrow> yaml_event list \<Rightarrow> 'h yaml_parser \<Rightarrow> bool" for E where
  fetches_own: "loader_frame P P' \<Longrightarrow> fetches E P [] P'"
| fetches_event: "loader_frame P P1 \<Longrightarrow> E P1 = Ok e P2 \<Longrightarrow> fetches E P2 es P' \<Longrightarrow> fetches E P (e # es) P'"

inductive_simps fetches_Nil: "fetches E P [] P'"
inductive_cases fetches_ConsE: "fetches E P (e # es) P'"

lemma loader_frame_refl [simp]: "loader_frame P P"
  by (simp add: loader_frame_def)

lemma loader_frame_trans [trans]:
  assumes "loader_frame P P1" and "loader_frame P1 P2" shows "loader_frame P P2"
proof -
  have "P2 = P1\<lparr>heap := heap P2, aliases := aliases P2, document := document P2\<rparr>" using assms(2) by (simp add: loader_frame_def)
  also have "\<dots> = P\<lparr>heap := heap P1, aliases := aliases P1, document := document P1, heap := heap P2, aliases := aliases P2, document := document P2\<rparr>"
    using assms(1) unfolding loader_frame_def by metis
  finally show ?thesis unfolding loader_frame_def by simp
qed

lemma loader_frame_update [simp]: "loader_frame P (P\<lparr>heap := h\<rparr>)" "loader_frame P (P\<lparr>aliases := as\<rparr>)" "loader_frame P (P\<lparr>document := d\<rparr>)"
  by (simp_all add: loader_frame_def)

lemma loader_frameE:
  assumes "loader_frame P P'"
  obtains h as d where "P' = P\<lparr>heap := h, aliases := as, document := d\<rparr>"
  using assms unfolding loader_frame_def by blast

lemma fetches_before: "fetches E P1 es P' \<Longrightarrow> loader_frame P P1 \<Longrightarrow> fetches E P es P'"
  by (induction rule: fetches.induct) (auto intro: fetches.intros loader_frame_trans)

lemma fetches_append: "fetches E P es P1 \<Longrightarrow> fetches E P1 fs P' \<Longrightarrow> fetches E P (es @ fs) P'"
  by (induction rule: fetches.induct) (auto intro: fetches.intros fetches_before)

lemma fetches_after: "fetches E P es P1 \<Longrightarrow> loader_frame P1 P' \<Longrightarrow> fetches E P es P'"
  using fetches_append [of E P es P1 "[]" P'] fetches_own by fastforce

lemma fetches_one: "E P = Ok e P' \<Longrightarrow> fetches E P [e] P'"
  by (rule fetches_event [OF loader_frame_refl _ fetches_own [OF loader_frame_refl]])

section \<open>The tree of a document\<close>

fun is_node_event :: "yaml_event_data \<Rightarrow> bool" where
  "is_node_event (YAML_ALIAS_EVENT _) = True"
| "is_node_event (YAML_SCALAR_EVENT _ _ _ _ _ _) = True"
| "is_node_event (YAML_SEQUENCE_START_EVENT _ _ _ _) = True"
| "is_node_event (YAML_MAPPING_START_EVENT _ _ _ _) = True"
| "is_node_event YAML_SEQUENCE_END_EVENT = True"
| "is_node_event YAML_MAPPING_END_EVENT = True"
| "is_node_event _ = False"

lemma node_step: "ev_step (GDoc fs) e = Some (GDoc fs') \<Longrightarrow> is_node_event e"
  by (induction "GDoc fs" e rule: ev_step.induct) auto

lemma doc_step:
  assumes "ev_step (GDoc fs) e = Some g"
  shows "(\<exists>fs'. g = GDoc fs') \<or> (\<exists>impl. fs = [] \<and> e = YAML_DOCUMENT_END_EVENT impl \<and> g = GDocs)"
  using assms by (induction "GDoc fs" e rule: ev_step.induct) auto

lemma closes_run:
  assumes "ev_run (GDoc fs) es = Some (GDoc [])" and "compose_run es s \<noteq> None"
  shows "closes fs es"
  using assms
proof (induction es arbitrary: fs s)
  case (Cons e es)
  obtain s' where s: "compose_step e s = Some s'" "compose_run es s' \<noteq> None" using Cons.prems(2) by (cases "compose_step e s") auto
  obtain g where g: "ev_step (GDoc fs) e = Some g" "ev_run g es = Some (GDoc [])" using Cons.prems(1) by (auto split: option.splits)
  obtain fs' where "g = GDoc fs'" using doc_step [OF g(1)] s(1) by (cases s) auto
  then show ?case using g s(2) Cons.IH closes_step by blast
qed (simp add: closes_done)

lemma root_index: "compose t [] k = Some (i, ns, env) \<Longrightarrow> i = k"
  by (cases t) (auto simp: compose_leaf_def compose_collection_def split: yaml_event_data.splits bind_splits)

lemma compose_document:
  assumes "ev_run (GDoc [FRoot]) es = Some (GDoc [])" and "compose_run es ([], [], []) = Some (ns, env, ctx)"
  shows "\<exists>t. tree_ok t \<and> es = events_of t \<and> compose t [] 1 = Some (1, ns, env)"
proof -
  obtain t where t: "tree_ok t" "es = events_of t" using closes_run [OF assms(1), of "([], [], [])"] assms(2) by (auto elim!: closes_rootE closes_nilE)
  have "compose_run es ([], [], []) = map_option (\<lambda>(i, ms, env'). (add_child [] i ([] @ ms), env', [])) (compose t [] 1)"
    unfolding t(2) by (rule runs_treeD [OF run_tree [OF t(1)]]) (simp_all add: ctx_ok_def env_ok_def)
  then show ?thesis using assms(2) t root_index [of t 1] by (auto simp: add_child_def)
qed

text \<open>A document that was composed from a tree, between the events of its start and its end.\<close>

definition document_of :: "yaml_event \<Rightarrow> ytree \<Rightarrow> yaml_event \<Rightarrow> yaml_document \<Rightarrow> bool" where
  "document_of b t e d \<longleftrightarrow> tree_ok t \<and> (\<exists>env. compose t [] 1 = Some (1, map view (nodes d), env))
     \<and> ev_data b = YAML_DOCUMENT_START_EVENT (version_directive d) (doc_tag_directives d) (start_implicit d)
     \<and> ev_data e = YAML_DOCUMENT_END_EVENT (end_implicit d)
     \<and> doc_start_mark d = ev_start_mark b \<and> doc_end_mark d = ev_end_mark e"

text \<open>A composed document refers to its own nodes only.\<close>

lemma document_of_ok:
  assumes "document_of b t e d"
  shows "nodes d \<noteq> []" and "list_all (\<lambda>nd. child_ok (int (length (nodes d))) (view nd)) (nodes d)"
proof -
  obtain env where c: "compose t [] 1 = Some (1, map view (nodes d), env)" using assms by (auto simp: document_of_def)
  note ok = composesD [OF composes_tree(1) c]
  show "nodes d \<noteq> []" "list_all (\<lambda>nd. child_ok (int (length (nodes d))) (view nd)) (nodes d)"
    using ok(2,3) by (auto simp: env_ok_def index_ok_def list_all_iff)
qed

section \<open>The loader on a source of events\<close>

text \<open>
  What the loader relies on: the events follow the grammar, the source ends, it leaves the fields
  of the loader alone and does not look at them.
\<close>

locale event_source =
  fixes E :: "'h event_fetcher" and inv :: "'h yaml_parser \<Rightarrow> bool" and gram :: "'h yaml_parser \<Rightarrow> gstate"
    and remaining :: "'h yaml_parser \<Rightarrow> nat"
  assumes next_event: "inv P \<Longrightarrow> wp False (E P) (\<lambda>e P'. ev_step (gram P) (ev_data e) = Some (gram P') \<and> remaining P' < remaining P
        \<and> (gram P' \<noteq> GEnd \<longrightarrow> inv P' \<and> document P' = document P \<and> aliases P' = aliases P)) scan_fail"
    and no_error: "inv P \<Longrightarrow> error P = YAML_NO_ERROR"
    and started: "inv P \<Longrightarrow> stream_start_produced P \<longleftrightarrow> gram P \<noteq> GStream"
    and running: "inv P \<Longrightarrow> \<not> stream_end_produced P"
    and own_fields: "loader_frame P P' \<Longrightarrow> inv P' = inv P \<and> gram P' = gram P \<and> remaining P' = remaining P"
begin

text \<open>What \<open>yaml_parser_load_nodes\<close> makes of a document.\<close>

definition nodes_loaded :: "frame list \<Rightarrow> int list \<Rightarrow> yaml_document \<Rightarrow> 'h yaml_parser \<Rightarrow> 'h yaml_parser \<Rightarrow> bool" where
  "nodes_loaded fs ctx d P P' \<longleftrightarrow> (\<exists>es e impl ns env c. fetches E P (es @ [e]) P' \<and> ev_data e = YAML_DOCUMENT_END_EVENT impl
     \<and> ev_run (GDoc fs) (map ev_data es) = Some (GDoc []) \<and> compose_run (map ev_data es) (loading_of d P ctx) = Some (map view ns, env, c)
     \<and> document P' = Some (d\<lparr>nodes := ns, end_implicit := impl, doc_end_mark := ev_end_mark e\<rparr>) \<and> inv P' \<and> gram P' = GDocs)"

definition nodes_failed :: "loading \<Rightarrow> 'h yaml_parser \<Rightarrow> 'h yaml_parser \<Rightarrow> bool" where
  "nodes_failed s P P' \<longleftrightarrow> scan_fail P' \<or> error P' = YAML_COMPOSER_ERROR
     \<and> (\<exists>es P1. fetches E P es P1 \<and> list_all (is_node_event \<circ> ev_data) es \<and> compose_run (map ev_data es) s = None)"

lemma load_nodes_wp:
  assumes "inv P" and "gram P = GDoc fs" and "document P = Some d" and "loading_ok fs (loading_of d P ctx)" and "remaining P < m"
  shows "wp False (yaml_parser_load_nodes E m ctx P) (\<lambda>_. nodes_loaded fs ctx d P) (nodes_failed (loading_of d P ctx) P)"
  using assms
proof (induction m arbitrary: P fs d ctx)
  case (Suc m)
  show ?case
    unfolding yaml_parser_load_nodes.simps wp_bind
  proof (rule wp_mono [OF wp_Ok [OF next_event [OF Suc(2)]]])
    fix e :: yaml_event and P1
    assume "(ev_step (gram P) (ev_data e) = Some (gram P1) \<and> remaining P1 < remaining P
        \<and> (gram P1 \<noteq> GEnd \<longrightarrow> inv P1 \<and> document P1 = document P \<and> aliases P1 = aliases P)) \<and> E P = Ok e P1"
    then have step: "ev_step (GDoc fs) (ev_data e) = Some (gram P1)" and dec: "remaining P1 < remaining P" and E: "E P = Ok e P1"
      and inv: "gram P1 \<noteq> GEnd \<longrightarrow> inv P1 \<and> document P1 = Some d \<and> aliases P1 = aliases P" using Suc(3,4) by auto
    note own = Suc(2-)
    let ?K = "\<lambda>ctx P. case ev_data e of YAML_DOCUMENT_END_EVENT impl \<Rightarrow> res_bind (the_document P)
        (\<lambda>d P. Ok () (P\<lparr>document := Some (d\<lparr>end_implicit := impl, doc_end_mark := ev_end_mark e\<rparr>)\<rparr>))
       | _ \<Rightarrow> yaml_parser_load_nodes E m ctx P"
    let ?F = "nodes_failed (loading_of d P ctx) P"
    show "wp False (load_event e ctx P1) (\<lambda>ctx' P'. wp False (?K ctx' P') (\<lambda>_. nodes_loaded fs ctx d P) ?F) ?F"
    proof (cases "\<exists>fs'. gram P1 = GDoc fs'")
      case True
      then obtain fs' where g: "gram P1 = GDoc fs'" by blast
      then have i: "inv P1" "document P1 = Some d" and s: "loading_of d P1 ctx = loading_of d P ctx" using inv by (simp_all add: loading_of_def)
      have nd: "\<not> is_doc_end (ev_data e)" using step g by (cases fs; cases "hd fs"; cases "ev_data e") auto
      have "wp False (load_event e ctx P1) (composed d P1 (compose_step (ev_data e) (loading_of d P ctx)))
          (load_fail (compose_step (ev_data e) (loading_of d P ctx) = None))"
        using load_event_wp [OF i(2), of fs ctx e fs'] Suc(5) step g s no_error [OF i(1)] by simp
      then show ?thesis
      proof (rule wp_mono)
        fix ctx' P2 assume c: "composed d P1 (compose_step (ev_data e) (loading_of d P ctx)) ctx' P2"
        then obtain ns where fr: "loader_frame P1 P2" and d2: "document P2 = Some (d\<lparr>nodes := ns\<rparr>)"
          and cs: "compose_step (ev_data e) (loading_of d P ctx) = Some (loading_of (d\<lparr>nodes := ns\<rparr>) P2 ctx')"
          by (auto simp: composed_def loading_of_def)
        have ok: "loading_ok fs' (loading_of (d\<lparr>nodes := ns\<rparr>) P2 ctx')"
          using loading_step [OF Suc(5) step [unfolded g] cs] .
        have f1: "fetches E P es P'" if "fetches E P2 fs P'" "es = e # fs" for fs es P'
          using fetches_event [OF loader_frame_refl E fetches_before [OF that(1) fr]] that(2) by simp
        have "wp False (yaml_parser_load_nodes E m ctx' P2) (\<lambda>_. nodes_loaded fs' ctx' (d\<lparr>nodes := ns\<rparr>) P2)
            (nodes_failed (loading_of (d\<lparr>nodes := ns\<rparr>) P2 ctx') P2)"
          using own_fields [OF fr] i g d2 ok dec Suc(6) by (intro Suc(1)) auto
        then have "wp False (yaml_parser_load_nodes E m ctx' P2) (\<lambda>_. nodes_loaded fs ctx d P) ?F"
        proof (rule wp_mono)
          fix u P' assume "nodes_loaded fs' ctx' (d\<lparr>nodes := ns\<rparr>) P2 P'"
          then obtain es e' impl ns' env c where l: "fetches E P2 (es @ [e']) P'" "ev_data e' = YAML_DOCUMENT_END_EVENT impl"
            "ev_run (GDoc fs') (map ev_data es) = Some (GDoc [])" "compose_run (map ev_data es) (loading_of (d\<lparr>nodes := ns\<rparr>) P2 ctx') = Some (map view ns', env, c)"
            "document P' = Some (d\<lparr>nodes := ns, nodes := ns', end_implicit := impl, doc_end_mark := ev_end_mark e'\<rparr>)" "inv P'" "gram P' = GDocs"
            unfolding nodes_loaded_def by blast
          show "nodes_loaded fs ctx d P P'"
            unfolding nodes_loaded_def
            using l step g cs f1 [OF l(1)]
            by (intro exI [of _ "e # es"] exI [of _ e'] exI [of _ impl] exI [of _ ns'] exI [of _ env] exI [of _ c]) auto
        next
          fix P' assume "nodes_failed (loading_of (d\<lparr>nodes := ns\<rparr>) P2 ctx') P2 P'"
          then show "?F P'"
            unfolding nodes_failed_def using cs f1 node_step [OF step [unfolded g]] by (auto intro!: exI [of _ "e # _"])
        qed
        then show "wp False (?K ctx' P2) (\<lambda>_. nodes_loaded fs ctx d P) ?F"
          using nd by (auto split: yaml_event_data.split)
      next
        fix P' :: "'h yaml_parser" assume "load_fail (compose_step (ev_data e) (loading_of d P ctx) = None) P'"
        then show "?F P'"
          unfolding load_fail_def nodes_failed_def using fetches_one [of E P e P1] E node_step [OF step [unfolded g]]
          by (auto intro!: exI [of _ "[e]"])
      qed
    next
      case False
      then obtain impl where e: "fs = []" "ev_data e = YAML_DOCUMENT_END_EVENT impl" "gram P1 = GDocs" using doc_step [OF step] by blast
      let ?d = "d\<lparr>end_implicit := impl, doc_end_mark := ev_end_mark e\<rparr>"
      have "fetches E P [e] (P1\<lparr>document := Some ?d\<rparr>)" using E by (auto intro: fetches_after fetches_one)
      then have "nodes_loaded fs ctx d P (P1\<lparr>document := Some ?d\<rparr>)"
        unfolding nodes_loaded_def using e inv own_fields [of P1 "P1\<lparr>document := Some ?d\<rparr>"]
        by (intro exI [of _ "[]"] exI [of _ e] exI [of _ impl] exI [of _ "nodes d"] exI [of _ "anchors_of (aliases P)"] exI [of _ ctx])
          (simp add: loading_of_def)
      then show ?thesis using e inv by (simp add: load_event_def the_document_def)
    qed
  qed (simp add: nodes_failed_def)
qed simp


text \<open>The calls of \<open>yaml_parser_load\<close>: the start of the stream is fetched by the first one.\<close>

definition stream_prefix :: "'h yaml_parser \<Rightarrow> yaml_event list \<Rightarrow> bool" where
  "stream_prefix P pre \<longleftrightarrow> (if stream_start_produced P then pre = [] else \<exists>b enc. pre = [b] \<and> ev_data b = YAML_STREAM_START_EVENT enc)"

definition doc_loaded :: "'h yaml_parser \<Rightarrow> yaml_document \<Rightarrow> 'h yaml_parser \<Rightarrow> bool" where
  "doc_loaded P d P' \<longleftrightarrow> (\<exists>pre. stream_prefix P pre \<and>
     ((\<exists>e. fetches E P (pre @ [e]) P' \<and> ev_data e = YAML_STREAM_END_EVENT \<and> d = zero_document \<and> gram P' = GEnd)
      \<or> (\<exists>b es e t. fetches E P (pre @ b # es @ [e]) P' \<and> map ev_data es = events_of t \<and> document_of b t e d
           \<and> inv P' \<and> gram P' = GDocs \<and> document P' = None \<and> aliases P' = [])))"

definition doc_failed :: "'h yaml_parser \<Rightarrow> 'h yaml_parser \<Rightarrow> bool" where
  "doc_failed P P' \<longleftrightarrow> scan_fail P' \<or> error P' = YAML_COMPOSER_ERROR
     \<and> (\<exists>pre b es P1. stream_prefix P pre \<and> fetches E P (pre @ b # es) P1 \<and> is_doc_start (ev_data b)
        \<and> list_all (is_node_event \<circ> ev_data) es \<and> compose_run (map ev_data es) ([], [], []) = None)"

lemma load_stream_start_wp:
  assumes "inv P" and "gram P \<in> {GStream, GDocs}"
  shows "wp False (load_stream_start E P) (\<lambda>_ P'. inv P' \<and> gram P' = GDocs \<and> remaining P' \<le> remaining P \<and> (\<exists>pre. stream_prefix P pre \<and> fetches E P pre P')) scan_fail"
proof (cases "stream_start_produced P")
  case True
  then show ?thesis using assms started [OF assms(1)] by (auto simp: load_stream_start_def stream_prefix_def fetches_own)
next
  case False
  then have g: "gram P = GStream" using started [OF assms(1)] by simp
  have "wp False (E P) (\<lambda>e P'. wp False (case ev_data e of YAML_STREAM_START_EVENT _ \<Rightarrow> Ok () P' | _ \<Rightarrow> Abort)
     (\<lambda>_ P'. inv P' \<and> gram P' = GDocs \<and> remaining P' \<le> remaining P \<and> (\<exists>pre. stream_prefix P pre \<and> fetches E P pre P')) scan_fail) scan_fail"
  proof (rule wp_mono [OF wp_Ok [OF next_event [OF assms(1)]]])
    fix e :: yaml_event and P1
    assume *: "(ev_step (gram P) (ev_data e) = Some (gram P1) \<and> remaining P1 < remaining P
        \<and> (gram P1 \<noteq> GEnd \<longrightarrow> inv P1 \<and> document P1 = document P \<and> aliases P1 = aliases P)) \<and> E P = Ok e P1"
    then obtain enc where enc: "ev_data e = YAML_STREAM_START_EVENT enc" "gram P1 = GDocs" using g by (cases "ev_data e") auto
    have "stream_prefix P [e]" "fetches E P [e] P1" using False * enc by (auto simp: stream_prefix_def fetches_one)
    then show "wp False (case ev_data e of YAML_STREAM_START_EVENT _ \<Rightarrow> Ok () P1 | _ \<Rightarrow> Abort)
     (\<lambda>_ P'. inv P' \<and> gram P' = GDocs \<and> remaining P' \<le> remaining P \<and> (\<exists>pre. stream_prefix P pre \<and> fetches E P pre P')) scan_fail"
      using * enc by auto
  qed simp
  then show ?thesis using False by (simp add: load_stream_start_def)
qed

lemma load_document_wp:
  assumes "inv P" and "gram P = GDoc [FRoot]" and "document P = Some zero_document" and "aliases P = []" and "remaining P < m"
    and "is_doc_start (ev_data b)"
  shows "wp False (yaml_parser_load_document E m b P) (\<lambda>_ P'. \<exists>d es e t. fetches E P (es @ [e]) P' \<and> map ev_data es = events_of t
      \<and> document_of b t e d \<and> document P' = Some d \<and> inv P' \<and> gram P' = GDocs) (nodes_failed ([], [], []) P)"
proof -
  obtain vd tds impl where b: "ev_data b = YAML_DOCUMENT_START_EVENT vd tds impl" using assms(6) by (cases "ev_data b") auto
  let ?d = "zero_document\<lparr>version_directive := vd, doc_tag_directives := tds, start_implicit := impl, doc_start_mark := ev_start_mark b\<rparr>"
  let ?P = "\<lambda>h. P\<lparr>document := Some ?d, heap := h\<rparr>"
  have fr: "loader_frame P (?P h)" for h by (simp add: loader_frame_def)
  have lo: "loading_of ?d (?P h) [] = ([], [], [])" for h using assms(4) by (simp add: loading_of_def anchors_of_def zero_document_def)
  have "wp False (yaml_parser_load_nodes E m [] (?P h)) (\<lambda>_. nodes_loaded [FRoot] [] ?d (?P h)) (nodes_failed ([], [], []) (?P h))" for h
    using load_nodes_wp [of "?P h" "[FRoot]" ?d "[]" m] own_fields [OF fr] assms lo [of h]
    by (auto simp: ctx_ok_def env_ok_def)
  then have "wp False (yaml_parser_load_nodes E m [] (?P h)) (\<lambda>_ P'. \<exists>d es e t. fetches E P (es @ [e]) P' \<and> map ev_data es = events_of t
      \<and> document_of b t e d \<and> document P' = Some d \<and> inv P' \<and> gram P' = GDocs) (nodes_failed ([], [], []) P)" for h
  proof (rule wp_mono)
    fix u P' assume "nodes_loaded [FRoot] [] ?d (?P h) P'"
    then obtain es e impl' ns env c where l: "fetches E (?P h) (es @ [e]) P'" "ev_data e = YAML_DOCUMENT_END_EVENT impl'"
      "ev_run (GDoc [FRoot]) (map ev_data es) = Some (GDoc [])" "compose_run (map ev_data es) ([], [], []) = Some (map view ns, env, c)"
      "document P' = Some (?d\<lparr>nodes := ns, end_implicit := impl', doc_end_mark := ev_end_mark e\<rparr>)" "inv P'" "gram P' = GDocs"
      unfolding nodes_loaded_def lo by blast
    from compose_document [OF l(3,4)] obtain t where t: "tree_ok t" "map ev_data es = events_of t" "compose t [] 1 = Some (1, map view ns, env)" by blast
    then have "document_of b t e (?d\<lparr>nodes := ns, end_implicit := impl', doc_end_mark := ev_end_mark e\<rparr>)"
      using b l(2) by (simp add: document_of_def)
    then show "\<exists>d es e t. fetches E P (es @ [e]) P' \<and> map ev_data es = events_of t
      \<and> document_of b t e d \<and> document P' = Some d \<and> inv P' \<and> gram P' = GDocs"
      using t(2) l(5-7) fetches_before [OF l(1) fr] by blast
  next
    fix P' assume "nodes_failed ([], [], []) (?P h) P'"
    then show "nodes_failed ([], [], []) P P'"
      unfolding nodes_failed_def using fetches_before [OF _ fr] by blast
  qed
  then show ?thesis
    using assms(3) b by (auto simp: yaml_parser_load_document_def the_document_def wp_allocate nodes_failed_def scan_fail_error)
qed


lemma stream_prefix_frame: "loader_frame P P1 \<Longrightarrow> stream_prefix P1 = stream_prefix P"
  by (erule loader_frameE) (simp add: stream_prefix_def fun_eq_iff)

text \<open>The two outcomes, after the start of the stream.\<close>

definition doc_from :: "'h yaml_parser \<Rightarrow> yaml_event list \<Rightarrow> yaml_document \<Rightarrow> 'h yaml_parser \<Rightarrow> bool" where
  "doc_from P pre d P' \<longleftrightarrow>
     (\<exists>e. fetches E P (pre @ [e]) P' \<and> ev_data e = YAML_STREAM_END_EVENT \<and> d = zero_document \<and> gram P' = GEnd)
      \<or> (\<exists>b es e t. fetches E P (pre @ b # es @ [e]) P' \<and> map ev_data es = events_of t \<and> document_of b t e d
           \<and> inv P' \<and> gram P' = GDocs \<and> document P' = None \<and> aliases P' = [])"

lemma load_document_start_wp:
  assumes "inv P" and "gram P = GDocs" and "remaining P < m" and pre: "stream_prefix P0 pre" "fetches E P0 pre P"
  shows "wp False (E P) (\<lambda>b P. wp False (if ev_data b = YAML_STREAM_END_EVENT then Ok zero_document P
      else res_bind (allocate P) (\<lambda>_ P.
        res_bind (yaml_parser_load_document E m b (P\<lparr>aliases := [], document := Some zero_document\<rparr>)) (\<lambda>_ P.
        res_bind (the_document P) (\<lambda>d P. Ok d ((yaml_parser_delete_aliases P)\<lparr>document := None\<rparr>)))))
     (doc_from P0 pre) (doc_failed P0)) (doc_failed P0)"
proof (rule wp_mono [OF wp_Ok [OF next_event [OF assms(1)]]])
  fix b :: yaml_event and P1
  assume *: "(ev_step (gram P) (ev_data b) = Some (gram P1) \<and> remaining P1 < remaining P
        \<and> (gram P1 \<noteq> GEnd \<longrightarrow> inv P1 \<and> document P1 = document P \<and> aliases P1 = aliases P)) \<and> E P = Ok b P1"
  then have f1: "fetches E P0 (pre @ [b]) P1" using fetches_append [OF pre(2) fetches_one] by blast
  let ?P = "\<lambda>h. P1\<lparr>heap := h, aliases := [], document := Some zero_document\<rparr>"
  let ?Q = "\<lambda>P2. wp False (res_bind (the_document P2) (\<lambda>d P. Ok d ((yaml_parser_delete_aliases P)\<lparr>document := None\<rparr>)))
     (doc_from P0 pre) (doc_failed P0)"
  have fr: "loader_frame P1 (?P h)" for h by (simp add: loader_frame_def)
  have doc: "wp False (yaml_parser_load_document E m b (?P h)) (\<lambda>_. ?Q) (doc_failed P0)"
    if "ev_data b \<noteq> YAML_STREAM_END_EVENT" for h
  proof -
    have g: "gram P1 = GDoc [FRoot]" "is_doc_start (ev_data b)" "inv P1" using * assms(2) that by (cases "ev_data b"; auto)+
    have "wp False (yaml_parser_load_document E m b (?P h)) (\<lambda>_ P'. \<exists>d es e t. fetches E (?P h) (es @ [e]) P' \<and> map ev_data es = events_of t
      \<and> document_of b t e d \<and> document P' = Some d \<and> inv P' \<and> gram P' = GDocs) (nodes_failed ([], [], []) (?P h))"
      using own_fields [OF fr] g * assms(3) by (intro load_document_wp) auto
    then show ?thesis
    proof (rule wp_mono)
      fix u P' assume "\<exists>d es e t. fetches E (?P h) (es @ [e]) P' \<and> map ev_data es = events_of t
        \<and> document_of b t e d \<and> document P' = Some d \<and> inv P' \<and> gram P' = GDocs"
      then obtain d es e t where l: "fetches E (?P h) (es @ [e]) P'" "map ev_data es = events_of t" "document_of b t e d" "document P' = Some d" "inv P'" "gram P' = GDocs"
        by blast
      let ?P' = "P'\<lparr>aliases := [], document := None\<rparr>"
      have "loader_frame P' ?P'" by (simp add: loader_frame_def)
      then have "fetches E P0 (pre @ b # es @ [e]) ?P'" "inv ?P'" "gram ?P' = GDocs"
        using fetches_append [OF f1 fetches_after [OF fetches_before [OF l(1) fr]]] own_fields [of P' ?P'] l(5,6) by auto
      then have "doc_from P0 pre d ?P'" unfolding doc_from_def using l(2,3) by auto
      then show "?Q P'" using l(4) by (simp add: the_document_def yaml_parser_delete_aliases_def)
    next
      fix P' assume "nodes_failed ([], [], []) (?P h) P'"
      then show "doc_failed P0 P'"
        unfolding nodes_failed_def doc_failed_def
        using pre(1) g(2) fetches_append [OF f1 fetches_before [OF _ fr]] by fastforce
    qed
  qed
  show "wp False (if ev_data b = YAML_STREAM_END_EVENT then Ok zero_document P1
      else res_bind (allocate P1) (\<lambda>_ P.
        res_bind (yaml_parser_load_document E m b (P\<lparr>aliases := [], document := Some zero_document\<rparr>)) (\<lambda>_ P.
        res_bind (the_document P) (\<lambda>d P. Ok d ((yaml_parser_delete_aliases P)\<lparr>document := None\<rparr>)))))
     (doc_from P0 pre) (doc_failed P0)"
  proof (cases "ev_data b = YAML_STREAM_END_EVENT")
    case True
    then show ?thesis using f1 * assms(2) by (auto simp: doc_from_def)
  next
    case False
    then show ?thesis using doc [OF False] by (simp add: wp_allocate doc_failed_def scan_fail_error)
  qed
qed (simp add: doc_failed_def)

lemma load_body_wp:
  assumes "inv P" and "gram P \<in> {GStream, GDocs}" and "remaining P < m"
  shows "wp False (load_body E m P) (doc_loaded P) (doc_failed P)"
proof -
  have "wp False (load_stream_start E (P\<lparr>heap := h\<rparr>)) (\<lambda>_ P1. wp False (if stream_end_produced P1 then Ok zero_document P1
      else res_bind (E P1) (\<lambda>b P. if ev_data b = YAML_STREAM_END_EVENT then Ok zero_document P
      else res_bind (allocate P) (\<lambda>_ P.
        res_bind (yaml_parser_load_document E m b (P\<lparr>aliases := [], document := Some zero_document\<rparr>)) (\<lambda>_ P.
        res_bind (the_document P) (\<lambda>d P. Ok d ((yaml_parser_delete_aliases P)\<lparr>document := None\<rparr>))))))
     (doc_loaded P) (doc_failed P)) (doc_failed P)" for h
  proof (rule wp_mono [OF load_stream_start_wp])
    have fr: "loader_frame P (P\<lparr>heap := h\<rparr>)" by simp
    note own = own_fields [OF fr]
    show "inv (P\<lparr>heap := h\<rparr>)" "gram (P\<lparr>heap := h\<rparr>) \<in> {GStream, GDocs}" using own assms by auto
    fix u P1 assume *: "inv P1 \<and> gram P1 = GDocs \<and> remaining P1 \<le> remaining (P\<lparr>heap := h\<rparr>)
      \<and> (\<exists>pre. stream_prefix (P\<lparr>heap := h\<rparr>) pre \<and> fetches E (P\<lparr>heap := h\<rparr>) pre P1)"
    then obtain pre where pre: "stream_prefix P pre" "fetches E P pre P1"
      using stream_prefix_frame [OF fr] fetches_before [OF _ fr] by auto
    have "doc_loaded P d P'" if "doc_from P pre d P'" for d P'
      using that pre(1) unfolding doc_loaded_def doc_from_def by blast
    then show "wp False (if stream_end_produced P1 then Ok zero_document P1
      else res_bind (E P1) (\<lambda>b P. if ev_data b = YAML_STREAM_END_EVENT then Ok zero_document P
      else res_bind (allocate P) (\<lambda>_ P.
        res_bind (yaml_parser_load_document E m b (P\<lparr>aliases := [], document := Some zero_document\<rparr>)) (\<lambda>_ P.
        res_bind (the_document P) (\<lambda>d P. Ok d ((yaml_parser_delete_aliases P)\<lparr>document := None\<rparr>))))))
     (doc_loaded P) (doc_failed P)"
      using running [of P1] * own assms(3) wp_mono [OF load_document_start_wp [of P1 m P pre, folded wp_bind], of "doc_loaded P" "doc_failed P"] pre
      by auto
  qed (simp add: doc_failed_def)
  then show ?thesis by (simp add: load_body_def wp_allocate doc_failed_def scan_fail_error)
qed

theorem load_wp:
  assumes "inv P" and "gram P \<in> {GStream, GDocs}" and "remaining P < m"
  shows "wp False (yaml_parser_load E m P) (doc_loaded P) (\<lambda>P'. doc_failed P P' \<and> document P' = None \<and> aliases P' = [])"
  using load_body_wp [OF assms]
  by (cases "load_body E m P") (auto simp: yaml_parser_load_def load_failed_def yaml_parser_delete_aliases_def doc_failed_def scan_fail_def)

end

end
