(* ===== verification/Yaml_Parsing.thy ===== *)
theory Yaml_Parsing
  imports Yaml_Parser_Facts "HOL-Library.Code_Target_Numeral"
begin

text \<open>
  Scanner and parser together: the scanner is a source of tokens for the parser, and a client
  that parses a string comes to the end of the stream or to an error.  The theory ends with the
  properties of scanner and parser on strings.
\<close>

section \<open>The scanner as the source of tokens\<close>

lemma parser_fields:
  fixes P P' :: "'h yaml_parser"
  assumes "yaml_scanner.more P' = yaml_scanner.more P"
  shows "state P' = state P" "states P' = states P" "marks P' = marks P" "tag_directives P' = tag_directives P"
    "aliases P' = aliases P" "document P' = document P"
  using assms by (cases P; cases P'; simp)+

lemma swap_taken: "P\<lparr>token_available := a, tokens_parsed := b, stream_end_produced := e, tokens := ts\<rparr>
    = P\<lparr>tokens := ts, token_available := a, tokens_parsed := b, stream_end_produced := e\<rparr>"
  by simp

definition source_open :: "('h \<Rightarrow> nat) \<Rightarrow> nat \<Rightarrow> 'h yaml_parser \<Rightarrow> bool" where
  "source_open sz n P \<longleftrightarrow> scanner_inv sz P \<and> todo sz P + 2 < n \<and> \<not> stream_end_produced P"

lemma parser_groups [simp]:
  "scan_inv sz (P\<lparr>state := st\<rparr>) = scan_inv sz P" "scan_inv sz (P\<lparr>states := ss\<rparr>) = scan_inv sz P"
  "scan_inv sz (P\<lparr>marks := ms\<rparr>) = scan_inv sz P" "scan_inv sz (P\<lparr>tag_directives := tds\<rparr>) = scan_inv sz P"
  "todo sz (P\<lparr>state := st\<rparr>) = todo sz P" "todo sz (P\<lparr>states := ss\<rparr>) = todo sz P"
  "todo sz (P\<lparr>marks := ms\<rparr>) = todo sz P" "todo sz (P\<lparr>tag_directives := tds\<rparr>) = todo sz P"
  by (simp_all add: scan_inv_def reader_inv_def finite_source_def chars_def at_end_def todo_def)

lemma source_open_update [simp]: "source_open sz n (P\<lparr>heap := h\<rparr>) = source_open sz n P"
  "source_open sz n (P\<lparr>state := st\<rparr>) = source_open sz n P" "source_open sz n (P\<lparr>states := ss\<rparr>) = source_open sz n P"
  "source_open sz n (P\<lparr>marks := ms\<rparr>) = source_open sz n P" "source_open sz n (P\<lparr>tag_directives := tds\<rparr>) = source_open sz n P"
  by (simp_all add: source_open_def scanner_inv_def fetch_inv_def queue_inv_def keys_before_def key_at_head_def)

lemma token_work_update [simp]: "token_work sz (P\<lparr>heap := h\<rparr>) = token_work sz P"
  "token_work sz (P\<lparr>state := st\<rparr>) = token_work sz P" "token_work sz (P\<lparr>states := ss\<rparr>) = token_work sz P"
  "token_work sz (P\<lparr>marks := ms\<rparr>) = token_work sz P" "token_work sz (P\<lparr>tag_directives := tds\<rparr>) = token_work sz P"
  by (simp_all add: token_work_def)

interpretation scanner_tokens: token_source "yaml_parser_fetch_more_tokens n" "source_open sz n" "token_work sz" for n sz
proof
  fix P :: "'a yaml_parser"
  assume P: "source_open sz n P" "\<not> token_available P"
  have f: "fetch_inv sz P" "todo sz P + 2 < n" using P(1) by (simp_all add: source_open_def scanner_inv_def)
  show "wp False (yaml_parser_fetch_more_tokens n P) (\<lambda>_ P'. source_open sz n P' \<and> token_available P' \<and> same_parser P P'
      \<and> token_work sz P' \<le> token_work sz P) scan_fail"
  proof (rule wp_mono [OF fetch_more_tokens_wp [OF f]])
    fix P' assume *: "fetched_some sz P P' \<and> token_available P' \<and> tokens P' \<noteq> [] \<and> \<not> key_at_head P'"
    then have m: "yaml_scanner.more P' = yaml_scanner.more P" and e: "error P' = error P"
      by (simp_all add: fetched_some_def scanner_frame_def)
    have "same_parser P P'" using parser_fields [OF m] e by (simp add: same_parser_def)
    moreover have "source_open sz n P'" "token_work sz P' \<le> token_work sz P"
      using * P(1) by (auto simp: source_open_def scanner_inv_def fetched_some_def scanner_frame_def)
    ultimately show "source_open sz n P' \<and> token_available P' \<and> same_parser P P' \<and> token_work sz P' \<le> token_work sz P"
      using * by simp
  qed
next
  fix P :: "'a yaml_parser"
  show "source_open sz n P \<Longrightarrow> token_available P \<Longrightarrow> tokens P \<noteq> []"
    by (simp add: source_open_def scanner_inv_def)
next
  fix P :: "'a yaml_parser" and t ts e
  assume P: "source_open sz n P" "token_available P" "tokens P = t # ts" "e = (tok_data t = YAML_STREAM_END_TOKEN)"
  let ?P = "P\<lparr>tokens := ts, token_available := False, tokens_parsed := tokens_parsed P + 1, stream_end_produced := e\<rparr>"
  have "scanner_inv sz ?P"
    using P(1-3) by (intro take_token_inv) (auto simp: source_open_def scanner_inv_def)
  then show "(\<not> e \<longrightarrow> source_open sz n (P\<lparr>token_available := False, tokens_parsed := tokens_parsed P + 1, stream_end_produced := e, tokens := ts\<rparr>))
      \<and> token_work sz (P\<lparr>token_available := False, tokens_parsed := tokens_parsed P + 1, stream_end_produced := e, tokens := ts\<rparr>)
         + (if counted t then 1 else 0) \<le> token_work sz P"
    using P(1,3) unfolding swap_taken by (cases e) (simp_all add: source_open_def token_work_def)
qed simp_all

section \<open>Parsing a stream\<close>

text \<open>One call of the parser, with the scanner as it is in the source.\<close>

abbreviation parse_next :: "nat \<Rightarrow> 'h yaml_parser \<Rightarrow> (yaml_event, 'h yaml_parser) res" where
  "parse_next n \<equiv> yaml_parser_parse (yaml_parser_fetch_more_tokens n) n"

text \<open>A state between two calls, before the end of the stream.\<close>

definition parser_ok :: "('h \<Rightarrow> nat) \<Rightarrow> nat \<Rightarrow> 'h yaml_parser \<Rightarrow> bool" where
  "parser_ok sz n P \<longleftrightarrow> automaton_ok P \<and> source_open sz n P \<and> token_work sz P < n \<and> error P = YAML_NO_ERROR
     \<and> state P \<noteq> YAML_PARSE_END_STATE"

abbreviation events_left :: "('h \<Rightarrow> nat) \<Rightarrow> 'h yaml_parser \<Rightarrow> nat" where
  "events_left sz P \<equiv> event_budget (token_work sz P) P"

lemma grammar_end: "grammar_state st ss = GEnd \<longleftrightarrow> st = YAML_PARSE_END_STATE"
  by (cases st) (auto simp: grammar_state_def)

lemma ev_step_end: "ev_step g d = Some g' \<Longrightarrow> g' = GEnd \<longleftrightarrow> d = YAML_STREAM_END_EVENT"
  by (induction g d rule: ev_step.induct) auto

lemma parse_next_wp:
  assumes "parser_ok sz n P"
  shows "wp False (parse_next n P) (\<lambda>e P'. ev_step (grammar_of P) (ev_data e) = Some (grammar_of P')
      \<and> events_left sz P' < events_left sz P \<and> error P' = YAML_NO_ERROR
      \<and> (if ev_data e = YAML_STREAM_END_EVENT then state P' = YAML_PARSE_END_STATE else parser_ok sz n P')) scan_fail"
proof (rule wp_mono [OF scanner_tokens.parse_wp [where sz = sz]])
  fix e P' assume "if stream_end_produced P \<or> error P \<noteq> YAML_NO_ERROR \<or> state P = YAML_PARSE_END_STATE
     then e = no_event \<and> P' = P else scanner_tokens.produced sz n P e P'"
  then have p: "scanner_tokens.produced sz n P e P'"
    using assms by (simp add: parser_ok_def source_open_def split: if_splits)
  note d = p [unfolded scanner_tokens.produced_def]
  have "grammar_of P' = GEnd \<longleftrightarrow> ev_data e = YAML_STREAM_END_EVENT" using d by (intro ev_step_end) blast
  then show "ev_step (grammar_of P) (ev_data e) = Some (grammar_of P')
      \<and> events_left sz P' < events_left sz P \<and> error P' = YAML_NO_ERROR
      \<and> (if ev_data e = YAML_STREAM_END_EVENT then state P' = YAML_PARSE_END_STATE else parser_ok sz n P')"
    using d assms unfolding grammar_end by (auto simp: parser_ok_def)
qed (use assms in \<open>auto simp: parser_ok_def\<close>)

text \<open>
  The loop of a client: it asks for events until the end of the stream, as \<^verbatim>\<open>include/yaml.h\<close> says
  that the function is used.
\<close>

fun parse_events :: "nat \<Rightarrow> nat \<Rightarrow> 'h yaml_parser \<Rightarrow> (yaml_event list, 'h yaml_parser) res" where
  "parse_events 0 n P = Hang"
| "parse_events (Suc m) n P =
     res_bind (parse_next n P) (\<lambda>e P.
       if ev_data e = YAML_STREAM_END_EVENT then Ok [e] P
       else res_bind (parse_events m n P) (\<lambda>es P. Ok (e # es) P))"

lemma parse_events_wp:
  assumes "parser_ok sz n P" and "events_left sz P < m"
  shows "wp False (parse_events m n P) (\<lambda>es _. ev_run (grammar_of P) (map ev_data es) = Some GEnd
      \<and> length es \<le> events_left sz P) scan_fail"
  using assms
proof (induction m arbitrary: P)
  case (Suc m)
  show ?case
    unfolding parse_events.simps wp_bind
  proof (rule wp_mono [OF parse_next_wp [OF Suc(2)]])
    fix e :: yaml_event and P1
    assume 1: "ev_step (grammar_of P) (ev_data e) = Some (grammar_of P1)
      \<and> events_left sz P1 < events_left sz P \<and> error P1 = YAML_NO_ERROR
      \<and> (if ev_data e = YAML_STREAM_END_EVENT then state P1 = YAML_PARSE_END_STATE else parser_ok sz n P1)"
    show "wp False (if ev_data e = YAML_STREAM_END_EVENT then Ok [e] P1
         else res_bind (parse_events m n P1) (\<lambda>es. Ok (e # es)))
       (\<lambda>es _. ev_run (grammar_of P) (map ev_data es) = Some GEnd \<and> length es \<le> events_left sz P) scan_fail"
    proof (cases "ev_data e = YAML_STREAM_END_EVENT")
      case True
      then show ?thesis using 1 by (auto simp: grammar_state_def)
    next
      case False
      then have "wp False (parse_events m n P1) (\<lambda>es _. ev_run (grammar_of P1) (map ev_data es) = Some GEnd
          \<and> length es \<le> events_left sz P1) scan_fail"
        using 1 Suc(3) by (intro Suc(1)) auto
      then show ?thesis using False 1 by (auto elim!: wp_mono)
    qed
  qed simp
qed simp

section \<open>Strings\<close>

lemma string_parser_ok:
  assumes "string_parser h input = Ok () P" and "4 * length input + 4 < n"
  shows "parser_ok length n P" and "events_left length P = 20 * length input + 26" and "grammar_of P = GStream"
proof -
  note inv = string_parser_inv [OF assms(1)]
  obtain h' where P: "P = (zero_parser h' [])\<lparr>read_handler := Some yaml_string_read_handler, read_handler_data := input\<rparr>"
    using string_parser_state [OF assms(1)] by blast
  have st: "state P = YAML_PARSE_STREAM_START_STATE" "states P = []" "marks P = []" "tokens P = []" "indents P = []"
    "\<not> stream_end_produced P"
    by (simp_all add: P zero_parser_def)
  have w: "token_work length P = 4 * length input + 4" using inv(2) st by (simp add: token_work_def)
  show "parser_ok length n P"
    using inv st w assms(2)
    by (simp add: parser_ok_def source_open_def automaton_ok_def states_ok_def marks_ok_def marks_of_def)
  show "events_left length P = 20 * length input + 26" "grammar_of P = GStream"
    using st w by (simp_all add: event_budget_def grammar_state_def)
qed

lemma parse_string_wp:
  assumes "string_parser h input = Ok () P" and "4 * length input + 4 < n" and "20 * length input + 26 < m"
  shows "wp False (parse_events m n P) (\<lambda>es _. (\<exists>enc docs. list_all doc_ok docs
      \<and> map ev_data es = YAML_STREAM_START_EVENT enc # docs_events docs) \<and> length es \<le> 20 * length input + 26) scan_fail"
proof -
  note ok = string_parser_ok [OF assms(1,2)]
  have "events_left length P < m" using ok(2) assms(3) by simp
  from parse_events_wp [OF ok(1) this] show ?thesis
    unfolding ok(2,3) ev_run_iff_trees .
qed

text \<open>The states that calls of the parser reach, with the events they have handed out.\<close>

inductive parsed :: "nat \<Rightarrow> 'h yaml_parser \<Rightarrow> yaml_event list \<Rightarrow> 'h yaml_parser \<Rightarrow> bool" for n P0 where
  parsed_nothing: "parsed n P0 [] P0"
| parsed_event: "parsed n P0 es P \<Longrightarrow> state P \<noteq> YAML_PARSE_END_STATE \<Longrightarrow> parse_next n P = Ok e P' \<Longrightarrow> parsed n P0 (es @ [e]) P'"

lemma parsed_first: "parse_next n P0 = Ok e P \<Longrightarrow> state P0 \<noteq> YAML_PARSE_END_STATE \<Longrightarrow> parsed n P0 [e] P"
  using parsed_event [OF parsed_nothing] by fastforce

text \<open>The states that calls of the scanner reach.\<close>

inductive scanned :: "nat \<Rightarrow> 'h yaml_parser \<Rightarrow> 'h yaml_parser \<Rightarrow> bool" for n P0 where
  scanned_nothing: "scanned n P0 P0"
| scanned_token: "scanned n P0 P \<Longrightarrow> yaml_parser_scan n P = Ok t P' \<Longrightarrow> scanned n P0 P'"

lemma parsed_ok:
  assumes "parsed n P0 es P" and "parser_ok sz n P0"
  shows "ev_run (grammar_of P0) (map ev_data es) = Some (grammar_of P) \<and> automaton_ok P
    \<and> length es + events_left sz P \<le> events_left sz P0 \<and> (state P \<noteq> YAML_PARSE_END_STATE \<longrightarrow> parser_ok sz n P)"
  using assms
proof (induction rule: parsed.induct)
  case parsed_nothing
  then show ?case by (simp add: parser_ok_def)
next
  case (parsed_event es P e P')
  then have ok: "parser_ok sz n P" and run: "ev_run (grammar_of P0) (map ev_data es) = Some (grammar_of P)"
    and len: "length es + events_left sz P \<le> events_left sz P0" by auto
  have "scanner_tokens.produced sz n P e P'"
    using wp_OkD [OF scanner_tokens.parse_wp [of P sz n n] parsed_event(3)] ok
    by (auto simp: parser_ok_def source_open_def split: if_splits)
  moreover from wp_OkD [OF parse_next_wp [OF ok] parsed_event(3)]
  have "ev_step (grammar_of P) (ev_data e) = Some (grammar_of P')" "events_left sz P' < events_left sz P"
    "state P' \<noteq> YAML_PARSE_END_STATE \<longrightarrow> parser_ok sz n P'" by (auto split: if_splits)
  ultimately show ?case
    using run len by (auto simp: scanner_tokens.produced_def ev_run_append)
qed

lemma scanned_ok:
  assumes "scanned n P0 P" and "scanner_inv sz P0" and "todo sz P0 + 2 < n"
  shows "scanner_inv sz P \<and> todo sz P + 2 < n"
  using assms
proof (induction rule: scanned.induct)
  case (scanned_token P t P')
  then show ?case
    using wp_OkD [OF yaml_parser_scan_wp [of sz P n] scanned_token(2)] by fastforce
qed simp

section \<open>An example\<close>

text \<open>The parser on the strings \<^verbatim>\<open>- a\<close> and \<^verbatim>\<open>%\<close>; the second is an error.\<close>

definition demo_parser :: "byte list yaml_parser" where
  "demo_parser = (zero_parser 492 [])\<lparr>read_handler := Some yaml_string_read_handler, read_handler_data := octets ''- a''\<rparr>"

definition bad_parser :: "byte list yaml_parser" where
  "bad_parser = (zero_parser 492 [])\<lparr>read_handler := Some yaml_string_read_handler, read_handler_data := octets ''%''\<rparr>"

lemma demo_parser: "string_parser 500 (octets ''- a'') = Ok () demo_parser"
  "string_parser 500 (octets ''%'') = Ok () bad_parser"
  by (simp_all add: string_parser_def yaml_parser_initialize_def yaml_parser_set_input_string_def demo_parser_def bad_parser_def zero_parser_def
      eval_nat_numeral allocate_def)

lemma demo_length [simp]: "length (octets ''- a'') = 3" "length (octets ''%'') = 1"
  by (simp_all add: octets_def)

lemma demo_Ok: "\<exists>e P'. parse_next 30 demo_parser = Ok e P' \<and> ev_data e = YAML_STREAM_START_EVENT YAML_UTF8_ENCODING"
proof -
  have "(case parse_next 30 demo_parser of Ok e _ \<Rightarrow> ev_data e = YAML_STREAM_START_EVENT YAML_UTF8_ENCODING | _ \<Rightarrow> False)" by code_simp
  then show ?thesis by (auto split: res.splits)
qed

lemma bad_Fail: "\<exists>e P P'. parse_next 30 bad_parser = Ok e P \<and> state P \<noteq> YAML_PARSE_END_STATE \<and> parse_next 30 P = Fail P' \<and> heap P' \<noteq> 0"
proof -
  have "(case parse_next 30 bad_parser of Ok _ P \<Rightarrow> (case parse_next 30 P of Fail P' \<Rightarrow> heap P' \<noteq> 0 | _ \<Rightarrow> False) | _ \<Rightarrow> False)"
    by code_simp
  then show ?thesis by (auto simp: yaml_parser_parse_def split: res.splits if_splits)
qed

lemma demo_scan: "\<exists>t P. yaml_parser_scan 30 demo_parser = Ok t P \<and> stream_start_produced P \<and> flow_level P = 0 \<and> tok_data t = YAML_STREAM_START_TOKEN YAML_UTF8_ENCODING"
proof -
  have "(case yaml_parser_scan 30 demo_parser of Ok t P \<Rightarrow> stream_start_produced P \<and> flow_level P = 0
      \<and> tok_data t = YAML_STREAM_START_TOKEN YAML_UTF8_ENCODING | _ \<Rightarrow> False)" by code_simp
  then show ?thesis by (auto split: res.splits)
qed

lemma demo_events: "\<exists>es P. parse_events 100 30 demo_parser = Ok es P \<and> length es = 7"
proof -
  have "(case parse_events 100 30 demo_parser of Ok es _ \<Rightarrow> length es = 7 | _ \<Rightarrow> False)" by code_simp
  then show ?thesis by (auto split: res.splits)
qed

section \<open>Properties\<close>

text \<open>
  (C4) For every input string, a client that asks for events until the end of the stream comes
  to that end or to an error after at most \<open>20 * length input + 26\<close> events: no production runs
  forever, reads a token that is not there, pops an empty stack or violates an assertion.
\<close>

theorem parse_stream_total:
  assumes "string_parser h input = Ok () P" and "4 * length input + 4 < n" and "20 * length input + 26 < m"
  shows "(\<exists>es P'. parse_events m n P = Ok es P' \<and> length es \<le> 20 * length input + 26)
    \<or> (\<exists>P'. parse_events m n P = Fail P' \<and> (error P' \<noteq> YAML_NO_ERROR \<or> heap P' = 0))"
  using parse_string_wp [OF assms] by (cases "parse_events m n P") (auto simp: scan_fail_def)

theorem parse_stream_total_witness:
  "\<exists>es P'. parse_events 100 30 demo_parser = Ok es P' \<and> length es = 7 \<and> length es \<le> 20 * 3 + 26"
  using parse_stream_total [OF demo_parser(1), of 30 100] demo_events by auto

text \<open>
  (C3) The events of a stream that is parsed to its end are the start of the stream and the
  serialization of document trees: every collection is closed, every key has a value, every
  document has one root.
\<close>

theorem parse_stream_trees:
  assumes "string_parser h input = Ok () P" and "4 * length input + 4 < n" and "20 * length input + 26 < m"
    and "parse_events m n P = Ok es P'"
  shows "\<exists>enc docs. list_all doc_ok docs \<and> map ev_data es = YAML_STREAM_START_EVENT enc # docs_events docs"
  using wp_OkD [OF parse_string_wp [OF assms(1-3)] assms(4)] by simp

theorem parse_stream_trees_witness:
  "\<exists>es P' enc docs. parse_events 100 30 demo_parser = Ok es P' \<and> length es = 7 \<and> list_all doc_ok docs
     \<and> map ev_data es = YAML_STREAM_START_EVENT enc # docs_events docs"
  using parse_stream_trees [OF demo_parser(1), of 30 100] demo_events by fastforce

text \<open>
  (C5) Refinement: the state and the stack of states of the parser, read as a state of the
  grammar, follow the grammar step by step, also on inputs that turn out to be wrong later.
\<close>

theorem parse_refines_grammar:
  assumes "string_parser h input = Ok () P0" and "4 * length input + 4 < n" and "parsed n P0 es P"
  shows "ev_run GStream (map ev_data es) = Some (grammar_state (state P) (states P))"
  using parsed_ok [OF assms(3) string_parser_ok(1) [OF assms(1,2)]] string_parser_ok(3) [OF assms(1,2)] by simp

theorem parse_refines_grammar_witness:
  "\<exists>e P. parsed 30 demo_parser [e] P \<and> ev_run GStream (map ev_data [e]) = Some (grammar_state (state P) (states P))"
proof -
  obtain e P where e: "parse_next 30 demo_parser = Ok e P" using demo_Ok by blast
  have "parsed 30 demo_parser [e] P"
    using e by (rule parsed_first) (simp add: demo_parser_def zero_parser_def)
  then show ?thesis using parse_refines_grammar [OF demo_parser(1), of 30 "[e]" P] by auto
qed

text \<open>
  (C18) The stacks of the parser: between two calls the states on the stack are those of
  collections that were entered, above the end of the document, and the marks are one for each
  collection that has a start token.
\<close>

theorem parser_stacks:
  assumes "string_parser h input = Ok () P0" and "4 * length input + 4 < n" and "parsed n P0 es P"
  shows "states_ok (state P) (states P) \<and> length (marks P) = marks_of (state P) + sum_list (map marks_of (states P))"
  using parsed_ok [OF assms(3) string_parser_ok(1) [OF assms(1,2)]] by (simp add: automaton_ok_def marks_ok_def)

theorem parser_stacks_witness:
  "\<exists>e P. parsed 30 demo_parser [e] P \<and> states_ok (state P) (states P)
     \<and> length (marks P) = marks_of (state P) + sum_list (map marks_of (states P))"
proof -
  obtain e P where e: "parse_next 30 demo_parser = Ok e P" using demo_Ok by blast
  have "parsed 30 demo_parser [e] P"
    using e by (rule parsed_first) (simp add: demo_parser_def zero_parser_def)
  then show ?thesis using parser_stacks [OF demo_parser(1), of 30 "[e]" P] by auto
qed

text \<open>
  (C19) Errors are final: when a call of the parser fails, an error is recorded (or the memory is
  used up), and every later call returns no event and changes nothing.
\<close>

theorem parse_error_final:
  assumes "string_parser h input = Ok () P0" and "4 * length input + 4 < n" and "parsed n P0 es P"
    and "parse_next n P = Fail P'"
  shows "heap P' = 0 \<or> error P' \<noteq> YAML_NO_ERROR \<and> parse_next n P' = Ok no_event P'"
proof -
  have "state P \<noteq> YAML_PARSE_END_STATE" using assms(4) by (auto simp: yaml_parser_parse_def)
  then have "parser_ok length n P" using parsed_ok [OF assms(3) string_parser_ok(1) [OF assms(1,2)]] by simp
  from wp_FailD [OF parse_next_wp [OF this] assms(4)] show ?thesis
    by (auto simp: scan_fail_def yaml_parser_parse_def)
qed

theorem parse_error_final_witness:
  "\<exists>e P P'. parsed 30 bad_parser [e] P \<and> parse_next 30 P = Fail P' \<and> error P' \<noteq> YAML_NO_ERROR \<and> parse_next 30 P' = Ok no_event P'"
proof -
  obtain e P P' where e: "parse_next 30 bad_parser = Ok e P" "parse_next 30 P = Fail P'" "heap P' \<noteq> 0" using bad_Fail by blast
  have "parsed 30 bad_parser [e] P"
    using e(1) by (rule parsed_first) (simp add: bad_parser_def zero_parser_def)
  then show ?thesis using parse_error_final [OF demo_parser(2), of 30 "[e]" P P'] e by auto
qed

text \<open>
  (C14) For every input string, every call of the scanner comes back with a token or an error:
  none of its loops runs forever and none of its reads leaves the buffer or the queue.
\<close>

theorem scanner_total:
  assumes "string_parser h input = Ok () P0" and "length input + 3 < n" and "scanned n P0 P"
  shows "(\<exists>t P'. yaml_parser_scan n P = Ok t P')
    \<or> (\<exists>P'. yaml_parser_scan n P = Fail P' \<and> (error P' \<noteq> YAML_NO_ERROR \<or> heap P' = 0))"
proof -
  have "scanner_inv length P \<and> todo length P + 2 < n"
    using assms(2) string_parser_inv [OF assms(1)] by (intro scanned_ok [OF assms(3)]) auto
  then show ?thesis
    using yaml_parser_scan_wp [of length P n] by (cases "yaml_parser_scan n P") (auto simp: scan_fail_def)
qed

theorem scanner_total_witness:
  "\<exists>t P. yaml_parser_scan 30 demo_parser = Ok t P \<and> tok_data t = YAML_STREAM_START_TOKEN YAML_UTF8_ENCODING"
  using scanner_total [OF demo_parser(1) _ scanned_nothing, of 30] demo_scan by auto

text \<open>
  (C15) The invariant of the scanner: after the start of the stream there is one simple key for
  every flow level and one for the block context, every potential key stands for a token that is
  in the queue or comes next, and the indentation levels grow strictly from \<open>- 1\<close>.
\<close>

theorem scanner_invariant:
  assumes "string_parser h input = Ok () P0" and "length input + 3 < n" and "scanned n P0 P" and "stream_start_produced P"
  shows "int (length (simple_keys P)) = flow_level P + 1
    \<and> (\<forall>k \<in> set (simple_keys P). possible k \<longrightarrow>
         tokens_parsed P \<le> token_number k \<and> token_number k \<le> tokens_parsed P + length (tokens P))
    \<and> hd (indents P @ [indent P]) = - 1 \<and> sorted_wrt (<) (indents P @ [indent P])"
proof -
  have "scanner_inv length P"
    using assms(2) string_parser_inv [OF assms(1)] by (intro conjunct1 [OF scanned_ok [OF assms(3)]]) auto
  then show ?thesis
    using assms(4) by (simp add: scanner_inv_def fetch_inv_def queue_inv_def list_all_iff key_ok_def)
qed

theorem scanner_invariant_witness:
  "\<exists>t P. yaml_parser_scan 30 demo_parser = Ok t P \<and> length (simple_keys P) = 1 \<and> sorted_wrt (<) (indents P @ [indent P])"
proof -
  obtain t P where t: "yaml_parser_scan 30 demo_parser = Ok t P" "stream_start_produced P" "flow_level P = 0" using demo_scan by blast
  have "scanned 30 demo_parser P" using scanned_nothing t(1) by (rule scanned_token)
  then show ?thesis using scanner_invariant [OF demo_parser(1) _ _ t(2), of 30] t by auto
qed

end
