(* ===== verification/Yaml_Loading.thy ===== *)
theory Yaml_Loading
  imports Yaml_Document Yaml_Parsing
begin

text \<open>
  Parser and loader together: the parser is a source of events for the loader, and a client that
  loads the documents of a string gets the composition of their trees.  The theory ends with the
  properties of the loader on strings.
\<close>

section \<open>The parser as a source of events\<close>

lemma loader_groups [simp]:
  "scan_inv sz (P\<lparr>aliases := as\<rparr>) = scan_inv sz P" "scan_inv sz (P\<lparr>document := d\<rparr>) = scan_inv sz P"
  "todo sz (P\<lparr>aliases := as\<rparr>) = todo sz P" "todo sz (P\<lparr>document := d\<rparr>) = todo sz P"
  by (simp_all add: scan_inv_def reader_inv_def finite_source_def chars_def at_end_def todo_def)

lemma source_open_loader [simp]: "source_open sz n (P\<lparr>aliases := as\<rparr>) = source_open sz n P" "source_open sz n (P\<lparr>document := d\<rparr>) = source_open sz n P"
  by (simp_all add: source_open_def scanner_inv_def fetch_inv_def queue_inv_def keys_before_def key_at_head_def)

lemma token_work_loader [simp]: "token_work sz (P\<lparr>aliases := as\<rparr>) = token_work sz P" "token_work sz (P\<lparr>document := d\<rparr>) = token_work sz P"
  by (simp_all add: token_work_def)

text \<open>The tokens with the fields that the parser does not touch.\<close>

definition source_at :: "bool \<Rightarrow> yaml_document option \<Rightarrow> yaml_alias_data list \<Rightarrow> ('h \<Rightarrow> nat) \<Rightarrow> nat \<Rightarrow> 'h yaml_parser \<Rightarrow> bool" where
  "source_at b d as sz n P \<longleftrightarrow> source_open sz n P \<and> (b \<longrightarrow> stream_start_produced P) \<and> document P = d \<and> aliases P = as"

lemma queued_started: "source_open sz n P \<Longrightarrow> tokens P \<noteq> [] \<Longrightarrow> stream_start_produced P"
  by (auto simp: source_open_def scanner_inv_def fetch_inv_def queue_inv_def split: if_splits)

lemma available_started: "source_open sz n P \<Longrightarrow> token_available P \<Longrightarrow> stream_start_produced P"
  using queued_started scanner_tokens.available by blast

interpretation framed_tokens: token_source "yaml_parser_fetch_more_tokens n" "source_at b d as sz n" "token_work sz" for n b d as sz
proof
  fix P :: "'a yaml_parser"
  assume P: "source_at b d as sz n P" "\<not> token_available P"
  then have "source_open sz n P" by (simp add: source_at_def)
  from scanner_tokens.fetch [OF this P(2)]
  show "wp False (yaml_parser_fetch_more_tokens n P) (\<lambda>_ P'. source_at b d as sz n P' \<and> token_available P' \<and> same_parser P P'
      \<and> token_work sz P' \<le> token_work sz P) scan_fail"
    by (rule wp_mono) (use P(1) in \<open>auto simp: source_at_def same_parser_def dest: available_started\<close>)
next
  fix P :: "'a yaml_parser"
  show "source_at b d as sz n P \<Longrightarrow> token_available P \<Longrightarrow> tokens P \<noteq> []"
    using scanner_tokens.available [of sz n P] by (simp add: source_at_def)
next
  fix P :: "'a yaml_parser" and t ts e
  assume P: "source_at b d as sz n P" "token_available P" "tokens P = t # ts" "e = (tok_data t = YAML_STREAM_END_TOKEN)"
  then show "(\<not> e \<longrightarrow> source_at b d as sz n (P\<lparr>token_available := False, tokens_parsed := tokens_parsed P + 1, stream_end_produced := e, tokens := ts\<rparr>))
      \<and> token_work sz (P\<lparr>token_available := False, tokens_parsed := tokens_parsed P + 1, stream_end_produced := e, tokens := ts\<rparr>)
         + (if counted t then 1 else 0) \<le> token_work sz P"
    using scanner_tokens.take_head [of sz n P t ts e] by (auto simp: source_at_def)
qed (simp_all add: source_at_def)

lemma first_event_started:
  assumes "source_open sz n P" and "state P = YAML_PARSE_STREAM_START_STATE" and "parse_next n P = Ok e P'" and "error P = YAML_NO_ERROR"
  shows "stream_start_produced P'"
proof -
  have "wp False (yaml_parser_parse_stream_start (yaml_parser_fetch_more_tokens n) P) (\<lambda>_ P'. stream_start_produced P') scan_fail"
    unfolding yaml_parser_parse_stream_start_def wp_bind
  proof (rule scanner_tokens.PEEK_TOKEN_wp [OF assms(1)])
    fix t P1 assume "scanner_tokens.at_token sz n t P1"
    then have "source_open sz n P1" "tokens P1 \<noteq> []" by (simp_all add: scanner_tokens.at_token_def)
    then have "stream_start_produced P1" "tokens P1 \<noteq> []" by (simp_all add: queued_started)
    then show "wp False (case tok_data t of YAML_STREAM_START_TOKEN enc \<Rightarrow>
        res_bind (SKIP_TOKEN (P1\<lparr>state := YAML_PARSE_IMPLICIT_DOCUMENT_START_STATE\<rparr>)) (\<lambda>_ P.
             Ok (EVENT_INIT (YAML_STREAM_START_EVENT enc) (tok_start_mark t) (tok_start_mark t)) P)
       | _ \<Rightarrow> yaml_parser_set_parser_error P1 ''did not find expected <stream-start>'' (tok_start_mark t))
      (\<lambda>_ P'. stream_start_produced P') scan_fail"
      by (auto simp: SKIP_TOKEN_def split: yaml_token_data.split list.split)
  qed
  then show ?thesis
    using assms by (simp add: yaml_parser_parse_def source_open_def)
qed

definition loader_ok :: "('h \<Rightarrow> nat) \<Rightarrow> nat \<Rightarrow> 'h yaml_parser \<Rightarrow> bool" where
  "loader_ok sz n P \<longleftrightarrow> parser_ok sz n P \<and> (stream_start_produced P \<longleftrightarrow> grammar_of P \<noteq> GStream)"

lemma grammar_start: "grammar_state st ss = GStream \<longleftrightarrow> st = YAML_PARSE_STREAM_START_STATE"
  by (cases st) (auto simp: grammar_state_def)

lemma grammar_started: "ev_step g e = Some g' \<Longrightarrow> g' \<noteq> GStream"
  by (induction g e rule: ev_step.induct) auto

interpretation parser_events: event_source "parse_next n" "loader_ok sz n" grammar_of "events_left sz" for n sz
proof
  fix P :: "'a yaml_parser" assume P: "loader_ok sz n P"
  show "wp False (parse_next n P) (\<lambda>e P'. ev_step (grammar_of P) (ev_data e) = Some (grammar_of P') \<and> events_left sz P' < events_left sz P
      \<and> (grammar_of P' \<noteq> GEnd \<longrightarrow> loader_ok sz n P' \<and> document P' = document P \<and> aliases P' = aliases P)) scan_fail"
  proof (rule wp_mono [OF wp_Ok [OF wp_conj [OF parse_next_wp framed_tokens.parse_wp
          [where b = "stream_start_produced P" and d = "document P" and as = "aliases P" and sz = sz]]]])
    fix e :: yaml_event and P'
    assume *: "((ev_step (grammar_of P) (ev_data e) = Some (grammar_of P')
      \<and> events_left sz P' < events_left sz P \<and> error P' = YAML_NO_ERROR
      \<and> (if ev_data e = YAML_STREAM_END_EVENT then state P' = YAML_PARSE_END_STATE else parser_ok sz n P'))
      \<and> (if stream_end_produced P \<or> error P \<noteq> YAML_NO_ERROR \<or> state P = YAML_PARSE_END_STATE then e = no_event \<and> P' = P
         else framed_tokens.produced (stream_start_produced P) (document P) (aliases P) sz n P e P')) \<and> parse_next n P = Ok e P'"
    have st: "state P \<noteq> YAML_PARSE_END_STATE" "source_open sz n P" "error P = YAML_NO_ERROR" using P by (simp_all add: loader_ok_def parser_ok_def)
    then have pr: "framed_tokens.produced (stream_start_produced P) (document P) (aliases P) sz n P e P'"
      using * by (auto simp: source_open_def)
    show "ev_step (grammar_of P) (ev_data e) = Some (grammar_of P') \<and> events_left sz P' < events_left sz P
      \<and> (grammar_of P' \<noteq> GEnd \<longrightarrow> loader_ok sz n P' \<and> document P' = document P \<and> aliases P' = aliases P)"
    proof (intro conjI impI)
      assume g: "grammar_of P' \<noteq> GEnd"
      then have at: "source_at (stream_start_produced P) (document P) (aliases P) sz n P'"
        using pr by (simp add: framed_tokens.produced_def grammar_end)
      then show "document P' = document P" "aliases P' = aliases P" by (simp_all add: source_at_def)
      have "stream_start_produced P'"
        using at * P first_event_started [OF st(2) _ _ st(3)] by (auto simp: source_at_def loader_ok_def grammar_start)
      moreover have "parser_ok sz n P'" using * g ev_step_end by (auto split: if_splits)
      ultimately show "loader_ok sz n P'" using * grammar_started by (auto simp: loader_ok_def)
    qed (use * in simp_all)
  qed (use P in \<open>auto simp: loader_ok_def parser_ok_def source_at_def\<close>)
next
  fix P :: "'a yaml_parser" assume P: "loader_ok sz n P"
  then show "error P = YAML_NO_ERROR" "stream_start_produced P \<longleftrightarrow> grammar_of P \<noteq> GStream" "\<not> stream_end_produced P"
    by (simp_all add: loader_ok_def parser_ok_def source_open_def)
next
  fix P P' :: "'a yaml_parser" assume "loader_frame P P'"
  then show "loader_ok sz n P' = loader_ok sz n P \<and> grammar_of P' = grammar_of P \<and> events_left sz P' = events_left sz P"
    by (rule loader_frameE) (simp add: loader_ok_def parser_ok_def automaton_ok_def event_budget_def)
qed


section \<open>References\<close>

text \<open>The anchor that an event defines, and the two errors of the composer.\<close>

fun anchor_of :: "yaml_event_data \<Rightarrow> ystr option" where
  "anchor_of (YAML_SCALAR_EVENT a _ _ _ _ _) = a"
| "anchor_of (YAML_SEQUENCE_START_EVENT a _ _ _) = a"
| "anchor_of (YAML_MAPPING_START_EVENT a _ _ _) = a"
| "anchor_of _ = None"

definition anchors_in :: "yaml_event_data list \<Rightarrow> ystr set" where
  "anchors_in es = cstr ` set (List.map_filter anchor_of es)"

fun reference_error :: "ystr set \<Rightarrow> yaml_event_data \<Rightarrow> bool" where
  "reference_error A (YAML_ALIAS_EVENT a) = (cstr a \<notin> A)"
| "reference_error A e = (case anchor_of e of None \<Rightarrow> False | Some a \<Rightarrow> cstr a \<in> A)"

lemma register_None: "register a i env = None \<longleftrightarrow> (\<exists>x. a = Some x \<and> cstr x \<in> fst ` set env)"
  by (auto simp: register_def map_of_eq_None_iff split: option.splits)

lemma register_anchors: "register a i env = Some env' \<Longrightarrow> fst ` set env' = fst ` set env \<union> cstr ` set_option a"
  by (auto simp: register_def split: option.splits if_splits)

lemma compose_step_None:
  "is_node_event e \<Longrightarrow> compose_step e (ns, env, ctx) = None \<longleftrightarrow> reference_error (fst ` set env) e"
  by (cases e) (auto simp: register_None map_of_eq_None_iff Let_def split: option.splits)

lemma compose_step_anchors:
  assumes "compose_step e (ns, env, ctx) = Some (ns', env', ctx')"
  shows "fst ` set env' = fst ` set env \<union> cstr ` set_option (anchor_of e)"
  using assms by (cases e) (auto simp: Let_def dest!: register_anchors)

lemma compose_run_reference:
  assumes "list_all is_node_event es" and "compose_run es (ns, env, ctx) = None"
  shows "\<exists>es1 e es2. es = es1 @ e # es2 \<and> reference_error (fst ` set env \<union> anchors_in es1) e"
  using assms
proof (induction es arbitrary: ns env ctx)
  case (Cons e es)
  show ?case
  proof (cases "compose_step e (ns, env, ctx)")
    case None
    then have "reference_error (fst ` set env \<union> anchors_in []) e"
      using Cons.prems(1) compose_step_None by (simp add: anchors_in_def map_filter_simps)
    then show ?thesis by (metis append_Nil)
  next
    case (Some s)
    obtain ns' env' ctx' where s: "s = (ns', env', ctx')" by (cases s)
    obtain es1 e' es2 where "es = es1 @ e' # es2" "reference_error (fst ` set env' \<union> anchors_in es1) e'"
      using Cons.IH [of ns' env' ctx'] Cons.prems Some s by auto
    moreover have "fst ` set env' \<union> anchors_in es1 = fst ` set env \<union> anchors_in (e # es1)"
      using compose_step_anchors [OF Some [unfolded s]]
      by (cases "anchor_of e") (auto simp: anchors_in_def map_filter_simps)
    ultimately show ?thesis by (metis append_Cons)
  qed
qed simp

lemma fetches_prefix: "fetches E P es P' \<Longrightarrow> es = xs @ ys \<Longrightarrow> \<exists>P1. fetches E P xs P1"
proof (induction arbitrary: xs rule: fetches.induct)
  case (fetches_event P P1 e P2 es P')
  then show ?case
    by (cases xs) (auto intro: fetches_own [OF loader_frame_refl] fetches.fetches_event)
qed (auto intro: fetches_own)

section \<open>Loading a stream\<close>

lemma tree_events: "tree_ok t \<Longrightarrow> list_all is_node_event (events_of t)"
proof (induction t)
  case (YLeaf e)
  then show ?case by (cases e) auto
next
  case (YSeq e ts)
  then show ?case by (cases e) (auto simp: list_all_iff)
next
  case (YMap e ps)
  have "list_all is_node_event (events_of k @ events_of v)" if "(k, v) \<in> set ps" for k v
    using that YMap by (fastforce simp: list_all_iff prod_set_simps)
  then show ?case using YMap.prems by (cases e) (auto simp: list_all_iff)
qed

context event_source
begin

lemma fetches_run:
  assumes "fetches E P es P'" and "inv P" and "YAML_STREAM_END_EVENT \<notin> set (map ev_data es)"
  shows "inv P' \<and> ev_run (gram P) (map ev_data es) = Some (gram P') \<and> remaining P' + length es \<le> remaining P"
  using assms
proof (induction rule: fetches.induct)
  case (fetches_own P P')
  then show ?case using own_fields [OF fetches_own(1)] by simp
next
  case (fetches_event P P1 e P2 es P')
  note own = own_fields [OF fetches_event(1)]
  have inv1: "inv P1" using own fetches_event.prems by simp
  note st = wp_OkD [OF next_event [OF inv1] fetches_event(2)]
  have ne: "gram P2 \<noteq> GEnd" using st fetches_event.prems(2) ev_step_end by fastforce
  then show ?case using st own fetches_event by auto
qed

lemma doc_loaded_next:
  assumes "doc_loaded P d P'" and "inv P" and "nodes d \<noteq> []"
  shows "inv P' \<and> gram P' = GDocs \<and> remaining P' \<le> remaining P"
proof -
  have "d \<noteq> zero_document" using assms(3) by (auto simp: zero_document_def)
  then obtain pre b es e t where l: "stream_prefix P pre" "fetches E P (pre @ b # es @ [e]) P'" "map ev_data es = events_of t"
    "document_of b t e d" "inv P'" "gram P' = GDocs"
    using assms(1) by (auto simp: doc_loaded_def)
  have "YAML_STREAM_END_EVENT \<notin> set (map ev_data pre)" using l(1) by (auto simp: stream_prefix_def split: if_splits)
  moreover have "YAML_STREAM_END_EVENT \<notin> set (map ev_data es)"
    using tree_events [of t] l(3,4) by (auto simp: document_of_def list_all_iff)
  ultimately have "YAML_STREAM_END_EVENT \<notin> set (map ev_data (pre @ b # es @ [e]))"
    using l(4) by (auto simp: document_of_def)
  from fetches_run [OF l(2) assms(2) this] show ?thesis using l(5,6) by simp
qed

end


text \<open>
  The loop of a client, as \<^verbatim>\<open>include/yaml.h\<close> describes it: documents are loaded until one has no
  root node.
\<close>

abbreviation load_next :: "nat \<Rightarrow> nat \<Rightarrow> 'h yaml_parser \<Rightarrow> (yaml_document, 'h yaml_parser) res" where
  "load_next n m \<equiv> yaml_parser_load (parse_next n) m"

inductive loaded :: "nat \<Rightarrow> nat \<Rightarrow> 'h yaml_parser \<Rightarrow> yaml_document list \<Rightarrow> 'h yaml_parser \<Rightarrow> bool" for n m P0 where
  loaded_nothing: "loaded n m P0 [] P0"
| loaded_document: "loaded n m P0 ds P \<Longrightarrow> load_next n m P = Ok d P' \<Longrightarrow> nodes d \<noteq> [] \<Longrightarrow> loaded n m P0 (ds @ [d]) P'"

lemma loaded_ok:
  assumes "loaded n m P0 ds P" and "loader_ok sz n P0" and "grammar_of P0 \<in> {GStream, GDocs}" and "events_left sz P0 < m"
  shows "loader_ok sz n P \<and> grammar_of P \<in> {GStream, GDocs} \<and> events_left sz P < m"
  using assms
proof (induction rule: loaded.induct)
  case (loaded_document ds P d P')
  then have P: "loader_ok sz n P" "grammar_of P \<in> {GStream, GDocs}" "events_left sz P < m" by auto
  from wp_OkD [OF parser_events.load_wp [OF P] loaded_document(2)]
  show ?case using parser_events.doc_loaded_next [OF _ P(1) loaded_document(3)] P(3) by fastforce
qed simp

lemma string_loader_ok:
  assumes "string_parser h input = Ok () P" and "4 * length input + 4 < n"
  shows "loader_ok length n P"
proof -
  obtain h' where "P = (zero_parser h' [])\<lparr>read_handler := Some yaml_string_read_handler, read_handler_data := input\<rparr>"
    using string_parser_state [OF assms(1)] by blast
  then have "\<not> stream_start_produced P" by (simp add: zero_parser_def)
  then show ?thesis using string_parser_ok [OF assms] by (simp add: loader_ok_def)
qed

lemma load_string_wp:
  assumes "string_parser h input = Ok () P0" and "4 * length input + 4 < n" and "20 * length input + 26 < m" and "loaded n m P0 ds P"
  shows "wp False (load_next n m P) (parser_events.doc_loaded n length P)
     (\<lambda>P'. parser_events.doc_failed n P P' \<and> document P' = None \<and> aliases P' = [])"
proof -
  note ok = string_parser_ok [OF assms(1,2)]
  have "loader_ok length n P \<and> grammar_of P \<in> {GStream, GDocs} \<and> events_left length P < m"
    using string_loader_ok [OF assms(1,2)] ok(2,3) assms(3) by (intro loaded_ok [OF assms(4)]) auto
  then show ?thesis by (intro parser_events.load_wp) auto
qed

section \<open>An example\<close>

text \<open>The loader on \<^verbatim>\<open>[&a b, *a]\<close> and on \<^verbatim>\<open>*a\<close>; the second refers to no anchor.\<close>

definition alias_parser :: "byte list yaml_parser" where
  "alias_parser = (zero_parser 492 [])\<lparr>read_handler := Some yaml_string_read_handler, read_handler_data := octets ''[&a b, *a]''\<rparr>"

definition dangling_parser :: "byte list yaml_parser" where
  "dangling_parser = (zero_parser 492 [])\<lparr>read_handler := Some yaml_string_read_handler, read_handler_data := octets ''*a''\<rparr>"

lemma alias_parser: "string_parser 500 (octets ''[&a b, *a]'') = Ok () alias_parser"
  "string_parser 500 (octets ''*a'') = Ok () dangling_parser"
  by (simp_all add: string_parser_def yaml_parser_initialize_def yaml_parser_set_input_string_def alias_parser_def dangling_parser_def zero_parser_def
      eval_nat_numeral allocate_def)

lemma alias_length [simp]: "length (octets ''[&a b, *a]'') = 10" "length (octets ''*a'') = 2"
  by (simp_all add: octets_def)

lemma alias_Ok: "\<exists>d P. load_next 50 300 alias_parser = Ok d P \<and> length (nodes d) = 2
    \<and> node_data (hd (nodes d)) = YAML_SEQUENCE_NODE [2, 2] YAML_FLOW_SEQUENCE_STYLE"
proof -
  have "(case load_next 50 300 alias_parser of Ok d _ \<Rightarrow> length (nodes d) = 2
    \<and> node_data (hd (nodes d)) = YAML_SEQUENCE_NODE [2, 2] YAML_FLOW_SEQUENCE_STYLE | _ \<Rightarrow> False)" by code_simp
  then show ?thesis by (auto split: res.splits)
qed

lemma dangling_Fail: "\<exists>P. load_next 50 300 dangling_parser = Fail P \<and> error P = YAML_COMPOSER_ERROR \<and> heap P \<noteq> 0"
proof -
  have "(case load_next 50 300 dangling_parser of Fail P \<Rightarrow> error P = YAML_COMPOSER_ERROR \<and> heap P \<noteq> 0 | _ \<Rightarrow> False)" by code_simp
  then show ?thesis by (auto split: res.splits)
qed


section \<open>Properties\<close>



text \<open>
  (C1) Refinement: the events fetched for a loaded document are those of its tree, and its array
  of nodes is the composition of that tree: the root is node 1, every node follows its parent,
  and an alias stands for the node that has its anchor.  A document without nodes is the end of
  the stream.
\<close>

theorem load_composes:
  assumes "string_parser h input = Ok () P0" and "4 * length input + 4 < n" and "20 * length input + 26 < m" and "loaded n m P0 ds P"
    and "load_next n m P = Ok d P'"
  shows "if nodes d = [] then d = zero_document \<and> state P' = YAML_PARSE_END_STATE
    else \<exists>pre b es e t. length pre = (if stream_start_produced P then 0 else 1)
      \<and> fetches (parse_next n) P (pre @ b # es @ [e]) P' \<and> map ev_data es = events_of t \<and> document_of b t e d"
proof -
  have l: "parser_events.doc_loaded n length P d P'" using wp_OkD [OF load_string_wp [OF assms(1-4)] assms(5)] .
  show ?thesis
  proof (cases "nodes d = []")
    case True
    then have "d = zero_document \<and> grammar_of P' = GEnd"
      using l document_of_ok(1) unfolding parser_events.doc_loaded_def by blast
    then show ?thesis using True by (simp add: grammar_end)
  next
    case False
    then have "d \<noteq> zero_document" by (auto simp: zero_document_def)
    then obtain pre b es e t where "parser_events.stream_prefix P pre"
      "fetches (parse_next n) P (pre @ b # es @ [e]) P'" "map ev_data es = events_of t" "document_of b t e d"
      using l unfolding parser_events.doc_loaded_def by blast
    moreover have "length pre = (if stream_start_produced P then 0 else 1)"
      using calculation(1) by (auto simp: parser_events.stream_prefix_def split: if_splits)
    ultimately show ?thesis unfolding if_not_P [OF False] by blast
  qed
qed

theorem load_composes_witness:
  "\<exists>d P'. load_next 50 300 alias_parser = Ok d P'
     \<and> (\<exists>pre b es e t. fetches (parse_next 50) alias_parser (pre @ b # es @ [e]) P' \<and> map ev_data es = events_of t \<and> document_of b t e d)"
proof -
  obtain d P' where d: "load_next 50 300 alias_parser = Ok d P'" "length (nodes d) = 2" using alias_Ok by blast
  then have "nodes d \<noteq> []" by auto
  then show ?thesis using load_composes [OF alias_parser(1) _ _ loaded_nothing d(1)] d(1) by fastforce
qed

text \<open>
  (C16) Node references: every item of a sequence and every key and value of a mapping of a loaded
  document is the index of one of its nodes, none is missing.
\<close>

theorem load_node_indices:
  assumes "string_parser h input = Ok () P0" and "4 * length input + 4 < n" and "20 * length input + 26 < m" and "loaded n m P0 ds P"
    and "load_next n m P = Ok d P'" and "nd \<in> set (nodes d)"
  shows "case node_data nd of
       YAML_SEQUENCE_NODE is _ \<Rightarrow> \<forall>i \<in> set is. 1 \<le> i \<and> i \<le> int (length (nodes d))
     | YAML_MAPPING_NODE ps _ \<Rightarrow> \<forall>(i, j) \<in> set ps. 1 \<le> i \<and> i \<le> int (length (nodes d)) \<and> 1 \<le> j \<and> j \<le> int (length (nodes d))
     | YAML_SCALAR_NODE _ _ \<Rightarrow> True
     | YAML_NO_NODE \<Rightarrow> False"
proof -
  have "parser_events.doc_loaded n length P d P'" using wp_OkD [OF load_string_wp [OF assms(1-4)] assms(5)] .
  then obtain b t e where "document_of b t e d" using assms(6) by (auto simp: parser_events.doc_loaded_def zero_document_def)
  then show ?thesis using document_of_ok(2) assms(6) by (auto simp: list_all_iff child_ok_def view_def)
qed

theorem load_node_indices_witness:
  "\<exists>d P'. load_next 50 300 alias_parser = Ok d P' \<and> node_data (hd (nodes d)) = YAML_SEQUENCE_NODE [2, 2] YAML_FLOW_SEQUENCE_STYLE
     \<and> (2 :: int) \<le> int (length (nodes d))"
proof -
  obtain d P' where d: "load_next 50 300 alias_parser = Ok d P'" "length (nodes d) = 2"
    "node_data (hd (nodes d)) = YAML_SEQUENCE_NODE [2, 2] YAML_FLOW_SEQUENCE_STYLE" using alias_Ok by blast
  then have "hd (nodes d) \<in> set (nodes d)" by (cases "nodes d") auto
  then show ?thesis using load_node_indices [OF alias_parser(1) _ _ loaded_nothing d(1)] d by fastforce
qed

text \<open>
  (C17) An error of the composer has a reason: among the events fetched for the document is an
  alias whose anchor did not come before it, or an anchor that came before.
\<close>

theorem load_composer_error:
  assumes "string_parser h input = Ok () P0" and "4 * length input + 4 < n" and "20 * length input + 26 < m" and "loaded n m P0 ds P"
    and "load_next n m P = Fail P'" and "error P' = YAML_COMPOSER_ERROR"
  shows "heap P' = 0 \<or> (\<exists>pre b es e P1. fetches (parse_next n) P (pre @ b # es @ [e]) P1 \<and> is_doc_start (ev_data b)
    \<and> reference_error (anchors_in (map ev_data es)) (ev_data e))"
proof -
  have f: "parser_events.doc_failed n P P'" using wp_FailD [OF load_string_wp [OF assms(1-4)] assms(5)] by simp
  show ?thesis
  proof (cases "heap P' = 0")
    case False
    then have "\<not> scan_fail P'" using assms(6) by (simp add: scan_fail_def)
    then obtain pre b es P1 where l: "fetches (parse_next n) P (pre @ b # es) P1" "is_doc_start (ev_data b)"
      "list_all (is_node_event \<circ> ev_data) es" "compose_run (map ev_data es) ([], [], []) = None"
      using f unfolding parser_events.doc_failed_def by blast
    obtain es1 e es2 where e: "map ev_data es = es1 @ e # es2" "reference_error (fst ` set [] \<union> anchors_in es1) e"
      using compose_run_reference [OF _ l(4)] l(3) by (auto simp: list.pred_map)
    then obtain xs y ys where x: "es = xs @ y # ys" "es1 = map ev_data xs" "e = ev_data y"
      by (auto simp: map_eq_append_conv map_eq_Cons_conv)
    have "reference_error (anchors_in (map ev_data xs)) (ev_data y)" using e(2) x by simp
    moreover have "\<exists>P1. fetches (parse_next n) P (pre @ b # xs @ [y]) P1"
      using l(1) x(1) by (intro fetches_prefix [where ys = ys]) auto
    ultimately show ?thesis using l(2) by blast
  qed simp
qed

theorem load_composer_error_witness:
  "\<exists>P'. load_next 50 300 dangling_parser = Fail P' \<and> (\<exists>pre b es e P1. fetches (parse_next 50) dangling_parser (pre @ b # es @ [e]) P1
     \<and> is_doc_start (ev_data b) \<and> reference_error (anchors_in (map ev_data es)) (ev_data e))"
proof -
  obtain P' where P': "load_next 50 300 dangling_parser = Fail P'" "error P' = YAML_COMPOSER_ERROR" "heap P' \<noteq> 0" using dangling_Fail by blast
  then show ?thesis using load_composer_error [OF alias_parser(2) _ _ loaded_nothing P'(1,2)] by auto
qed

end
