(* ===== verification/Yaml_Memory.thy ===== *)
theory Yaml_Memory
  imports Yaml_Scanner
begin

text \<open>
  Stacks, queues and strings as the macros of \<^verbatim>\<open>src/yaml_private.h\<close> and the functions of
  \<^verbatim>\<open>src/api.c\<close> keep them, in blocks of memory with pointers, and the proof that they behave like
  the lists of the other theories.
\<close>

section \<open>Blocks of memory\<close>

text \<open>
  A block from \<open>malloc\<close> or \<open>realloc\<close> is a list of cells; a cell that was never written is
  \<open>None\<close>.  A write outside the block and a read of such a cell are \<open>Abort\<close>.  The state of an
  operation is the number of requests that the allocator will still serve.
\<close>

type_synonym 'a cells = "'a option list"

definition yaml_realloc :: "'a cells \<Rightarrow> nat \<Rightarrow> nat \<Rightarrow> ('a cells, nat) res" where
  "yaml_realloc m k h = (if h = 0 then Fail h else Ok (take k m @ replicate (k - length m) None) (h - 1))"

definition store :: "'a cells \<Rightarrow> nat \<Rightarrow> 'a \<Rightarrow> nat \<Rightarrow> ('a cells, nat) res" where
  "store m i v h = (if i < length m then Ok (m[i := Some v]) h else Abort)"

definition fetch_cell :: "'a cells \<Rightarrow> nat \<Rightarrow> nat \<Rightarrow> ('a, nat) res" where
  "fetch_cell m i h = (if i < length m then (case m ! i of None \<Rightarrow> Abort | Some v \<Rightarrow> Ok v h) else Abort)"

text \<open>\<open>memmove\<close> of \<open>n\<close> cells from \<open>src\<close> to \<open>dst\<close>.\<close>

definition memmove :: "'a cells \<Rightarrow> nat \<Rightarrow> nat \<Rightarrow> nat \<Rightarrow> nat \<Rightarrow> ('a cells, nat) res" where
  "memmove m dst src n h =
     (if src + n \<le> length m \<and> dst + n \<le> length m
      then Ok (take dst m @ take n (drop src m) @ drop (dst + n) m) h else Abort)"

text \<open>The cells from \<open>i\<close> to \<open>j\<close> hold the values of a list.\<close>

definition holds :: "'a cells \<Rightarrow> nat \<Rightarrow> 'a list \<Rightarrow> bool" where
  "holds m i xs \<longleftrightarrow> i + length xs \<le> length m \<and> take (length xs) (drop i m) = map Some xs"

lemma holds_nth: "holds m i xs \<longleftrightarrow> i + length xs \<le> length m \<and> (\<forall>k < length xs. m ! (i + k) = Some (xs ! k))"
  by (auto simp: holds_def list_eq_iff_nth_eq)

lemma holds_Nil: "holds m i [] \<longleftrightarrow> i \<le> length m"
  by (simp add: holds_nth)

lemma holds_longer: "holds m i xs \<Longrightarrow> holds (m @ ms) i xs"
  by (auto simp: holds_nth nth_append)

lemma holds_snoc: "holds m i xs \<Longrightarrow> i + length xs < length m \<Longrightarrow> holds (m[i + length xs := Some v]) i (xs @ [v])"
  by (auto simp: holds_nth nth_append nth_list_update less_Suc_eq)

lemma holds_Cons: "holds m i (x # xs) \<longleftrightarrow> i < length m \<and> m ! i = Some x \<and> holds m (Suc i) xs"
  by (auto simp: holds_nth less_Suc_eq_0_disj nth_Cons split: nat.splits)

lemma holds_prefix: "holds m i (xs @ ys) \<longleftrightarrow> holds m i xs \<and> holds m (i + length xs) ys"
proof (induction xs arbitrary: i)
  case Nil
  then show ?case by (auto simp: holds_nth)
next
  case (Cons x xs)
  then show ?case by (auto simp: holds_Cons)
qed

section \<open>Stacks\<close>

record 'a yaml_stack =
  stk_mem :: "'a cells"
  stk_top :: nat

text \<open>\<open>w\<close> is the size of an element in octets.\<close>

definition INITIAL_STACK_SIZE :: nat where "INITIAL_STACK_SIZE = 16"

definition block_STACK_INIT :: "nat \<Rightarrow> ('a yaml_stack, nat) res" where
  "block_STACK_INIT h =
     res_bind (yaml_realloc [] INITIAL_STACK_SIZE h) (\<lambda>m h. Ok \<lparr>stk_mem = m, stk_top = 0\<rparr> h)"

definition yaml_stack_extend :: "nat \<Rightarrow> 'a yaml_stack \<Rightarrow> nat \<Rightarrow> ('a yaml_stack, nat) res" where
  "yaml_stack_extend w s h =
     (if int (w * length (stk_mem s)) \<ge> INT_MAX div 2 then Fail h
      else res_bind (yaml_realloc (stk_mem s) (length (stk_mem s) * 2) h) (\<lambda>m h. Ok (s\<lparr>stk_mem := m\<rparr>) h))"

definition block_PUSH :: "nat \<Rightarrow> 'a yaml_stack \<Rightarrow> 'a \<Rightarrow> nat \<Rightarrow> ('a yaml_stack, nat) res" where
  "block_PUSH w s v h =
     res_bind (if stk_top s \<noteq> length (stk_mem s) then Ok s h else yaml_stack_extend w s h) (\<lambda>s h.
     res_bind (store (stk_mem s) (stk_top s) v h) (\<lambda>m h.
       Ok (s\<lparr>stk_mem := m, stk_top := stk_top s + 1\<rparr>) h))"

definition block_POP :: "'a yaml_stack \<Rightarrow> nat \<Rightarrow> ('a \<times> 'a yaml_stack, nat) res" where
  "block_POP s h =
     (if stk_top s = 0 then Abort
      else res_bind (fetch_cell (stk_mem s) (stk_top s - 1) h) (\<lambda>v h. Ok (v, s\<lparr>stk_top := stk_top s - 1\<rparr>) h))"

definition stack_holds :: "nat \<Rightarrow> 'a yaml_stack \<Rightarrow> 'a list \<Rightarrow> bool" where
  "stack_holds w s xs \<longleftrightarrow> holds (stk_mem s) 0 xs \<and> stk_top s = length xs \<and> stk_mem s \<noteq> []
     \<and> int (w * length (stk_mem s)) \<le> INT_MAX"

section \<open>Queues\<close>

record 'a yaml_queue =
  que_mem :: "'a cells"
  que_head :: nat
  que_tail :: nat

definition INITIAL_QUEUE_SIZE :: nat where "INITIAL_QUEUE_SIZE = 16"

definition block_QUEUE_INIT :: "nat \<Rightarrow> ('a yaml_queue, nat) res" where
  "block_QUEUE_INIT h =
     res_bind (yaml_realloc [] INITIAL_QUEUE_SIZE h) (\<lambda>m h. Ok \<lparr>que_mem = m, que_head = 0, que_tail = 0\<rparr> h)"

definition yaml_queue_extend :: "'a yaml_queue \<Rightarrow> nat \<Rightarrow> ('a yaml_queue, nat) res" where
  "yaml_queue_extend q h =
     res_bind
       (if que_head q = 0 \<and> que_tail q = length (que_mem q)
        then res_bind (yaml_realloc (que_mem q) (length (que_mem q) * 2) h) (\<lambda>m h. Ok (q\<lparr>que_mem := m\<rparr>) h)
        else Ok q h)
       (\<lambda>q h.
         if que_tail q = length (que_mem q)
         then res_bind
                (if que_head q \<noteq> que_tail q
                 then memmove (que_mem q) 0 (que_head q) (que_tail q - que_head q) h else Ok (que_mem q) h)
                (\<lambda>m h. Ok \<lparr>que_mem = m, que_head = 0, que_tail = que_tail q - que_head q\<rparr> h)
         else Ok q h)"

definition make_room :: "'a yaml_queue \<Rightarrow> nat \<Rightarrow> ('a yaml_queue, nat) res" where
  "make_room q h = (if que_tail q \<noteq> length (que_mem q) then Ok q h else yaml_queue_extend q h)"

definition block_ENQUEUE :: "'a yaml_queue \<Rightarrow> 'a \<Rightarrow> nat \<Rightarrow> ('a yaml_queue, nat) res" where
  "block_ENQUEUE q v h =
     res_bind (make_room q h) (\<lambda>q h.
     res_bind (store (que_mem q) (que_tail q) v h) (\<lambda>m h.
       Ok (q\<lparr>que_mem := m, que_tail := que_tail q + 1\<rparr>) h))"

definition block_DEQUEUE :: "'a yaml_queue \<Rightarrow> nat \<Rightarrow> ('a \<times> 'a yaml_queue, nat) res" where
  "block_DEQUEUE q h =
     res_bind (fetch_cell (que_mem q) (que_head q) h) (\<lambda>v h. Ok (v, q\<lparr>que_head := que_head q + 1\<rparr>) h)"

definition block_QUEUE_INSERT :: "'a yaml_queue \<Rightarrow> nat \<Rightarrow> 'a \<Rightarrow> nat \<Rightarrow> ('a yaml_queue, nat) res" where
  "block_QUEUE_INSERT q i v h =
     res_bind (make_room q h) (\<lambda>q h.
     res_bind (memmove (que_mem q) (que_head q + i + 1) (que_head q + i) (que_tail q - que_head q - i) h) (\<lambda>m h.
     res_bind (store m (que_head q + i) v h) (\<lambda>m h.
       Ok (q\<lparr>que_mem := m, que_tail := que_tail q + 1\<rparr>) h)))"

definition queue_holds :: "'a yaml_queue \<Rightarrow> 'a list \<Rightarrow> bool" where
  "queue_holds q xs \<longleftrightarrow> holds (que_mem q) (que_head q) xs \<and> que_tail q = que_head q + length xs \<and> que_mem q \<noteq> []"

section \<open>Strings\<close>

text \<open>A string under construction: the block is always written, \<open>memset\<close> clears what is new.\<close>

record yaml_string =
  str_mem :: "byte list"
  str_ptr :: nat

definition block_STRING_INIT :: "nat \<Rightarrow> (yaml_string, nat) res" where
  "block_STRING_INIT h = (if h = 0 then Fail h else Ok \<lparr>str_mem = replicate INITIAL_STRING_SIZE 0, str_ptr = 0\<rparr> (h - 1))"

definition yaml_string_extend :: "yaml_string \<Rightarrow> nat \<Rightarrow> (yaml_string, nat) res" where
  "yaml_string_extend s h =
     (if h = 0 then Fail h else Ok (s\<lparr>str_mem := str_mem s @ replicate (length (str_mem s)) 0\<rparr>) (h - 1))"

definition block_STRING_EXTEND :: "yaml_string \<Rightarrow> nat \<Rightarrow> (yaml_string, nat) res" where
  "block_STRING_EXTEND s h = (if str_ptr s + 5 < length (str_mem s) then Ok s h else yaml_string_extend s h)"

text \<open>The loop of \<open>yaml_string_join\<close>: it needs room for the string and one octet more.\<close>

fun extend_for :: "nat \<Rightarrow> nat \<Rightarrow> yaml_string \<Rightarrow> nat \<Rightarrow> (yaml_string, nat) res" where
  "extend_for 0 k s h = Hang"
| "extend_for (Suc n) k s h =
     (if length (str_mem s) - str_ptr s \<le> k
      then res_bind (yaml_string_extend s h) (\<lambda>s h. extend_for n k s h)
      else Ok s h)"

definition yaml_string_join :: "nat \<Rightarrow> yaml_string \<Rightarrow> yaml_string \<Rightarrow> nat \<Rightarrow> (yaml_string, nat) res" where
  "yaml_string_join n a b h =
     (if str_ptr b = 0 then Ok a h
      else res_bind (extend_for n (str_ptr b) a h) (\<lambda>a h.
        Ok (a\<lparr>str_mem := take (str_ptr a) (str_mem a) @ take (str_ptr b) (str_mem b) @ drop (str_ptr a + str_ptr b) (str_mem a),
              str_ptr := str_ptr a + str_ptr b\<rparr>) h))"

definition block_CLEAR :: "yaml_string \<Rightarrow> yaml_string" where
  "block_CLEAR s = \<lparr>str_mem = replicate (length (str_mem s)) 0, str_ptr = 0\<rparr>"

text \<open>The octets before the pointer; what follows is zero, and there is at least one such octet.\<close>

definition string_holds :: "yaml_string \<Rightarrow> ystr \<Rightarrow> bool" where
  "string_holds s xs \<longleftrightarrow> (\<exists>n. str_mem s = xs @ replicate (Suc n) 0 \<and> INITIAL_STRING_SIZE \<le> length (str_mem s)) \<and> str_ptr s = length xs"


fun block_put :: "yaml_string \<Rightarrow> byte list \<Rightarrow> nat \<Rightarrow> (yaml_string, nat) res" where
  "block_put s [] h = Ok s h"
| "block_put s (b # bs) h =
     (if str_ptr s < length (str_mem s) then block_put \<lparr>str_mem = (str_mem s)[str_ptr s := b], str_ptr = str_ptr s + 1\<rparr> bs h
      else Abort)"

section \<open>Stacks behave like lists\<close>

lemma wp_realloc: "wp b (yaml_realloc m k h) Q E \<longleftrightarrow> (if h = 0 then E h else Q (take k m @ replicate (k - length m) None) (h - 1))"
  by (simp add: yaml_realloc_def)

lemma stack_init: "wp False (block_STACK_INIT h) (\<lambda>s _. int (w * 16) \<le> INT_MAX \<longrightarrow> stack_holds w s []) (\<lambda>h'. h' = 0)"
  by (simp add: block_STACK_INIT_def wp_realloc stack_holds_def holds_Nil INITIAL_STACK_SIZE_def mult.commute)

lemma stack_push:
  assumes "stack_holds w s xs"
  shows "wp False (block_PUSH w s v h) (\<lambda>s' _. stack_holds w s' (xs @ [v])) (\<lambda>h'. h' = 0 \<or> INT_MAX div 2 \<le> int (w * length (stk_mem s)))"
proof (cases "stk_top s = length (stk_mem s)")
  case False
  then have "length xs < length (stk_mem s)" using assms by (auto simp: stack_holds_def holds_nth)
  then show ?thesis
    using False assms holds_snoc [of "stk_mem s" 0 xs v]
    by (auto simp: block_PUSH_def store_def stack_holds_def)
next
  case True
  let ?m = "stk_mem s @ replicate (length (stk_mem s)) None"
  have "holds ?m 0 xs" "length xs < length ?m" using assms True by (auto simp: stack_holds_def holds_longer)
  moreover have "int (w * length ?m) \<le> INT_MAX" if "int (w * length (stk_mem s)) < INT_MAX div 2"
    using that by (simp add: INT_MAX_def algebra_simps)
  ultimately show ?thesis
    using True assms holds_snoc [of ?m 0 xs v]
    by (auto simp: block_PUSH_def yaml_stack_extend_def wp_realloc store_def stack_holds_def)
qed

lemma stack_pop:
  assumes "stack_holds w s (xs @ [v])"
  shows "wp False (block_POP s h) (\<lambda>(v', s') h'. v' = v \<and> stack_holds w s' xs \<and> h' = h) E"
  using assms by (auto simp: block_POP_def fetch_cell_def stack_holds_def holds_prefix holds_Cons)

section \<open>Queues behave like lists\<close>

lemma queue_init: "wp False (block_QUEUE_INIT h) (\<lambda>q _. queue_holds q []) (\<lambda>h'. h' = 0)"
  by (simp add: block_QUEUE_INIT_def wp_realloc queue_holds_def holds_Nil INITIAL_QUEUE_SIZE_def)

lemma queue_room:
  assumes "queue_holds q xs"
  shows "wp False (make_room q h) (\<lambda>q' _. queue_holds q' xs \<and> que_tail q' < length (que_mem q')) (\<lambda>h'. h' = 0)"
proof -
  have le: "que_tail q \<le> length (que_mem q)" using assms by (auto simp: queue_holds_def holds_nth)
  consider "que_tail q < length (que_mem q)" | "que_tail q = length (que_mem q)" "que_head q = 0"
    | "que_tail q = length (que_mem q)" "0 < que_head q" using le by linarith
  then show ?thesis
  proof cases
    case 2
    then show ?thesis
      using assms by (auto simp: make_room_def yaml_queue_extend_def wp_realloc queue_holds_def holds_longer)
  next
    case 3
    have "holds (take (length xs) (drop (que_head q) (que_mem q)) @ drop (length xs) (que_mem q)) 0 xs"
      using assms by (auto simp: queue_holds_def holds_def)
    then show ?thesis
      using 3 assms by (auto simp: make_room_def yaml_queue_extend_def memmove_def queue_holds_def holds_Nil)
  qed (use assms in \<open>simp add: make_room_def\<close>)
qed

lemma queue_enqueue:
  assumes "queue_holds q xs"
  shows "wp False (block_ENQUEUE q v h) (\<lambda>q' _. queue_holds q' (xs @ [v])) (\<lambda>h'. h' = 0)"
  unfolding block_ENQUEUE_def wp_bind
  by (rule wp_mono [OF queue_room [OF assms]]) (auto simp: store_def queue_holds_def holds_snoc)

lemma queue_dequeue:
  assumes "queue_holds q (x # xs)"
  shows "wp False (block_DEQUEUE q h) (\<lambda>(x', q') h'. x' = x \<and> queue_holds q' xs \<and> h' = h) E"
  using assms by (auto simp: block_DEQUEUE_def fetch_cell_def queue_holds_def holds_Cons)

lemma queue_insert:
  assumes "queue_holds q xs" and "i \<le> length xs"
  shows "wp False (block_QUEUE_INSERT q i v h) (\<lambda>q' _. queue_holds q' (take i xs @ v # drop i xs)) (\<lambda>h'. h' = 0)"
  unfolding block_QUEUE_INSERT_def wp_bind
proof (rule wp_mono [OF queue_room [OF assms(1)]])
  fix q' :: "'a yaml_queue" and h'
  assume q: "queue_holds q' xs \<and> que_tail q' < length (que_mem q')"
  let ?m = "que_mem q'" and ?p = "que_head q' + i"
  let ?n = "take (?p + 1) ?m @ take (length xs - i) (drop ?p ?m) @ drop (?p + 1 + (length xs - i)) ?m"
  have len: "que_head q' + length xs < length ?m" "que_tail q' = que_head q' + length xs" using q by (auto simp: queue_holds_def)
  have hm: "holds ?m (que_head q') (take i xs)" "holds ?m ?p (drop i xs)"
    using q assms(2) holds_prefix [of ?m "que_head q'" "take i xs" "drop i xs"] by (auto simp: queue_holds_def)
  have "length ?n = length ?m" using len assms(2) by simp
  moreover have "holds (?n[?p := Some v]) (que_head q') (take i xs @ v # drop i xs)"
  proof -
    have "holds (?n[?p := Some v]) (que_head q') (take i xs)"
      using hm(1) len assms(2) by (auto simp: holds_nth nth_append nth_list_update)
    moreover have "holds (?n[?p := Some v]) (Suc ?p) (drop i xs)"
      using hm(2) len assms(2) by (auto simp: holds_def list_update_append)
    ultimately show ?thesis using len assms(2) by (auto simp: holds_prefix holds_Cons)
  qed
  ultimately show "wp False (memmove ?m (?p + 1) ?p (que_tail q' - que_head q' - i) h')
     (\<lambda>m h. wp False (store m ?p v h) (\<lambda>m h. wp False (Ok (q'\<lparr>que_mem := m, que_tail := que_tail q' + 1\<rparr>) h)
        (\<lambda>q' _. queue_holds q' (take i xs @ v # drop i xs)) (\<lambda>h'. h' = 0)) (\<lambda>h'. h' = 0)) (\<lambda>h'. h' = 0)"
    using len assms(2) q by (auto simp: memmove_def store_def queue_holds_def)
qed


section \<open>The interface of a queue\<close>

text \<open>The operations that the scanner and the parser use on their queue of tokens, on lists.\<close>

datatype 'a queue_op = Enqueue 'a | Dequeue | Insert nat 'a

fun list_queue :: "'a queue_op list \<Rightarrow> 'a list \<Rightarrow> ('a list \<times> 'a list) option" where
  "list_queue [] xs = Some ([], xs)"
| "list_queue (Enqueue v # os) xs = list_queue os (xs @ [v])"
| "list_queue (Dequeue # os) xs =
     (case xs of [] \<Rightarrow> None | x # xs \<Rightarrow> map_option (\<lambda>(out, ys). (x # out, ys)) (list_queue os xs))"
| "list_queue (Insert i v # os) xs =
     (if i \<le> length xs then list_queue os (take i xs @ v # drop i xs) else None)"

text \<open>The same operations on an implementation.\<close>

fun run_queue :: "('q \<Rightarrow> 'a \<Rightarrow> 's \<Rightarrow> ('q, 's) res) \<Rightarrow> ('q \<Rightarrow> 's \<Rightarrow> ('a \<times> 'q, 's) res) \<Rightarrow> ('q \<Rightarrow> nat \<Rightarrow> 'a \<Rightarrow> 's \<Rightarrow> ('q, 's) res)
    \<Rightarrow> 'a queue_op list \<Rightarrow> 'q \<Rightarrow> 's \<Rightarrow> ('a list \<times> 'q, 's) res" where
  "run_queue enq deq ins [] q h = Ok ([], q) h"
| "run_queue enq deq ins (Enqueue v # os) q h = res_bind (enq q v h) (\<lambda>q h. run_queue enq deq ins os q h)"
| "run_queue enq deq ins (Dequeue # os) q h =
     res_bind (deq q h) (\<lambda>(x, q) h. res_bind (run_queue enq deq ins os q h) (\<lambda>(out, q) h. Ok (x # out, q) h))"
| "run_queue enq deq ins (Insert i v # os) q h = res_bind (ins q i v h) (\<lambda>q h. run_queue enq deq ins os q h)"

locale queue_block =
  fixes content :: "'q \<Rightarrow> 'a list \<Rightarrow> bool" and enq :: "'q \<Rightarrow> 'a \<Rightarrow> 's \<Rightarrow> ('q, 's) res"
    and deq :: "'q \<Rightarrow> 's \<Rightarrow> ('a \<times> 'q, 's) res" and ins :: "'q \<Rightarrow> nat \<Rightarrow> 'a \<Rightarrow> 's \<Rightarrow> ('q, 's) res" and exhausted :: "'s \<Rightarrow> bool"
  assumes enq: "content q xs \<Longrightarrow> wp False (enq q v h) (\<lambda>q' _. content q' (xs @ [v])) exhausted"
    and deq: "content q (x # xs) \<Longrightarrow> wp False (deq q h) (\<lambda>(y, q') _. y = x \<and> content q' xs) exhausted"
    and ins: "content q xs \<Longrightarrow> i \<le> length xs \<Longrightarrow> wp False (ins q i v h) (\<lambda>q' _. content q' (take i xs @ v # drop i xs)) exhausted"
begin

theorem run_refines:
  assumes "content q xs" and "list_queue os xs = Some (out, ys)"
  shows "wp False (run_queue enq deq ins os q h) (\<lambda>(out', q') _. out' = out \<and> content q' ys) exhausted"
  using assms
proof (induction os arbitrary: q xs out h)
  case (Cons a os)
  show ?case
  proof (cases a)
    case (Enqueue v)
    then show ?thesis using Cons by (auto intro: wp_mono [OF enq [OF Cons.prems(1)]])
  next
    case Dequeue
    then obtain x xs' out' where x: "xs = x # xs'" "list_queue os xs' = Some (out', ys)" "out = x # out'"
      using Cons.prems(2) by (auto split: list.splits)
    have "wp False (run_queue enq deq ins os q' h') (\<lambda>r _. x # fst r = out \<and> content (snd r) ys) exhausted" if "content q' xs'" for q' h'
      using Cons.IH [OF that x(2), of h'] x(3) by (auto elim: wp_mono)
    then show ?thesis
      using Dequeue Cons.prems(1) x(1) by (auto simp: case_prod_beta elim!: wp_mono intro!: wp_mono [OF deq])
  next
    case (Insert i v)
    then have i: "i \<le> length xs" "list_queue os (take i xs @ v # drop i xs) = Some (out, ys)" using Cons.prems(2) by (auto split: if_splits)
    then show ?thesis using Insert Cons.IH by (auto intro: wp_mono [OF ins [OF Cons.prems(1) i(1)]])
  qed
qed simp

end

interpretation block_queue: queue_block queue_holds block_ENQUEUE block_DEQUEUE block_QUEUE_INSERT "\<lambda>h. h = 0"
proof
  fix q :: "'a yaml_queue" and x xs h
  assume "queue_holds q (x # xs)"
  then show "wp False (block_DEQUEUE q h) (\<lambda>(y, q') _. y = x \<and> queue_holds q' xs) (\<lambda>h. h = 0)"
    by (rule wp_mono [OF queue_dequeue]) auto
qed (rule queue_enqueue queue_insert; assumption)+

section \<open>Strings\<close>

lemma string_init: "wp False (block_STRING_INIT h) (\<lambda>s _. string_holds s []) (\<lambda>h'. h' = 0)"
  by (auto simp: block_STRING_INIT_def string_holds_def INITIAL_STRING_SIZE_def numeral_eq_Suc intro!: exI [of _ 15])

lemma string_holds_double:
  assumes "string_holds s xs"
  shows "string_holds (s\<lparr>str_mem := str_mem s @ replicate (length (str_mem s)) 0\<rparr>) xs"
proof -
  obtain n where n: "str_mem s = xs @ replicate (Suc n) 0" "INITIAL_STRING_SIZE \<le> length (str_mem s)" "str_ptr s = length xs"
    using assms by (auto simp: string_holds_def)
  have "str_mem s @ replicate (length (str_mem s)) 0 = xs @ replicate (Suc (n + length (str_mem s))) 0"
    unfolding n(1) by (simp add: replicate_add [symmetric] del: replicate.simps) 
  then show ?thesis using n(2,3) unfolding string_holds_def by auto
qed

lemma string_extend:
  assumes "string_holds s xs"
  shows "wp False (block_STRING_EXTEND s h) (\<lambda>s' _. string_holds s' xs \<and> str_ptr s' + 5 < length (str_mem s')) (\<lambda>h'. h' = 0)"
  using assms string_holds_double [OF assms]
  by (auto simp: block_STRING_EXTEND_def yaml_string_extend_def string_holds_def INITIAL_STRING_SIZE_def)

lemma string_put:
  assumes "string_holds s xs" and "str_ptr s + length bs < length (str_mem s)"
  shows "\<exists>s'. block_put s bs h = Ok s' h \<and> string_holds s' (xs @ bs)"
  using assms
proof (induction bs arbitrary: s xs)
  case (Cons b bs)
  obtain n where n: "str_mem s = xs @ replicate (Suc n) 0" "INITIAL_STRING_SIZE \<le> length (str_mem s)" "str_ptr s = length xs"
    using Cons.prems(1) by (auto simp: string_holds_def)
  obtain k where k: "n = Suc k" using Cons.prems(2) n by (cases n) auto
  let ?s = "\<lparr>str_mem = (str_mem s)[str_ptr s := b], str_ptr = str_ptr s + 1\<rparr>"
  have "string_holds ?s (xs @ [b])" using n k by (auto simp: string_holds_def)
  moreover have "str_ptr ?s + length bs < length (str_mem ?s)" using Cons.prems(2) by simp
  ultimately show ?case using Cons.IH [of ?s "xs @ [b]"] Cons.prems(2) by simp
qed simp

lemma extend_for_wp:
  assumes "string_holds s xs" and "k + 1 < n + (length (str_mem s) - str_ptr s)" and "0 < n"
  shows "wp False (extend_for n k s h) (\<lambda>s' _. string_holds s' xs \<and> str_ptr s' + k < length (str_mem s')) (\<lambda>h'. h' = 0)"
  using assms
proof (induction n arbitrary: s h)
  case (Suc n)
  have pos: "str_ptr s < length (str_mem s)" using Suc.prems(1) by (auto simp: string_holds_def)
  show ?case
  proof (cases "length (str_mem s) - str_ptr s \<le> k")
    case True
    then have "0 < n" using Suc.prems(2) pos by (cases n) auto
    then show ?thesis
      using True Suc.prems(2) string_holds_double [OF Suc.prems(1)] pos
      by (auto simp: yaml_string_extend_def intro!: Suc.IH)
  qed (use Suc.prems(1) in auto)
qed simp

lemma string_join:
  assumes "string_holds a xs" and "length ys \<le> length (str_mem b)" and "take (str_ptr b) (str_mem b) = ys" and "str_ptr b = length ys" and "length ys < n"
  shows "wp False (yaml_string_join n a b h) (\<lambda>a' _. string_holds a' (xs @ ys)) (\<lambda>h'. h' = 0)"
proof (cases "ys = []")
  case True
  then show ?thesis using assms by (simp add: yaml_string_join_def)
next
  case False
  have pos: "str_ptr a < length (str_mem a)" using assms(1) by (auto simp: string_holds_def)
  have "wp False (extend_for n (length ys) a h) (\<lambda>s' _. string_holds s' xs \<and> str_ptr s' + length ys < length (str_mem s')) (\<lambda>h'. h' = 0)"
    using pos assms by (intro extend_for_wp) auto
  then have "wp False (extend_for n (length ys) a h) (\<lambda>a h. string_holds (a\<lparr>str_mem := take (str_ptr a) (str_mem a) @ ys @ drop (str_ptr a + length ys) (str_mem a),
              str_ptr := str_ptr a + length ys\<rparr>) (xs @ ys)) (\<lambda>h'. h' = 0)"
  proof (rule wp_mono)
    fix s' :: yaml_string and h'
    assume s': "string_holds s' xs \<and> str_ptr s' + length ys < length (str_mem s')"
    then obtain k where k: "str_mem s' = xs @ replicate (Suc k) 0" "INITIAL_STRING_SIZE \<le> length (str_mem s')" "str_ptr s' = length xs"
      by (auto simp: string_holds_def)
    then have "drop (length xs + length ys) (str_mem s') = replicate (Suc (k - length ys)) 0"
      using s' by (simp add: Suc_diff_le del: replicate.simps)
    then show "string_holds (s'\<lparr>str_mem := take (str_ptr s') (str_mem s') @ ys @ drop (str_ptr s' + length ys) (str_mem s'),
              str_ptr := str_ptr s' + length ys\<rparr>) (xs @ ys)"
      using k s' by (auto simp: string_holds_def)
  qed simp
  then show ?thesis using assms(3,4) False by (simp add: yaml_string_join_def)
qed


section \<open>Properties\<close>

text \<open>
  (C27) The queue of the C code refines the list that the scanner's model uses: for every sequence
  of enqueueing, dequeueing and inserting that is allowed on lists, the block of memory with its
  head and tail gives the same elements in the same order, is moved and doubled when it is full,
  is never written outside its bounds and never read where nothing was written.  The only failure
  is missing memory.
\<close>

theorem queue_refines_list:
  assumes "list_queue os [] = Some (out, ys)" and "block_QUEUE_INIT h = Ok q h'"
  shows "case run_queue block_ENQUEUE block_DEQUEUE block_QUEUE_INSERT os q h' of
      Ok (out', q') _ \<Rightarrow> out' = out \<and> queue_holds q' ys
    | Fail h'' \<Rightarrow> h'' = 0
    | _ \<Rightarrow> False"
  using block_queue.run_refines [OF wp_OkD [OF queue_init assms(2)] assms(1), of h']
  by (cases "run_queue block_ENQUEUE block_DEQUEUE block_QUEUE_INSERT os q h'") auto

definition demo_queue :: "nat yaml_queue" where
  "demo_queue = \<lparr>que_mem = replicate 16 None, que_head = 0, que_tail = 0\<rparr>"

theorem queue_refines_list_witness:
  "case run_queue block_ENQUEUE block_DEQUEUE block_QUEUE_INSERT [Enqueue 1, Enqueue 3, Insert 1 2, Dequeue] demo_queue 4 of
      Ok (out', q') _ \<Rightarrow> out' = [1] \<and> queue_holds q' [2, 3]
    | Fail h'' \<Rightarrow> h'' = 0
    | _ \<Rightarrow> False"
  using queue_refines_list [of "[Enqueue 1, Enqueue 3, Insert 1 (2 :: nat), Dequeue]" "[1]" "[2, 3]" 5 demo_queue 4]
  by (simp add: demo_queue_def block_QUEUE_INIT_def yaml_realloc_def INITIAL_QUEUE_SIZE_def)

text \<open>
  Stacks stay within their blocks: a push writes the next element, doubling a full block, or
  fails for missing memory or because the block has reached half of \<open>INT_MAX\<close> octets; the size of
  a block never exceeds \<open>INT_MAX\<close>; a pop returns what was pushed.
\<close>

theorem stack_push_pop:
  assumes "stack_holds w s xs" and "block_PUSH w s v h = Ok s' h'"
  shows "int (w * length (stk_mem s')) \<le> INT_MAX \<and> stk_top s' \<le> length (stk_mem s')
    \<and> (\<exists>s''. block_POP s' h' = Ok (v, s'') h' \<and> stack_holds w s'' xs)"
proof -
  have s': "stack_holds w s' (xs @ [v])" using wp_OkD [OF stack_push [OF assms(1)] assms(2)] .
  then show ?thesis
    using stack_pop [OF s', of h' "\<lambda>_. False"]
    by (cases "block_POP s' h'") (auto simp: stack_holds_def holds_nth)
qed

theorem stack_push_pop_witness:
  "\<exists>s' h'. block_PUSH 4 \<lparr>stk_mem = replicate 16 None, stk_top = 0\<rparr> (7 :: int) 1 = Ok s' h'
     \<and> (\<exists>s''. block_POP s' h' = Ok (7, s'') h' \<and> stack_holds 4 s'' [])"
  using stack_push_pop [of 4 "\<lparr>stk_mem = replicate 16 None, stk_top = 0\<rparr>" "[]" "7 :: int" 1]
  by (simp add: block_PUSH_def store_def stack_holds_def holds_Nil INT_MAX_def)

text \<open>
  (C28) Strings under construction: after \<open>STRING_EXTEND\<close> a character of up to four octets can be
  stored, and the string is still followed by a NUL within its block.
\<close>

theorem string_room:
  assumes "string_holds s xs" and "block_STRING_EXTEND s h = Ok s' h'" and "length bs \<le> 4"
  shows "\<exists>s''. block_put s' bs h' = Ok s'' h' \<and> string_holds s'' (xs @ bs)"
  using wp_OkD [OF string_extend [OF assms(1)] assms(2)] assms(3) by (intro string_put) auto

theorem string_room_witness:
  "\<exists>s' h' s''. block_STRING_EXTEND \<lparr>str_mem = replicate 16 65 @ [0], str_ptr = 16\<rparr> 1 = Ok s' h'
     \<and> block_put s' [66, 67] h' = Ok s'' h' \<and> string_holds s'' (replicate 16 65 @ [66, 67])"
proof -
  let ?s = "\<lparr>str_mem = replicate 16 65 @ [0], str_ptr = 16\<rparr> :: yaml_string"
  have "string_holds ?s (replicate 16 65)" by (auto simp: string_holds_def INITIAL_STRING_SIZE_def intro!: exI [of _ 0])
  moreover obtain s' h' where "block_STRING_EXTEND ?s 1 = Ok s' h'"
    by (simp add: block_STRING_EXTEND_def yaml_string_extend_def)
  ultimately show ?thesis using string_room [of ?s "replicate 16 65" 1 s' h' "[66, 67]"] by auto
qed

text \<open>
  (C29) Joining two strings: the loop that doubles the first block ends, the result holds both
  strings one after the other, followed by a NUL, or the memory is used up.
\<close>

theorem string_join_appends:
  assumes "string_holds a xs" and "string_holds b ys" and "length ys < n"
  shows "(\<exists>a' h'. yaml_string_join n a b h = Ok a' h' \<and> string_holds a' (xs @ ys)) \<or> yaml_string_join n a b h = Fail 0"
proof -
  have "wp False (yaml_string_join n a b h) (\<lambda>a' _. string_holds a' (xs @ ys)) (\<lambda>h'. h' = 0)"
    using assms by (intro string_join) (auto simp: string_holds_def)
  then show ?thesis by (cases "yaml_string_join n a b h") auto
qed

theorem string_join_appends_witness:
  "\<exists>a' h'. yaml_string_join 3 \<lparr>str_mem = replicate 16 65 @ [0], str_ptr = 16\<rparr> \<lparr>str_mem = 66 # replicate 15 0, str_ptr = 1\<rparr> 4 = Ok a' h'
     \<and> string_holds a' (replicate 16 65 @ [66])"
proof -
  let ?a = "\<lparr>str_mem = replicate 16 65 @ [0], str_ptr = 16\<rparr> :: yaml_string" and ?b = "\<lparr>str_mem = 66 # replicate 15 0, str_ptr = 1\<rparr> :: yaml_string"
  have "string_holds ?a (replicate 16 65)" by (auto simp: string_holds_def INITIAL_STRING_SIZE_def intro!: exI [of _ 0])
  moreover have "string_holds ?b [66]" by (auto simp: string_holds_def INITIAL_STRING_SIZE_def numeral_eq_Suc intro!: exI [of _ 14])
  moreover have "yaml_string_join 3 ?a ?b 4 \<noteq> Fail 0" by (simp add: yaml_string_join_def yaml_string_extend_def numeral_eq_Suc)
  ultimately show ?thesis using string_join_appends [of ?a "replicate 16 65" ?b "[66]" 3 4] by auto
qed

end
