(* ===== verification/Yaml_Api_Document.thy ===== *)
theory Yaml_Api_Document
  imports Yaml_Compose Yaml_Writer "HOL-Library.Code_Target_Numeral" "HOL-Library.Sublist"
begin

text \<open>
  The part of \<^verbatim>\<open>src/api.c\<close> that creates events and builds documents: the check of UTF-8 strings,
  the initializers of events, and the functions that create, extend and delete a document.
\<close>

section \<open>UTF-8\<close>

text \<open>The form of one character: its width and its value.\<close>

definition utf8_shortest :: "nat \<Rightarrow> 32 word \<Rightarrow> bool" where
  "utf8_shortest width v \<longleftrightarrow> width = 1 \<or> (width = 2 \<and> v \<ge> 0x80) \<or> (width = 3 \<and> v \<ge> 0x800) \<or> (width = 4 \<and> v \<ge> 0x10000)"

function yaml_check_utf8 :: "byte list \<Rightarrow> bool" where
  "yaml_check_utf8 bs =
     (if bs = [] then True
      else let width = utf8_width (hd bs) in
        if width = 0 then False
        else if width > length bs then False
        else case utf8_trail (utf8_lead (hd bs)) 1 (take (width - 1) (tl bs)) of
          Inl _ \<Rightarrow> False
        | Inr v \<Rightarrow> if \<not> utf8_shortest width v then False else yaml_check_utf8 (drop width bs))"
  by pat_completeness auto
termination by (relation "measure length") auto

declare yaml_check_utf8.simps [simp del]

text \<open>The values that four octets can carry.\<close>

definition utf8_range :: "32 word \<Rightarrow> bool" where
  "utf8_range v \<longleftrightarrow> unat v < 0x200000"

lemma encode_head:
  assumes "utf8_range v" and "encode_utf8 v = b # bs"
  shows "utf8_width b = Suc (length bs)" and "utf8_trail (utf8_lead b) 1 bs = Inr v" and "utf8_shortest (utf8_width b) v"
proof -
  note u = assms(1) [unfolded utf8_range_def]
  have nat: "map unat (b # bs) = utf8_nat (unat v)"
    using encode_utf8_unat [of v] assms(2) by simp
  show len: "utf8_width b = Suc (length bs)"
    using nat u arg_cong [OF nat, of length] by (auto simp: utf8_nat_def utf8_width_nat split: if_splits)
  have cont: "list_all is_cont bs"
    using nat u by (auto simp: utf8_nat_def is_cont_def list_all_iff split: if_splits)
  obtain r where r: "utf8_trail (utf8_lead b) 1 bs = Inr r" "unat r = trail_nat (unat (utf8_lead b)) (map unat bs)"
    using utf8_trail_cont [OF cont, of "utf8_lead b" 1] utf8_lead_width [OF len] by auto
  have "unat r = unat v"
    using nat u unfolding r(2) utf8_lead_nat
    by (auto simp: utf8_nat_def base64_3 base64_4 split: if_splits)
  then have "r = v" by (simp add: word_unat_eq_iff)
  then show "utf8_trail (utf8_lead b) 1 bs = Inr v" using r(1) by simp
  show "utf8_shortest (utf8_width b) v"
    using nat u len arg_cong [OF nat, of length] by (auto simp: utf8_shortest_def utf8_nat_def to_nat split: if_splits)
qed

lemma encode_head_sound:
  assumes "w = utf8_width b" and "0 < w" and "length t = w - 1" and "utf8_trail (utf8_lead b) 1 t = Inr v" and "utf8_shortest w v"
  shows "b # t = encode_utf8 v" and "utf8_range v"
proof -
  have cont: "list_all is_cont t" using assms(4) by (rule utf8_trail_InrD)
  have v: "unat v = trail_nat (unat (utf8_lead b)) (map unat t)"
    using utf8_trail_cont [OF cont, of "utf8_lead b" 1] utf8_lead_width [of b w] assms by auto
  have "map unat (b # t) = map unat (encode_utf8 v)"
    unfolding encode_utf8_unat using assms(5) by (intro utf8_bytes_nat [OF assms(1) cont assms(3) v]) (simp add: utf8_shortest_def)
  then show eq: "b # t = encode_utf8 v" by (rule map_unat_inj)
  have c: "\<exists>y. unat c - 0x80 = y \<and> y < 64" if "is_cont c" for c using that by (auto simp: is_cont_def)
  have lead: "unat (utf8_lead b) < (if w = 1 then 128 else if w = 2 then 32 else if w = 3 then 16 else 8)"
    using assms(1,2) by (auto simp: utf8_width_nat utf8_lead_nat split: if_splits)
  have "w \<le> 4" using assms(1) by (simp add: utf8_width_nat)
  then consider "w = 1" "t = []" | c where "w = 2" "t = [c]" | c d where "w = 3" "t = [c, d]" | c d f where "w = 4" "t = [c, d, f]"
    using assms(2,3) by (cases t; cases "tl t"; cases "tl (tl t)"; cases "tl (tl (tl t))") auto
  then show "utf8_range v"
  proof cases
    case 1
    then show ?thesis using v lead by (simp add: utf8_range_def)
  next
    case (2 c)
    then show ?thesis using v lead c [of c] cont by (auto simp: utf8_range_def)
  next
    case (3 c d)
    then show ?thesis using v lead c [of c] c [of d] cont by (auto simp: utf8_range_def)
  next
    case (4 c d f)
    then show ?thesis using v lead c [of c] c [of d] c [of f] cont by (auto simp: utf8_range_def)
  qed
qed

lemma check_utf8_encode: "utf8_range v \<Longrightarrow> yaml_check_utf8 (encode_utf8 v @ bs) = yaml_check_utf8 bs"
proof -
  assume v: "utf8_range v"
  obtain b t where t: "encode_utf8 v = b # t" by (cases "encode_utf8 v") (auto simp: encode_utf8_def split: if_splits)
  show ?thesis
    using encode_head [OF v t] unfolding t by (simp add: yaml_check_utf8.simps [of "b # t @ bs"] Let_def)
qed

lemma check_utf8_exact:
  "yaml_check_utf8 bs \<longleftrightarrow> (\<exists>vs. list_all utf8_range vs \<and> bs = concat (map encode_utf8 vs))"
proof
  assume "yaml_check_utf8 bs"
  then show "\<exists>vs. list_all utf8_range vs \<and> bs = concat (map encode_utf8 vs)"
  proof (induction bs rule: yaml_check_utf8.induct)
    case (1 bs)
    show ?case
    proof (cases bs)
      case Nil
      then show ?thesis by (intro exI [of _ "[]"]) simp
    next
      case (Cons b t)
      let ?w = "utf8_width b"
      from 1(2) obtain v where v: "0 < ?w" "?w \<le> length bs" "utf8_trail (utf8_lead b) 1 (take (?w - 1) t) = Inr v"
        "utf8_shortest ?w v" "yaml_check_utf8 (drop ?w bs)"
        unfolding yaml_check_utf8.simps [of bs] by (auto simp: Cons Let_def split: if_splits sum.splits)
      from 1(1) v Cons obtain vs where vs: "list_all utf8_range vs" "drop ?w bs = concat (map encode_utf8 vs)"
        by (auto simp: Let_def)
      have "length (take (?w - 1) t) = ?w - 1" using v(2) Cons by simp
      note enc = encode_head_sound [OF refl v(1) this v(3,4)]
      have "take ?w bs = b # take (?w - 1) t" using v(1) Cons by (cases ?w) auto
      then have "bs = encode_utf8 v @ drop ?w bs" using enc(1) by (metis append_take_drop_id)
      then show ?thesis using enc(2) vs by (intro exI [of _ "v # vs"]) simp
    qed
  qed
next
  assume "\<exists>vs. list_all utf8_range vs \<and> bs = concat (map encode_utf8 vs)"
  then obtain vs where "list_all utf8_range vs" "bs = concat (map encode_utf8 vs)" by blast
  then show "yaml_check_utf8 bs"
  proof (induction vs arbitrary: bs)
    case Nil
    then show ?case by (simp add: yaml_check_utf8.simps)
  qed (simp add: check_utf8_encode)
qed


section \<open>Strings of a call\<close>

text \<open>
  The calls of this part have no parser: their state is the number of requests that the allocator
  will still serve.  A failed call leaves the object it was given as it is.
\<close>

definition request :: "nat \<Rightarrow> (unit, nat) res" where
  "request h = (if h = 0 then Fail h else Ok () (h - 1))"

definition yaml_strdup :: "ystr \<Rightarrow> nat \<Rightarrow> (ystr, nat) res" where
  "yaml_strdup s h = res_bind (request h) (\<lambda>_ h. Ok (cstr s) h)"

definition checked_copy :: "ystr \<Rightarrow> nat \<Rightarrow> (ystr, nat) res" where
  "checked_copy s h = (if \<not> yaml_check_utf8 (cstr s) then Fail h else yaml_strdup s h)"

definition optional_copy :: "ystr option \<Rightarrow> nat \<Rightarrow> (ystr option, nat) res" where
  "optional_copy s h = (case s of None \<Rightarrow> Ok None h | Some s \<Rightarrow> res_bind (checked_copy s h) (\<lambda>s h. Ok (Some s) h))"

text \<open>The value of a scalar: up to its NUL if the length is negative.  It must have that many octets.\<close>

definition value_copy :: "ystr \<Rightarrow> int \<Rightarrow> nat \<Rightarrow> (ystr, nat) res" where
  "value_copy v len h =
     (let n = (if len < 0 then length (cstr v) else nat len) in
      if n > length v then Abort
      else if \<not> yaml_check_utf8 (take n v) then Fail h
      else res_bind (request h) (\<lambda>_ h. Ok (take n v) h))"

fun copy_tag_directives :: "yaml_tag_directive list \<Rightarrow> nat \<Rightarrow> (yaml_tag_directive list, nat) res" where
  "copy_tag_directives [] h = Ok [] h"
| "copy_tag_directives (td # tds) h =
     (if \<not> yaml_check_utf8 (cstr (td_handle td)) then Fail h
      else if \<not> yaml_check_utf8 (cstr (td_prefix td)) then Fail h
      else
        res_bind (yaml_strdup (td_handle td) h) (\<lambda>hd' h.
        res_bind (yaml_strdup (td_prefix td) h) (\<lambda>pf h.
        res_bind (request h) (\<lambda>_ h.
        res_bind (copy_tag_directives tds h) (\<lambda>tds h.
          Ok (\<lparr>td_handle = hd', td_prefix = pf\<rparr> # tds) h)))))"

definition copy_directives :: "yaml_version_directive option \<Rightarrow> yaml_tag_directive list \<Rightarrow> nat
    \<Rightarrow> (yaml_version_directive option \<times> yaml_tag_directive list, nat) res" where
  "copy_directives vd tds h =
     res_bind (if vd \<noteq> None then request h else Ok () h) (\<lambda>_ h.
     res_bind (if tds \<noteq> [] then res_bind (request h) (\<lambda>_ h. copy_tag_directives tds h) else Ok [] h) (\<lambda>tds h.
       Ok (vd, tds) h))"

section \<open>Events\<close>

definition plain_event :: "yaml_event_data \<Rightarrow> yaml_event" where
  "plain_event d = EVENT_INIT d zero_mark zero_mark"

definition yaml_stream_start_event_initialize :: "yaml_encoding \<Rightarrow> nat \<Rightarrow> (yaml_event, nat) res" where
  "yaml_stream_start_event_initialize enc h = Ok (plain_event (YAML_STREAM_START_EVENT enc)) h"

definition yaml_stream_end_event_initialize :: "nat \<Rightarrow> (yaml_event, nat) res" where
  "yaml_stream_end_event_initialize h = Ok (plain_event YAML_STREAM_END_EVENT) h"

definition yaml_document_start_event_initialize ::
  "yaml_version_directive option \<Rightarrow> yaml_tag_directive list \<Rightarrow> bool \<Rightarrow> nat \<Rightarrow> (yaml_event, nat) res" where
  "yaml_document_start_event_initialize vd tds impl h =
     res_bind (copy_directives vd tds h) (\<lambda>(vd, tds) h. Ok (plain_event (YAML_DOCUMENT_START_EVENT vd tds impl)) h)"

definition yaml_document_end_event_initialize :: "bool \<Rightarrow> nat \<Rightarrow> (yaml_event, nat) res" where
  "yaml_document_end_event_initialize impl h = Ok (plain_event (YAML_DOCUMENT_END_EVENT impl)) h"

definition yaml_alias_event_initialize :: "ystr \<Rightarrow> nat \<Rightarrow> (yaml_event, nat) res" where
  "yaml_alias_event_initialize a h = res_bind (checked_copy a h) (\<lambda>a h. Ok (plain_event (YAML_ALIAS_EVENT a)) h)"

definition yaml_scalar_event_initialize ::
  "ystr option \<Rightarrow> ystr option \<Rightarrow> ystr \<Rightarrow> int \<Rightarrow> bool \<Rightarrow> bool \<Rightarrow> yaml_scalar_style \<Rightarrow> nat \<Rightarrow> (yaml_event, nat) res" where
  "yaml_scalar_event_initialize a t v len p q style h =
     res_bind (optional_copy a h) (\<lambda>a h.
     res_bind (optional_copy t h) (\<lambda>t h.
     res_bind (value_copy v len h) (\<lambda>v h.
       Ok (plain_event (YAML_SCALAR_EVENT a t v p q style)) h)))"

definition yaml_sequence_start_event_initialize ::
  "ystr option \<Rightarrow> ystr option \<Rightarrow> bool \<Rightarrow> yaml_sequence_style \<Rightarrow> nat \<Rightarrow> (yaml_event, nat) res" where
  "yaml_sequence_start_event_initialize a t impl style h =
     res_bind (optional_copy a h) (\<lambda>a h.
     res_bind (optional_copy t h) (\<lambda>t h.
       Ok (plain_event (YAML_SEQUENCE_START_EVENT a t impl style)) h))"

definition yaml_sequence_end_event_initialize :: "nat \<Rightarrow> (yaml_event, nat) res" where
  "yaml_sequence_end_event_initialize h = Ok (plain_event YAML_SEQUENCE_END_EVENT) h"

definition yaml_mapping_start_event_initialize ::
  "ystr option \<Rightarrow> ystr option \<Rightarrow> bool \<Rightarrow> yaml_mapping_style \<Rightarrow> nat \<Rightarrow> (yaml_event, nat) res" where
  "yaml_mapping_start_event_initialize a t impl style h =
     res_bind (optional_copy a h) (\<lambda>a h.
     res_bind (optional_copy t h) (\<lambda>t h.
       Ok (plain_event (YAML_MAPPING_START_EVENT a t impl style)) h))"

definition yaml_mapping_end_event_initialize :: "nat \<Rightarrow> (yaml_event, nat) res" where
  "yaml_mapping_end_event_initialize h = Ok (plain_event YAML_MAPPING_END_EVENT) h"

text \<open>Deleting an event or a token frees its strings and clears the structure.\<close>

definition yaml_event_delete :: "yaml_event \<Rightarrow> yaml_event" where
  "yaml_event_delete e = no_event"

definition yaml_token_delete :: "yaml_token \<Rightarrow> yaml_token" where
  "yaml_token_delete t = TOKEN_INIT YAML_NO_TOKEN zero_mark zero_mark"

section \<open>Documents\<close>

definition yaml_document_initialize ::
  "yaml_version_directive option \<Rightarrow> yaml_tag_directive list \<Rightarrow> bool \<Rightarrow> bool \<Rightarrow> nat \<Rightarrow> (yaml_document, nat) res" where
  "yaml_document_initialize vd tds si ei h =
     res_bind (request h) (\<lambda>_ h.
     res_bind (copy_directives vd tds h) (\<lambda>(vd, tds) h.
       Ok \<lparr>nodes = [], version_directive = vd, doc_tag_directives = tds, start_implicit = si, end_implicit = ei,
           doc_start_mark = zero_mark, doc_end_mark = zero_mark\<rparr> h))"

definition yaml_document_delete :: "yaml_document \<Rightarrow> nat \<Rightarrow> (yaml_document, nat) res" where
  "yaml_document_delete d h = (if list_ex (\<lambda>nd. node_data nd = YAML_NO_NODE) (nodes d) then Abort else Ok zero_document h)"

definition yaml_document_get_node :: "yaml_document \<Rightarrow> int \<Rightarrow> yaml_node option" where
  "yaml_document_get_node d i =
     (if i > 0 \<and> i \<le> int (length (nodes d)) then Some (nodes d ! nat (i - 1)) else None)"

definition yaml_document_get_root_node :: "yaml_document \<Rightarrow> yaml_node option" where
  "yaml_document_get_root_node d = (case nodes d of [] \<Rightarrow> None | nd # _ \<Rightarrow> Some nd)"

definition add_node :: "yaml_document \<Rightarrow> yaml_node_data \<Rightarrow> ystr \<Rightarrow> nat \<Rightarrow> (int \<times> yaml_document, nat) res" where
  "add_node d nd tag h =
     res_bind (request h) (\<lambda>_ h.
       let d = d\<lparr>nodes := nodes d @ [\<lparr>node_data = nd, node_tag = tag, node_start_mark = zero_mark, node_end_mark = zero_mark\<rparr>]\<rparr>
       in Ok (int (length (nodes d)), d) h)"

definition tag_copy :: "string \<Rightarrow> ystr option \<Rightarrow> nat \<Rightarrow> (ystr, nat) res" where
  "tag_copy def tag h = checked_copy (case tag of None \<Rightarrow> octets def | Some t \<Rightarrow> t) h"

definition yaml_document_add_scalar ::
  "yaml_document \<Rightarrow> ystr option \<Rightarrow> ystr \<Rightarrow> int \<Rightarrow> yaml_scalar_style \<Rightarrow> nat \<Rightarrow> (int \<times> yaml_document, nat) res" where
  "yaml_document_add_scalar d tag v len style h =
     res_bind (tag_copy YAML_STR_TAG tag h) (\<lambda>tag h.
     res_bind (value_copy v len h) (\<lambda>v h. add_node d (YAML_SCALAR_NODE v style) tag h))"

definition yaml_document_add_sequence ::
  "yaml_document \<Rightarrow> ystr option \<Rightarrow> yaml_sequence_style \<Rightarrow> nat \<Rightarrow> (int \<times> yaml_document, nat) res" where
  "yaml_document_add_sequence d tag style h =
     res_bind (tag_copy YAML_SEQ_TAG tag h) (\<lambda>tag h.
     res_bind (request h) (\<lambda>_ h. add_node d (YAML_SEQUENCE_NODE [] style) tag h))"

definition yaml_document_add_mapping ::
  "yaml_document \<Rightarrow> ystr option \<Rightarrow> yaml_mapping_style \<Rightarrow> nat \<Rightarrow> (int \<times> yaml_document, nat) res" where
  "yaml_document_add_mapping d tag style h =
     res_bind (tag_copy YAML_MAP_TAG tag h) (\<lambda>tag h.
     res_bind (request h) (\<lambda>_ h. add_node d (YAML_MAPPING_NODE [] style) tag h))"

definition valid_id :: "yaml_document \<Rightarrow> int \<Rightarrow> bool" where
  "valid_id d i \<longleftrightarrow> i > 0 \<and> i \<le> int (length (nodes d))"

definition yaml_document_append_sequence_item ::
  "yaml_document \<Rightarrow> int \<Rightarrow> int \<Rightarrow> nat \<Rightarrow> (yaml_document, nat) res" where
  "yaml_document_append_sequence_item d seq item h =
     (if \<not> valid_id d seq then Abort
      else case node_data (nodes d ! nat (seq - 1)) of
        YAML_SEQUENCE_NODE items style \<Rightarrow>
          if \<not> valid_id d item then Abort
          else res_bind (request h) (\<lambda>_ h.
            Ok (set_doc_node seq ((nodes d ! nat (seq - 1))\<lparr>node_data := YAML_SEQUENCE_NODE (items @ [item]) style\<rparr>) d) h)
      | _ \<Rightarrow> Abort)"

definition yaml_document_append_mapping_pair ::
  "yaml_document \<Rightarrow> int \<Rightarrow> int \<Rightarrow> int \<Rightarrow> nat \<Rightarrow> (yaml_document, nat) res" where
  "yaml_document_append_mapping_pair d mapping key v h =
     (if \<not> valid_id d mapping then Abort
      else case node_data (nodes d ! nat (mapping - 1)) of
        YAML_MAPPING_NODE pairs style \<Rightarrow>
          if \<not> valid_id d key \<or> \<not> valid_id d v then Abort
          else res_bind (request h) (\<lambda>_ h.
            Ok (set_doc_node mapping ((nodes d ! nat (mapping - 1))\<lparr>node_data := YAML_MAPPING_NODE (pairs @ [(key, v)]) style\<rparr>) d) h)
      | _ \<Rightarrow> Abort)"

section \<open>Documents stay valid\<close>

definition doc_valid :: "yaml_document \<Rightarrow> bool" where
  "doc_valid d \<longleftrightarrow> list_all (\<lambda>nd. child_ok (int (length (nodes d))) (view nd)) (nodes d)"

text \<open>What a call that changes a document may do: it only adds.\<close>

fun extends_data :: "yaml_node_data \<Rightarrow> yaml_node_data \<Rightarrow> bool" where
  "extends_data (YAML_SEQUENCE_NODE xs s) (YAML_SEQUENCE_NODE ys s') = (s' = s \<and> prefix xs ys)"
| "extends_data (YAML_MAPPING_NODE xs s) (YAML_MAPPING_NODE ys s') = (s' = s \<and> prefix xs ys)"
| "extends_data a b = (a = b)"

definition extends_node :: "yaml_node \<Rightarrow> yaml_node \<Rightarrow> bool" where
  "extends_node a b \<longleftrightarrow> node_tag b = node_tag a \<and> extends_data (node_data a) (node_data b)"

definition extends_doc :: "yaml_document \<Rightarrow> yaml_document \<Rightarrow> bool" where
  "extends_doc d d' \<longleftrightarrow> list_all2 extends_node (nodes d) (take (length (nodes d)) (nodes d')) \<and> length (nodes d) \<le> length (nodes d')"

lemma extends_data_refl [simp]: "extends_data a a"
  by (cases a) auto

lemma extends_node_refl [simp]: "extends_node a a"
  by (simp add: extends_node_def)

inductive doc_call :: "yaml_document \<Rightarrow> yaml_document \<Rightarrow> bool" where
  call_scalar: "yaml_document_add_scalar d t v len s h = Ok (i, d') h' \<Longrightarrow> doc_call d d'"
| call_sequence: "yaml_document_add_sequence d t ss h = Ok (i, d') h' \<Longrightarrow> doc_call d d'"
| call_mapping: "yaml_document_add_mapping d t ms h = Ok (i, d') h' \<Longrightarrow> doc_call d d'"
| call_item: "yaml_document_append_sequence_item d j k h = Ok d' h' \<Longrightarrow> doc_call d d'"
| call_pair: "yaml_document_append_mapping_pair d j k l h = Ok d' h' \<Longrightarrow> doc_call d d'"

lemma add_node_Ok:
  assumes "add_node d nd tag h = Ok (i, d') h'"
  shows "nodes d' = nodes d @ [\<lparr>node_data = nd, node_tag = tag, node_start_mark = zero_mark, node_end_mark = zero_mark\<rparr>]"
    and "i = int (length (nodes d'))"
  using assms by (auto simp: add_node_def request_def Let_def split: if_splits)

lemma add_node_valid:
  assumes "add_node d nd tag h = Ok (i, d') h'" and "doc_valid d" and "child_ok (int (length (nodes d)) + 1) (nd, tag)"
  shows "doc_valid d' \<and> extends_doc d d'"
proof -
  have "list_all (\<lambda>nd. child_ok (int (length (nodes d)) + 1) (view nd)) (nodes d)"
    using assms(2) by (auto simp: doc_valid_def list_all_iff intro: child_ok_longer)
  then show ?thesis
    using add_node_Ok [OF assms(1)] assms(3)
    by (auto simp: doc_valid_def extends_doc_def view_def list.rel_refl add.commute)
qed

lemma set_node_valid:
  assumes "doc_valid d" and "valid_id d i" and "extends_data (node_data (nodes d ! nat (i - 1))) nd"
    and "child_ok (int (length (nodes d))) (nd, node_tag (nodes d ! nat (i - 1)))"
  shows "doc_valid (set_doc_node i ((nodes d ! nat (i - 1))\<lparr>node_data := nd\<rparr>) d)
    \<and> extends_doc d (set_doc_node i ((nodes d ! nat (i - 1))\<lparr>node_data := nd\<rparr>) d)"
proof -
  have "nat (i - 1) < length (nodes d)" using assms(2) by (auto simp: valid_id_def)
  then show ?thesis
    using assms
    by (auto simp: doc_valid_def set_doc_node_def extends_doc_def list_all_iff list_all2_conv_all_nth nth_list_update extends_node_def view_def
        dest!: set_update_subset_insert [THEN subsetD])
qed

lemma node_valid: "doc_valid d \<Longrightarrow> valid_id d i \<Longrightarrow> child_ok (int (length (nodes d))) (view (nodes d ! nat (i - 1)))"
  by (auto simp: doc_valid_def list_all_iff valid_id_def)

lemma doc_call_valid:
  assumes "doc_call d d'" and "doc_valid d"
  shows "doc_valid d' \<and> extends_doc d d'"
  using assms
proof (induction rule: doc_call.induct)
  case (call_scalar d t v len s h i d' h')
  then show ?case
    by (auto simp: yaml_document_add_scalar_def res_bind_eq_Ok child_ok_def elim!: add_node_valid)
next
  case (call_sequence d t ss h i d' h')
  then show ?case
    by (auto simp: yaml_document_add_sequence_def res_bind_eq_Ok child_ok_def elim!: add_node_valid)
next
  case (call_mapping d t ms h i d' h')
  then show ?case
    by (auto simp: yaml_document_add_mapping_def res_bind_eq_Ok child_ok_def elim!: add_node_valid)
next
  case (call_item d j k h d' h')
  then obtain items style where c: "valid_id d j" "node_data (nodes d ! nat (j - 1)) = YAML_SEQUENCE_NODE items style" "valid_id d k"
    "d' = set_doc_node j ((nodes d ! nat (j - 1))\<lparr>node_data := YAML_SEQUENCE_NODE (items @ [k]) style\<rparr>) d"
    by (auto simp: yaml_document_append_sequence_item_def res_bind_eq_Ok split: if_splits yaml_node_data.splits)
  show ?case
    unfolding c(4) using node_valid [OF call_item.prems c(1)] c(2,3)
    by (intro set_node_valid [OF call_item.prems c(1)]) (auto simp: child_ok_def view_def valid_id_def)
next
  case (call_pair d j k l h d' h')
  then obtain pairs style where c: "valid_id d j" "node_data (nodes d ! nat (j - 1)) = YAML_MAPPING_NODE pairs style" "valid_id d k" "valid_id d l"
    "d' = set_doc_node j ((nodes d ! nat (j - 1))\<lparr>node_data := YAML_MAPPING_NODE (pairs @ [(k, l)]) style\<rparr>) d"
    by (auto simp: yaml_document_append_mapping_pair_def res_bind_eq_Ok split: if_splits yaml_node_data.splits)
  show ?case
    unfolding c(5) using node_valid [OF call_pair.prems c(1)] c(2-4)
    by (intro set_node_valid [OF call_pair.prems c(1)]) (auto simp: child_ok_def view_def valid_id_def)
qed

text \<open>The documents that calls of the library build.\<close>

inductive built :: "yaml_document \<Rightarrow> bool" where
  built_initialize: "yaml_document_initialize vd tds si ei h = Ok d h' \<Longrightarrow> built d"
| built_call: "built d \<Longrightarrow> doc_call d d' \<Longrightarrow> built d'"

lemma built_valid: "built d \<Longrightarrow> doc_valid d"
proof (induction rule: built.induct)
  case (built_initialize vd tds si ei h d h')
  then show ?case by (auto simp: yaml_document_initialize_def res_bind_eq_Ok doc_valid_def)
qed (simp add: doc_call_valid)

section \<open>Properties\<close>

text \<open>
  (C30) What \<open>yaml_check_utf8\<close> accepts: exactly the strings that encode a sequence of values below
  \<open>0x200000\<close> in shortest form.  Every string of Unicode characters is among them, but so are
  surrogates and values above \<open>0x10FFFF\<close>, which the reader rejects.
\<close>

theorem check_utf8_accepts:
  "yaml_check_utf8 bs \<longleftrightarrow> (\<exists>vs. list_all (\<lambda>v. unat v < 0x200000) vs \<and> bs = concat (map encode_utf8 vs))"
  unfolding check_utf8_exact utf8_range_def ..

text \<open>
  (C31) Documents that are built by calls of the library: every reference in a node is the index
  of a node of the document, and deleting the document meets no node without a type.
\<close>

theorem document_api_valid:
  assumes "built d" and "yaml_document_get_node d i = Some nd"
  shows "(case node_data nd of
       YAML_SEQUENCE_NODE js _ \<Rightarrow> list_all (\<lambda>j. yaml_document_get_node d j \<noteq> None) js
     | YAML_MAPPING_NODE ps _ \<Rightarrow> list_all (\<lambda>(j, k). yaml_document_get_node d j \<noteq> None \<and> yaml_document_get_node d k \<noteq> None) ps
     | YAML_SCALAR_NODE _ _ \<Rightarrow> True
     | YAML_NO_NODE \<Rightarrow> False) \<and> yaml_document_delete d h = Ok zero_document h"
proof -
  have v: "doc_valid d" using assms(1) by (rule built_valid)
  have "nd \<in> set (nodes d)" using assms(2) by (auto simp: yaml_document_get_node_def split: if_splits)
  then have "child_ok (int (length (nodes d))) (view nd)" using v by (simp add: doc_valid_def list_all_iff)
  moreover have "\<not> list_ex (\<lambda>nd. node_data nd = YAML_NO_NODE) (nodes d)"
    using v by (auto simp: doc_valid_def list_all_iff list_ex_iff child_ok_def view_def)
  ultimately show ?thesis
    by (auto simp: child_ok_def view_def yaml_document_get_node_def yaml_document_delete_def list_all_iff split: yaml_node_data.splits)
qed

definition demo_document :: yaml_document where
  "demo_document = (case yaml_document_initialize None [] True True 9 of Ok d _ \<Rightarrow>
     (case yaml_document_add_sequence d None YAML_ANY_SEQUENCE_STYLE 9 of Ok (_, d) _ \<Rightarrow>
       (case yaml_document_append_sequence_item d 1 1 9 of Ok d _ \<Rightarrow> d | _ \<Rightarrow> zero_document) | _ \<Rightarrow> zero_document) | _ \<Rightarrow> zero_document)"

lemma demo_document: "built demo_document"
  "\<exists>nd. yaml_document_get_node demo_document 1 = Some nd \<and> node_data nd = YAML_SEQUENCE_NODE [1] YAML_ANY_SEQUENCE_STYLE"
proof -
  obtain d h where d: "yaml_document_initialize None [] True True 9 = Ok d h"
    by (simp add: yaml_document_initialize_def request_def copy_directives_def)
  have nd: "nodes d = []" using d by (auto simp: yaml_document_initialize_def request_def copy_directives_def)
  have "yaml_check_utf8 (cstr (octets YAML_SEQ_TAG))" by code_simp
  then obtain i d' h' where d': "yaml_document_add_sequence d None YAML_ANY_SEQUENCE_STYLE 9 = Ok (i, d') h'"
    by (simp add: yaml_document_add_sequence_def tag_copy_def checked_copy_def yaml_strdup_def request_def add_node_def Let_def)
  then have nd': "\<exists>nd. nodes d' = [nd] \<and> node_data nd = YAML_SEQUENCE_NODE [] YAML_ANY_SEQUENCE_STYLE"
    using nd by (auto simp: yaml_document_add_sequence_def res_bind_eq_Ok dest!: add_node_Ok(1))
  then obtain d'' h'' where d'': "yaml_document_append_sequence_item d' 1 1 9 = Ok d'' h''"
    by (auto simp: yaml_document_append_sequence_item_def valid_id_def request_def)
  have eq: "demo_document = d''" using d d' d'' by (simp add: demo_document_def)
  show "built demo_document"
    unfolding eq by (rule built_call [OF built_call [OF built_initialize [OF d] call_sequence [OF d']] call_item [OF d'']])
  show "\<exists>nd. yaml_document_get_node demo_document 1 = Some nd \<and> node_data nd = YAML_SEQUENCE_NODE [1] YAML_ANY_SEQUENCE_STYLE"
    unfolding eq using d'' nd'
    by (auto simp: yaml_document_append_sequence_item_def valid_id_def request_def yaml_document_get_node_def set_doc_node_def)
qed

theorem document_api_valid_witness:
  "\<exists>nd. yaml_document_get_node demo_document 1 = Some nd \<and> list_all (\<lambda>j. yaml_document_get_node demo_document j \<noteq> None) [1]
     \<and> yaml_document_delete demo_document 0 = Ok zero_document 0"
  using document_api_valid [OF demo_document(1), of 1 _ 0] demo_document(2) by fastforce

text \<open>
  (C32) Calls only add: after a successful call every index that was handed out before still names
  a node of the same type and tag, whose items or pairs are at most continued.
\<close>

theorem document_api_extends:
  assumes "built d" and "doc_call d d'" and "yaml_document_get_node d i = Some nd"
  shows "\<exists>nd'. yaml_document_get_node d' i = Some nd' \<and> extends_node nd nd'"
proof -
  have e: "extends_doc d d'" using doc_call_valid [OF assms(2)] built_valid [OF assms(1)] by simp
  have i: "0 < i" "i \<le> int (length (nodes d))" "nd = nodes d ! nat (i - 1)"
    using assms(3) by (auto simp: yaml_document_get_node_def split: if_splits)
  then have "nat (i - 1) < length (nodes d)" by auto
  then show ?thesis
    using e i by (auto simp: extends_doc_def list_all2_conv_all_nth yaml_document_get_node_def)
qed

theorem document_api_extends_witness:
  "\<exists>nd nd' d'. yaml_document_get_node demo_document 1 = Some nd \<and> doc_call demo_document d'
     \<and> yaml_document_get_node d' 1 = Some nd' \<and> extends_node nd nd'"
proof -
  obtain nd where nd: "yaml_document_get_node demo_document 1 = Some nd" "node_data nd = YAML_SEQUENCE_NODE [1] YAML_ANY_SEQUENCE_STYLE"
    using demo_document(2) by blast
  then obtain d' h where d': "yaml_document_append_sequence_item demo_document 1 1 1 = Ok d' h"
    by (auto simp: yaml_document_append_sequence_item_def valid_id_def request_def yaml_document_get_node_def split: if_splits)
  then show ?thesis using document_api_extends [OF demo_document(1) call_item [OF d'] nd(1)] nd(1) call_item [OF d'] by blast
qed

text \<open>
  Adding a node: the index that a successful call returns is new and names the node, with
  the given value, and every check of the strings was passed.
\<close>

theorem add_scalar_get_node:
  assumes "yaml_document_add_scalar d tag v len style h = Ok (i, d') h'"
  shows "yaml_document_get_node d i = None \<and> (\<exists>nd. yaml_document_get_node d' i = Some nd
    \<and> node_data nd = YAML_SCALAR_NODE (if len < 0 then cstr v else take (nat len) v) style
    \<and> node_tag nd = cstr (case tag of None \<Rightarrow> octets YAML_STR_TAG | Some t \<Rightarrow> t)
    \<and> yaml_check_utf8 (if len < 0 then cstr v else take (nat len) v) \<and> yaml_check_utf8 (node_tag nd))"
proof -
  have c: "take (length (cstr v)) v = cstr v" by (metis append_eq_conv_conj cstr_def takeWhile_dropWhile_id)
  obtain tg h1 v1 h2 where s: "tag_copy YAML_STR_TAG tag h = Ok tg h1" "value_copy v len h1 = Ok v1 h2" "add_node d (YAML_SCALAR_NODE v1 style) tg h2 = Ok (i, d') h'"
    using assms by (auto simp: yaml_document_add_scalar_def res_bind_eq_Ok)
  have "v1 = (if len < 0 then cstr v else take (nat len) v)" "yaml_check_utf8 v1"
    using s(2) c by (auto simp: value_copy_def request_def Let_def split: if_splits)
  moreover have "tg = cstr (case tag of None \<Rightarrow> octets YAML_STR_TAG | Some t \<Rightarrow> t)" "yaml_check_utf8 tg"
    using s(1) by (auto simp: tag_copy_def checked_copy_def yaml_strdup_def request_def split: if_splits)
  ultimately show ?thesis using add_node_Ok [OF s(3)] by (auto simp: yaml_document_get_node_def)
qed

theorem add_scalar_get_node_witness:
  "\<exists>i d' h' nd. yaml_document_add_scalar zero_document None (octets ''ab'') 1 YAML_ANY_SCALAR_STYLE 9 = Ok (i, d') h'
     \<and> yaml_document_get_node d' i = Some nd \<and> node_data nd = YAML_SCALAR_NODE (octets ''a'') YAML_ANY_SCALAR_STYLE"
proof -
  have "(case yaml_document_add_scalar zero_document None (octets ''ab'') 1 YAML_ANY_SCALAR_STYLE 9 of Ok _ _ \<Rightarrow> True | _ \<Rightarrow> False)" by code_simp
  then obtain i d' h' where a: "yaml_document_add_scalar zero_document None (octets ''ab'') 1 YAML_ANY_SCALAR_STYLE 9 = Ok (i, d') h'"
    by (auto split: res.splits)
  then show ?thesis using add_scalar_get_node [OF a] by (auto simp: octets_def)
qed

end
