(* ===== verification/Yaml_Emit_Text.thy ===== *)
theory Yaml_Emit_Text
  imports Yaml_Writer Yaml_Scanner
begin

text \<open>
  The lower half of \<^verbatim>\<open>src/emitter.c\<close>: the emitter structure, the macros that put characters into
  the output buffer, and the functions that write indentation, indicators, anchors, tags and
  scalars in each of their styles.  Lines and columns are unbounded integers.
\<close>

section \<open>Data\<close>

datatype yaml_break = YAML_ANY_BREAK | YAML_CR_BREAK | YAML_LN_BREAK | YAML_CRLN_BREAK

datatype yaml_emitter_state =
    YAML_EMIT_STREAM_START_STATE
  | YAML_EMIT_FIRST_DOCUMENT_START_STATE
  | YAML_EMIT_DOCUMENT_START_STATE
  | YAML_EMIT_DOCUMENT_CONTENT_STATE
  | YAML_EMIT_DOCUMENT_END_STATE
  | YAML_EMIT_FLOW_SEQUENCE_FIRST_ITEM_STATE
  | YAML_EMIT_FLOW_SEQUENCE_ITEM_STATE
  | YAML_EMIT_FLOW_MAPPING_FIRST_KEY_STATE
  | YAML_EMIT_FLOW_MAPPING_KEY_STATE
  | YAML_EMIT_FLOW_MAPPING_SIMPLE_VALUE_STATE
  | YAML_EMIT_FLOW_MAPPING_VALUE_STATE
  | YAML_EMIT_BLOCK_SEQUENCE_FIRST_ITEM_STATE
  | YAML_EMIT_BLOCK_SEQUENCE_ITEM_STATE
  | YAML_EMIT_BLOCK_MAPPING_FIRST_KEY_STATE
  | YAML_EMIT_BLOCK_MAPPING_KEY_STATE
  | YAML_EMIT_BLOCK_MAPPING_SIMPLE_VALUE_STATE
  | YAML_EMIT_BLOCK_MAPPING_VALUE_STATE
  | YAML_EMIT_END_STATE

text \<open>What was found out about the event at the head of the queue.\<close>

record yaml_scalar_data =
  sd_value :: ystr
  multiline :: bool
  flow_plain_allowed :: bool
  block_plain_allowed :: bool
  single_quoted_allowed :: bool
  block_allowed :: bool
  sd_style :: yaml_scalar_style

record yaml_anchors =
  references :: int
  anchor_id :: int
  serialized :: bool

record 'w yaml_emitter = "'w yaml_emitter_writer" +
  em_heap :: nat
  canonical :: bool
  best_indent :: int
  best_width :: int
  unicode :: bool
  line_break :: yaml_break
  em_states :: "yaml_emitter_state list"
  em_state :: yaml_emitter_state
  events :: "yaml_event list"
  em_indents :: "int list"
  em_tag_directives :: "yaml_tag_directive list"
  em_indent :: int
  em_flow_level :: int
  root_context :: bool
  sequence_context :: bool
  mapping_context :: bool
  simple_key_context :: bool
  em_line :: int
  em_column :: int
  whitespace :: bool
  indention :: bool
  open_ended :: int
  anchor_data :: "ystr option"
  anchor_alias :: bool
  tag_handle :: "ystr option"
  tag_suffix :: "ystr option"
  scalar_data :: yaml_scalar_data
  opened :: bool
  closed :: bool
  em_anchors :: "yaml_anchors list option"
  last_anchor_id :: int
  em_document :: "yaml_document option"

type_synonym ('a, 'w) emit = "'w yaml_emitter \<Rightarrow> ('a, 'w yaml_emitter) res"

section \<open>Errors and stacks\<close>

definition yaml_emitter_set_emitter_error :: "'w yaml_emitter \<Rightarrow> string \<Rightarrow> ('a, 'w yaml_emitter) res" where
  "yaml_emitter_set_emitter_error E msg = Fail (E\<lparr>em_error := YAML_EMITTER_ERROR, em_problem := Some msg\<rparr>)"

definition em_allocate :: "(unit, 'w) emit" where
  "em_allocate E =
     (if em_heap E = 0 then Fail (E\<lparr>em_error := YAML_MEMORY_ERROR\<rparr>) else Ok () (E\<lparr>em_heap := em_heap E - 1\<rparr>))"

definition push_em_state :: "yaml_emitter_state \<Rightarrow> (unit, 'w) emit" where
  "push_em_state s E = res_bind (em_allocate E) (\<lambda>_ E. Ok () (E\<lparr>em_states := em_states E @ [s]\<rparr>))"

definition pop_em_state :: "(unit, 'w) emit" where
  "pop_em_state E =
     (if em_states E = [] then Abort
      else Ok () (E\<lparr>em_state := last (em_states E), em_states := butlast (em_states E)\<rparr>))"

definition pop_indent :: "(unit, 'w) emit" where
  "pop_indent E =
     (if em_indents E = [] then Abort
      else Ok () (E\<lparr>em_indent := last (em_indents E), em_indents := butlast (em_indents E)\<rparr>))"

section \<open>Strings\<close>

text \<open>
  A string is the list of its octets from the pointer to the end; behind the end there is a NUL.
\<close>

definition octet :: "ystr \<Rightarrow> nat \<Rightarrow> byte" where
  "octet s k = (if k < length s then s ! k else 0)"

definition str_check :: "ystr \<Rightarrow> char \<Rightarrow> bool" where
  "str_check s c \<longleftrightarrow> octet s 0 = of_char c"

definition one_of :: "ystr \<Rightarrow> string \<Rightarrow> bool" where
  "one_of s cs \<longleftrightarrow> octet s 0 \<in> set (octets cs)"

definition str_alpha :: "ystr \<Rightarrow> bool" where
  "str_alpha s \<longleftrightarrow> (let b = octet s 0 in
     in_range b CHR ''0'' CHR ''9'' \<or> in_range b CHR ''A'' CHR ''Z'' \<or> in_range b CHR ''a'' CHR ''z''
     \<or> b = of_char CHR ''_'' \<or> b = of_char CHR ''-'')"

definition str_ascii :: "ystr \<Rightarrow> bool" where
  "str_ascii s \<longleftrightarrow> octet s 0 \<le> 0x7F"

definition str_printable :: "ystr \<Rightarrow> bool" where
  "str_printable s \<longleftrightarrow>
     octet s 0 = 0x0A \<or> (octet s 0 \<ge> 0x20 \<and> octet s 0 \<le> 0x7E)
     \<or> (octet s 0 = 0xC2 \<and> octet s 1 \<ge> 0xA0)
     \<or> (octet s 0 > 0xC2 \<and> octet s 0 < 0xED)
     \<or> (octet s 0 = 0xED \<and> octet s 1 < 0xA0)
     \<or> octet s 0 = 0xEE
     \<or> (octet s 0 = 0xEF \<and> \<not> (octet s 1 = 0xBB \<and> octet s 2 = 0xBF)
        \<and> \<not> (octet s 1 = 0xBF \<and> (octet s 2 = 0xBE \<or> octet s 2 = 0xBF)))"

definition str_bom :: "ystr \<Rightarrow> bool" where
  "str_bom s \<longleftrightarrow> octet s 0 = 0xEF \<and> octet s 1 = 0xBB \<and> octet s 2 = 0xBF"

definition str_space_at :: "ystr \<Rightarrow> nat \<Rightarrow> bool" where
  "str_space_at s k \<longleftrightarrow> octet s k = 0x20"

definition str_break_at :: "ystr \<Rightarrow> nat \<Rightarrow> bool" where
  "str_break_at s k \<longleftrightarrow> octet s k = 0x0D \<or> octet s k = 0x0A
     \<or> (octet s k = 0xC2 \<and> octet s (k + 1) = 0x85)
     \<or> (octet s k = 0xE2 \<and> octet s (k + 1) = 0x80 \<and> octet s (k + 2) = 0xA8)
     \<or> (octet s k = 0xE2 \<and> octet s (k + 1) = 0x80 \<and> octet s (k + 2) = 0xA9)"

definition str_blankz_at :: "ystr \<Rightarrow> nat \<Rightarrow> bool" where
  "str_blankz_at s k \<longleftrightarrow> octet s k = 0x20 \<or> octet s k = 0x09 \<or> str_break_at s k \<or> octet s k = 0"

definition str_width :: "ystr \<Rightarrow> nat" where
  "str_width s = utf8_width (octet s 0)"

text \<open>
  The loops over a string move by one character in every turn.  On an octet that starts no
  character they do not move at all, and a character that is cut off carries the pointer over the
  end.
\<close>

function for_chars :: "('s \<Rightarrow> ystr \<Rightarrow> ('s, 'w) emit) \<Rightarrow> 's \<Rightarrow> ystr \<Rightarrow> ('s, 'w) emit" where
  "for_chars f x s E =
     (if s = [] then Ok x E
      else if str_width s = 0 then Hang
      else if length s < str_width s then Abort
      else res_bind (f x s E) (\<lambda>x E. for_chars f x (drop (str_width s) s) E))"
  by pat_completeness auto
termination
  by (relation "measure (\<lambda>(f, x, s, E). length s)") auto

declare for_chars.simps [simp del]

section \<open>Writing\<close>

definition FLUSH :: "(unit, 'w) emit" where
  "FLUSH E = (if length (em_buffer E) + 5 < OUTPUT_BUFFER_SIZE then Ok () E else yaml_emitter_flush E)"

definition PUT :: "byte \<Rightarrow> (unit, 'w) emit" where
  "PUT b E = res_bind (FLUSH E) (\<lambda>_ E. Ok () (E\<lparr>em_buffer := em_buffer E @ [b], em_column := em_column E + 1\<rparr>))"

definition break_octets :: "yaml_break \<Rightarrow> byte list" where
  "break_octets lb = (case lb of YAML_CR_BREAK \<Rightarrow> [0x0D] | YAML_LN_BREAK \<Rightarrow> [0x0A] | YAML_CRLN_BREAK \<Rightarrow> [0x0D, 0x0A]
     | YAML_ANY_BREAK \<Rightarrow> [])"

definition PUT_BREAK :: "(unit, 'w) emit" where
  "PUT_BREAK E = res_bind (FLUSH E) (\<lambda>_ E.
     Ok () (E\<lparr>em_buffer := em_buffer E @ break_octets (line_break E), em_column := 0, em_line := em_line E + 1\<rparr>))"

definition WRITE :: "ystr \<Rightarrow> (unit, 'w) emit" where
  "WRITE s E = res_bind (FLUSH E) (\<lambda>_ E.
     Ok () (E\<lparr>em_buffer := em_buffer E @ take (str_width s) s, em_column := em_column E + 1\<rparr>))"

text \<open>The result of the inner \<open>PUT_BREAK\<close> is not looked at.\<close>

definition WRITE_BREAK :: "ystr \<Rightarrow> (unit, 'w) emit" where
  "WRITE_BREAK s E = res_bind (FLUSH E) (\<lambda>_ E.
     if str_check s (CHR 0x0A) then (case PUT_BREAK E of Fail E \<Rightarrow> Ok () E | r \<Rightarrow> r)
     else Ok () (E\<lparr>em_buffer := em_buffer E @ take (str_width s) s, em_column := 0, em_line := em_line E + 1\<rparr>))"

fun put_octets :: "byte list \<Rightarrow> (unit, 'w) emit" where
  "put_octets [] E = Ok () E"
| "put_octets (b # bs) E = res_bind (PUT b E) (\<lambda>_ E. put_octets bs E)"

definition write_string :: "ystr \<Rightarrow> (unit, 'w) emit" where
  "write_string s E = for_chars (\<lambda>_ s E. WRITE s E) () s E"

definition yaml_emitter_write_bom :: "(unit, 'w) emit" where
  "yaml_emitter_write_bom E = res_bind (FLUSH E) (\<lambda>_ E. Ok () (E\<lparr>em_buffer := em_buffer E @ [0xEF, 0xBB, 0xBF]\<rparr>))"

definition yaml_emitter_write_indent :: "(unit, 'w) emit" where
  "yaml_emitter_write_indent E =
     (let ind = (if em_indent E \<ge> 0 then em_indent E else 0) in
      res_bind
        (if \<not> indention E \<or> em_column E > ind \<or> (em_column E = ind \<and> \<not> whitespace E) then PUT_BREAK E else Ok () E)
        (\<lambda>_ E. res_bind (put_octets (replicate (nat (ind - em_column E)) 0x20) E)
        (\<lambda>_ E. Ok () (E\<lparr>whitespace := True, indention := True\<rparr>))))"

definition put_space :: "bool \<Rightarrow> (unit, 'w) emit" where
  "put_space need E = (if need \<and> \<not> whitespace E then PUT 0x20 E else Ok () E)"

definition yaml_emitter_write_indicator :: "string \<Rightarrow> bool \<Rightarrow> bool \<Rightarrow> bool \<Rightarrow> (unit, 'w) emit" where
  "yaml_emitter_write_indicator indicator need_whitespace is_whitespace is_indention E =
     res_bind (put_space need_whitespace E) (\<lambda>_ E.
     res_bind (write_string (octets indicator) E) (\<lambda>_ E.
       Ok () (E\<lparr>whitespace := is_whitespace, indention := indention E \<and> is_indention\<rparr>)))"

text \<open>The end of most writers.\<close>

definition written :: "(unit, 'w) emit" where
  "written E = Ok () (E\<lparr>whitespace := False, indention := False\<rparr>)"

definition yaml_emitter_write_anchor :: "ystr \<Rightarrow> (unit, 'w) emit" where
  "yaml_emitter_write_anchor v E = res_bind (write_string v E) (\<lambda>_ E. written E)"

definition yaml_emitter_write_tag_handle :: "ystr \<Rightarrow> (unit, 'w) emit" where
  "yaml_emitter_write_tag_handle v E =
     res_bind (put_space True E) (\<lambda>_ E. res_bind (write_string v E) (\<lambda>_ E. written E))"

definition hex_digit :: "32 word \<Rightarrow> byte" where
  "hex_digit d = ucast (d + (if d < 10 then 48 else 65 - 10))"

definition percent_octets :: "byte \<Rightarrow> byte list" where
  "percent_octets b = (let v = ucast b :: 32 word in [0x25, hex_digit (drop_bit 4 v), hex_digit (v AND 0x0F)])"

definition plain_in_tag :: "ystr \<Rightarrow> bool" where
  "plain_in_tag s \<longleftrightarrow> str_alpha s \<or> one_of s '';/?:@&=+$,_.~*'' \<or> octet s 0 = 39 \<or> one_of s ''()[]''"

definition yaml_emitter_write_tag_content :: "ystr \<Rightarrow> bool \<Rightarrow> (unit, 'w) emit" where
  "yaml_emitter_write_tag_content v need_whitespace E =
     res_bind (put_space need_whitespace E) (\<lambda>_ E.
     res_bind (for_chars (\<lambda>_ s E.
         if plain_in_tag s then WRITE s E
         else put_octets (concat (map percent_octets (take (str_width s) s))) E) () v E) (\<lambda>_ E. written E))"

section \<open>Writing scalars\<close>

text \<open>A line break in a plain or quoted scalar; the state is \<open>(spaces, breaks)\<close>.\<close>

definition write_scalar_break :: "bool \<Rightarrow> ystr \<Rightarrow> (unit, 'w) emit" where
  "write_scalar_break breaks s E =
     res_bind (if \<not> breaks \<and> str_check s (CHR 0x0A) then PUT_BREAK E else Ok () E) (\<lambda>_ E.
     res_bind (WRITE_BREAK s E) (\<lambda>_ E. Ok () (E\<lparr>indention := True\<rparr>)))"

definition indent_if :: "bool \<Rightarrow> (unit, 'w) emit" where
  "indent_if b E = (if b then yaml_emitter_write_indent E else Ok () E)"

definition plain_char :: "bool \<Rightarrow> bool \<times> bool \<Rightarrow> ystr \<Rightarrow> (bool \<times> bool, 'w) emit" where
  "plain_char allow_breaks x s E =
     (case x of (spaces, breaks) \<Rightarrow>
      if str_space_at s 0 then
        res_bind (if allow_breaks \<and> \<not> spaces \<and> em_column E > best_width E \<and> \<not> str_space_at s 1
                  then yaml_emitter_write_indent E else WRITE s E) (\<lambda>_ E. Ok (True, breaks) E)
      else if str_break_at s 0 then res_bind (write_scalar_break breaks s E) (\<lambda>_ E. Ok (spaces, True) E)
      else
        res_bind (indent_if breaks E) (\<lambda>_ E.
        res_bind (WRITE s E) (\<lambda>_ E. Ok (False, False) (E\<lparr>indention := False\<rparr>))))"

definition yaml_emitter_write_plain_scalar :: "ystr \<Rightarrow> bool \<Rightarrow> (unit, 'w) emit" where
  "yaml_emitter_write_plain_scalar v allow_breaks E =
     res_bind (put_space (v \<noteq> [] \<or> em_flow_level E \<noteq> 0) E) (\<lambda>_ E.
     res_bind (for_chars (plain_char allow_breaks) (False, False) v E) (\<lambda>_ E. written E))"

definition single_quoted_char :: "bool \<Rightarrow> nat \<Rightarrow> bool \<times> bool \<Rightarrow> ystr \<Rightarrow> (bool \<times> bool, 'w) emit" where
  "single_quoted_char allow_breaks n x s E =
     (case x of (spaces, breaks) \<Rightarrow>
      if str_space_at s 0 then
        res_bind (if allow_breaks \<and> \<not> spaces \<and> em_column E > best_width E \<and> length s \<noteq> n \<and> length s \<noteq> 1
                    \<and> \<not> str_space_at s 1
                  then yaml_emitter_write_indent E else WRITE s E) (\<lambda>_ E. Ok (True, breaks) E)
      else if str_break_at s 0 then res_bind (write_scalar_break breaks s E) (\<lambda>_ E. Ok (spaces, True) E)
      else
        res_bind (indent_if breaks E) (\<lambda>_ E.
        res_bind (if octet s 0 = 39 then PUT 39 E else Ok () E) (\<lambda>_ E.
        res_bind (WRITE s E) (\<lambda>_ E. Ok (False, False) (E\<lparr>indention := False\<rparr>)))))"

definition yaml_emitter_write_single_quoted_scalar :: "ystr \<Rightarrow> bool \<Rightarrow> (unit, 'w) emit" where
  "yaml_emitter_write_single_quoted_scalar v allow_breaks E =
     res_bind (yaml_emitter_write_indicator [CHR 39] True False False E) (\<lambda>_ E.
     res_bind (for_chars (single_quoted_char allow_breaks (length v)) (False, False) v E) (\<lambda>(_, breaks) E.
     res_bind (indent_if breaks E) (\<lambda>_ E.
     res_bind (yaml_emitter_write_indicator [CHR 39] False False False E) (\<lambda>_ E. written E))))"

definition must_escape :: "bool \<Rightarrow> ystr \<Rightarrow> bool" where
  "must_escape uni s \<longleftrightarrow> \<not> str_printable s \<or> (\<not> uni \<and> \<not> str_ascii s) \<or> str_bom s \<or> str_break_at s 0
     \<or> str_check s CHR 34 \<or> str_check s CHR 92"

definition escape_hex :: "32 word \<Rightarrow> nat \<Rightarrow> byte list" where
  "escape_hex v n = map (\<lambda>i. hex_digit (drop_bit (4 * i) v AND 0x0F)) (rev [0..<n])"

definition escape_octets :: "32 word \<Rightarrow> byte list" where
  "escape_octets v =
     (if v = 0x00 then octets ''0'' else if v = 0x07 then octets ''a'' else if v = 0x08 then octets ''b''
      else if v = 0x09 then octets ''t'' else if v = 0x0A then octets ''n'' else if v = 0x0B then octets ''v''
      else if v = 0x0C then octets ''f'' else if v = 0x0D then octets ''r'' else if v = 0x1B then octets ''e''
      else if v = 0x22 then [0x22] else if v = 0x5C then [0x5C] else if v = 0x85 then octets ''N''
      else if v = 0xA0 then octets ''_'' else if v = 0x2028 then octets ''L'' else if v = 0x2029 then octets ''P''
      else if v \<le> 0xFF then octets ''x'' @ escape_hex v 2
      else if v \<le> 0xFFFF then octets ''u'' @ escape_hex v 4
      else octets ''U'' @ escape_hex v 8)"

definition double_quoted_char :: "bool \<Rightarrow> nat \<Rightarrow> bool \<Rightarrow> ystr \<Rightarrow> (bool, 'w) emit" where
  "double_quoted_char allow_breaks n spaces s E =
     (if must_escape (unicode E) s then
        res_bind (put_octets (0x5C # escape_octets (writer_value s)) E) (\<lambda>_ E. Ok False E)
      else if str_space_at s 0 then
        res_bind
          (if allow_breaks \<and> \<not> spaces \<and> em_column E > best_width E \<and> length s \<noteq> n \<and> length s \<noteq> 1 then
             res_bind (yaml_emitter_write_indent E) (\<lambda>_ E. if str_space_at s 1 then PUT 0x5C E else Ok () E)
           else WRITE s E) (\<lambda>_ E. Ok True E)
      else res_bind (WRITE s E) (\<lambda>_ E. Ok False E))"

definition yaml_emitter_write_double_quoted_scalar :: "ystr \<Rightarrow> bool \<Rightarrow> (unit, 'w) emit" where
  "yaml_emitter_write_double_quoted_scalar v allow_breaks E =
     res_bind (yaml_emitter_write_indicator [CHR 34] True False False E) (\<lambda>_ E.
     res_bind (for_chars (double_quoted_char allow_breaks (length v)) False v E) (\<lambda>_ E.
     res_bind (yaml_emitter_write_indicator [CHR 34] False False False E) (\<lambda>_ E. written E)))"

text \<open>Moving back to the start of the character before position \<open>k\<close>.\<close>

fun step_back :: "ystr \<Rightarrow> nat \<Rightarrow> nat option" where
  "step_back s 0 = None"
| "step_back s (Suc k) = (if octet s k AND 0xC0 = 0x80 then step_back s k else Some k)"

text \<open>The chomping indicator and the new value of \<open>open_ended\<close>.\<close>

definition chomp_hint :: "ystr \<Rightarrow> (string option \<times> int) option" where
  "chomp_hint s =
     (if s = [] then Some (Some ''-'', 0)
      else case step_back s (length s) of None \<Rightarrow> None
        | Some k \<Rightarrow>
            if \<not> str_break_at s k then Some (Some ''-'', 0)
            else if k = 0 then Some (Some ''+'', 2)
            else case step_back s k of None \<Rightarrow> None
              | Some k \<Rightarrow> if str_break_at s k then Some (Some ''+'', 2) else Some (None, 0))"

definition yaml_emitter_write_block_scalar_hints :: "ystr \<Rightarrow> (unit, 'w) emit" where
  "yaml_emitter_write_block_scalar_hints s E =
     res_bind
       (if str_space_at s 0 \<or> str_break_at s 0
        then yaml_emitter_write_indicator [char_of (48 + nat (best_indent E))] False False False E else Ok () E)
       (\<lambda>_ E. case chomp_hint s of None \<Rightarrow> Abort
         | Some (hint, oe) \<Rightarrow>
             let E = E\<lparr>open_ended := oe\<rparr> in
             (case hint of None \<Rightarrow> Ok () E | Some h \<Rightarrow> yaml_emitter_write_indicator h False False False E))"

definition write_block_header :: "string \<Rightarrow> ystr \<Rightarrow> (unit, 'w) emit" where
  "write_block_header indicator v E =
     res_bind (yaml_emitter_write_indicator indicator True False False E) (\<lambda>_ E.
     res_bind (yaml_emitter_write_block_scalar_hints v E) (\<lambda>_ E.
     res_bind (PUT_BREAK E) (\<lambda>_ E. Ok () (E\<lparr>indention := True, whitespace := True\<rparr>))))"

definition literal_char :: "bool \<Rightarrow> ystr \<Rightarrow> (bool, 'w) emit" where
  "literal_char breaks s E =
     (if str_break_at s 0 then res_bind (WRITE_BREAK s E) (\<lambda>_ E. Ok True (E\<lparr>indention := True\<rparr>))
      else res_bind (indent_if breaks E) (\<lambda>_ E. res_bind (WRITE s E) (\<lambda>_ E. Ok False (E\<lparr>indention := False\<rparr>))))"

definition yaml_emitter_write_literal_scalar :: "ystr \<Rightarrow> (unit, 'w) emit" where
  "yaml_emitter_write_literal_scalar v E =
     res_bind (write_block_header ''|'' v E) (\<lambda>_ E.
     res_bind (for_chars literal_char True v E) (\<lambda>_ E. Ok () E))"

text \<open>The position behind the line breaks that start at \<open>k\<close>.\<close>

function skip_breaks :: "ystr \<Rightarrow> nat \<Rightarrow> nat" where
  "skip_breaks s k = (if k < length s \<and> str_break_at s k then skip_breaks s (k + utf8_width (octet s k)) else k)"
  by pat_completeness auto
termination
proof (relation "measure (\<lambda>(s, k). length s - k)")
  fix s k assume "k < length s \<and> str_break_at s k"
  moreover from this have "0 < utf8_width (octet s k)" by (auto simp: str_break_at_def utf8_width_def)
  ultimately show "((s, k + utf8_width (octet s k)), s, k) \<in> measure (\<lambda>(s, k). length s - k)" by auto
qed simp

declare skip_breaks.simps [simp del]

definition folded_char :: "bool \<times> bool \<Rightarrow> ystr \<Rightarrow> (bool \<times> bool, 'w) emit" where
  "folded_char x s E =
     (case x of (breaks, leading_spaces) \<Rightarrow>
      if str_break_at s 0 then
        res_bind
          (if \<not> breaks \<and> \<not> leading_spaces \<and> str_check s (CHR 0x0A) \<and> \<not> str_blankz_at s (skip_breaks s 0)
           then PUT_BREAK E else Ok () E) (\<lambda>_ E.
        res_bind (WRITE_BREAK s E) (\<lambda>_ E. Ok (True, leading_spaces) (E\<lparr>indention := True\<rparr>)))
      else
        let leading_spaces = (if breaks then str_space_at s 0 \<or> octet s 0 = 0x09 else leading_spaces) in
        res_bind (indent_if breaks E) (\<lambda>_ E.
        res_bind (if \<not> breaks \<and> str_space_at s 0 \<and> \<not> str_space_at s 1 \<and> em_column E > best_width E
                  then yaml_emitter_write_indent E else WRITE s E) (\<lambda>_ E.
          Ok (False, leading_spaces) (E\<lparr>indention := False\<rparr>))))"

definition yaml_emitter_write_folded_scalar :: "ystr \<Rightarrow> (unit, 'w) emit" where
  "yaml_emitter_write_folded_scalar v E =
     res_bind (write_block_header ''>'' v E) (\<lambda>_ E.
     res_bind (for_chars folded_char (True, True) v E) (\<lambda>_ E. Ok () E))"

end
