(* ===== verification/Yaml_Emit_Analysis.thy ===== *)
theory Yaml_Emit_Analysis
  imports Yaml_Emit_Text Yaml_Parser
begin

text \<open>
  The middle of \<^verbatim>\<open>src/emitter.c\<close>: the analysis of the event at the head of the queue, the choice
  of a style for a scalar, the test for simple keys, and the writing of the anchor, the tag and
  the scalar that were analyzed.
\<close>

section \<open>Analyzers\<close>

definition yaml_emitter_analyze_version_directive :: "yaml_version_directive \<Rightarrow> (unit, 'w) emit" where
  "yaml_emitter_analyze_version_directive vd E =
     (if major vd \<noteq> 1 \<or> (minor vd \<noteq> 1 \<and> minor vd \<noteq> 2)
      then yaml_emitter_set_emitter_error E ''incompatible %YAML directive'' else Ok () E)"

definition all_alpha :: "ystr \<Rightarrow> bool" where
  "all_alpha s \<longleftrightarrow> list_all (\<lambda>b. str_alpha [b]) s"

definition yaml_emitter_analyze_tag_directive :: "yaml_tag_directive \<Rightarrow> (unit, 'w) emit" where
  "yaml_emitter_analyze_tag_directive td E =
     (let handle = cstr (td_handle td); prefix = cstr (td_prefix td) in
      if handle = [] then yaml_emitter_set_emitter_error E ''tag handle must not be empty''
      else if hd handle \<noteq> 33 then yaml_emitter_set_emitter_error E (''tag handle must start with '' @ [CHR 39, CHR ''!'', CHR 39])
      else if last handle \<noteq> 33 then yaml_emitter_set_emitter_error E (''tag handle must end with '' @ [CHR 39, CHR ''!'', CHR 39])
      else if \<not> all_alpha (butlast (tl handle))
        then yaml_emitter_set_emitter_error E ''tag handle must contain alphanumerical characters only''
      else if prefix = [] then yaml_emitter_set_emitter_error E ''tag prefix must not be empty''
      else Ok () E)"

definition yaml_emitter_analyze_anchor :: "ystr \<Rightarrow> bool \<Rightarrow> (unit, 'w) emit" where
  "yaml_emitter_analyze_anchor anchor al E =
     (let s = cstr anchor in
      if s = [] then yaml_emitter_set_emitter_error E
        (if al then ''alias value must not be empty'' else ''anchor value must not be empty'')
      else if \<not> all_alpha s then yaml_emitter_set_emitter_error E
        (if al then ''alias value must contain alphanumerical characters only''
         else ''anchor value must contain alphanumerical characters only'')
      else Ok () (E\<lparr>anchor_data := Some s, anchor_alias := al\<rparr>))"

text \<open>The first directive whose prefix is a proper prefix of the tag.\<close>

fun find_prefix :: "yaml_tag_directive list \<Rightarrow> ystr \<Rightarrow> (ystr \<times> ystr) option" where
  "find_prefix [] s = None"
| "find_prefix (td # tds) s =
     (let prefix = cstr (td_prefix td) in
      if length prefix < length s \<and> take (length prefix) s = prefix
      then Some (cstr (td_handle td), drop (length prefix) s) else find_prefix tds s)"

definition yaml_emitter_analyze_tag :: "ystr \<Rightarrow> (unit, 'w) emit" where
  "yaml_emitter_analyze_tag tag E =
     (let s = cstr tag in
      if s = [] then yaml_emitter_set_emitter_error E ''tag value must not be empty''
      else case find_prefix (em_tag_directives E) s of
        Some (handle, suffix) \<Rightarrow> Ok () (E\<lparr>tag_handle := Some handle, tag_suffix := Some suffix\<rparr>)
      | None \<Rightarrow> Ok () (E\<lparr>tag_suffix := Some s\<rparr>))"

text \<open>What the loop over the characters of a scalar collects.\<close>

record scalar_flags =
  block_indicators :: bool
  flow_indicators :: bool
  line_breaks :: bool
  special_characters :: bool
  leading_space :: bool
  leading_break :: bool
  trailing_space :: bool
  trailing_break :: bool
  break_space :: bool
  space_break :: bool
  preceded_by_whitespace :: bool
  followed_by_whitespace :: bool
  previous_space :: bool
  previous_break :: bool

definition no_flags :: scalar_flags where
  "no_flags = \<lparr>block_indicators = False, flow_indicators = False, line_breaks = False, special_characters = False,
     leading_space = False, leading_break = False, trailing_space = False, trailing_break = False,
     break_space = False, space_break = False, preceded_by_whitespace = False, followed_by_whitespace = False,
     previous_space = False, previous_break = False\<rparr>"

definition document_indicator :: "ystr \<Rightarrow> bool" where
  "document_indicator s \<longleftrightarrow>
     (octet s 0 = 45 \<and> octet s 1 = 45 \<and> octet s 2 = 45) \<or> (octet s 0 = 46 \<and> octet s 1 = 46 \<and> octet s 2 = 46)"

definition flag_indicators :: "bool \<Rightarrow> ystr \<Rightarrow> scalar_flags \<Rightarrow> scalar_flags" where
  "flag_indicators first s F =
     (if first then
        let F = (if one_of s ''#,[]{}&*!|>%@`'' \<or> octet s 0 = 39 \<or> octet s 0 = 34
                 then F\<lparr>flow_indicators := True, block_indicators := True\<rparr> else F);
            F = (if one_of s ''?:''
                 then F\<lparr>flow_indicators := True, block_indicators := block_indicators F \<or> followed_by_whitespace F\<rparr> else F)
        in (if str_check s CHR ''-'' \<and> followed_by_whitespace F
            then F\<lparr>flow_indicators := True, block_indicators := True\<rparr> else F)
      else
        let F = (if one_of s '',?[]{}'' then F\<lparr>flow_indicators := True\<rparr> else F);
            F = (if str_check s CHR '':''
                 then F\<lparr>flow_indicators := True, block_indicators := block_indicators F \<or> followed_by_whitespace F\<rparr> else F)
        in (if str_check s CHR ''#'' \<and> preceded_by_whitespace F
            then F\<lparr>flow_indicators := True, block_indicators := True\<rparr> else F))"

definition flag_spaces :: "bool \<Rightarrow> ystr \<Rightarrow> scalar_flags \<Rightarrow> scalar_flags" where
  "flag_spaces first s F =
     (if str_space_at s 0 then
        F\<lparr>leading_space := leading_space F \<or> first,
          trailing_space := trailing_space F \<or> length s = str_width s,
          break_space := break_space F \<or> previous_break F,
          previous_space := True, previous_break := False\<rparr>
      else if str_break_at s 0 then
        F\<lparr>leading_break := leading_break F \<or> first,
          trailing_break := trailing_break F \<or> length s = str_width s,
          space_break := space_break F \<or> previous_space F,
          previous_space := False, previous_break := True\<rparr>
      else F\<lparr>previous_space := False, previous_break := False\<rparr>)"

definition flag_char :: "bool \<Rightarrow> nat \<Rightarrow> scalar_flags \<Rightarrow> ystr \<Rightarrow> scalar_flags" where
  "flag_char uni n F s =
     (let first = (length s = n);
          F = flag_indicators first s F;
          F = F\<lparr>special_characters := special_characters F \<or> \<not> str_printable s \<or> (\<not> str_ascii s \<and> \<not> uni),
                line_breaks := line_breaks F \<or> str_break_at s 0\<rparr>;
          F = (flag_spaces first s F)\<lparr>preceded_by_whitespace := str_blankz_at s 0\<rparr>;
          s = drop (str_width s) s
      in if s = [] then F else F\<lparr>followed_by_whitespace := str_blankz_at s (str_width s)\<rparr>)"

definition allowed_styles :: "ystr \<Rightarrow> scalar_flags \<Rightarrow> yaml_scalar_data \<Rightarrow> yaml_scalar_data" where
  "allowed_styles v F D =
     (let edge = leading_space F \<or> leading_break F \<or> trailing_space F \<or> trailing_break F;
          bad = space_break F \<or> special_characters F;
          plain = \<not> edge \<and> \<not> break_space F \<and> \<not> bad \<and> \<not> line_breaks F
      in D\<lparr>sd_value := v, multiline := line_breaks F,
           flow_plain_allowed := plain \<and> \<not> flow_indicators F,
           block_plain_allowed := plain \<and> \<not> block_indicators F,
           single_quoted_allowed := \<not> break_space F \<and> \<not> bad,
           block_allowed := \<not> trailing_space F \<and> \<not> bad\<rparr>)"

definition yaml_emitter_analyze_scalar :: "ystr \<Rightarrow> (unit, 'w) emit" where
  "yaml_emitter_analyze_scalar v E =
     (if v = [] then
        Ok () (E\<lparr>scalar_data := (scalar_data E)\<lparr>sd_value := v, multiline := False, flow_plain_allowed := False,
          block_plain_allowed := True, single_quoted_allowed := True, block_allowed := False\<rparr>\<rparr>)
      else
        let F = no_flags\<lparr>block_indicators := document_indicator v, flow_indicators := document_indicator v,
              preceded_by_whitespace := True, followed_by_whitespace := str_blankz_at v (str_width v)\<rparr>
        in res_bind (for_chars (\<lambda>F s E. Ok (flag_char (unicode E) (length v) F s) E) F v E) (\<lambda>F E.
             Ok () (E\<lparr>scalar_data := allowed_styles v F (scalar_data E)\<rparr>)))"

definition analyze_opt :: "('a \<Rightarrow> (unit, 'w) emit) \<Rightarrow> 'a option \<Rightarrow> (unit, 'w) emit" where
  "analyze_opt f x E = (case x of None \<Rightarrow> Ok () E | Some x \<Rightarrow> f x E)"

definition yaml_emitter_analyze_event :: "yaml_event_data \<Rightarrow> (unit, 'w) emit" where
  "yaml_emitter_analyze_event ev E =
     (let E = E\<lparr>anchor_data := None, tag_handle := None, tag_suffix := None,
                scalar_data := (scalar_data E)\<lparr>sd_value := []\<rparr>\<rparr>;
          node = (\<lambda>anchor tag tagged E.
            res_bind (analyze_opt (\<lambda>a. yaml_emitter_analyze_anchor a False) anchor E) (\<lambda>_ E.
              if tagged then analyze_opt yaml_emitter_analyze_tag tag E else Ok () E))
      in case ev of
        YAML_ALIAS_EVENT anchor \<Rightarrow> yaml_emitter_analyze_anchor anchor True E
      | YAML_SCALAR_EVENT anchor tag v plain_implicit quoted_implicit style \<Rightarrow>
          res_bind (node anchor tag (canonical E \<or> (\<not> plain_implicit \<and> \<not> quoted_implicit)) E) (\<lambda>_ E.
            yaml_emitter_analyze_scalar v E)
      | YAML_SEQUENCE_START_EVENT anchor tag implicit style \<Rightarrow> node anchor tag (canonical E \<or> \<not> implicit) E
      | YAML_MAPPING_START_EVENT anchor tag implicit style \<Rightarrow> node anchor tag (canonical E \<or> \<not> implicit) E
      | _ \<Rightarrow> Ok () E)"

section \<open>Checkers and processors\<close>

definition yaml_emitter_check_empty_document :: "'w yaml_emitter \<Rightarrow> bool" where
  "yaml_emitter_check_empty_document E = False"

fun yaml_emitter_check_empty_sequence :: "yaml_event_data list \<Rightarrow> bool" where
  "yaml_emitter_check_empty_sequence (YAML_SEQUENCE_START_EVENT _ _ _ _ # YAML_SEQUENCE_END_EVENT # _) = True"
| "yaml_emitter_check_empty_sequence _ = False"

fun yaml_emitter_check_empty_mapping :: "yaml_event_data list \<Rightarrow> bool" where
  "yaml_emitter_check_empty_mapping (YAML_MAPPING_START_EVENT _ _ _ _ # YAML_MAPPING_END_EVENT # _) = True"
| "yaml_emitter_check_empty_mapping _ = False"

definition opt_length :: "ystr option \<Rightarrow> nat" where
  "opt_length s = (case s of None \<Rightarrow> 0 | Some s \<Rightarrow> length s)"

definition yaml_emitter_check_simple_key :: "'w yaml_emitter \<Rightarrow> bool" where
  "yaml_emitter_check_simple_key E =
     (let evs = map ev_data (events E);
          properties = opt_length (anchor_data E) + opt_length (tag_handle E) + opt_length (tag_suffix E)
      in case evs of [] \<Rightarrow> False | ev # _ \<Rightarrow>
         (case ev of
            YAML_ALIAS_EVENT _ \<Rightarrow> opt_length (anchor_data E) \<le> 128
          | YAML_SCALAR_EVENT _ _ _ _ _ _ \<Rightarrow>
              \<not> multiline (scalar_data E) \<and> properties + length (sd_value (scalar_data E)) \<le> 128
          | YAML_SEQUENCE_START_EVENT _ _ _ _ \<Rightarrow> yaml_emitter_check_empty_sequence evs \<and> properties \<le> 128
          | YAML_MAPPING_START_EVENT _ _ _ _ \<Rightarrow> yaml_emitter_check_empty_mapping evs \<and> properties \<le> 128
          | _ \<Rightarrow> False))"

text \<open>The style a scalar is written in, from the requested one.\<close>

definition choose_style :: "'w yaml_emitter \<Rightarrow> bool \<Rightarrow> bool \<Rightarrow> yaml_scalar_style \<Rightarrow> yaml_scalar_style" where
  "choose_style E no_tag plain_implicit style =
     (let D = scalar_data E;
          style = (if style = YAML_ANY_SCALAR_STYLE then YAML_PLAIN_SCALAR_STYLE else style);
          style = (if canonical E then YAML_DOUBLE_QUOTED_SCALAR_STYLE else style);
          style = (if simple_key_context E \<and> multiline D then YAML_DOUBLE_QUOTED_SCALAR_STYLE else style);
          style = (if style = YAML_PLAIN_SCALAR_STYLE
                     \<and> ((em_flow_level E \<noteq> 0 \<and> \<not> flow_plain_allowed D)
                        \<or> (em_flow_level E = 0 \<and> \<not> block_plain_allowed D)
                        \<or> (sd_value D = [] \<and> (em_flow_level E \<noteq> 0 \<or> simple_key_context E))
                        \<or> (no_tag \<and> \<not> plain_implicit))
                   then YAML_SINGLE_QUOTED_SCALAR_STYLE else style);
          style = (if style = YAML_SINGLE_QUOTED_SCALAR_STYLE \<and> \<not> single_quoted_allowed D
                   then YAML_DOUBLE_QUOTED_SCALAR_STYLE else style)
      in if (style = YAML_LITERAL_SCALAR_STYLE \<or> style = YAML_FOLDED_SCALAR_STYLE)
           \<and> (\<not> block_allowed D \<or> em_flow_level E \<noteq> 0 \<or> simple_key_context E)
         then YAML_DOUBLE_QUOTED_SCALAR_STYLE else style)"

definition yaml_emitter_select_scalar_style :: "bool \<Rightarrow> bool \<Rightarrow> yaml_scalar_style \<Rightarrow> (unit, 'w) emit" where
  "yaml_emitter_select_scalar_style plain_implicit quoted_implicit style E =
     (let no_tag = (tag_handle E = None \<and> tag_suffix E = None) in
      if no_tag \<and> \<not> plain_implicit \<and> \<not> quoted_implicit
      then yaml_emitter_set_emitter_error E ''neither tag nor implicit flags are specified''
      else
        let style = choose_style E no_tag plain_implicit style;
            E = (if no_tag \<and> \<not> quoted_implicit \<and> style \<noteq> YAML_PLAIN_SCALAR_STYLE
                 then E\<lparr>tag_handle := Some (octets ''!'')\<rparr> else E)
        in Ok () (E\<lparr>scalar_data := (scalar_data E)\<lparr>sd_style := style\<rparr>\<rparr>))"

definition yaml_emitter_process_anchor :: "(unit, 'w) emit" where
  "yaml_emitter_process_anchor E =
     (case anchor_data E of None \<Rightarrow> Ok () E
      | Some a \<Rightarrow>
          res_bind (yaml_emitter_write_indicator (if anchor_alias E then ''*'' else ''&'') True False False E) (\<lambda>_ E.
            yaml_emitter_write_anchor a E))"

definition yaml_emitter_process_tag :: "(unit, 'w) emit" where
  "yaml_emitter_process_tag E =
     (case tag_handle E of
        Some h \<Rightarrow>
          res_bind (yaml_emitter_write_tag_handle h E) (\<lambda>_ E.
            (case tag_suffix E of None \<Rightarrow> Ok () E | Some s \<Rightarrow> yaml_emitter_write_tag_content s False E))
      | None \<Rightarrow>
          (case tag_suffix E of None \<Rightarrow> Ok () E
           | Some s \<Rightarrow>
               res_bind (yaml_emitter_write_indicator ''!<'' True False False E) (\<lambda>_ E.
               res_bind (yaml_emitter_write_tag_content s False E) (\<lambda>_ E.
                 yaml_emitter_write_indicator ''>'' False False False E))))"

definition yaml_emitter_process_scalar :: "(unit, 'w) emit" where
  "yaml_emitter_process_scalar E =
     (let v = sd_value (scalar_data E); allow_breaks = (\<not> simple_key_context E) in
      case sd_style (scalar_data E) of
        YAML_PLAIN_SCALAR_STYLE \<Rightarrow> yaml_emitter_write_plain_scalar v allow_breaks E
      | YAML_SINGLE_QUOTED_SCALAR_STYLE \<Rightarrow> yaml_emitter_write_single_quoted_scalar v allow_breaks E
      | YAML_DOUBLE_QUOTED_SCALAR_STYLE \<Rightarrow> yaml_emitter_write_double_quoted_scalar v allow_breaks E
      | YAML_LITERAL_SCALAR_STYLE \<Rightarrow> yaml_emitter_write_literal_scalar v E
      | YAML_FOLDED_SCALAR_STYLE \<Rightarrow> yaml_emitter_write_folded_scalar v E
      | YAML_ANY_SCALAR_STYLE \<Rightarrow> Fail E)"

end
