(* ===== verification/Yaml_Emitter.thy ===== *)
theory Yaml_Emitter
  imports Yaml_Emit_Analysis
begin

text \<open>
  The upper half of \<^verbatim>\<open>src/emitter.c\<close>: the queue of events, the states of the emitter and the
  dispatcher, and from \<^verbatim>\<open>src/api.c\<close> the creation of an emitter, its settings and its output.
  Events are handed to the states without their marks, which the emitter does not look at.
\<close>

section \<open>The queue of events\<close>

fun level_step :: "yaml_event_data \<Rightarrow> int" where
  "level_step (YAML_STREAM_START_EVENT _) = 1"
| "level_step (YAML_DOCUMENT_START_EVENT _ _ _) = 1"
| "level_step (YAML_SEQUENCE_START_EVENT _ _ _ _) = 1"
| "level_step (YAML_MAPPING_START_EVENT _ _ _ _) = 1"
| "level_step YAML_STREAM_END_EVENT = -1"
| "level_step (YAML_DOCUMENT_END_EVENT _) = -1"
| "level_step YAML_SEQUENCE_END_EVENT = -1"
| "level_step YAML_MAPPING_END_EVENT = -1"
| "level_step _ = 0"

text \<open>Does the level come back to zero within the queue?\<close>

fun level_closes :: "int \<Rightarrow> yaml_event_data list \<Rightarrow> bool" where
  "level_closes level [] = False"
| "level_closes level (e # es) = (level + level_step e = 0 \<or> level_closes (level + level_step e) es)"

definition accumulate :: "yaml_event_data \<Rightarrow> nat option" where
  "accumulate e = (case e of YAML_DOCUMENT_START_EVENT _ _ _ \<Rightarrow> Some 1 | YAML_SEQUENCE_START_EVENT _ _ _ _ \<Rightarrow> Some 2
     | YAML_MAPPING_START_EVENT _ _ _ _ \<Rightarrow> Some 3 | _ \<Rightarrow> None)"

definition yaml_emitter_need_more_events :: "yaml_event_data list \<Rightarrow> bool" where
  "yaml_emitter_need_more_events es =
     (case es of [] \<Rightarrow> True
      | e # _ \<Rightarrow> (case accumulate e of None \<Rightarrow> False | Some n \<Rightarrow> length es \<le> n \<and> \<not> level_closes 0 es))"

section \<open>Directives and indentation\<close>

definition yaml_emitter_append_tag_directive :: "bool \<Rightarrow> yaml_tag_directive \<Rightarrow> (unit, 'w) emit" where
  "yaml_emitter_append_tag_directive allow_duplicates td E =
     (if list_ex (\<lambda>t. cstr (td_handle td) = cstr (td_handle t)) (em_tag_directives E) then
        if allow_duplicates then Ok () E else yaml_emitter_set_emitter_error E ''duplicate %TAG directive''
      else
        res_bind (em_allocate E) (\<lambda>_ E.
        res_bind (em_allocate E) (\<lambda>_ E.
        res_bind (em_allocate E) (\<lambda>_ E.
          Ok () (E\<lparr>em_tag_directives := em_tag_directives E @
            [\<lparr>td_handle = cstr (td_handle td), td_prefix = cstr (td_prefix td)\<rparr>]\<rparr>)))))"

definition yaml_emitter_increase_indent :: "bool \<Rightarrow> bool \<Rightarrow> (unit, 'w) emit" where
  "yaml_emitter_increase_indent flow indentless E =
     res_bind (em_allocate E) (\<lambda>_ E.
       let E = E\<lparr>em_indents := em_indents E @ [em_indent E]\<rparr> in
       Ok () (if em_indent E < 0 then E\<lparr>em_indent := if flow then best_indent E else 0\<rparr>
              else if \<not> indentless then E\<lparr>em_indent := em_indent E + best_indent E\<rparr> else E))"

section \<open>Nodes\<close>

definition yaml_emitter_emit_alias :: "(unit, 'w) emit" where
  "yaml_emitter_emit_alias E =
     res_bind (yaml_emitter_process_anchor E) (\<lambda>_ E.
     res_bind (if simple_key_context E then PUT 0x20 E else Ok () E) (\<lambda>_ E. pop_em_state E))"

definition yaml_emitter_emit_scalar :: "bool \<Rightarrow> bool \<Rightarrow> yaml_scalar_style \<Rightarrow> (unit, 'w) emit" where
  "yaml_emitter_emit_scalar plain_implicit quoted_implicit style E =
     res_bind (yaml_emitter_select_scalar_style plain_implicit quoted_implicit style E) (\<lambda>_ E.
     res_bind (yaml_emitter_process_anchor E) (\<lambda>_ E.
     res_bind (yaml_emitter_process_tag E) (\<lambda>_ E.
     res_bind (yaml_emitter_increase_indent True False E) (\<lambda>_ E.
     res_bind (yaml_emitter_process_scalar E) (\<lambda>_ E.
     res_bind (pop_indent E) (\<lambda>_ E. pop_em_state E))))))"

definition yaml_emitter_emit_sequence_start :: "yaml_sequence_style \<Rightarrow> (unit, 'w) emit" where
  "yaml_emitter_emit_sequence_start style E =
     res_bind (yaml_emitter_process_anchor E) (\<lambda>_ E.
     res_bind (yaml_emitter_process_tag E) (\<lambda>_ E.
       Ok () (E\<lparr>em_state :=
         (if em_flow_level E \<noteq> 0 \<or> canonical E \<or> style = YAML_FLOW_SEQUENCE_STYLE
             \<or> yaml_emitter_check_empty_sequence (map ev_data (events E))
          then YAML_EMIT_FLOW_SEQUENCE_FIRST_ITEM_STATE else YAML_EMIT_BLOCK_SEQUENCE_FIRST_ITEM_STATE)\<rparr>)))"

definition yaml_emitter_emit_mapping_start :: "yaml_mapping_style \<Rightarrow> (unit, 'w) emit" where
  "yaml_emitter_emit_mapping_start style E =
     res_bind (yaml_emitter_process_anchor E) (\<lambda>_ E.
     res_bind (yaml_emitter_process_tag E) (\<lambda>_ E.
       Ok () (E\<lparr>em_state :=
         (if em_flow_level E \<noteq> 0 \<or> canonical E \<or> style = YAML_FLOW_MAPPING_STYLE
             \<or> yaml_emitter_check_empty_mapping (map ev_data (events E))
          then YAML_EMIT_FLOW_MAPPING_FIRST_KEY_STATE else YAML_EMIT_BLOCK_MAPPING_FIRST_KEY_STATE)\<rparr>)))"

definition yaml_emitter_emit_node ::
  "yaml_event_data \<Rightarrow> bool \<Rightarrow> bool \<Rightarrow> bool \<Rightarrow> bool \<Rightarrow> (unit, 'w) emit" where
  "yaml_emitter_emit_node ev root sequence mapping simple_key E =
     (let E = E\<lparr>root_context := root, sequence_context := sequence, mapping_context := mapping,
                simple_key_context := simple_key\<rparr>
      in case ev of
        YAML_ALIAS_EVENT _ \<Rightarrow> yaml_emitter_emit_alias E
      | YAML_SCALAR_EVENT _ _ _ pi qi style \<Rightarrow> yaml_emitter_emit_scalar pi qi style E
      | YAML_SEQUENCE_START_EVENT _ _ _ style \<Rightarrow> yaml_emitter_emit_sequence_start style E
      | YAML_MAPPING_START_EVENT _ _ _ style \<Rightarrow> yaml_emitter_emit_mapping_start style E
      | _ \<Rightarrow> yaml_emitter_set_emitter_error E ''expected SCALAR, SEQUENCE-START, MAPPING-START, or ALIAS'')"

section \<open>States\<close>

definition stream_settings :: "yaml_encoding \<Rightarrow> 'w yaml_emitter \<Rightarrow> 'w yaml_emitter" where
  "stream_settings enc E =
     (let E = (if em_encoding E = YAML_ANY_ENCODING then E\<lparr>em_encoding := enc\<rparr> else E);
          E = (if em_encoding E = YAML_ANY_ENCODING then E\<lparr>em_encoding := YAML_UTF8_ENCODING\<rparr> else E);
          E = (if best_indent E < 2 \<or> best_indent E > 9 then E\<lparr>best_indent := 2\<rparr> else E);
          E = (if best_width E \<ge> 0 \<and> best_width E \<le> best_indent E * 2 then E\<lparr>best_width := 80\<rparr> else E);
          E = (if best_width E < 0 then E\<lparr>best_width := INT_MAX\<rparr> else E);
          E = (if line_break E = YAML_ANY_BREAK then E\<lparr>line_break := YAML_LN_BREAK\<rparr> else E)
      in E\<lparr>em_indent := -1, em_line := 0, em_column := 0, whitespace := True, indention := True\<rparr>)"

definition yaml_emitter_emit_stream_start :: "yaml_event_data \<Rightarrow> (unit, 'w) emit" where
  "yaml_emitter_emit_stream_start ev E =
     (let E = E\<lparr>open_ended := 0\<rparr> in
      case ev of
        YAML_STREAM_START_EVENT enc \<Rightarrow>
          let E = stream_settings enc E in
          res_bind (if em_encoding E \<noteq> YAML_UTF8_ENCODING then yaml_emitter_write_bom E else Ok () E) (\<lambda>_ E.
            Ok () (E\<lparr>em_state := YAML_EMIT_FIRST_DOCUMENT_START_STATE\<rparr>))
      | _ \<Rightarrow> yaml_emitter_set_emitter_error E ''expected STREAM-START'')"

fun each :: "('i \<Rightarrow> 's \<Rightarrow> (unit, 's) res) \<Rightarrow> 'i list \<Rightarrow> 's \<Rightarrow> (unit, 's) res" where
  "each f [] s = Ok () s"
| "each f (x # xs) s = res_bind (f x s) (\<lambda>_ s. each f xs s)"

definition default_directives :: "yaml_tag_directive list" where
  "default_directives = [\<lparr>td_handle = octets ''!'', td_prefix = octets ''!''\<rparr>,
     \<lparr>td_handle = octets ''!!'', td_prefix = octets ''tag:yaml.org,2002:''\<rparr>]"

definition collect_directives :: "yaml_version_directive option \<Rightarrow> yaml_tag_directive list \<Rightarrow> (unit, 'w) emit" where
  "collect_directives vd tds E =
     res_bind (analyze_opt yaml_emitter_analyze_version_directive vd E) (\<lambda>_ E.
     res_bind (each (\<lambda>td E. res_bind (yaml_emitter_analyze_tag_directive td E) (\<lambda>_ E.
                 yaml_emitter_append_tag_directive False td E)) tds E) (\<lambda>_ E.
       each (yaml_emitter_append_tag_directive True) default_directives E))"

text \<open>The end marker \<open>...\<close> before directives, and after a document or at the end of the stream.\<close>

definition close_document :: "(unit, 'w) emit" where
  "close_document E =
     res_bind (yaml_emitter_write_indicator ''...'' True False False E) (\<lambda>_ E. yaml_emitter_write_indent E)"

definition end_marker :: "(unit, 'w) emit" where
  "end_marker E =
     res_bind (yaml_emitter_write_indicator ''...'' True False False E) (\<lambda>_ E.
       yaml_emitter_write_indent (E\<lparr>open_ended := 0\<rparr>))"

definition write_version :: "yaml_version_directive \<Rightarrow> (unit, 'w) emit" where
  "write_version vd E =
     res_bind (yaml_emitter_write_indicator ''%YAML'' True False False E) (\<lambda>_ E.
     res_bind (yaml_emitter_write_indicator (if minor vd = 1 then ''1.1'' else ''1.2'') True False False E) (\<lambda>_ E.
       yaml_emitter_write_indent E))"

definition write_tag_directive :: "yaml_tag_directive \<Rightarrow> (unit, 'w) emit" where
  "write_tag_directive td E =
     res_bind (yaml_emitter_write_indicator ''%TAG'' True False False E) (\<lambda>_ E.
     res_bind (yaml_emitter_write_tag_handle (cstr (td_handle td)) E) (\<lambda>_ E.
     res_bind (yaml_emitter_write_tag_content (cstr (td_prefix td)) True E) (\<lambda>_ E.
       yaml_emitter_write_indent E)))"

definition write_document_start :: "(unit, 'w) emit" where
  "write_document_start E =
     res_bind (yaml_emitter_write_indent E) (\<lambda>_ E.
     res_bind (yaml_emitter_write_indicator ''---'' True False False E) (\<lambda>_ E.
       if canonical E then yaml_emitter_write_indent E else Ok () E))"

definition yaml_emitter_emit_document_start :: "bool \<Rightarrow> yaml_event_data \<Rightarrow> (unit, 'w) emit" where
  "yaml_emitter_emit_document_start first ev E =
     (case ev of
        YAML_DOCUMENT_START_EVENT vd tds imp \<Rightarrow>
          res_bind (collect_directives vd tds E) (\<lambda>_ E.
          let implicit = (imp \<and> first \<and> \<not> canonical E \<and> vd = None \<and> tds = [] \<and> \<not> yaml_emitter_check_empty_document E) in
          res_bind (if (vd \<noteq> None \<or> tds \<noteq> []) \<and> open_ended E \<noteq> 0 then close_document E else Ok () E) (\<lambda>_ E.
          res_bind (analyze_opt write_version vd (E\<lparr>open_ended := 0\<rparr>)) (\<lambda>_ E.
          res_bind (each write_tag_directive tds E) (\<lambda>_ E.
          res_bind (if implicit then Ok () E else write_document_start E) (\<lambda>_ E.
            Ok () (E\<lparr>em_state := YAML_EMIT_DOCUMENT_CONTENT_STATE, open_ended := 0\<rparr>))))))
      | YAML_STREAM_END_EVENT \<Rightarrow>
          res_bind (if open_ended E = 2 then end_marker E else Ok () E) (\<lambda>_ E.
          res_bind (yaml_emitter_flush E) (\<lambda>_ E. Ok () (E\<lparr>em_state := YAML_EMIT_END_STATE\<rparr>)))
      | _ \<Rightarrow> yaml_emitter_set_emitter_error E ''expected DOCUMENT-START or STREAM-END'')"

definition yaml_emitter_emit_document_content :: "yaml_event_data \<Rightarrow> (unit, 'w) emit" where
  "yaml_emitter_emit_document_content ev E =
     res_bind (push_em_state YAML_EMIT_DOCUMENT_END_STATE E) (\<lambda>_ E.
       yaml_emitter_emit_node ev True False False False E)"

definition yaml_emitter_emit_document_end :: "yaml_event_data \<Rightarrow> (unit, 'w) emit" where
  "yaml_emitter_emit_document_end ev E =
     (case ev of
        YAML_DOCUMENT_END_EVENT implicit \<Rightarrow>
          res_bind (yaml_emitter_write_indent E) (\<lambda>_ E.
          res_bind (if \<not> implicit then end_marker E
                    else Ok () (if open_ended E = 0 then E\<lparr>open_ended := 1\<rparr> else E)) (\<lambda>_ E.
          res_bind (yaml_emitter_flush E) (\<lambda>_ E.
            Ok () (E\<lparr>em_state := YAML_EMIT_DOCUMENT_START_STATE, em_tag_directives := []\<rparr>))))
      | _ \<Rightarrow> yaml_emitter_set_emitter_error E ''expected DOCUMENT-END'')"

definition flow_start :: "bool \<Rightarrow> string \<Rightarrow> (unit, 'w) emit" where
  "flow_start first bracket E =
     (if first then
        res_bind (yaml_emitter_write_indicator bracket True True False E) (\<lambda>_ E.
        res_bind (yaml_emitter_increase_indent True False E) (\<lambda>_ E. Ok () (E\<lparr>em_flow_level := em_flow_level E + 1\<rparr>)))
      else Ok () E)"

definition flow_end :: "bool \<Rightarrow> string \<Rightarrow> (unit, 'w) emit" where
  "flow_end first bracket E =
     res_bind (pop_indent (E\<lparr>em_flow_level := em_flow_level E - 1\<rparr>)) (\<lambda>_ E.
     res_bind
       (if canonical E \<and> \<not> first then
          res_bind (yaml_emitter_write_indicator '','' False False False E) (\<lambda>_ E. yaml_emitter_write_indent E)
        else Ok () E) (\<lambda>_ E.
     res_bind (yaml_emitter_write_indicator bracket False False False E) (\<lambda>_ E. pop_em_state E)))"

definition fold_line :: "(unit, 'w) emit" where
  "fold_line E = (if canonical E \<or> em_column E > best_width E then yaml_emitter_write_indent E else Ok () E)"

definition item_separator :: "bool \<Rightarrow> (unit, 'w) emit" where
  "item_separator first E =
     res_bind (if \<not> first then yaml_emitter_write_indicator '','' False False False E else Ok () E) (\<lambda>_ E. fold_line E)"

definition yaml_emitter_emit_flow_sequence_item :: "bool \<Rightarrow> yaml_event_data \<Rightarrow> (unit, 'w) emit" where
  "yaml_emitter_emit_flow_sequence_item first ev E =
     res_bind (flow_start first ''['' E) (\<lambda>_ E.
       if ev = YAML_SEQUENCE_END_EVENT then flow_end first '']'' E
       else
         res_bind (item_separator first E) (\<lambda>_ E.
         res_bind (push_em_state YAML_EMIT_FLOW_SEQUENCE_ITEM_STATE E) (\<lambda>_ E.
           yaml_emitter_emit_node ev False True False False E)))"

text \<open>A key, simple or with its own indicator; \<open>ind\<close> is what the indicator leaves of the indention.\<close>

definition emit_key ::
  "bool \<Rightarrow> bool \<Rightarrow> yaml_emitter_state \<Rightarrow> yaml_emitter_state \<Rightarrow> yaml_event_data \<Rightarrow> (unit, 'w) emit" where
  "emit_key simple ind s s' ev E =
     (if simple then
        res_bind (push_em_state s E) (\<lambda>_ E. yaml_emitter_emit_node ev False False True True E)
      else
        res_bind (yaml_emitter_write_indicator ''?'' True False ind E) (\<lambda>_ E.
        res_bind (push_em_state s' E) (\<lambda>_ E. yaml_emitter_emit_node ev False False True False E)))"

definition yaml_emitter_emit_flow_mapping_key :: "bool \<Rightarrow> yaml_event_data \<Rightarrow> (unit, 'w) emit" where
  "yaml_emitter_emit_flow_mapping_key first ev E =
     res_bind (flow_start first ''{'' E) (\<lambda>_ E.
       if ev = YAML_MAPPING_END_EVENT then flow_end first ''}'' E
       else
         res_bind (item_separator first E) (\<lambda>_ E.
           emit_key (\<not> canonical E \<and> yaml_emitter_check_simple_key E) False
             YAML_EMIT_FLOW_MAPPING_SIMPLE_VALUE_STATE YAML_EMIT_FLOW_MAPPING_VALUE_STATE ev E))"

definition yaml_emitter_emit_flow_mapping_value :: "bool \<Rightarrow> yaml_event_data \<Rightarrow> (unit, 'w) emit" where
  "yaml_emitter_emit_flow_mapping_value simple ev E =
     res_bind
       (if simple then yaml_emitter_write_indicator '':'' False False False E
        else res_bind (fold_line E) (\<lambda>_ E. yaml_emitter_write_indicator '':'' True False False E)) (\<lambda>_ E.
     res_bind (push_em_state YAML_EMIT_FLOW_MAPPING_KEY_STATE E) (\<lambda>_ E.
       yaml_emitter_emit_node ev False False True False E))"

definition block_end :: "(unit, 'w) emit" where
  "block_end E = res_bind (pop_indent E) (\<lambda>_ E. pop_em_state E)"

definition yaml_emitter_emit_block_sequence_item :: "bool \<Rightarrow> yaml_event_data \<Rightarrow> (unit, 'w) emit" where
  "yaml_emitter_emit_block_sequence_item first ev E =
     res_bind
       (if first then yaml_emitter_increase_indent False (mapping_context E \<and> \<not> indention E) E else Ok () E) (\<lambda>_ E.
       if ev = YAML_SEQUENCE_END_EVENT then block_end E
       else
         res_bind (yaml_emitter_write_indent E) (\<lambda>_ E.
         res_bind (yaml_emitter_write_indicator ''-'' True False True E) (\<lambda>_ E.
         res_bind (push_em_state YAML_EMIT_BLOCK_SEQUENCE_ITEM_STATE E) (\<lambda>_ E.
           yaml_emitter_emit_node ev False True False False E))))"

definition yaml_emitter_emit_block_mapping_key :: "bool \<Rightarrow> yaml_event_data \<Rightarrow> (unit, 'w) emit" where
  "yaml_emitter_emit_block_mapping_key first ev E =
     res_bind (if first then yaml_emitter_increase_indent False False E else Ok () E) (\<lambda>_ E.
       if ev = YAML_MAPPING_END_EVENT then block_end E
       else
         res_bind (yaml_emitter_write_indent E) (\<lambda>_ E.
           emit_key (yaml_emitter_check_simple_key E) True
             YAML_EMIT_BLOCK_MAPPING_SIMPLE_VALUE_STATE YAML_EMIT_BLOCK_MAPPING_VALUE_STATE ev E))"

definition yaml_emitter_emit_block_mapping_value :: "bool \<Rightarrow> yaml_event_data \<Rightarrow> (unit, 'w) emit" where
  "yaml_emitter_emit_block_mapping_value simple ev E =
     res_bind
       (if simple then yaml_emitter_write_indicator '':'' False False False E
        else res_bind (yaml_emitter_write_indent E) (\<lambda>_ E. yaml_emitter_write_indicator '':'' True False True E)) (\<lambda>_ E.
     res_bind (push_em_state YAML_EMIT_BLOCK_MAPPING_KEY_STATE E) (\<lambda>_ E.
       yaml_emitter_emit_node ev False False True False E))"

definition yaml_emitter_state_machine :: "yaml_event_data \<Rightarrow> (unit, 'w) emit" where
  "yaml_emitter_state_machine ev E =
     (case em_state E of
        YAML_EMIT_STREAM_START_STATE \<Rightarrow> yaml_emitter_emit_stream_start ev E
      | YAML_EMIT_FIRST_DOCUMENT_START_STATE \<Rightarrow> yaml_emitter_emit_document_start True ev E
      | YAML_EMIT_DOCUMENT_START_STATE \<Rightarrow> yaml_emitter_emit_document_start False ev E
      | YAML_EMIT_DOCUMENT_CONTENT_STATE \<Rightarrow> yaml_emitter_emit_document_content ev E
      | YAML_EMIT_DOCUMENT_END_STATE \<Rightarrow> yaml_emitter_emit_document_end ev E
      | YAML_EMIT_FLOW_SEQUENCE_FIRST_ITEM_STATE \<Rightarrow> yaml_emitter_emit_flow_sequence_item True ev E
      | YAML_EMIT_FLOW_SEQUENCE_ITEM_STATE \<Rightarrow> yaml_emitter_emit_flow_sequence_item False ev E
      | YAML_EMIT_FLOW_MAPPING_FIRST_KEY_STATE \<Rightarrow> yaml_emitter_emit_flow_mapping_key True ev E
      | YAML_EMIT_FLOW_MAPPING_KEY_STATE \<Rightarrow> yaml_emitter_emit_flow_mapping_key False ev E
      | YAML_EMIT_FLOW_MAPPING_SIMPLE_VALUE_STATE \<Rightarrow> yaml_emitter_emit_flow_mapping_value True ev E
      | YAML_EMIT_FLOW_MAPPING_VALUE_STATE \<Rightarrow> yaml_emitter_emit_flow_mapping_value False ev E
      | YAML_EMIT_BLOCK_SEQUENCE_FIRST_ITEM_STATE \<Rightarrow> yaml_emitter_emit_block_sequence_item True ev E
      | YAML_EMIT_BLOCK_SEQUENCE_ITEM_STATE \<Rightarrow> yaml_emitter_emit_block_sequence_item False ev E
      | YAML_EMIT_BLOCK_MAPPING_FIRST_KEY_STATE \<Rightarrow> yaml_emitter_emit_block_mapping_key True ev E
      | YAML_EMIT_BLOCK_MAPPING_KEY_STATE \<Rightarrow> yaml_emitter_emit_block_mapping_key False ev E
      | YAML_EMIT_BLOCK_MAPPING_SIMPLE_VALUE_STATE \<Rightarrow> yaml_emitter_emit_block_mapping_value True ev E
      | YAML_EMIT_BLOCK_MAPPING_VALUE_STATE \<Rightarrow> yaml_emitter_emit_block_mapping_value False ev E
      | YAML_EMIT_END_STATE \<Rightarrow> yaml_emitter_set_emitter_error E ''expected nothing after STREAM-END'')"

section \<open>Emitting\<close>

fun emit_queue :: "nat \<Rightarrow> (unit, 'w) emit" where
  "emit_queue 0 E = Hang"
| "emit_queue (Suc n) E =
     (case events E of [] \<Rightarrow> Ok () E
      | ev # _ \<Rightarrow>
          if yaml_emitter_need_more_events (map ev_data (events E)) then Ok () E
          else
            res_bind (yaml_emitter_analyze_event (ev_data ev) E) (\<lambda>_ E.
            res_bind (yaml_emitter_state_machine (ev_data ev) E) (\<lambda>_ E.
              emit_queue n (E\<lparr>events := tl (events E)\<rparr>))))"

definition yaml_emitter_emit :: "yaml_event \<Rightarrow> (unit, 'w) emit" where
  "yaml_emitter_emit event E =
     res_bind (em_allocate E) (\<lambda>_ E.
       emit_queue (length (events E) + 2) (E\<lparr>events := events E @ [event]\<rparr>))"

section \<open>Creating an emitter\<close>

definition zero_scalar_data :: yaml_scalar_data where
  "zero_scalar_data = \<lparr>sd_value = [], multiline = False, flow_plain_allowed = False, block_plain_allowed = False,
     single_quoted_allowed = False, block_allowed = False, sd_style = YAML_ANY_SCALAR_STYLE\<rparr>"

definition zero_emitter :: "'w \<Rightarrow> nat \<Rightarrow> 'w yaml_emitter" where
  "zero_emitter d h =
     \<lparr>em_error = YAML_NO_ERROR, em_problem = None, write_handler = None, write_handler_data = d,
      em_buffer = [], em_raw_buffer = [], em_encoding = YAML_ANY_ENCODING,
      em_heap = h, canonical = False, best_indent = 0, best_width = 0, unicode = False, line_break = YAML_ANY_BREAK,
      em_states = [], em_state = YAML_EMIT_STREAM_START_STATE, events = [], em_indents = [], em_tag_directives = [],
      em_indent = 0, em_flow_level = 0, root_context = False, sequence_context = False, mapping_context = False,
      simple_key_context = False, em_line = 0, em_column = 0, whitespace = False, indention = False, open_ended = 0,
      anchor_data = None, anchor_alias = False, tag_handle = None, tag_suffix = None, scalar_data = zero_scalar_data,
      opened = False, closed = False, em_anchors = None, last_anchor_id = 0, em_document = None\<rparr>"

definition yaml_emitter_initialize :: "'w \<Rightarrow> nat \<Rightarrow> (unit, 'w yaml_emitter) res" where
  "yaml_emitter_initialize d h = each (\<lambda>_ E. em_allocate E) (replicate 6 ()) (zero_emitter d h)"

definition yaml_emitter_delete :: "'w yaml_emitter \<Rightarrow> 'w yaml_emitter" where
  "yaml_emitter_delete E = zero_emitter (write_handler_data E) (em_heap E)"

text \<open>The string output: its size and what has been written.\<close>

record string_output =
  out_size :: nat
  out_octets :: "byte list"

definition yaml_string_write_handler :: "string_output \<Rightarrow> byte list \<Rightarrow> bool \<times> string_output" where
  "yaml_string_write_handler d bs =
     (if out_size d - length (out_octets d) < length bs
      then (False, d\<lparr>out_octets := out_octets d @ take (out_size d - length (out_octets d)) bs\<rparr>)
      else (True, d\<lparr>out_octets := out_octets d @ bs\<rparr>))"

definition yaml_emitter_set_output :: "'w yaml_write_handler \<Rightarrow> 'w \<Rightarrow> (unit, 'w) emit" where
  "yaml_emitter_set_output handler d E =
     (if write_handler E \<noteq> None then Abort else Ok () (E\<lparr>write_handler := Some handler, write_handler_data := d\<rparr>))"

definition yaml_emitter_set_output_string :: "nat \<Rightarrow> (unit, string_output) emit" where
  "yaml_emitter_set_output_string n E =
     (if write_handler E \<noteq> None then Abort
      else Ok () (E\<lparr>write_handler := Some yaml_string_write_handler,
                    write_handler_data := \<lparr>out_size = n, out_octets = []\<rparr>\<rparr>))"

definition yaml_emitter_set_encoding :: "yaml_encoding \<Rightarrow> (unit, 'w) emit" where
  "yaml_emitter_set_encoding enc E =
     (if em_encoding E \<noteq> YAML_ANY_ENCODING then Abort else Ok () (E\<lparr>em_encoding := enc\<rparr>))"

definition yaml_emitter_set_canonical :: "bool \<Rightarrow> 'w yaml_emitter \<Rightarrow> 'w yaml_emitter" where
  "yaml_emitter_set_canonical b E = E\<lparr>canonical := b\<rparr>"

definition yaml_emitter_set_indent :: "int \<Rightarrow> 'w yaml_emitter \<Rightarrow> 'w yaml_emitter" where
  "yaml_emitter_set_indent i E = E\<lparr>best_indent := if 1 < i \<and> i < 10 then i else 2\<rparr>"

definition yaml_emitter_set_width :: "int \<Rightarrow> 'w yaml_emitter \<Rightarrow> 'w yaml_emitter" where
  "yaml_emitter_set_width n E = E\<lparr>best_width := if n \<ge> 0 then n else -1\<rparr>"

definition yaml_emitter_set_unicode :: "bool \<Rightarrow> 'w yaml_emitter \<Rightarrow> 'w yaml_emitter" where
  "yaml_emitter_set_unicode b E = E\<lparr>unicode := b\<rparr>"

definition yaml_emitter_set_break :: "yaml_break \<Rightarrow> 'w yaml_emitter \<Rightarrow> 'w yaml_emitter" where
  "yaml_emitter_set_break lb E = E\<lparr>line_break := lb\<rparr>"

end
