(* ===== verification/Yaml_Dumper.thy ===== *)
theory Yaml_Dumper
  imports Yaml_Emitter Yaml_Api_Document
begin

text \<open>
  \<^verbatim>\<open>src/dumper.c\<close>: opening and closing the stream, and the dump of a document, in two walks over
  its nodes.  The first counts the references to each node and numbers those with more than one;
  the second emits the events, with an alias where a node was already written.  A walk enters
  each node once, so its depth is bounded by the number of nodes: the fuel of both walks.
\<close>

section \<open>The stream\<close>

definition yaml_emitter_open :: "(unit, 'w) emit" where
  "yaml_emitter_open E =
     (if opened E then Abort
      else res_bind (yaml_emitter_emit (plain_event (YAML_STREAM_START_EVENT YAML_ANY_ENCODING)) E) (\<lambda>_ E.
        Ok () (E\<lparr>opened := True\<rparr>)))"

definition yaml_emitter_close :: "(unit, 'w) emit" where
  "yaml_emitter_close E =
     (if \<not> opened E then Abort
      else if closed E then Ok () E
      else res_bind (yaml_emitter_emit (plain_event YAML_STREAM_END_EVENT) E) (\<lambda>_ E.
        Ok () (E\<lparr>closed := True\<rparr>)))"

section \<open>Anchors\<close>

definition zero_anchors :: yaml_anchors where
  "zero_anchors = \<lparr>references = 0, anchor_id = 0, serialized = False\<rparr>"

text \<open>The node with an index and its entry in the array of anchors.\<close>

definition dumped_node :: "'w yaml_emitter \<Rightarrow> int \<Rightarrow> (yaml_node \<times> yaml_anchors) option" where
  "dumped_node E i =
     (case (em_document E, em_anchors E) of
        (Some d, Some as) \<Rightarrow>
          if i > 0 \<and> i \<le> int (length (nodes d)) \<and> i \<le> int (length as)
          then Some (nodes d ! nat (i - 1), as ! nat (i - 1)) else None
      | _ \<Rightarrow> None)"

definition set_anchors :: "int \<Rightarrow> yaml_anchors \<Rightarrow> 'w yaml_emitter \<Rightarrow> 'w yaml_emitter" where
  "set_anchors i a E = E\<lparr>em_anchors := map_option (\<lambda>as. as[nat (i - 1) := a]) (em_anchors E)\<rparr>"

text \<open>The nodes a node refers to, in order.\<close>

fun children :: "yaml_node_data \<Rightarrow> int list" where
  "children (YAML_SEQUENCE_NODE items _) = items"
| "children (YAML_MAPPING_NODE pairs _) = concat (map (\<lambda>(k, v). [k, v]) pairs)"
| "children _ = []"

fun yaml_emitter_anchor_node :: "nat \<Rightarrow> int \<Rightarrow> (unit, 'w) emit" where
  "yaml_emitter_anchor_node 0 i E = Hang"
| "yaml_emitter_anchor_node (Suc n) i E =
     (case dumped_node E i of None \<Rightarrow> Abort
      | Some (nd, a) \<Rightarrow>
          let a = a\<lparr>references := references a + 1\<rparr>; E = set_anchors i a E in
          if references a = 1 then each (yaml_emitter_anchor_node n) (children (node_data nd)) E
          else if references a = 2 then
            Ok () (set_anchors i (a\<lparr>anchor_id := last_anchor_id E + 1\<rparr>) (E\<lparr>last_anchor_id := last_anchor_id E + 1\<rparr>))
          else Ok () E)"

text \<open>The number of an anchor with at least three digits.\<close>

fun digits :: "nat \<Rightarrow> byte list" where
  "digits n = (if n < 10 then [48 + of_nat n] else digits (n div 10) @ [48 + of_nat (n mod 10)])"

declare digits.simps [simp del]

definition anchor_text :: "int \<Rightarrow> ystr" where
  "anchor_text k = (let ds = digits (nat k) in octets ''id'' @ replicate (3 - length ds) 48 @ ds)"

definition yaml_emitter_generate_anchor :: "int \<Rightarrow> (ystr, 'w) emit" where
  "yaml_emitter_generate_anchor k E =
     (if em_heap E = 0 then Fail E else Ok (anchor_text k) (E\<lparr>em_heap := em_heap E - 1\<rparr>))"

section \<open>Nodes\<close>

definition yaml_emitter_dump_alias :: "ystr option \<Rightarrow> (unit, 'w) emit" where
  "yaml_emitter_dump_alias anchor E =
     (case anchor of None \<Rightarrow> Abort | Some a \<Rightarrow> yaml_emitter_emit (plain_event (YAML_ALIAS_EVENT a)) E)"

definition has_tag :: "yaml_node \<Rightarrow> string \<Rightarrow> bool" where
  "has_tag nd tag \<longleftrightarrow> cstr (node_tag nd) = octets tag"

definition yaml_emitter_dump_scalar :: "yaml_node \<Rightarrow> ystr \<Rightarrow> yaml_scalar_style \<Rightarrow> ystr option \<Rightarrow> (unit, 'w) emit" where
  "yaml_emitter_dump_scalar nd v style anchor E =
     (let implicit = has_tag nd YAML_STR_TAG in
      yaml_emitter_emit (plain_event (YAML_SCALAR_EVENT anchor (Some (node_tag nd)) v implicit implicit style)) E)"

text \<open>A collection: its start, its children by the given walk, its end.\<close>

definition dump_collection :: "yaml_event_data \<Rightarrow> (unit, 'w) emit \<Rightarrow> yaml_event_data \<Rightarrow> (unit, 'w) emit" where
  "dump_collection b walk e E =
     res_bind (yaml_emitter_emit (plain_event b) E) (\<lambda>_ E.
     res_bind (walk E) (\<lambda>_ E. yaml_emitter_emit (plain_event e) E))"

definition yaml_emitter_dump_sequence :: "(int \<Rightarrow> (unit, 'w) emit) \<Rightarrow> yaml_node \<Rightarrow> int list \<Rightarrow> yaml_sequence_style
    \<Rightarrow> ystr option \<Rightarrow> (unit, 'w) emit" where
  "yaml_emitter_dump_sequence dump_node nd items style anchor =
     dump_collection (YAML_SEQUENCE_START_EVENT anchor (Some (node_tag nd)) (has_tag nd YAML_SEQ_TAG) style)
       (each dump_node items) YAML_SEQUENCE_END_EVENT"

definition yaml_emitter_dump_mapping :: "(int \<Rightarrow> (unit, 'w) emit) \<Rightarrow> yaml_node \<Rightarrow> (int \<times> int) list \<Rightarrow> yaml_mapping_style
    \<Rightarrow> ystr option \<Rightarrow> (unit, 'w) emit" where
  "yaml_emitter_dump_mapping dump_node nd pairs style anchor =
     dump_collection (YAML_MAPPING_START_EVENT anchor (Some (node_tag nd)) (has_tag nd YAML_MAP_TAG) style)
       (each (\<lambda>(k, v) E. res_bind (dump_node k E) (\<lambda>_ E. dump_node v E)) pairs) YAML_MAPPING_END_EVENT"

fun yaml_emitter_dump_node :: "nat \<Rightarrow> int \<Rightarrow> (unit, 'w) emit" where
  "yaml_emitter_dump_node 0 i E = Hang"
| "yaml_emitter_dump_node (Suc n) i E =
     (case dumped_node E i of None \<Rightarrow> Abort
      | Some (nd, a) \<Rightarrow>
          res_bind (if anchor_id a \<noteq> 0 then res_bind (yaml_emitter_generate_anchor (anchor_id a) E) (\<lambda>s E. Ok (Some s) E)
                    else Ok None E) (\<lambda>anchor E.
            if serialized a then yaml_emitter_dump_alias anchor E
            else
              let E = set_anchors i (a\<lparr>serialized := True\<rparr>) E in
              (case node_data nd of
                 YAML_SCALAR_NODE v style \<Rightarrow> yaml_emitter_dump_scalar nd v style anchor E
               | YAML_SEQUENCE_NODE items style \<Rightarrow>
                   yaml_emitter_dump_sequence (yaml_emitter_dump_node n) nd items style anchor E
               | YAML_MAPPING_NODE pairs style \<Rightarrow>
                   yaml_emitter_dump_mapping (yaml_emitter_dump_node n) nd pairs style anchor E
               | YAML_NO_NODE \<Rightarrow> Abort)))"

section \<open>Documents\<close>

definition yaml_emitter_delete_document_and_anchors :: "'w yaml_emitter \<Rightarrow> 'w yaml_emitter" where
  "yaml_emitter_delete_document_and_anchors E =
     (if em_anchors E = None then E\<lparr>em_document := None\<rparr>
      else E\<lparr>em_anchors := None, last_anchor_id := 0, em_document := None\<rparr>)"

definition dump_nodes :: "yaml_document \<Rightarrow> (unit, 'w) emit" where
  "dump_nodes d E =
     (if em_heap E = 0 then Fail E
      else
        let n = length (nodes d);
            E = E\<lparr>em_heap := em_heap E - 1, em_anchors := Some (replicate n zero_anchors)\<rparr> in
        res_bind (yaml_emitter_emit
            (plain_event (YAML_DOCUMENT_START_EVENT (version_directive d) (doc_tag_directives d) (start_implicit d))) E) (\<lambda>_ E.
        res_bind (yaml_emitter_anchor_node (Suc n) 1 E) (\<lambda>_ E.
        res_bind (yaml_emitter_dump_node (Suc n) 1 E) (\<lambda>_ E.
          yaml_emitter_emit (plain_event (YAML_DOCUMENT_END_EVENT (end_implicit d))) E))))"

definition yaml_emitter_dump :: "yaml_document \<Rightarrow> (unit, 'w) emit" where
  "yaml_emitter_dump d E =
     (case
        res_bind (if opened E then Ok () (E\<lparr>em_document := Some d\<rparr>) else yaml_emitter_open (E\<lparr>em_document := Some d\<rparr>)) (\<lambda>_ E.
          if nodes d = [] then yaml_emitter_close E else dump_nodes d E)
      of Ok _ E \<Rightarrow> Ok () (yaml_emitter_delete_document_and_anchors E)
       | Fail E \<Rightarrow> Fail (yaml_emitter_delete_document_and_anchors E)
       | r \<Rightarrow> r)"

end
