(* ===== verification/Yaml_Dump_Walk.thy ===== *)
theory Yaml_Dump_Walk
  imports Yaml_Dumper Yaml_Compose
begin

text \<open>
  The walks of the dumper: the nodes that a walk enters, in order, and those that it comes back
  to.  The walk ends for every document whose indices are valid, and the first walk of the dumper
  counts the references and numbers the nodes that are met more than once.
\<close>

section \<open>The walk over a document\<close>

text \<open>
  Both walks of the dumper enter a node the first time they come to it and only note it when they
  come back.  Such a walk is a tree.
\<close>

datatype vtree = VRef int | VNode int "vtree list"

abbreviation node_at :: "yaml_document \<Rightarrow> int \<Rightarrow> yaml_node" where
  "node_at d i \<equiv> nodes d ! nat (i - 1)"

fun walks :: "(int \<Rightarrow> int list \<Rightarrow> (vtree \<times> int list) option) \<Rightarrow> int list \<Rightarrow> int list \<Rightarrow> (vtree list \<times> int list) option" where
  "walks w [] seen = Some ([], seen)"
| "walks w (i # is) seen = Option.bind (w i seen) (\<lambda>(t, seen). Option.bind (walks w is seen) (\<lambda>(ts, seen). Some (t # ts, seen)))"

fun walk :: "yaml_document \<Rightarrow> nat \<Rightarrow> int \<Rightarrow> int list \<Rightarrow> (vtree \<times> int list) option" where
  "walk d 0 i seen = None"
| "walk d (Suc n) i seen =
     (if \<not> valid_id d i then None
      else if i \<in> set seen then Some (VRef i, seen)
      else map_option (\<lambda>(ts, seen). (VNode i ts, seen)) (walks (walk d n) (children (node_data (node_at d i))) (seen @ [i])))"

text \<open>The nodes that are entered, in order, and those that are met again.\<close>

fun vnodes :: "vtree \<Rightarrow> int list" where
  "vnodes (VRef i) = []"
| "vnodes (VNode i ts) = i # concat (map vnodes ts)"

fun vrefs :: "vtree \<Rightarrow> int list" where
  "vrefs (VRef i) = [i]"
| "vrefs (VNode i ts) = concat (map vrefs ts)"

fun vroot :: "vtree \<Rightarrow> int" where
  "vroot (VRef i) = i"
| "vroot (VNode i ts) = i"

lemma walk_rule [consumes 1, case_names ref node nil cons]:
  assumes "walk d n i seen = Some (t, seen')"
    and ref: "\<And>n i seen. valid_id d i \<Longrightarrow> i \<in> set seen \<Longrightarrow> P (Suc n) i seen (VRef i) seen"
    and node: "\<And>n i seen ts seen'. valid_id d i \<Longrightarrow> i \<notin> set seen \<Longrightarrow>
        walks (walk d n) (children (node_data (node_at d i))) (seen @ [i]) = Some (ts, seen') \<Longrightarrow>
        Q n (children (node_data (node_at d i))) (seen @ [i]) ts seen' \<Longrightarrow> P (Suc n) i seen (VNode i ts) seen'"
    and nil: "\<And>n seen. Q n [] seen [] seen"
    and cons: "\<And>n i is seen t seen1 ts seen2. walk d n i seen = Some (t, seen1) \<Longrightarrow> walks (walk d n) is seen1 = Some (ts, seen2) \<Longrightarrow>
        P n i seen t seen1 \<Longrightarrow> Q n is seen1 ts seen2 \<Longrightarrow> Q n (i # is) seen (t # ts) seen2"
  shows "P n i seen t seen'"
  using assms(1)
proof (induction n arbitrary: i seen t seen')
  case (Suc n)
  have Q: "Q n is seen ts seen'" if "walks (walk d n) is seen = Some (ts, seen')" for "is" seen ts seen'
    using that
  proof (induction "is" arbitrary: seen ts)
    case (Cons i "is")
    then obtain t seen1 ts' where "walk d n i seen = Some (t, seen1)" "walks (walk d n) is seen1 = Some (ts', seen')" "ts = t # ts'"
      by (auto split: bind_splits)
    then show ?case using cons Suc.IH Cons.IH by blast
  qed (simp add: nil)
  show ?case using Suc.prems ref node Q by (fastforce split: if_splits)
qed simp

lemma walk_seen: "walk d n i seen = Some (t, seen') \<Longrightarrow>
   seen' = seen @ vnodes t \<and> set (vrefs t) \<subseteq> set seen' \<and> vroot t = i \<and> i \<in> set seen' \<and> (distinct seen \<longrightarrow> distinct seen')"
  by (induction rule: walk_rule [where Q = "\<lambda>n is seen ts seen'. seen' = seen @ concat (map vnodes ts)
      \<and> set (concat (map vrefs ts)) \<subseteq> set seen' \<and> map vroot ts = is \<and> set is \<subseteq> set seen' \<and> (distinct seen \<longrightarrow> distinct seen')"]) auto

text \<open>Every node that is entered has all its children in the walk.\<close>

lemma walk_closed: "walk d n i seen = Some (t, seen') \<Longrightarrow> set seen \<subseteq> set seen' \<and> i \<in> set seen' \<and>
   (\<forall>j \<in> set (vnodes t). valid_id d j \<and> set (children (node_data (node_at d j))) \<subseteq> set seen')"
proof (induction rule: walk_rule [where Q = "\<lambda>n is seen ts seen'. set seen \<subseteq> set seen' \<and> set is \<subseteq> set seen' \<and>
      (\<forall>j \<in> set (concat (map vnodes ts)). valid_id d j \<and> set (children (node_data (node_at d j))) \<subseteq> set seen')"])
  case (cons n i "is" seen t seen1 ts seen2)
  then show ?case by simp blast
qed auto

lemma children_valid:
  assumes "doc_valid d" and "valid_id d i" and "j \<in> set (children (node_data (node_at d i)))"
  shows "valid_id d j"
proof -
  have "node_at d i \<in> set (nodes d)" using assms(2) by (auto simp: valid_id_def)
  then have "child_ok (int (length (nodes d))) (view (node_at d i))" using assms(1) by (simp add: doc_valid_def list_all_iff)
  then show ?thesis using assms(3)
    by (cases "node_data (node_at d i)") (auto simp: child_ok_def view_def valid_id_def split: prod.splits)
qed

lemma valid_ids_card:
  assumes "distinct seen" and "\<forall>i \<in> set seen. valid_id d i"
  shows "length seen \<le> length (nodes d)"
proof -
  have "set seen \<subseteq> {1..int (length (nodes d))}" using assms(2) by (auto simp: valid_id_def)
  then have "card (set seen) \<le> card {1..int (length (nodes d))}" by (intro card_mono) auto
  then show ?thesis using assms(1) by (simp add: distinct_card)
qed

text \<open>The fuel is enough for every document whose indices are valid, also for one with cycles.\<close>

lemma walk_total:
  assumes "doc_valid d" and "valid_id d i" and "distinct seen" and "\<forall>j \<in> set seen. valid_id d j" and "length (nodes d) < n + length seen"
  shows "\<exists>t seen'. walk d n i seen = Some (t, seen')"
  using assms(2-5)
proof (induction n arbitrary: i seen)
  case 0
  then show ?case using valid_ids_card [of seen d] by simp
next
  case (Suc n)
  have all: "\<exists>ts seen'. walks (walk d n) is seen = Some (ts, seen')"
    if "\<forall>j \<in> set is. valid_id d j" "distinct seen" "\<forall>j \<in> set seen. valid_id d j" "length (nodes d) < n + length seen" for "is" seen
    using that
  proof (induction "is" arbitrary: seen)
    case (Cons i "is")
    then obtain t seen1 where t: "walk d n i seen = Some (t, seen1)" using Suc.IH [of i seen] by auto
    have "\<exists>ts seen'. walks (walk d n) is seen1 = Some (ts, seen')"
      using Cons.prems walk_seen [OF t] walk_closed [OF t] by (intro Cons.IH) auto
    then show ?case using t by auto
  qed simp
  show ?case
  proof (cases "i \<in> set seen")
    case False
    then have "\<exists>ts seen'. walks (walk d n) (children (node_data (node_at d i))) (seen @ [i]) = Some (ts, seen')"
      using Suc.prems children_valid [OF assms(1) Suc.prems(1)] by (intro all) auto
    then show ?thesis using Suc.prems(1) False by auto
  qed (use Suc.prems in simp)
qed

section \<open>Counting references\<close>

definition visits :: "vtree \<Rightarrow> int \<Rightarrow> int" where
  "visits t j = int (count_list (vnodes t @ vrefs t) j)"

text \<open>
  The array of anchors after some of the walk: the nodes that were entered have references, those
  with more than one have an anchor of their own, and nothing is serialized.
\<close>

definition anchor_at :: "yaml_anchors list \<Rightarrow> int \<Rightarrow> yaml_anchors" where
  "anchor_at as i = as ! nat (i - 1)"

definition tallied :: "yaml_document \<Rightarrow> int list \<Rightarrow> yaml_anchors list \<Rightarrow> int \<Rightarrow> bool" where
  "tallied d seen as k \<longleftrightarrow> length as = length (nodes d) \<and> 0 \<le> k \<and>
     (\<forall>i. valid_id d i \<longrightarrow> 0 \<le> references (anchor_at as i) \<and> (references (anchor_at as i) > 0 \<longleftrightarrow> i \<in> set seen)
        \<and> (anchor_id (anchor_at as i) \<noteq> 0 \<longleftrightarrow> references (anchor_at as i) \<ge> 2)
        \<and> 0 \<le> anchor_id (anchor_at as i) \<and> anchor_id (anchor_at as i) \<le> k \<and> \<not> serialized (anchor_at as i))
     \<and> (\<forall>i j. valid_id d i \<longrightarrow> valid_id d j \<longrightarrow> anchor_id (anchor_at as i) = anchor_id (anchor_at as j) \<longrightarrow>
          anchor_id (anchor_at as i) \<noteq> 0 \<longrightarrow> i = j)"

lemma anchor_at_update:
  assumes "valid_id d i" and "valid_id d j" and "length as = length (nodes d)"
  shows "anchor_at (as[nat (i - 1) := a]) j = (if j = i then a else anchor_at as j)"
  using assms by (auto simp: anchor_at_def valid_id_def nth_list_update nat_eq_iff2)

lemma dumped_node_eq:
  assumes "em_document E = Some d" and "em_anchors E = Some as" and "length as = length (nodes d)" and "valid_id d i"
  shows "dumped_node E i = Some (node_at d i, anchor_at as i)"
  using assms by (simp add: dumped_node_def valid_id_def anchor_at_def)

definition anchored where
  "anchored (E :: 'w yaml_emitter) as k = E\<lparr>em_anchors := Some as, last_anchor_id := k\<rparr>"

lemma anchored_simps [simp]:
  "em_document (anchored E as k) = em_document E" "em_anchors (anchored E as k) = Some as" "last_anchor_id (anchored E as k) = k"
  "anchored (anchored E as k) as' k' = anchored E as' k'" "set_anchors i a (anchored E as k) = anchored E (as[nat (i - 1) := a]) k"
  "(anchored E as k)\<lparr>last_anchor_id := k'\<rparr> = anchored E as k'"
  by (simp_all add: anchored_def set_anchors_def)

lemma visits_simps [simp]:
  "visits (VRef i) j = (if j = i then 1 else 0)"
  "visits (VNode i ts) j = (if j = i then 1 else 0) + sum_list (map (\<lambda>t. visits t j) ts)"
proof -
  have "int (count_list (concat (map vnodes ts)) j) + int (count_list (concat (map vrefs ts)) j) = sum_list (map (\<lambda>t. visits t j) ts)"
    by (induction ts) (simp_all add: visits_def)
  then show "visits (VNode i ts) j = (if j = i then 1 else 0) + sum_list (map (\<lambda>t. visits t j) ts)"
    by (auto simp: visits_def)
qed (simp add: visits_def)

text \<open>What the first walk does to one entry.\<close>

lemma tallied_enter:
  assumes "tallied d seen as k" and "valid_id d i" and "i \<notin> set seen"
  shows "references (anchor_at as i) = 0"
    and "tallied d (seen @ [i]) (as[nat (i - 1) := (anchor_at as i)\<lparr>references := 1\<rparr>]) k"
proof -
  have len: "length as = length (nodes d)" using assms(1) by (simp add: tallied_def)
  show z: "references (anchor_at as i) = 0" using assms by (force simp: tallied_def)
  have "anchor_id (anchor_at as i) = 0" using assms(1,2) z by (force simp: tallied_def)
  then show "tallied d (seen @ [i]) (as[nat (i - 1) := (anchor_at as i)\<lparr>references := 1\<rparr>]) k"
    using assms(1,2) z by (auto simp: tallied_def anchor_at_update [OF assms(2) _ len])
qed

lemma tallied_again:
  assumes "tallied d seen as k" and "valid_id d i" and "i \<in> set seen" and "a = (anchor_at as i)\<lparr>references := references (anchor_at as i) + 1\<rparr>"
  shows "references a \<noteq> 1"
    and "references a = 2 \<Longrightarrow> tallied d seen (as[nat (i - 1) := a\<lparr>anchor_id := k + 1\<rparr>]) (k + 1)"
    and "references a \<noteq> 2 \<Longrightarrow> tallied d seen (as[nat (i - 1) := a]) k"
proof -
  have len: "length as = length (nodes d)" using assms(1) by (simp add: tallied_def)
  have r: "references (anchor_at as i) > 0" using assms by (simp add: tallied_def)
  then show "references a \<noteq> 1" using assms(4) by simp
  have old: "0 \<le> references (anchor_at as j) \<and> (references (anchor_at as j) > 0 \<longleftrightarrow> j \<in> set seen)
      \<and> (anchor_id (anchor_at as j) \<noteq> 0 \<longleftrightarrow> references (anchor_at as j) \<ge> 2)
      \<and> 0 \<le> anchor_id (anchor_at as j) \<and> anchor_id (anchor_at as j) \<le> k \<and> \<not> serialized (anchor_at as j)" if "valid_id d j" for j
    using assms(1) that by (simp add: tallied_def)
  have k: "0 \<le> k" and inj: "anchor_id (anchor_at as j) = anchor_id (anchor_at as l) \<Longrightarrow> anchor_id (anchor_at as j) \<noteq> 0 \<Longrightarrow> j = l"
    if "valid_id d j" "valid_id d l" for j l
    using assms(1) that unfolding tallied_def by blast+
  have le_Suc: "anchor_id (anchor_at as j) \<le> k + 1" if "valid_id d j" for j using old [OF that] by linarith
  note at = anchor_at_update [OF assms(2) _ len]
  show "tallied d seen (as[nat (i - 1) := a\<lparr>anchor_id := k + 1\<rparr>]) (k + 1)" if "references a = 2"
    unfolding tallied_def
  proof (intro conjI allI impI)
    fix j l assume jl: "valid_id d j" "valid_id d l"
      "anchor_id (anchor_at (as[nat (i - 1) := a\<lparr>anchor_id := k + 1\<rparr>]) j) = anchor_id (anchor_at (as[nat (i - 1) := a\<lparr>anchor_id := k + 1\<rparr>]) l)"
      "anchor_id (anchor_at (as[nat (i - 1) := a\<lparr>anchor_id := k + 1\<rparr>]) j) \<noteq> 0"
    then show "j = l" using old [of j] old [of l] inj [of j l] by (simp add: at split: if_splits)
  qed (use that k [OF assms(2,2)] old le_Suc assms(2,3,4) len in \<open>auto simp: at\<close>)
  show "tallied d seen (as[nat (i - 1) := a]) k" if "references a \<noteq> 2"
    unfolding tallied_def
  proof (intro conjI allI impI)
    fix j l assume jl: "valid_id d j" "valid_id d l"
      "anchor_id (anchor_at (as[nat (i - 1) := a]) j) = anchor_id (anchor_at (as[nat (i - 1) := a]) l)"
      "anchor_id (anchor_at (as[nat (i - 1) := a]) j) \<noteq> 0"
    then show "j = l" using inj [of j l] assms(4) by (simp add: at split: if_splits)
  qed (use that k [OF assms(2,2)] old assms(2,3,4) len r in \<open>auto simp: at\<close>)
qed

text \<open>The step is the same for all emitters that hold the document.\<close>

definition tally_step where
  "tally_step d (r :: 'w yaml_emitter \<Rightarrow> (unit, 'w yaml_emitter) res) seen' as v \<longleftrightarrow>
     (\<exists>as' k'. (\<forall>E. em_document E = Some d \<longrightarrow> r E = Ok () (anchored E as' k')) \<and> tallied d seen' as' k'
       \<and> (\<forall>j. valid_id d j \<longrightarrow> references (anchor_at as' j) = references (anchor_at as j) + v j))"

lemma tally_stepI:
  assumes "\<And>E :: 'w yaml_emitter. em_document E = Some d \<Longrightarrow> r E = Ok () (anchored E as' k')" and "tallied d seen' as' k'"
    and "\<And>j. valid_id d j \<Longrightarrow> references (anchor_at as' j) = references (anchor_at as j) + v j"
  shows "tally_step d r seen' as v"
  using assms unfolding tally_step_def by blast

lemma anchor_again:
  assumes "tallied d seen as k" and "valid_id d i" and "i \<in> set seen"
  shows "tally_step d (\<lambda>E :: 'w yaml_emitter. yaml_emitter_anchor_node (Suc n) i (anchored E as k)) seen as (visits (VRef i))"
proof -
  define a where "a = (anchor_at as i)\<lparr>references := references (anchor_at as i) + 1\<rparr>"
  have len: "length as = length (nodes d)" using assms(1) by (simp add: tallied_def)
  have n: "dumped_node (anchored E as k) i = Some (node_at d i, anchor_at as i)" if "em_document E = Some d" for E :: "'w yaml_emitter"
    using that len assms(2) by (intro dumped_node_eq) simp_all
  note again = tallied_again [OF assms a_def]
  then have pos: "references (anchor_at as i) \<noteq> 0" by (simp add: a_def)
  show ?thesis
  proof (cases "references a = 2")
    case True
    then show ?thesis using again(2) n pos
      by (intro tally_stepI [of d _ "as[nat (i - 1) := a\<lparr>anchor_id := k + 1\<rparr>]" "k + 1"]) (simp_all add: a_def Let_def anchor_at_update [OF assms(2) _ len])
  next
    case False
    then show ?thesis using again(3) n pos
      by (intro tally_stepI [of d _ "as[nat (i - 1) := a]" k]) (simp_all add: a_def Let_def anchor_at_update [OF assms(2) _ len])
  qed
qed

lemma anchor_walk:
  assumes "walk d n i seen = Some (t, seen')" and "tallied d seen as k"
  shows "tally_step d (\<lambda>E :: 'w yaml_emitter. yaml_emitter_anchor_node n i (anchored E as k)) seen' as (visits t)"
  using assms
proof (induction arbitrary: as k rule: walk_rule [where Q = "\<lambda>n is seen ts seen'. \<forall>as k. tallied d seen as k \<longrightarrow>
    tally_step d (\<lambda>E :: 'w yaml_emitter. each (yaml_emitter_anchor_node n) is (anchored E as k)) seen' as (\<lambda>j. sum_list (map (\<lambda>t. visits t j) ts))"])
  case (ref n i seen)
  then show ?case by (intro anchor_again)
next
  case (node n i seen ts seen')
  let ?as = "as[nat (i - 1) := (anchor_at as i)\<lparr>references := 1\<rparr>]"
  have len: "length as = length (nodes d)" using node.prems by (simp add: tallied_def)
  note enter = tallied_enter [OF node.prems node(1,2)]
  have eq: "yaml_emitter_anchor_node (Suc n) i (anchored E as k) =
      each (yaml_emitter_anchor_node n) (children (node_data (node_at d i))) (anchored E ?as k)" if "em_document E = Some d" for E :: "'w yaml_emitter"
    using dumped_node_eq [of "anchored E as k" d as i] that len node(1) enter(1) by (simp add: Let_def)
  have r: "references (anchor_at ?as j) = references (anchor_at as j) + (if j = i then 1 else 0)" if "valid_id d j" for j
    using that enter(1) by (simp add: anchor_at_update [OF node(1) that len])
  obtain as' k' where "\<forall>E :: 'w yaml_emitter. em_document E = Some d \<longrightarrow>
        each (yaml_emitter_anchor_node n) (children (node_data (node_at d i))) (anchored E ?as k) = Ok () (anchored E as' k')"
      "tallied d seen' as' k'" "\<forall>j. valid_id d j \<longrightarrow> references (anchor_at as' j) = references (anchor_at ?as j) + sum_list (map (\<lambda>t. visits t j) ts)"
    using node(4) enter(2) unfolding tally_step_def by blast
  then show ?case using r by (intro tally_stepI [of d _ as' k']) (simp_all add: eq del: yaml_emitter_anchor_node.simps)
next
  case (nil n seen)
  then show ?case by (auto intro: tally_stepI)
next
  case (cons n i "is" seen t seen1 ts seen2)
  show ?case
  proof (intro allI impI)
    fix as k assume "tallied d seen as k"
    with cons.IH obtain as1 k1 where 1: "\<forall>E :: 'w yaml_emitter. em_document E = Some d \<longrightarrow> yaml_emitter_anchor_node n i (anchored E as k) = Ok () (anchored E as1 k1)"
        "tallied d seen1 as1 k1" "\<forall>j. valid_id d j \<longrightarrow> references (anchor_at as1 j) = references (anchor_at as j) + visits t j"
      unfolding tally_step_def by blast
    with cons(3) obtain as2 k2 where 2: "\<forall>E :: 'w yaml_emitter. em_document E = Some d \<longrightarrow> each (yaml_emitter_anchor_node n) is (anchored E as1 k1) = Ok () (anchored E as2 k2)"
        "tallied d seen2 as2 k2" "\<forall>j. valid_id d j \<longrightarrow> references (anchor_at as2 j) = references (anchor_at as1 j) + sum_list (map (\<lambda>t. visits t j) ts)"
      unfolding tally_step_def by blast
    with 1 show "tally_step d (\<lambda>E :: 'w yaml_emitter. each (yaml_emitter_anchor_node n) (i # is) (anchored E as k)) seen2 as (\<lambda>j. sum_list (map (\<lambda>t. visits t j) (t # ts)))"
      by (intro tally_stepI [of d _ as2 k2]) auto
  qed
qed

end
