(* ===== verification/Yaml_Emit_Output.thy ===== *)
theory Yaml_Emit_Output
  imports Yaml_Emitter
begin

text \<open>
  The functions of \<^verbatim>\<open>src/emitter.c\<close> that write, on strings of whole characters: each of them
  returns, fails only if the write handler fails, keeps the output buffer within its block and
  full of whole characters, and leaves the rest of the emitter alone (\<open>writes\<close>).
\<close>

section \<open>Whole characters\<close>

text \<open>The loops over a string come to its end: every width leads to the start of a character.\<close>

function whole_chars :: "ystr \<Rightarrow> bool" where
  "whole_chars s =
     (if s = [] then True
      else if str_width s = 0 \<or> length s < str_width s then False
      else whole_chars (drop (str_width s) s))"
  by pat_completeness auto
termination by (relation "measure length") auto

declare whole_chars.simps [simp del]

lemma whole_chars_Nil [simp]: "whole_chars []"
  by (simp add: whole_chars.simps)

lemma str_width_append: "0 < length s \<Longrightarrow> str_width (s @ t) = str_width s"
  by (simp add: str_width_def octet_def nth_append)

lemma whole_chars_append: "whole_chars s \<Longrightarrow> whole_chars t \<Longrightarrow> whole_chars (s @ t)"
proof (induction s rule: whole_chars.induct)
  case (1 s)
  show ?case
  proof (cases "s = []")
    case False
    then have w: "str_width (s @ t) = str_width s" by (simp add: str_width_append)
    from False "1.prems"(1) have s: "0 < str_width s" "str_width s \<le> length s" "whole_chars (drop (str_width s) s)"
      by (subst (asm) whole_chars.simps, auto split: if_splits)+
    then have "whole_chars (drop (str_width s) s @ t)" using "1.IH" False "1.prems"(2) by simp
    then show ?thesis using s w by (subst whole_chars.simps) simp
  qed (use 1 in simp)
qed

lemma whole_chars_ascii: "b < 0x80 \<Longrightarrow> whole_chars [b]"
  by (subst whole_chars.simps) (simp add: str_width_def octet_def utf8_width_nat word_less_nat_alt)

lemma whole_chars_asciis: "list_all (\<lambda>b. b < 0x80) bs \<Longrightarrow> whole_chars bs"
proof (induction bs)
  case (Cons b bs)
  then show ?case using whole_chars_append [OF whole_chars_ascii [of b]] by simp
qed simp

lemma whole_chars_take: "0 < str_width s \<Longrightarrow> str_width s \<le> length s \<Longrightarrow> whole_chars (take (str_width s) s)"
  by (cases s; subst whole_chars.simps) (auto simp: str_width_def octet_def)

lemma whole_chars_drop: "whole_chars s \<Longrightarrow> s \<noteq> [] \<Longrightarrow>
   0 < str_width s \<and> str_width s \<le> length s \<and> whole_chars (drop (str_width s) s)"
  by (subst (asm) whole_chars.simps) (auto split: if_splits)

lemma str_width_le: "str_width s \<le> 4"
  by (simp add: str_width_def utf8_width_def)

lemma recode_whole: "whole_chars bs \<Longrightarrow> \<exists>out. recode le bs = Some out"
proof (induction bs rule: whole_chars.induct)
  case (1 bs)
  show ?case
  proof (cases "bs = []")
    case False
    then have "str_width bs = utf8_width (hd bs)" by (simp add: str_width_def octet_def hd_conv_nth)
    moreover have "\<exists>out. recode le (drop (str_width bs) bs) = Some out"
      using "1.IH" False whole_chars_drop [OF "1.prems" False] by simp
    ultimately show ?thesis
      using False whole_chars_drop [OF "1.prems" False] by (subst recode.simps) (auto simp: Let_def)
  qed (simp add: recode.simps)
qed

section \<open>Output\<close>

text \<open>The state of the output: what the writers need and keep.\<close>

definition out_ok :: "'w yaml_emitter \<Rightarrow> bool" where
  "out_ok E \<longleftrightarrow> write_handler E \<noteq> None \<and> em_encoding E \<noteq> YAML_ANY_ENCODING \<and> whole_chars (em_buffer E)
     \<and> length (em_buffer E) \<le> OUTPUT_BUFFER_SIZE \<and> em_raw_buffer E = [] \<and> 2 \<le> best_indent E \<and> best_indent E \<le> 9"

text \<open>The part of the emitter that the writers do not touch.\<close>

definition ctl where
  "ctl (E :: 'w yaml_emitter) = (write_handler E, em_encoding E, em_heap E, (canonical E, best_indent E, best_width E, unicode E, line_break E),
     (em_states E, em_state E, events E, em_indents E, em_tag_directives E, em_indent E, em_flow_level E),
     (root_context E, sequence_context E, mapping_context E, simple_key_context E),
     (anchor_data E, anchor_alias E, tag_handle E, tag_suffix E, scalar_data E),
     (opened E, closed E, em_anchors E, last_anchor_id E, em_document E))"

text \<open>
  A writer: it returns, fails only with a write error, keeps the output in order and leaves the
  rest of the emitter alone.
\<close>

definition writes :: "('w yaml_emitter \<Rightarrow> ('a, 'w yaml_emitter) res) \<Rightarrow> bool" where
  "writes f \<longleftrightarrow> (\<forall>E. out_ok E \<longrightarrow>
     wp False (f E) (\<lambda>_ E'. out_ok E' \<and> ctl E' = ctl E) (\<lambda>E'. em_error E' = YAML_WRITER_ERROR \<and> ctl E' = ctl E))"

named_theorems writers \<open>functions that only write\<close>

lemma writesD: "writes f \<Longrightarrow> out_ok E \<Longrightarrow>
    wp False (f E) (\<lambda>_ E'. out_ok E' \<and> ctl E' = ctl E) (\<lambda>E'. em_error E' = YAML_WRITER_ERROR \<and> ctl E' = ctl E)"
  by (simp add: writes_def)

lemma writes_bind [writers]:
  assumes "writes f" and "\<And>x. writes (g x)"
  shows "writes (\<lambda>E. res_bind (f E) (\<lambda>x E'. g x E'))"
  unfolding writes_def
proof (intro allI impI)
  fix E :: "'a yaml_emitter" assume E: "out_ok E"
  have "wp False (g x E') (\<lambda>_ E'. out_ok E' \<and> ctl E' = ctl E) (\<lambda>E'. em_error E' = YAML_WRITER_ERROR \<and> ctl E' = ctl E)"
    if "out_ok E' \<and> ctl E' = ctl E" for x E'
    using writesD [OF assms(2) [of x], of E'] that by simp
  with writesD [OF assms(1) E] show
    "wp False (res_bind (f E) g) (\<lambda>_ E'. out_ok E' \<and> ctl E' = ctl E) (\<lambda>E'. em_error E' = YAML_WRITER_ERROR \<and> ctl E' = ctl E)"
    by (auto elim!: wp_mono)
qed

lemma writes_Ok [writers]: "writes (\<lambda>E. Ok (x E) E)"
  by (simp add: writes_def)

lemma writes_if [writers]: "writes f \<Longrightarrow> writes g \<Longrightarrow> writes (\<lambda>E. if b E then f E else g E)"
  by (simp add: writes_def)

lemma writes_Let [writers]: "(\<And>x. writes (f x)) \<Longrightarrow> writes (\<lambda>E. let x = v E in f x E)"
  by (simp add: writes_def)

lemma out_ok_ctl: "ctl F = ctl E \<Longrightarrow> em_buffer F = em_buffer E \<Longrightarrow> em_raw_buffer F = em_raw_buffer E \<Longrightarrow> out_ok F = out_ok E"
  by (simp add: out_ok_def ctl_def)

lemma writes_flags [writers]:
  "writes (\<lambda>E. Ok (x E) (E\<lparr>whitespace := a E, indention := b E\<rparr>))" "writes (\<lambda>E. Ok (x E) (E\<lparr>indention := b E\<rparr>))"
  "writes (\<lambda>E. Ok (x E) (E\<lparr>indention := b E, whitespace := a E\<rparr>))"
  "writes (\<lambda>E. Ok (x E) (E\<lparr>open_ended := c E\<rparr>))"
  by (simp_all add: writes_def ctl_def out_ok_def)

lemma writes_flush [writers]: "writes yaml_emitter_flush"
  unfolding writes_def
proof (intro allI impI)
  fix E :: "'a yaml_emitter" assume E: "out_ok E"
  then obtain wh where wh: "write_handler E = Some wh" by (auto simp: out_ok_def)
  obtain ok d where d: "wh (write_handler_data E) (em_buffer E) = (ok, d)" by force
  obtain out where out: "recode (em_encoding E = YAML_UTF16LE_ENCODING) (em_buffer E) = Some out"
    using recode_whole [of "em_buffer E"] E by (auto simp: out_ok_def)
  then have "length out \<le> OUTPUT_RAW_BUFFER_SIZE"
    using length_recode [OF out] E by (simp add: out_ok_def OUTPUT_RAW_BUFFER_SIZE_def)
  moreover obtain ok' d' where "wh (write_handler_data E) out = (ok', d')" by force
  ultimately show "wp False (yaml_emitter_flush E) (\<lambda>_ E'. out_ok E' \<and> ctl E' = ctl E)
      (\<lambda>E'. em_error E' = YAML_WRITER_ERROR \<and> ctl E' = ctl E)"
    using E wh d out
    by (auto simp: yaml_emitter_flush_def out_ok_def ctl_def yaml_emitter_set_writer_error_def Let_def)
qed

text \<open>After \<open>FLUSH\<close> there is room for a character of up to five octets.\<close>

lemma wp_FLUSH:
  assumes "out_ok E"
  shows "wp False (FLUSH E) (\<lambda>_ E'. out_ok E' \<and> ctl E' = ctl E \<and> length (em_buffer E') + 5 < OUTPUT_BUFFER_SIZE)
    (\<lambda>E'. em_error E' = YAML_WRITER_ERROR \<and> ctl E' = ctl E)"
proof (cases "length (em_buffer E) + 5 < OUTPUT_BUFFER_SIZE")
  case False
  have "em_buffer E' = []" if "yaml_emitter_flush E = Ok () E'" for E'
    using that by (auto simp: yaml_emitter_flush_def yaml_emitter_set_writer_error_def Let_def split: option.splits if_splits prod.splits)
  then show ?thesis using wp_Ok [OF writesD [OF writes_flush assms]] False
    by (auto simp: FLUSH_def OUTPUT_BUFFER_SIZE_def elim!: wp_mono)
qed (use assms in \<open>simp add: FLUSH_def\<close>)

text \<open>What is put behind the buffer: whole characters for which there is room.\<close>

lemma writes_put:
  assumes "\<And>F. out_ok F \<Longrightarrow> length (em_buffer F) + 5 < OUTPUT_BUFFER_SIZE \<Longrightarrow> out_ok (g F)" and "\<And>F. ctl (g F) = ctl F"
  shows "writes (\<lambda>E. res_bind (FLUSH E) (\<lambda>_ F. Ok () (g F)))"
  unfolding writes_def using wp_FLUSH assms by (fastforce elim!: wp_mono)

lemma whole_chars_breaks: "whole_chars (break_octets lb)" "length (break_octets lb) \<le> 5"
  by (auto simp: break_octets_def intro!: whole_chars_asciis split: yaml_break.splits)

lemma writes_PUT [writers]: "b < 0x80 \<Longrightarrow> writes (PUT b)"
  unfolding PUT_def by (rule writes_put) (auto simp: out_ok_def ctl_def intro!: whole_chars_append whole_chars_ascii)

lemma writes_PUT_BREAK [writers]: "writes PUT_BREAK"
  unfolding PUT_BREAK_def
proof (rule writes_put)
  fix F :: "'a yaml_emitter"
  assume "out_ok F" "length (em_buffer F) + 5 < OUTPUT_BUFFER_SIZE"
  then show "out_ok (F\<lparr>em_buffer := em_buffer F @ break_octets (line_break F), em_column := 0, em_line := em_line F + 1\<rparr>)"
    using whole_chars_breaks [of "line_break F"] by (auto simp: out_ok_def intro!: whole_chars_append)
qed (simp add: ctl_def)

abbreviation at_char :: "ystr \<Rightarrow> bool" where
  "at_char s \<equiv> 0 < str_width s \<and> str_width s \<le> length s"

lemma out_ok_take:
  assumes "at_char s" and "out_ok F" and "length (em_buffer F) + 5 < OUTPUT_BUFFER_SIZE"
    and "ctl G = ctl F" and "em_buffer G = em_buffer F @ take (str_width s) s" and "em_raw_buffer G = em_raw_buffer F"
  shows "out_ok G"
proof -
  have "whole_chars (em_buffer F @ take (str_width s) s)"
    using assms by (auto simp: out_ok_def intro!: whole_chars_append whole_chars_take)
  then show ?thesis using assms str_width_le [of s] by (auto simp: out_ok_def ctl_def)
qed

lemma writes_WRITE [writers]: "at_char s \<Longrightarrow> writes (WRITE s)"
  unfolding WRITE_def by (rule writes_put) (auto simp: ctl_def intro: out_ok_take)

lemma PUT_BREAK_room:
  assumes "out_ok F" and "length (em_buffer F) + 5 < OUTPUT_BUFFER_SIZE"
  shows "\<exists>F'. PUT_BREAK F = Ok () F' \<and> out_ok F' \<and> ctl F' = ctl F"
proof -
  have "PUT_BREAK F = Ok () (F\<lparr>em_buffer := em_buffer F @ break_octets (line_break F), em_column := 0, em_line := em_line F + 1\<rparr>)"
    using assms(2) by (simp add: PUT_BREAK_def FLUSH_def)
  then show ?thesis using writesD [OF writes_PUT_BREAK assms(1)] by simp
qed

lemma writes_WRITE_BREAK [writers]:
  assumes "at_char s"
  shows "writes (WRITE_BREAK s)"
  unfolding writes_def
proof (intro allI impI)
  fix E :: "'a yaml_emitter" assume "out_ok E"
  let ?Q = "\<lambda>_ E'. out_ok E' \<and> ctl E' = ctl E" and ?R = "\<lambda>E'. em_error E' = YAML_WRITER_ERROR \<and> ctl E' = ctl E"
  show "wp False (WRITE_BREAK s E) ?Q ?R"
  proof (cases "str_check s (CHR 0x0A)")
    case True
    have "wp False (case PUT_BREAK F of Fail E \<Rightarrow> Ok () E | r \<Rightarrow> r) ?Q ?R"
      if "out_ok F \<and> ctl F = ctl E \<and> length (em_buffer F) + 5 < OUTPUT_BUFFER_SIZE" for F
      using that PUT_BREAK_room [of F] by auto
    with wp_FLUSH [OF \<open>out_ok E\<close>] True show ?thesis unfolding WRITE_BREAK_def by (auto elim!: wp_mono)
  next
    case False
    let ?g = "\<lambda>F. F\<lparr>em_buffer := em_buffer F @ take (str_width s) s, em_column := 0, em_line := em_line F + 1\<rparr>"
    have w: "writes (\<lambda>E. res_bind (FLUSH E) (\<lambda>_ F. Ok () (?g F)))"
      by (rule writes_put) (auto simp: ctl_def intro: out_ok_take [OF assms])
    show ?thesis using False writesD [OF w \<open>out_ok E\<close>] by (simp add: WRITE_BREAK_def)
  qed
qed

lemma writes_put_octets [writers]: "list_all (\<lambda>b. b < 0x80) bs \<Longrightarrow> writes (put_octets bs)"
proof (induction bs)
  case Nil
  show ?case by (simp add: writes_def)
next
  case (Cons b bs)
  have eq: "put_octets (b # bs) = (\<lambda>E. res_bind (PUT b E) (\<lambda>_ E. put_octets bs E))" by (rule ext) simp
  show ?case unfolding eq using Cons by (intro writes_bind writes_PUT) auto
qed

lemma writes_for_chars:
  assumes "\<And>x s. at_char s \<Longrightarrow> writes (f x s)" and "whole_chars s"
  shows "writes (for_chars f x s)"
  using assms(2)
proof (induction s arbitrary: x rule: whole_chars.induct)
  case (1 s)
  show ?case
  proof (cases "s = []")
    case True
    then show ?thesis by (simp add: writes_def for_chars.simps)
  next
    case False
    note s = whole_chars_drop [OF "1.prems" False]
    have eq: "for_chars f x s = (\<lambda>E. res_bind (f x s E) (\<lambda>x E. for_chars f x (drop (str_width s) s) E))"
      using s False by (intro ext) (subst for_chars.simps, simp)
    show ?thesis unfolding eq using s False by (intro writes_bind assms(1) "1.IH") auto
  qed
qed

lemma writes_string [writers]: "whole_chars s \<Longrightarrow> writes (write_string s)"
  unfolding write_string_def by (intro writes_for_chars writes_WRITE)

lemma whole_octets: "list_all (\<lambda>c. (of_char c :: byte) < 0x80) s \<Longrightarrow> whole_chars (octets s)"
  by (rule whole_chars_asciis) (simp add: octets_def list_all_iff)


section \<open>The writers\<close>

lemma ascii_literals [simp]:
  "whole_chars (octets ''!<'')" "whole_chars (octets ''>'')" "whole_chars (octets [CHR 39])" "whole_chars (octets [CHR 34])"
  "whole_chars (octets ''|'')" "whole_chars (octets ''-'')" "whole_chars (octets ''+'')" "whole_chars (octets ''*'')"
  "whole_chars (octets ''&'')" "whole_chars (octets ''['')" "whole_chars (octets '']'')" "whole_chars (octets ''{'')"
  "whole_chars (octets ''}'')" "whole_chars (octets '','')" "whole_chars (octets ''?'')" "whole_chars (octets '':'')"
  "whole_chars (octets ''...'')" "whole_chars (octets ''---'')" "whole_chars (octets ''%YAML'')" "whole_chars (octets ''%TAG'')"
  "whole_chars (octets ''1.1'')" "whole_chars (octets ''1.2'')" "whole_chars (octets ''!'')"
  by (rule whole_octets; simp)+

lemma writes_bom [writers]: "writes yaml_emitter_write_bom"
  unfolding yaml_emitter_write_bom_def
proof (rule writes_put)
  fix F :: "'a yaml_emitter"
  have "whole_chars [0xEF, 0xBB, 0xBF]" by code_simp
  moreover assume "out_ok F" "length (em_buffer F) + 5 < OUTPUT_BUFFER_SIZE"
  ultimately show "out_ok (F\<lparr>em_buffer := em_buffer F @ [0xEF, 0xBB, 0xBF]\<rparr>)"
    by (auto simp: out_ok_def intro!: whole_chars_append)
qed (simp add: ctl_def)

text \<open>A function of the state that is put together from writers for each value of the state.\<close>

lemma writes_point: "(\<And>x. writes (\<lambda>E. g x E)) \<Longrightarrow> writes (\<lambda>E. g (v E) E)"
  by (simp add: writes_def)

lemma writes_spaces: "writes (\<lambda>E. put_octets (replicate (nat (ind - em_column E)) 0x20) E)"
  by (rule writes_point [where v = em_column]) (auto simp: list_all_iff intro!: writers)

lemma writes_indent [writers]: "writes yaml_emitter_write_indent"
  unfolding yaml_emitter_write_indent_def by (intro writers writes_spaces)

lemma writes_put_space [writers]: "writes (put_space b)"
  unfolding put_space_def by (intro writers) simp

lemma writes_indicator [writers]:
  assumes "whole_chars (octets ind)"
  shows "writes (yaml_emitter_write_indicator ind a b c)"
  unfolding yaml_emitter_write_indicator_def using assms by (intro writers)

lemma writes_written [writers]: "writes written"
  unfolding written_def by (intro writers)

lemma writes_anchor [writers]: "whole_chars v \<Longrightarrow> writes (yaml_emitter_write_anchor v)"
  unfolding yaml_emitter_write_anchor_def by (intro writers)

lemma writes_tag_handle [writers]: "whole_chars v \<Longrightarrow> writes (yaml_emitter_write_tag_handle v)"
  unfolding yaml_emitter_write_tag_handle_def by (intro writers)

lemma hex_digit_ascii: "d < 16 \<Longrightarrow> hex_digit d < 0x80"
  by (auto simp: hex_digit_def word_less_nat_alt unat_ucast8 unat_word_ariths split: if_splits)

lemma word_and_0F: "(v AND 0x0F :: 32 word) < 16"
  using nat_and_mask [of "unat v" 4] by (simp add: word_less_nat_alt unsigned_and_eq)

lemma percent_octets_ascii: "list_all (\<lambda>b. b < 0x80) (percent_octets b)"
proof -
  have "drop_bit 4 (ucast b :: 32 word) < 16"
    using unat_byte [of b] by (simp add: word_less_nat_alt unat_drop unat_ucast32)
  then show ?thesis by (simp add: percent_octets_def Let_def hex_digit_ascii word_and_0F)
qed

lemma writes_tag_content [writers]: "whole_chars v \<Longrightarrow> writes (yaml_emitter_write_tag_content v b)"
  unfolding yaml_emitter_write_tag_content_def
  by (intro writers writes_for_chars) (use percent_octets_ascii in \<open>auto simp: list_all_iff\<close>)

lemma writes_scalar_break [writers]: "at_char s \<Longrightarrow> writes (write_scalar_break b s)"
  unfolding write_scalar_break_def by (intro writers)

lemma writes_indent_if [writers]: "writes (indent_if b)"
  unfolding indent_if_def by (intro writers)

lemma writes_plain_char: "at_char s \<Longrightarrow> writes (plain_char b x s)"
  unfolding plain_char_def by (cases x, simp only: prod.case) (intro writers)

lemma writes_plain_scalar [writers]: "whole_chars v \<Longrightarrow> writes (yaml_emitter_write_plain_scalar v b)"
  unfolding yaml_emitter_write_plain_scalar_def
  by (rule writes_point [where v = em_flow_level]) (intro writers writes_for_chars writes_plain_char)

lemma writes_single_quoted_char: "at_char s \<Longrightarrow> writes (single_quoted_char b n x s)"
  unfolding single_quoted_char_def by (cases x, simp only: prod.case) (intro writers, auto)

lemma writes_case_prod [writers]: "(\<And>a b. writes (f a b)) \<Longrightarrow> writes (\<lambda>E. case x of (a, b) \<Rightarrow> f a b E)"
  by (cases x) simp

lemma writes_single_quoted_scalar [writers]: "whole_chars v \<Longrightarrow> writes (yaml_emitter_write_single_quoted_scalar v b)"
  unfolding yaml_emitter_write_single_quoted_scalar_def case_prod_unfold
  by (intro writers writes_for_chars writes_single_quoted_char) simp_all

lemma dq_escape_ascii: "list_all (\<lambda>b. b < 0x80) (0x5C # escape_octets v)"
  by (simp add: escape_octets_def octets_def escape_hex_def list_all_iff hex_digit_ascii word_and_0F)

lemma writes_double_quoted_char: "at_char s \<Longrightarrow> writes (double_quoted_char b n x s)"
  unfolding double_quoted_char_def by (intro writers dq_escape_ascii) auto

lemma writes_double_quoted_scalar [writers]: "whole_chars v \<Longrightarrow> writes (yaml_emitter_write_double_quoted_scalar v b)"
  unfolding yaml_emitter_write_double_quoted_scalar_def
  by (intro writers writes_for_chars writes_double_quoted_char) simp_all


lemma step_back_ex:
  assumes "whole_chars s" and "s \<noteq> []"
  shows "\<exists>j<Suc k. step_back s (Suc k) = Some j"
proof (induction k)
  case 0
  have "octet s 0 AND 0xC0 \<noteq> 0x80"
    using whole_chars_drop [OF assms] by (auto simp: str_width_def utf8_width_nat byte_and_C0 split: if_splits)
  then show ?case by simp
next
  case (Suc k)
  then show ?case by (auto simp: less_Suc_eq)
qed

lemma chomp_hint_ex:
  assumes "whole_chars s"
  shows "\<exists>h oe. chomp_hint s = Some (h, oe) \<and> h \<in> {None, Some ''-'', Some ''+''}"
proof (cases "s = []")
  case False
  then obtain j where j: "step_back s (length s) = Some j" using step_back_ex [OF assms, of "length s - 1"] by auto
  show ?thesis
  proof (cases j)
    case (Suc m)
    then obtain i where "step_back s j = Some i" using step_back_ex [OF assms False, of m] by auto
    then show ?thesis using j False Suc by (simp add: chomp_hint_def)
  qed (use j False in \<open>simp add: chomp_hint_def\<close>)
qed (simp add: chomp_hint_def)

lemma digits_ascii: "list_all (\<lambda>k. (of_char (char_of (48 + k :: nat)) :: byte) < 0x80) [0..<10]"
  by code_simp

lemma writes_indent_hint: "writes (\<lambda>E. yaml_emitter_write_indicator [char_of (48 + nat (best_indent E))] False False False E)"
  unfolding writes_def
proof (intro allI impI)
  fix E :: "'a yaml_emitter" assume E: "out_ok E"
  then have "nat (best_indent E) < 10" by (auto simp: out_ok_def)
  then have "whole_chars (octets [char_of (48 + nat (best_indent E))])"
    using digits_ascii by (intro whole_chars_asciis) (simp add: octets_def list_all_iff)
  from writesD [OF writes_indicator [OF this] E]
  show "wp False (yaml_emitter_write_indicator [char_of (48 + nat (best_indent E))] False False False E)
     (\<lambda>_ E'. out_ok E' \<and> ctl E' = ctl E) (\<lambda>E'. em_error E' = YAML_WRITER_ERROR \<and> ctl E' = ctl E)" .
qed

lemma writes_block_scalar_hints [writers]:
  assumes "whole_chars v"
  shows "writes (yaml_emitter_write_block_scalar_hints v)"
proof -
  obtain h oe where h: "chomp_hint v = Some (h, oe)" "h \<in> {None, Some ''-'', Some ''+''}" using chomp_hint_ex [OF assms] by blast
  have "writes (\<lambda>E. case h of None \<Rightarrow> Ok () (E\<lparr>open_ended := oe\<rparr>)
      | Some i \<Rightarrow> yaml_emitter_write_indicator i False False False (E\<lparr>open_ended := oe\<rparr>))"
  proof -
    have "writes (\<lambda>E. res_bind (Ok () (E\<lparr>open_ended := oe\<rparr>))
        (\<lambda>_ E. case h of None \<Rightarrow> Ok () E | Some i \<Rightarrow> yaml_emitter_write_indicator i False False False E))"
      using h(2) by (intro writers) (auto intro!: writers)
    then show ?thesis by simp
  qed
  then show ?thesis unfolding yaml_emitter_write_block_scalar_hints_def
    by (simp add: h(1) Let_def) (intro writes_bind writes_if writes_Ok writes_indent_hint)
qed

lemma writes_block_header [writers]: "whole_chars v \<Longrightarrow> whole_chars (octets ind) \<Longrightarrow> writes (write_block_header ind v)"
  unfolding write_block_header_def by (intro writers)

lemma writes_literal_scalar [writers]: "whole_chars v \<Longrightarrow> writes (yaml_emitter_write_literal_scalar v)"
  unfolding yaml_emitter_write_literal_scalar_def literal_char_def
  by (intro writers writes_for_chars) simp_all

lemma writes_folded_char: "at_char s \<Longrightarrow> writes (folded_char x s)"
  unfolding folded_char_def by (cases x, simp only: prod.case) (intro writers)

lemma writes_folded_scalar [writers]: "whole_chars v \<Longrightarrow> writes (yaml_emitter_write_folded_scalar v)"
  unfolding yaml_emitter_write_folded_scalar_def
  by (intro writers writes_for_chars writes_folded_char) simp_all

end
