(* ===== verification/Yaml_Emit_Checks.thy ===== *)
theory Yaml_Emit_Checks
  imports Yaml_Emit_Output Yaml_Events
begin

text \<open>
  The analysis of an event by the emitter: which events it accepts (\<open>ev_valid\<close>), and what it leaves
  behind for the writers.
\<close>

section \<open>Calls of writers\<close>

abbreviation write_error :: "'w yaml_emitter \<Rightarrow> bool" where
  "write_error E \<equiv> em_error E = YAML_WRITER_ERROR"

lemma wp_writes:
  assumes "writes f" and "out_ok E"
    and "\<And>x F. out_ok F \<Longrightarrow> ctl F = ctl E \<Longrightarrow> wp False (g x F) Q R"
    and "\<And>F. write_error F \<Longrightarrow> R F"
  shows "wp False (res_bind (f E) g) Q R"
  using writesD [OF assms(1,2)] by (auto elim!: wp_mono simp: assms)

section \<open>Events with valid data\<close>

text \<open>
  What the emitter needs of the strings in an event: whole characters.  The functions of the API
  that make events check more than that.
\<close>

definition tag_text :: "ystr option \<Rightarrow> bool" where
  "tag_text t \<longleftrightarrow> (case t of None \<Rightarrow> True | Some t \<Rightarrow> whole_chars (cstr t))"

fun text_ok :: "yaml_event_data \<Rightarrow> bool" where
  "text_ok (YAML_DOCUMENT_START_EVENT _ tds _) = list_all (\<lambda>td. whole_chars (cstr (td_prefix td))) tds"
| "text_ok (YAML_SCALAR_EVENT _ t v _ _ _) = (tag_text t \<and> whole_chars v)"
| "text_ok (YAML_SEQUENCE_START_EVENT _ t _ _) = tag_text t"
| "text_ok (YAML_MAPPING_START_EVENT _ t _ _) = tag_text t"
| "text_ok _ = True"

text \<open>What it accepts: the tests of its analyzers.\<close>

definition anchor_ok :: "ystr \<Rightarrow> bool" where
  "anchor_ok a \<longleftrightarrow> cstr a \<noteq> [] \<and> all_alpha (cstr a)"

definition opt_ok :: "('a \<Rightarrow> bool) \<Rightarrow> 'a option \<Rightarrow> bool" where
  "opt_ok P x \<longleftrightarrow> (case x of None \<Rightarrow> True | Some a \<Rightarrow> P a)"

definition directive_ok :: "yaml_tag_directive \<Rightarrow> bool" where
  "directive_ok td \<longleftrightarrow> (let h = cstr (td_handle td) in
     h \<noteq> [] \<and> hd h = 33 \<and> last h = 33 \<and> all_alpha (butlast (tl h)) \<and> cstr (td_prefix td) \<noteq> [])"

fun ev_valid :: "yaml_event_data \<Rightarrow> bool" where
  "ev_valid (YAML_DOCUMENT_START_EVENT vd tds _) =
     (opt_ok (\<lambda>v. major v = 1 \<and> (minor v = 1 \<or> minor v = 2)) vd \<and> list_all directive_ok tds
      \<and> distinct (map (\<lambda>td. cstr (td_handle td)) tds))"
| "ev_valid (YAML_ALIAS_EVENT a) = anchor_ok a"
| "ev_valid (YAML_SCALAR_EVENT a t _ pi qi _) =
     (opt_ok anchor_ok a \<and> opt_ok (\<lambda>t. cstr t \<noteq> []) t \<and> (t = None \<longrightarrow> pi \<or> qi))"
| "ev_valid (YAML_SEQUENCE_START_EVENT a t _ _) = (opt_ok anchor_ok a \<and> opt_ok (\<lambda>t. cstr t \<noteq> []) t)"
| "ev_valid (YAML_MAPPING_START_EVENT a t _ _) = (opt_ok anchor_ok a \<and> opt_ok (\<lambda>t. cstr t \<noteq> []) t)"
| "ev_valid _ = True"

section \<open>Analysis\<close>

definition directives_ok :: "'w yaml_emitter \<Rightarrow> bool" where
  "directives_ok E \<longleftrightarrow> list_all (\<lambda>td. whole_chars (cstr (td_handle td)) \<and> whole_chars (cstr (td_prefix td))) (em_tag_directives E)"

text \<open>What the analysis leaves behind for the writers.\<close>

definition data_text :: "'w yaml_emitter \<Rightarrow> bool" where
  "data_text E \<longleftrightarrow> opt_ok whole_chars (anchor_data E) \<and> opt_ok whole_chars (tag_handle E) \<and> opt_ok whole_chars (tag_suffix E)
     \<and> whole_chars (sd_value (scalar_data E))"

definition analyzed :: "yaml_event_data \<Rightarrow> 'w yaml_emitter \<Rightarrow> bool" where
  "analyzed ev E \<longleftrightarrow> data_text E
     \<and> (case ev of YAML_SCALAR_EVENT a t v pi qi s \<Rightarrow> pi \<or> qi \<or> (t \<noteq> None \<longrightarrow> tag_suffix E \<noteq> None) | _ \<Rightarrow> True)"

text \<open>The part of the emitter that the analysis does not touch.\<close>

definition auto_part where
  "auto_part (E :: 'w yaml_emitter) = (write_handler E, em_encoding E, em_heap E, (canonical E, best_indent E, best_width E, unicode E, line_break E),
     (em_states E, em_state E, events E, em_indents E, em_tag_directives E, em_indent E, em_flow_level E),
     (em_buffer E, em_raw_buffer E), (opened E, closed E, em_anchors E, last_anchor_id E, em_document E))"

lemma out_ok_auto: "auto_part F = auto_part E \<Longrightarrow> out_ok F = out_ok E"
  by (simp add: auto_part_def out_ok_def)

lemma alpha_ascii: "str_alpha [b] \<Longrightarrow> b < 0x80"
  by (auto simp: str_alpha_def octet_def in_range_def Let_def word_less_nat_alt word_le_nat_alt)

lemma all_alpha_whole: "all_alpha s \<Longrightarrow> whole_chars s"
  by (rule whole_chars_asciis) (auto simp: all_alpha_def list_all_iff alpha_ascii)

lemma whole_chars_rest: "whole_chars s \<Longrightarrow> whole_chars (s @ t) \<Longrightarrow> whole_chars t"
proof (induction s rule: whole_chars.induct)
  case (1 s)
  show ?case
  proof (cases "s = []")
    case False
    note s = whole_chars_drop [OF "1.prems"(1) False]
    have "str_width (s @ t) = str_width s" using False by (simp add: str_width_append)
    then have "whole_chars (drop (str_width s) s @ t)"
      using whole_chars_drop [OF "1.prems"(2)] False s by simp
    then show ?thesis using "1.IH" False s by simp
  qed (use 1 in simp)
qed

lemma find_prefix_whole:
  assumes "find_prefix tds s = Some (h, r)" and "whole_chars s"
    and "list_all (\<lambda>td. whole_chars (cstr (td_handle td)) \<and> whole_chars (cstr (td_prefix td))) tds"
  shows "whole_chars h \<and> whole_chars r"
  using assms
proof (induction tds)
  case (Cons td tds)
  let ?p = "cstr (td_prefix td)"
  show ?case
  proof (cases "length ?p < length s \<and> take (length ?p) s = ?p")
    case True
    then have "s = ?p @ drop (length ?p) s" by (metis append_take_drop_id)
    then have "whole_chars (drop (length ?p) s)" using whole_chars_rest [of ?p "drop (length ?p) s"] Cons.prems by simp
    then show ?thesis using Cons.prems True by (simp add: Let_def)
  next
    case False
    then have "find_prefix (td # tds) s = find_prefix tds s" by (auto simp: Let_def)
    then show ?thesis using Cons by simp
  qed
qed simp

abbreviation emitter_error :: "'w yaml_emitter \<Rightarrow> bool" where
  "emitter_error E \<equiv> em_error E = YAML_EMITTER_ERROR"

lemma wp_analyze_anchor:
  assumes "data_text E"
  shows "wp False (yaml_emitter_analyze_anchor a al E)
     (\<lambda>_ F. auto_part F = auto_part E \<and> data_text F) (\<lambda>F. emitter_error F \<and> \<not> anchor_ok a)"
  using assms all_alpha_whole [of "cstr a"]
  by (simp add: yaml_emitter_analyze_anchor_def yaml_emitter_set_emitter_error_def Let_def anchor_ok_def auto_part_def data_text_def opt_ok_def)

lemma wp_analyze_tag:
  assumes "data_text E" and "directives_ok E" and "whole_chars (cstr t)"
  shows "wp False (yaml_emitter_analyze_tag t E)
     (\<lambda>_ F. auto_part F = auto_part E \<and> data_text F \<and> tag_suffix F \<noteq> None) (\<lambda>F. emitter_error F \<and> cstr t = [])"
proof (cases "cstr t = []")
  case False
  show ?thesis
  proof (cases "find_prefix (em_tag_directives E) (cstr t)")
    case (Some hr)
    then have "whole_chars (fst hr) \<and> whole_chars (snd hr)"
      using find_prefix_whole [of "em_tag_directives E" "cstr t" "fst hr" "snd hr"] assms by (simp add: directives_ok_def)
    then show ?thesis using False Some assms(1)
      by (simp add: yaml_emitter_analyze_tag_def Let_def auto_part_def data_text_def opt_ok_def case_prod_unfold)
  qed (use False assms in \<open>simp add: yaml_emitter_analyze_tag_def Let_def auto_part_def data_text_def opt_ok_def\<close>)
qed (simp add: yaml_emitter_analyze_tag_def yaml_emitter_set_emitter_error_def)

text \<open>The anchor and the tag of a node.\<close>

definition node_text where
  "node_text anchor tag tagged E =
     res_bind (analyze_opt (\<lambda>a. yaml_emitter_analyze_anchor a False) anchor E) (\<lambda>_ E.
       if tagged then analyze_opt yaml_emitter_analyze_tag tag E else Ok () E)"

lemma wp_node_text:
  assumes "data_text E" and "directives_ok E" and "tag_text tag"
  shows "wp False (node_text anchor tag tagged E)
     (\<lambda>_ F. auto_part F = auto_part E \<and> data_text F \<and> (tagged \<and> tag \<noteq> None \<longrightarrow> tag_suffix F \<noteq> None))
     (\<lambda>F. emitter_error F \<and> \<not> (opt_ok anchor_ok anchor \<and> opt_ok (\<lambda>t. cstr t \<noteq> []) tag))"
proof -
  have "wp False (analyze_opt (\<lambda>a. yaml_emitter_analyze_anchor a False) anchor E)
     (\<lambda>_ F. auto_part F = auto_part E \<and> data_text F) (\<lambda>F. emitter_error F \<and> \<not> opt_ok anchor_ok anchor)"
    using wp_analyze_anchor [OF assms(1)] assms(1) by (cases anchor) (simp_all add: analyze_opt_def opt_ok_def)
  moreover have "wp False (if tagged then analyze_opt yaml_emitter_analyze_tag tag F else Ok () F)
     (\<lambda>_ F. auto_part F = auto_part E \<and> data_text F \<and> (tagged \<and> tag \<noteq> None \<longrightarrow> tag_suffix F \<noteq> None))
     (\<lambda>F. emitter_error F \<and> \<not> opt_ok (\<lambda>t. cstr t \<noteq> []) tag)" if "auto_part F = auto_part E \<and> data_text F" for F
  proof -
    have "directives_ok F" using that assms(2) by (simp add: directives_ok_def auto_part_def)
    then show ?thesis using that wp_analyze_tag [of F "the tag"] assms(3)
      by (cases tag) (auto simp: analyze_opt_def opt_ok_def tag_text_def)
  qed
  ultimately show ?thesis unfolding node_text_def wp_bind by (fastforce elim!: wp_mono)
qed

lemma wp_analyze_scalar:
  assumes "data_text E" and "whole_chars v"
  shows "wp False (yaml_emitter_analyze_scalar v E)
     (\<lambda>_ F. auto_part F = auto_part E \<and> data_text F \<and> tag_suffix F = tag_suffix E) (\<lambda>F. False)"
proof (cases "v = []")
  case False
  have "\<exists>F. for_chars (\<lambda>F s E. Ok (flag_char (unicode E) n F s) E) F0 v E = Ok F E" for n F0
    using assms(2)
  proof (induction v arbitrary: F0 rule: whole_chars.induct)
    case (1 v)
    then show ?case using whole_chars_drop [OF "1.prems"] by (cases "v = []"; subst for_chars.simps) auto
  qed
  then obtain F where "for_chars (\<lambda>F s E. Ok (flag_char (unicode E) (length v) F s) E)
      (no_flags\<lparr>block_indicators := document_indicator v, flow_indicators := document_indicator v,
         preceded_by_whitespace := True, followed_by_whitespace := str_blankz_at v (str_width v)\<rparr>) v E = Ok F E" by blast
  then show ?thesis using assms False
    by (simp add: yaml_emitter_analyze_scalar_def allowed_styles_def Let_def auto_part_def data_text_def)
qed (use assms in \<open>simp add: yaml_emitter_analyze_scalar_def auto_part_def data_text_def\<close>)

definition cleared :: "'w yaml_emitter \<Rightarrow> 'w yaml_emitter" where
  "cleared E = E\<lparr>anchor_data := None, tag_handle := None, tag_suffix := None, scalar_data := (scalar_data E)\<lparr>sd_value := []\<rparr>\<rparr>"

lemma analyze_event_eq:
  "yaml_emitter_analyze_event ev E =
     (case ev of YAML_ALIAS_EVENT anchor \<Rightarrow> yaml_emitter_analyze_anchor anchor True (cleared E)
      | YAML_SCALAR_EVENT anchor tag v pi qi style \<Rightarrow>
          res_bind (node_text anchor tag (canonical E \<or> (\<not> pi \<and> \<not> qi)) (cleared E)) (\<lambda>_ E. yaml_emitter_analyze_scalar v E)
      | YAML_SEQUENCE_START_EVENT anchor tag implicit style \<Rightarrow> node_text anchor tag (canonical E \<or> \<not> implicit) (cleared E)
      | YAML_MAPPING_START_EVENT anchor tag implicit style \<Rightarrow> node_text anchor tag (canonical E \<or> \<not> implicit) (cleared E)
      | _ \<Rightarrow> Ok () (cleared E))"
  unfolding yaml_emitter_analyze_event_def Let_def cleared_def node_text_def by (cases ev) simp_all

lemma wp_analyze_event:
  assumes "directives_ok E" and "text_ok ev"
  shows "wp False (yaml_emitter_analyze_event ev E)
     (\<lambda>_ F. auto_part F = auto_part E \<and> analyzed ev F) (\<lambda>F. emitter_error F \<and> \<not> ev_valid ev)"
proof -
  have E0: "auto_part (cleared E) = auto_part E" "data_text (cleared E)" "directives_ok (cleared E)"
    using assms(1) by (simp_all add: cleared_def auto_part_def data_text_def opt_ok_def directives_ok_def)
  show ?thesis
  proof (cases ev)
    case (YAML_SCALAR_EVENT anchor tag v pi qi style)
    have tx: "tag_text tag" "whole_chars v" using assms(2) YAML_SCALAR_EVENT by simp_all
    let ?tagged = "canonical E \<or> (\<not> pi \<and> \<not> qi)"
    have "wp False (res_bind (node_text anchor tag ?tagged (cleared E)) (\<lambda>_ E. yaml_emitter_analyze_scalar v E))
       (\<lambda>_ F. auto_part F = auto_part E \<and> analyzed ev F) (\<lambda>F. emitter_error F \<and> \<not> ev_valid ev)"
      unfolding wp_bind
    proof (rule wp_mono [OF wp_node_text [OF E0(2,3) tx(1), of anchor ?tagged]])
      fix F assume F: "auto_part F = auto_part (cleared E) \<and> data_text F \<and> (?tagged \<and> tag \<noteq> None \<longrightarrow> tag_suffix F \<noteq> None)"
      then have "wp False (yaml_emitter_analyze_scalar v F)
          (\<lambda>_ F'. auto_part F' = auto_part F \<and> data_text F' \<and> tag_suffix F' = tag_suffix F) (\<lambda>_. False)"
        using wp_analyze_scalar [of F v] tx by simp
      then show "wp False (yaml_emitter_analyze_scalar v F)
          (\<lambda>_ F'. auto_part F' = auto_part E \<and> analyzed ev F') (\<lambda>F. emitter_error F \<and> \<not> ev_valid ev)"
        using F E0(1) YAML_SCALAR_EVENT by (auto simp: analyzed_def elim!: wp_mono)
    qed (use YAML_SCALAR_EVENT in auto)
    then show ?thesis using YAML_SCALAR_EVENT by (simp add: analyze_event_eq)
  next
    case (YAML_SEQUENCE_START_EVENT anchor tag implicit style)
    then show ?thesis using wp_node_text [OF E0(2,3), of tag anchor "canonical E \<or> \<not> implicit"] assms(2) E0(1)
      by (auto simp: analyze_event_eq analyzed_def elim!: wp_mono)
  next
    case (YAML_MAPPING_START_EVENT anchor tag implicit style)
    then show ?thesis using wp_node_text [OF E0(2,3), of tag anchor "canonical E \<or> \<not> implicit"] assms(2) E0(1)
      by (auto simp: analyze_event_eq analyzed_def elim!: wp_mono)
  qed (use E0 wp_analyze_anchor [OF E0(2)] in \<open>auto simp: analyze_event_eq analyzed_def\<close>)
qed

end
