(* ===== verification/Yaml_Emit_Nodes.thy ===== *)
theory Yaml_Emit_Nodes
  imports Yaml_Emit_Checks
begin

text \<open>
  The states of the emitter, read as states of the grammar of events, and the emission of one
  node: a scalar or an alias resumes the state below, a collection is opened.
\<close>

section \<open>The states of the emitter and the grammar of events\<close>

fun em_frames :: "yaml_emitter_state \<Rightarrow> frame list" where
  "em_frames YAML_EMIT_FLOW_SEQUENCE_FIRST_ITEM_STATE = [FSeq]"
| "em_frames YAML_EMIT_FLOW_SEQUENCE_ITEM_STATE = [FSeq]"
| "em_frames YAML_EMIT_FLOW_MAPPING_FIRST_KEY_STATE = [FKey]"
| "em_frames YAML_EMIT_FLOW_MAPPING_KEY_STATE = [FKey]"
| "em_frames YAML_EMIT_FLOW_MAPPING_SIMPLE_VALUE_STATE = [FVal]"
| "em_frames YAML_EMIT_FLOW_MAPPING_VALUE_STATE = [FVal]"
| "em_frames YAML_EMIT_BLOCK_SEQUENCE_FIRST_ITEM_STATE = [FSeq]"
| "em_frames YAML_EMIT_BLOCK_SEQUENCE_ITEM_STATE = [FSeq]"
| "em_frames YAML_EMIT_BLOCK_MAPPING_FIRST_KEY_STATE = [FKey]"
| "em_frames YAML_EMIT_BLOCK_MAPPING_KEY_STATE = [FKey]"
| "em_frames YAML_EMIT_BLOCK_MAPPING_SIMPLE_VALUE_STATE = [FVal]"
| "em_frames YAML_EMIT_BLOCK_MAPPING_VALUE_STATE = [FVal]"
| "em_frames _ = []"

text \<open>A collection whose start event was emitted, but nothing of its contents.\<close>

definition em_first :: "yaml_emitter_state \<Rightarrow> bool" where
  "em_first s \<longleftrightarrow> s \<in> {YAML_EMIT_FLOW_SEQUENCE_FIRST_ITEM_STATE, YAML_EMIT_FLOW_MAPPING_FIRST_KEY_STATE,
     YAML_EMIT_BLOCK_SEQUENCE_FIRST_ITEM_STATE, YAML_EMIT_BLOCK_MAPPING_FIRST_KEY_STATE}"

fun em_outer :: "yaml_emitter_state \<Rightarrow> gstate option" where
  "em_outer YAML_EMIT_STREAM_START_STATE = Some GStream"
| "em_outer YAML_EMIT_FIRST_DOCUMENT_START_STATE = Some GDocs"
| "em_outer YAML_EMIT_DOCUMENT_START_STATE = Some GDocs"
| "em_outer YAML_EMIT_DOCUMENT_CONTENT_STATE = Some (GDoc [FRoot])"
| "em_outer YAML_EMIT_DOCUMENT_END_STATE = Some (GDoc [])"
| "em_outer YAML_EMIT_END_STATE = Some GEnd"
| "em_outer _ = None"

definition em_pending :: "yaml_emitter_state list \<Rightarrow> frame list" where
  "em_pending ss = concat (map em_frames (rev ss))"

lemma em_pending_simps [simp]: "em_pending [] = []" "em_pending (ss @ [s]) = em_frames s @ em_pending ss"
  by (simp_all add: em_pending_def)

text \<open>The stack: the end of the document, and above it states of collections that were entered.\<close>

definition em_stack :: "yaml_emitter_state list \<Rightarrow> bool" where
  "em_stack ss \<longleftrightarrow> ss \<noteq> [] \<and> hd ss = YAML_EMIT_DOCUMENT_END_STATE
     \<and> list_all (\<lambda>s. em_frames s \<noteq> [] \<and> \<not> em_first s) (tl ss)"

definition em_states_ok :: "yaml_emitter_state \<Rightarrow> yaml_emitter_state list \<Rightarrow> bool" where
  "em_states_ok st ss \<longleftrightarrow> (if em_outer st \<noteq> None then ss = [] else em_stack ss)"

definition em_gstate :: "yaml_emitter_state \<Rightarrow> yaml_emitter_state list \<Rightarrow> gstate" where
  "em_gstate st ss = (case em_outer st of Some g \<Rightarrow> g | None \<Rightarrow> GDoc (em_frames st @ em_pending ss))"

abbreviation em_grammar :: "'w yaml_emitter \<Rightarrow> gstate" where
  "em_grammar E \<equiv> em_gstate (em_state E) (em_states E)"

lemma em_outer_frames: "em_outer s = None \<longleftrightarrow> em_frames s \<noteq> []"
  by (cases s) auto

text \<open>A node is complete: the state below is resumed.\<close>

lemma em_resume:
  assumes "em_stack (ss @ [s])"
  shows "em_states_ok s ss \<and> em_gstate s ss = GDoc (em_frames s @ em_pending ss)"
proof -
  have "s = YAML_EMIT_DOCUMENT_END_STATE \<and> ss = [] \<or> em_frames s \<noteq> [] \<and> em_stack ss"
    using assms by (cases ss) (auto simp: em_stack_def)
  then show ?thesis using em_outer_frames [of s] by (auto simp: em_states_ok_def em_gstate_def)
qed

text \<open>The indents and the flow levels that a state stands for.\<close>

definition em_depth :: "yaml_emitter_state \<Rightarrow> nat" where
  "em_depth s = (if em_frames s = [] \<or> em_first s then 0 else 1)"

definition em_flow :: "yaml_emitter_state \<Rightarrow> int" where
  "em_flow s = (if s \<in> {YAML_EMIT_FLOW_SEQUENCE_ITEM_STATE, YAML_EMIT_FLOW_MAPPING_KEY_STATE,
     YAML_EMIT_FLOW_MAPPING_SIMPLE_VALUE_STATE, YAML_EMIT_FLOW_MAPPING_VALUE_STATE} then 1 else 0)"

definition em_counts :: "yaml_emitter_state list \<Rightarrow> nat \<times> int" where
  "em_counts ss = (sum_list (map em_depth ss), sum_list (map em_flow ss))"

definition auto_ok :: "'w yaml_emitter \<Rightarrow> bool" where
  "auto_ok E \<longleftrightarrow> em_states_ok (em_state E) (em_states E)
     \<and> em_counts (em_states E @ [em_state E]) = (length (em_indents E), em_flow_level E)
     \<and> (em_grammar E \<in> {GStream, GDocs} \<longrightarrow> em_tag_directives E = []) \<and> directives_ok E"

section \<open>Nodes\<close>

definition keep where
  "keep (E :: 'w yaml_emitter) = (write_handler E, em_encoding E, (canonical E, best_indent E, best_width E, unicode E, line_break E),
     (events E, em_indents E, em_tag_directives E, em_indent E, em_flow_level E),
     (opened E, closed E, em_anchors E, last_anchor_id E, em_document E))"

lemma ctl_keep: "ctl F = ctl E \<Longrightarrow> keep F = keep E \<and> em_states F = em_states E \<and> em_state F = em_state E"
  by (simp add: ctl_def keep_def)

definition node_result :: "yaml_event_data \<Rightarrow> 'w yaml_emitter \<Rightarrow> 'w yaml_emitter \<Rightarrow> bool" where
  "node_result ev E F \<longleftrightarrow> keep F = keep E \<and>
     (if is_leaf_event ev then em_states E = em_states F @ [em_state F]
      else em_states F = em_states E \<and> em_first (em_state F) \<and>
        (is_seq_start ev \<and> em_frames (em_state F) = [FSeq] \<or> is_map_start ev \<and> em_frames (em_state F) = [FKey]))"

abbreviation low_error :: "'w yaml_emitter \<Rightarrow> bool" where
  "low_error E \<equiv> em_error E \<in> {YAML_WRITER_ERROR, YAML_MEMORY_ERROR}"

fun is_node_event :: "yaml_event_data \<Rightarrow> bool" where
  "is_node_event ev = (is_leaf_event ev \<or> is_seq_start ev \<or> is_map_start ev)"

lemma wp_writer:
  assumes "writes f" and "out_ok E" and "ctl E = ctl E0"
  shows "wp False (f E) (\<lambda>_ F. out_ok F \<and> ctl F = ctl E0) write_error"
  using writesD [OF assms(1,2)] assms(3) by (auto elim!: wp_mono)

lemma wp_process_anchor:
  assumes "opt_ok whole_chars (anchor_data E)" and "out_ok E"
  shows "wp False (yaml_emitter_process_anchor E) (\<lambda>_ F. out_ok F \<and> ctl F = ctl E) write_error"
proof (cases "anchor_data E")
  case (Some a)
  let ?i = "if anchor_alias E then ''*'' else ''&''"
  have eq: "yaml_emitter_process_anchor E =
      res_bind (yaml_emitter_write_indicator ?i True False False E) (\<lambda>_ E. yaml_emitter_write_anchor a E)"
    using Some by (simp add: yaml_emitter_process_anchor_def)
  have "writes (\<lambda>E. res_bind (yaml_emitter_write_indicator ?i True False False E) (\<lambda>_ E. yaml_emitter_write_anchor a E))"
    using assms(1) Some by (intro writes_bind writes_indicator writes_anchor) (simp_all add: opt_ok_def)
  from wp_writer [OF this assms(2) refl] show ?thesis unfolding eq .
qed (use assms in \<open>simp add: yaml_emitter_process_anchor_def\<close>)

lemma wp_process_tag:
  assumes "opt_ok whole_chars (tag_handle E)" and "opt_ok whole_chars (tag_suffix E)" and "out_ok E"
  shows "wp False (yaml_emitter_process_tag E) (\<lambda>_ F. out_ok F \<and> ctl F = ctl E) write_error"
proof (cases "tag_handle E")
  case None
  show ?thesis
  proof (cases "tag_suffix E")
    case (Some s)
    then have "writes (\<lambda>E. res_bind (yaml_emitter_write_indicator ''!<'' True False False E) (\<lambda>_ E.
        res_bind (yaml_emitter_write_tag_content s False E) (\<lambda>_ E. yaml_emitter_write_indicator ''>'' False False False E)))"
      using assms(2) by (intro writers) (simp_all add: opt_ok_def)
    from wp_writer [OF this assms(3) refl] show ?thesis using None Some by (simp add: yaml_emitter_process_tag_def)
  qed (use None assms in \<open>simp add: yaml_emitter_process_tag_def\<close>)
next
  case (Some h)
  have rest: "wp False (case tag_suffix F of None \<Rightarrow> Ok () F | Some s \<Rightarrow> yaml_emitter_write_tag_content s False F)
      (\<lambda>_ F. out_ok F \<and> ctl F = ctl E) write_error" if F: "out_ok F" "ctl F = ctl E" for F
  proof -
    have "tag_suffix F = tag_suffix E" using F by (simp add: ctl_def)
    then show ?thesis using F assms(2) wp_writer [OF writes_tag_content F(1) F(2)]
      by (cases "tag_suffix E") (simp_all add: opt_ok_def)
  qed
  have w: "writes (yaml_emitter_write_tag_handle h)" using assms(1) Some by (intro writers) (simp add: opt_ok_def)
  have eq: "yaml_emitter_process_tag E = res_bind (yaml_emitter_write_tag_handle h E)
      (\<lambda>_ E. case tag_suffix E of None \<Rightarrow> Ok () E | Some s \<Rightarrow> yaml_emitter_write_tag_content s False E)"
    using Some by (simp add: yaml_emitter_process_tag_def)
  show ?thesis unfolding eq by (rule wp_writes [OF w assms(3)]) (auto intro: rest)
qed

lemma choose_style_not_any: "choose_style E no_tag pi style \<noteq> YAML_ANY_SCALAR_STYLE"
  by (simp add: choose_style_def Let_def)

lemma wp_process_scalar:
  assumes "whole_chars (sd_value (scalar_data E))" and "sd_style (scalar_data E) \<noteq> YAML_ANY_SCALAR_STYLE" and "out_ok E"
  shows "wp False (yaml_emitter_process_scalar E) (\<lambda>_ F. out_ok F \<and> ctl F = ctl E) write_error"
  using assms(2) wp_writer [OF writes_plain_scalar [OF assms(1)] assms(3) refl]
    wp_writer [OF writes_single_quoted_scalar [OF assms(1)] assms(3) refl]
    wp_writer [OF writes_double_quoted_scalar [OF assms(1)] assms(3) refl]
    wp_writer [OF writes_literal_scalar [OF assms(1)] assms(3) refl]
    wp_writer [OF writes_folded_scalar [OF assms(1)] assms(3) refl]
  by (cases "sd_style (scalar_data E)") (simp_all add: yaml_emitter_process_scalar_def Let_def)

definition text_part where
  "text_part (E :: 'w yaml_emitter) = (keep E, em_states E, em_state E, simple_key_context E, em_heap E)"

lemma wp_select_style:
  assumes "analyzed (YAML_SCALAR_EVENT a t v pi qi s) E" and "out_ok E"
  shows "wp False (yaml_emitter_select_scalar_style pi qi s E)
    (\<lambda>_ F. out_ok F \<and> text_part F = text_part E \<and> data_text F \<and> sd_style (scalar_data F) \<noteq> YAML_ANY_SCALAR_STYLE)
    (\<lambda>F. emitter_error F \<and> \<not> ev_valid (YAML_SCALAR_EVENT a t v pi qi s))"
  using assms choose_style_not_any
  by (auto simp: yaml_emitter_select_scalar_style_def Let_def yaml_emitter_set_emitter_error_def analyzed_def
      data_text_def opt_ok_def text_part_def keep_def out_ok_def)

text \<open>The part of the emitter that a change of the indentation leaves alone.\<close>

definition unindented where
  "unindented (E :: 'w yaml_emitter) = (write_handler E, em_encoding E, (canonical E, best_indent E, best_width E, unicode E, line_break E),
     (em_states E, em_state E, events E, em_tag_directives E, em_flow_level E, simple_key_context E), (em_buffer E, em_raw_buffer E),
     (anchor_data E, anchor_alias E, tag_handle E, tag_suffix E, scalar_data E),
     (opened E, closed E, em_anchors E, last_anchor_id E, em_document E))"

lemma unindented_out_ok: "unindented F = unindented E \<Longrightarrow> out_ok F = out_ok E \<and> data_text F = data_text E"
  by (simp add: unindented_def out_ok_def data_text_def)

lemma wp_increase_indent:
  "wp False (yaml_emitter_increase_indent flow indentless E)
     (\<lambda>_ F. em_indents F = em_indents E @ [em_indent E] \<and> unindented F = unindented E)
     (\<lambda>F. em_error F = YAML_MEMORY_ERROR)"
  by (simp add: yaml_emitter_increase_indent_def em_allocate_def Let_def unindented_def)

lemma wp_pop_indent:
  "em_indents E \<noteq> [] \<Longrightarrow> wp h (pop_indent E)
     (\<lambda>_ F. em_indents F = butlast (em_indents E) \<and> em_indent F = last (em_indents E) \<and> unindented F = unindented E) R"
  by (simp add: pop_indent_def unindented_def)

lemma wp_pop_state:
  assumes "em_states E \<noteq> []"
    and "\<And>F. keep F = keep E \<Longrightarrow> out_ok F = out_ok E \<Longrightarrow> em_states E = em_states F @ [em_state F] \<Longrightarrow> Q () F"
  shows "wp h (pop_em_state E) Q R"
  using assms by (simp add: pop_em_state_def keep_def out_ok_def)

lemma ctl_text: "ctl F = ctl E \<Longrightarrow> text_part F = text_part E \<and> data_text F = data_text E \<and> scalar_data F = scalar_data E"
  by (simp add: ctl_def text_part_def keep_def data_text_def)

definition node_error :: "yaml_event_data \<Rightarrow> 'w yaml_emitter \<Rightarrow> bool" where
  "node_error ev F \<longleftrightarrow> low_error F \<or> emitter_error F \<and> (\<not> is_node_event ev \<or> \<not> ev_valid ev)"

text \<open>The tail of a scalar: indentation, text, and back to the state below.\<close>

lemma wp_scalar_text:
  assumes "out_ok E" and "data_text E" and "sd_style (scalar_data E) \<noteq> YAML_ANY_SCALAR_STYLE" and "em_states E \<noteq> []"
  shows "wp False (res_bind (yaml_emitter_increase_indent True False E) (\<lambda>_ E.
      res_bind (yaml_emitter_process_scalar E) (\<lambda>_ E. res_bind (pop_indent E) (\<lambda>_ E. pop_em_state E))))
    (\<lambda>_ F. out_ok F \<and> keep F = keep E \<and> em_states E = em_states F @ [em_state F]) low_error"
  unfolding wp_bind
proof (rule wp_mono [OF wp_increase_indent])
  fix F assume F: "em_indents F = em_indents E @ [em_indent E] \<and> unindented F = unindented E"
  have "wp False (pop_indent G) (\<lambda>_ G. wp False (pop_em_state G)
      (\<lambda>_ F. out_ok F \<and> keep F = keep E \<and> em_states E = em_states F @ [em_state F]) low_error) low_error"
    if G: "out_ok G \<and> ctl G = ctl F" for G
  proof (rule wp_mono [OF wp_pop_indent])
    show "em_indents G \<noteq> []" using F G by (simp add: ctl_def)
    fix H assume H: "em_indents H = butlast (em_indents G) \<and> em_indent H = last (em_indents G) \<and> unindented H = unindented G"
    have "keep H = keep E" "em_states H = em_states E" using F G H by (simp_all add: ctl_def keep_def unindented_def)
    moreover have "out_ok H" using G H unindented_out_ok [of H G] by simp
    ultimately show "wp False (pop_em_state H)
        (\<lambda>_ F. out_ok F \<and> keep F = keep E \<and> em_states E = em_states F @ [em_state F]) low_error"
      using assms(4) by (intro wp_pop_state) simp_all
  qed
  moreover have "wp False (yaml_emitter_process_scalar F) (\<lambda>_ G. out_ok G \<and> ctl G = ctl F) write_error"
    using F unindented_out_ok [of F E] assms by (intro wp_process_scalar) (auto simp: unindented_def data_text_def)
  ultimately show "wp False (yaml_emitter_process_scalar F) (\<lambda>_ G. wp False (pop_indent G) (\<lambda>_ G. wp False (pop_em_state G)
      (\<lambda>_ F. out_ok F \<and> keep F = keep E \<and> em_states E = em_states F @ [em_state F]) low_error) low_error) low_error"
    by (auto elim!: wp_mono)
qed auto

lemma wp_emit_scalar:
  assumes "analyzed (YAML_SCALAR_EVENT a t v pi qi s) E" and "out_ok E" and "em_states E \<noteq> []"
  shows "wp False (yaml_emitter_emit_scalar pi qi s E)
    (\<lambda>_ F. out_ok F \<and> node_result (YAML_SCALAR_EVENT a t v pi qi s) E F) (node_error (YAML_SCALAR_EVENT a t v pi qi s))"
  unfolding yaml_emitter_emit_scalar_def wp_bind
proof (rule wp_mono [OF wp_select_style [OF assms(1,2)]], goal_cases)
  case (1 _ F)
  let ?Q = "\<lambda>_ G. out_ok G \<and> node_result (YAML_SCALAR_EVENT a t v pi qi s) E G"
  show ?case
  proof (rule wp_mono [OF wp_process_anchor], goal_cases)
    case (3 _ G)
    show ?case
    proof (rule wp_mono [OF wp_process_tag], goal_cases)
      case (4 _ H)
      then have H: "text_part H = text_part E" "data_text H" "sd_style (scalar_data H) \<noteq> YAML_ANY_SCALAR_STYLE"
        using 1 3 ctl_text [of G F] ctl_text [of H G] by auto
      then have "em_states H \<noteq> []" using assms(3) by (simp add: text_part_def)
      then show ?case unfolding wp_bind [symmetric]
        using 4 H by (intro wp_mono [OF wp_scalar_text]) (auto simp: node_result_def text_part_def node_error_def)
    qed (use 1 3 ctl_text [of G F] in \<open>auto simp: data_text_def node_error_def\<close>)
  qed (use 1 in \<open>auto simp: data_text_def node_error_def\<close>)
qed (auto simp: node_error_def)

lemma wp_emit_alias:
  assumes "data_text E" and "out_ok E" and "em_states E \<noteq> []"
  shows "wp False (yaml_emitter_emit_alias E) (\<lambda>_ F. out_ok F \<and> node_result (YAML_ALIAS_EVENT a) E F) low_error"
  unfolding yaml_emitter_emit_alias_def wp_bind
proof (rule wp_mono [OF wp_process_anchor], goal_cases)
  case (3 _ F)
  have "writes (\<lambda>E :: 'a yaml_emitter. if simple_key_context F then PUT 0x20 E else Ok () E)" by (intro writers) simp
  then have "wp False (if simple_key_context F then PUT 0x20 F else Ok () F) (\<lambda>_ G. out_ok G \<and> ctl G = ctl E) write_error"
    using wp_writer 3 by blast
  then show ?case
  proof (rule wp_mono, goal_cases)
    case (1 _ G)
    then show ?case using assms(3) by (intro wp_pop_state) (auto simp: node_result_def dest: ctl_keep)
  qed auto
qed (use assms in \<open>auto simp: data_text_def\<close>)

lemma set_state_keep [simp]:
  "keep (E\<lparr>em_state := st\<rparr>) = keep E" "out_ok (E\<lparr>em_state := st\<rparr>) = out_ok E"
  by (simp_all add: keep_def out_ok_def)

lemma wp_properties:
  assumes "data_text E" and "out_ok E"
  shows "wp False (res_bind (yaml_emitter_process_anchor E) (\<lambda>_ E. yaml_emitter_process_tag E)) (\<lambda>_ F. out_ok F \<and> ctl F = ctl E) low_error"
  unfolding wp_bind
proof (rule wp_mono [OF wp_process_anchor], goal_cases)
  case (3 _ F)
  then show ?case using assms ctl_text [of F E] by (intro wp_mono [OF wp_process_tag]) (auto simp: data_text_def)
qed (use assms in \<open>auto simp: data_text_def\<close>)

lemma wp_emit_start:
  assumes "data_text E" and "out_ok E"
  shows "wp False (yaml_emitter_emit_sequence_start sq E)
      (\<lambda>_ F. out_ok F \<and> node_result (YAML_SEQUENCE_START_EVENT a t i sq) E F) low_error"
    and "wp False (yaml_emitter_emit_mapping_start mp E)
      (\<lambda>_ F. out_ok F \<and> node_result (YAML_MAPPING_START_EVENT a t i mp) E F) low_error"
  unfolding yaml_emitter_emit_sequence_start_def yaml_emitter_emit_mapping_start_def res_bind_assoc [symmetric]
  subgoal by (subst wp_bind, rule wp_mono [OF wp_properties [OF assms]]) (auto simp: node_result_def em_first_def dest: ctl_keep)
  subgoal by (subst wp_bind, rule wp_mono [OF wp_properties [OF assms]]) (auto simp: node_result_def em_first_def dest: ctl_keep)
  done

lemma wp_emit_node:
  assumes "analyzed ev E" and "out_ok E" and "em_states E \<noteq> []"
  shows "wp False (yaml_emitter_emit_node ev r sq mp sk E) (\<lambda>_ F. out_ok F \<and> node_result ev E F) (node_error ev)"
proof -
  let ?E = "E\<lparr>root_context := r, sequence_context := sq, mapping_context := mp, simple_key_context := sk\<rparr>"
  have E: "analyzed ev ?E" "data_text ?E" "out_ok ?E" "em_states ?E \<noteq> []" "keep ?E = keep E" "em_states ?E = em_states E"
    using assms by (cases ev; simp add: analyzed_def data_text_def out_ok_def keep_def)+
  have res: "node_result ev ?E F = node_result ev E F" for F using E(5,6) by (simp add: node_result_def)
  show ?thesis
  proof (cases ev)
    case (YAML_SCALAR_EVENT a t v pi qi s)
    then show ?thesis using wp_emit_scalar [of a t v pi qi s ?E] E(1,3,4) res
      by (simp add: yaml_emitter_emit_node_def)
  next
    case (YAML_ALIAS_EVENT a)
    then show ?thesis using wp_emit_alias [OF E(2,3,4), of a] res
      by (auto simp: yaml_emitter_emit_node_def node_error_def elim!: wp_mono)
  next
    case (YAML_SEQUENCE_START_EVENT a t i s)
    then show ?thesis using wp_emit_start(1) [OF E(2,3), of s a t i] res
      by (auto simp: yaml_emitter_emit_node_def node_error_def elim!: wp_mono)
  next
    case (YAML_MAPPING_START_EVENT a t i s)
    then show ?thesis using wp_emit_start(2) [OF E(2,3), of s a t i] res
      by (auto simp: yaml_emitter_emit_node_def node_error_def elim!: wp_mono)
  qed (simp_all add: yaml_emitter_emit_node_def yaml_emitter_set_emitter_error_def node_error_def)
qed

end
