(* ===== verification/Yaml_Emit_Collections.thy ===== *)
theory Yaml_Emit_Collections
  imports Yaml_Emit_Nodes
begin

text \<open>
  The handlers of the emitter for sequences and mappings, in flow and in block style: each follows
  the grammar of events and keeps the stacks of states and indents and the flow level in step.
\<close>

section \<open>Inside a collection\<close>

definition side where
  "side (E :: 'w yaml_emitter) = (events E, opened E, closed E, em_anchors E, last_anchor_id E, em_document E)"

definition mid where
  "mid (E :: 'w yaml_emitter) = (em_states E, em_tag_directives E, side E,
     (anchor_data E, tag_handle E, tag_suffix E, scalar_data E))"

text \<open>
  On the way through a handler: the output is in order, the stack of states and the data of the
  event are those of \<open>E0\<close>, and the indents and flow levels are those of the stack and \<open>k\<close>
  indents and \<open>l\<close> flow levels more.
\<close>

definition going :: "nat \<Rightarrow> int \<Rightarrow> 'w yaml_emitter \<Rightarrow> 'w yaml_emitter \<Rightarrow> bool" where
  "going k l E0 E \<longleftrightarrow> out_ok E \<and> mid E = mid E0
     \<and> length (em_indents E) = fst (em_counts (em_states E0)) + k \<and> em_flow_level E = snd (em_counts (em_states E0)) + l"

lemma going_ctl: "going k l E0 E \<Longrightarrow> ctl F = ctl E \<Longrightarrow> out_ok F \<Longrightarrow> going k l E0 F"
  by (simp add: going_def mid_def side_def ctl_def)

lemma going_writes:
  assumes "writes f" and "going k l E0 E"
  shows "wp False (f E) (\<lambda>_ F. going k l E0 F) low_error"
proof -
  have "out_ok E" using assms(2) by (simp add: going_def)
  from writesD [OF assms(1) this] show ?thesis by (rule wp_mono) (auto intro: going_ctl [OF assms(2)])
qed

lemma going_increase:
  assumes "going k l E0 E"
  shows "wp False (yaml_emitter_increase_indent a b E) (\<lambda>_ F. going (Suc k) l E0 F) low_error"
proof (rule wp_mono [OF wp_increase_indent])
  fix F assume F: "em_indents F = em_indents E @ [em_indent E] \<and> unindented F = unindented E"
  then have "mid F = mid E" "em_flow_level F = em_flow_level E" by (simp_all add: unindented_def mid_def side_def)
  then show "going (Suc k) l E0 F" using assms F unindented_out_ok [of F E] by (simp add: going_def)
qed simp

lemma going_pop:
  assumes "going (Suc k) l E0 E"
  shows "wp False (pop_indent E) (\<lambda>_ F. going k l E0 F) R"
proof (rule wp_mono [OF wp_pop_indent])
  show "em_indents E \<noteq> []" using assms by (auto simp: going_def)
  fix F assume F: "em_indents F = butlast (em_indents E) \<and> em_indent F = last (em_indents E) \<and> unindented F = unindented E"
  then have "mid F = mid E" "em_flow_level F = em_flow_level E" by (simp_all add: unindented_def mid_def side_def)
  then show "going k l E0 F" using assms F unindented_out_ok [of F E] by (simp add: going_def)
qed

lemma going_flow: "going k l E0 E \<Longrightarrow> going k (l + d) E0 (E\<lparr>em_flow_level := em_flow_level E + d\<rparr>)"
  by (simp add: going_def mid_def side_def out_ok_def)

definition done_ok :: "gstate \<Rightarrow> 'w yaml_emitter \<Rightarrow> 'w yaml_emitter \<Rightarrow> bool" where
  "done_ok g E0 F \<longleftrightarrow> out_ok F \<and> auto_ok F \<and> side F = side E0 \<and> em_grammar F = g"

lemma counts_snoc: "em_counts (ss @ [s]) = (fst (em_counts ss) + em_depth s, snd (em_counts ss) + em_flow s)"
  by (simp add: em_counts_def)

lemma going_close:
  assumes "going 0 0 E0 E" and "em_stack (em_states E0)" and "directives_ok E0"
  shows "wp False (pop_em_state E) (\<lambda>_ F. done_ok (GDoc (em_pending (em_states E0))) E0 F) R"
proof (rule wp_pop_state)
  have m: "mid E = mid E0" "out_ok E" "em_counts (em_states E0) = (length (em_indents E), em_flow_level E)"
    using assms(1) by (simp_all add: going_def prod_eq_iff)
  then show "em_states E \<noteq> []" using assms(2) by (simp add: mid_def em_stack_def)
  fix F assume F: "keep F = keep E" "out_ok F = out_ok E" "em_states E = em_states F @ [em_state F]"
  then have ss: "em_states E0 = em_states F @ [em_state F]" using m by (simp add: mid_def)
  have "directives_ok F" using F(1) m assms(3) by (simp add: keep_def mid_def directives_ok_def)
  moreover have "length (em_indents F) = length (em_indents E)" "em_flow_level F = em_flow_level E" "side F = side E0"
    using F(1) m by (simp_all add: keep_def mid_def side_def)
  ultimately show "done_ok (GDoc (em_pending (em_states E0))) E0 F"
    using em_resume [of "em_states F" "em_state F"] assms(2) m F(2) ss by (simp add: done_ok_def auto_ok_def)
qed

definition step_error :: "gstate \<Rightarrow> yaml_event_data \<Rightarrow> 'w yaml_emitter \<Rightarrow> bool" where
  "step_error g ev F \<longleftrightarrow> low_error F \<or> emitter_error F \<and> (ev_step g ev = None \<or> \<not> ev_valid ev)"

lemma not_node_step:
  assumes "\<not> is_node_event ev" and "f = FSeq \<Longrightarrow> ev \<noteq> YAML_SEQUENCE_END_EVENT" and "f = FKey \<Longrightarrow> ev \<noteq> YAML_MAPPING_END_EVENT"
  shows "ev_step (GDoc (f # fs)) ev = None"
  using assms by (cases ev; cases f) simp_all

lemma node_result_done:
  assumes "node_result ev E F" and "out_ok F" and "em_states E = ss @ [s]" and "em_stack (ss @ [s])"
    and "em_counts (ss @ [s]) = (length (em_indents E), em_flow_level E)" and "directives_ok E"
    and "advance (f # fs) = em_frames s @ em_pending ss"
  shows "ev_step (GDoc (f # fs)) ev = Some (em_grammar F) \<and> out_ok F \<and> auto_ok F \<and> side F = side E"
proof -
  have k: "directives_ok F" "em_indents F = em_indents E" "em_flow_level F = em_flow_level E" "side F = side E"
    using assms(1,6) by (simp_all add: node_result_def keep_def directives_ok_def side_def)
  show ?thesis
  proof (cases "is_leaf_event ev")
    case True
    then have "em_states F = ss" "em_state F = s" using assms(1,3) by (simp_all add: node_result_def)
    then show ?thesis using em_resume [OF assms(4)] True assms k leaf_step [OF True, of f fs] by (simp add: auto_ok_def)
  next
    case False
    then have F: "em_states F = ss @ [s]" "em_first (em_state F)"
      "is_seq_start ev \<and> em_frames (em_state F) = [FSeq] \<or> is_map_start ev \<and> em_frames (em_state F) = [FKey]"
      using assms(1,3) by (auto simp: node_result_def)
    then have "em_depth (em_state F) = 0" "em_flow (em_state F) = 0" "em_outer (em_state F) = None"
      using em_outer_frames [of "em_state F"] by (auto simp: em_depth_def em_flow_def em_first_def)
    then show ?thesis
      using F assms k seq_step [of ev f fs] map_step [of ev f fs]
      by (auto simp: auto_ok_def em_states_ok_def em_gstate_def em_counts_def)
  qed
qed

lemma wp_push_state:
  "wp False (push_em_state s E) (\<lambda>_ F. F = E\<lparr>em_heap := em_heap E - 1, em_states := em_states E @ [s]\<rparr>) (\<lambda>F. em_error F = YAML_MEMORY_ERROR)"
  by (simp add: push_em_state_def em_allocate_def)

lemma going_node:
  assumes "going (em_depth s) (em_flow s) E0 E" and "analyzed ev E0" and "directives_ok E0"
    and "em_stack (em_states E0 @ [s])" and "advance (f # fs) = em_frames s @ em_pending (em_states E0)"
    and "f = FSeq \<Longrightarrow> ev \<noteq> YAML_SEQUENCE_END_EVENT" and "f = FKey \<Longrightarrow> ev \<noteq> YAML_MAPPING_END_EVENT"
  shows "wp False (res_bind (push_em_state s E) (\<lambda>_ E. yaml_emitter_emit_node ev r sq mp sk E))
    (\<lambda>_ F. \<exists>g. ev_step (GDoc (f # fs)) ev = Some g \<and> done_ok g E0 F) (step_error (GDoc (f # fs)) ev)"
  unfolding wp_bind
proof (rule wp_mono [OF wp_push_state])
  fix F assume F: "F = E\<lparr>em_heap := em_heap E - 1, em_states := em_states E @ [s]\<rparr>"
  have m: "mid E = mid E0" "out_ok E" using assms(1) by (simp_all add: going_def)
  then have F': "analyzed ev F" "out_ok F" "em_states F = em_states E0 @ [s]" "directives_ok F" "side F = side E0"
      "em_counts (em_states E0 @ [s]) = (length (em_indents F), em_flow_level F)"
    using assms(1,2,3) F
    by (simp_all add: mid_def side_def analyzed_def data_text_def out_ok_def directives_ok_def going_def counts_snoc split: yaml_event_data.splits)
  show "wp False (yaml_emitter_emit_node ev r sq mp sk F)
      (\<lambda>_ F. \<exists>g. ev_step (GDoc (f # fs)) ev = Some g \<and> done_ok g E0 F) (step_error (GDoc (f # fs)) ev)"
  proof (rule wp_mono [OF wp_emit_node [OF F'(1,2)]])
    fix G assume "out_ok G \<and> node_result ev F G"
    then show "\<exists>g. ev_step (GDoc (f # fs)) ev = Some g \<and> done_ok g E0 G"
      using node_result_done [of ev F G "em_states E0" s f fs] F' assms(4,5) by (auto simp: done_ok_def)
  next
    fix G assume "node_error ev G"
    then show "step_error (GDoc (f # fs)) ev G" using not_node_step [of ev f fs] assms(6,7) by (auto simp: node_error_def step_error_def)
  qed (use F' in simp)
qed (simp add: step_error_def)

section \<open>The handlers of collections\<close>

lemma writes_fold_line [writers]: "writes fold_line"
  unfolding fold_line_def by (intro writers)

lemma writes_item_separator [writers]: "writes (item_separator first)"
  unfolding item_separator_def by (intro writers) simp

text \<open>The state of a handler for a collection: what the invariant gives.\<close>

definition at_frame :: "frame \<Rightarrow> yaml_event_data \<Rightarrow> 'w yaml_emitter \<Rightarrow> bool" where
  "at_frame f ev E \<longleftrightarrow> em_stack (em_states E) \<and> directives_ok E \<and> analyzed ev E
     \<and> em_grammar E = GDoc (f # em_pending (em_states E)) \<and> going (em_depth (em_state E)) (em_flow (em_state E)) E E"

lemma em_stack_push: "em_stack ss \<Longrightarrow> em_frames s \<noteq> [] \<Longrightarrow> \<not> em_first s \<Longrightarrow> em_stack (ss @ [s])"
  by (auto simp: em_stack_def)

lemma going_flow_start:
  assumes "going (if first then 0 else 1) (if first then 0 else 1) E0 E" and "whole_chars (octets b)"
  shows "wp False (flow_start first b E) (\<lambda>_ F. going 1 1 E0 F) low_error"
proof (cases first)
  case True
  have "wp False (yaml_emitter_increase_indent True False F) (\<lambda>_ F. going 1 1 E0 (F\<lparr>em_flow_level := em_flow_level F + 1\<rparr>)) low_error"
    if "going 0 0 E0 F" for F
    using going_flow [of 1 0 E0 _ 1] by (intro wp_mono [OF going_increase [OF that]]) auto
  moreover have "wp False (yaml_emitter_write_indicator b True True False E) (\<lambda>_ F. going 0 0 E0 F) low_error"
    using assms True by (intro going_writes writers) simp_all
  ultimately show ?thesis using True by (auto simp: flow_start_def elim!: wp_mono)
qed (use assms in \<open>simp add: flow_start_def\<close>)

lemma going_flow_end:
  assumes "going 1 1 E0 E" and "whole_chars (octets b)" and "em_stack (em_states E0)" and "directives_ok E0"
  shows "wp False (flow_end first b E) (\<lambda>_ F. done_ok (GDoc (em_pending (em_states E0))) E0 F) low_error"
proof -
  have c: "writes (\<lambda>E :: 'a yaml_emitter. if canonical E \<and> \<not> first then
      res_bind (yaml_emitter_write_indicator '','' False False False E) (\<lambda>_ E. yaml_emitter_write_indent E) else Ok () E)"
    by (intro writers) simp
  have w: "writes (\<lambda>E :: 'a yaml_emitter. res_bind (if canonical E \<and> \<not> first then
      res_bind (yaml_emitter_write_indicator '','' False False False E) (\<lambda>_ E. yaml_emitter_write_indent E) else Ok () E)
      (\<lambda>_ E. yaml_emitter_write_indicator b False False False E))"
    by (rule writes_bind [OF c]) (intro writers assms(2))
  have "going 1 0 E0 (E\<lparr>em_flow_level := em_flow_level E - 1\<rparr>)" using going_flow [OF assms(1), of "-1"] by simp
  then have "wp False (pop_indent (E\<lparr>em_flow_level := em_flow_level E - 1\<rparr>)) (\<lambda>_ F. going 0 0 E0 F) low_error"
    using going_pop [of 0 0 E0] by simp
  then show ?thesis
    unfolding flow_end_def wp_bind
  proof (rule wp_mono, goal_cases)
    case (1 _ F)
    from going_writes [OF w this] show ?case
      unfolding wp_bind using going_close [OF _ assms(3,4)] by (auto elim!: wp_mono)
  qed auto
qed

text \<open>A step of the emitter that follows the grammar.\<close>

definition steps :: "yaml_event_data \<Rightarrow> 'w yaml_emitter \<Rightarrow> (unit, 'w yaml_emitter) res \<Rightarrow> bool" where
  "steps ev E r \<longleftrightarrow> wp False r (\<lambda>_ F. \<exists>g. ev_step (em_grammar E) ev = Some g \<and> done_ok g E F) (step_error (em_grammar E) ev)"

lemma steps_low:
  assumes "wp False r (\<lambda>_ F. P F) low_error" and "\<And>F. P F \<Longrightarrow> steps ev E (k F)"
  shows "steps ev E (res_bind r (\<lambda>_ F. k F))"
  using assms(2) unfolding steps_def wp_bind by (intro wp_mono [OF assms(1)]) (auto simp: step_error_def)

lemma steps_writes: "writes f \<Longrightarrow> going k l E E' \<Longrightarrow> (\<And>F. going k l E F \<Longrightarrow> steps ev E (h F)) \<Longrightarrow> steps ev E (res_bind (f E') (\<lambda>_ F. h F))"
  by (rule steps_low [OF going_writes])

lemma steps_close:
  assumes "at_frame f ev E" and "ev_step (GDoc (f # em_pending (em_states E))) ev = Some (GDoc (em_pending (em_states E)))"
    and "wp False r (\<lambda>_ F. done_ok (GDoc (em_pending (em_states E))) E F) low_error"
  shows "steps ev E r"
  using assms(1,2) unfolding steps_def by (intro wp_mono [OF assms(3)]) (auto simp: at_frame_def step_error_def)

lemma steps_node:
  assumes "at_frame f ev E" and "going (em_depth s) (em_flow s) E F"
    and "em_frames s = [f']" and "\<not> em_first s" and "\<And>fs. advance (f # fs) = f' # fs"
    and "f = FSeq \<Longrightarrow> ev \<noteq> YAML_SEQUENCE_END_EVENT" and "f = FKey \<Longrightarrow> ev \<noteq> YAML_MAPPING_END_EVENT"
  shows "steps ev E (res_bind (push_em_state s F) (\<lambda>_ E. yaml_emitter_emit_node ev r sq mp sk E))"
  using going_node [of s E F ev f "em_pending (em_states E)" r sq mp sk] assms em_stack_push [of "em_states E" s]
  unfolding steps_def at_frame_def by simp

lemmas state_simps = em_depth_def em_flow_def em_first_def

lemma step_flow_sequence_item:
  assumes "at_frame FSeq ev E"
    and "em_state E = (if first then YAML_EMIT_FLOW_SEQUENCE_FIRST_ITEM_STATE else YAML_EMIT_FLOW_SEQUENCE_ITEM_STATE)"
  shows "steps ev E (yaml_emitter_emit_flow_sequence_item first ev E)"
proof -
  have "going (if first then 0 else 1) (if first then 0 else 1) E E"
    using assms by (cases first) (simp_all add: at_frame_def state_simps)
  then show ?thesis unfolding yaml_emitter_emit_flow_sequence_item_def
  proof (rule steps_low [OF going_flow_start])
    fix F assume F: "going 1 1 E F"
    show "steps ev E (if ev = YAML_SEQUENCE_END_EVENT then flow_end first '']'' F
       else res_bind (item_separator first F) (\<lambda>_ E. res_bind (push_em_state YAML_EMIT_FLOW_SEQUENCE_ITEM_STATE E) (\<lambda>_ E.
           yaml_emitter_emit_node ev False True False False E)))"
    proof (cases "ev = YAML_SEQUENCE_END_EVENT")
      case True
      have "wp False (flow_end first '']'' F) (\<lambda>_ G. done_ok (GDoc (em_pending (em_states E))) E G) low_error"
        using F assms by (intro going_flow_end) (simp_all add: at_frame_def)
      then show ?thesis using True steps_close [OF assms(1)] by simp
    next
      case False
      have "steps ev E (res_bind (item_separator first F) (\<lambda>_ E. res_bind (push_em_state YAML_EMIT_FLOW_SEQUENCE_ITEM_STATE E) (\<lambda>_ E.
           yaml_emitter_emit_node ev False True False False E)))"
        using False F by (intro steps_writes [OF writes_item_separator F] steps_node [OF assms(1)]) (simp_all add: state_simps)
      then show ?thesis using False by simp
    qed
  qed simp
qed

text \<open>A key of a mapping, in flow or in block style.\<close>

lemma step_key:
  assumes "at_frame FKey ev E" and "going 1 l E F" and "ev \<noteq> YAML_MAPPING_END_EVENT"
    and "em_frames s = [FVal]" and "em_depth s = 1" and "em_flow s = l"
    and "em_frames s' = [FVal]" and "em_depth s' = 1" and "em_flow s' = l"
  shows "steps ev E (emit_key simple ind s s' ev F)"
proof -
  have n: "\<not> em_first s" "\<not> em_first s'" using assms(5,8) by (metis em_depth_def zero_neq_one)+
  show ?thesis
  proof (cases simple)
    case True
    have "steps ev E (res_bind (push_em_state s F) (\<lambda>_ E. yaml_emitter_emit_node ev False False True True E))"
      using assms n by (intro steps_node [OF assms(1)]) simp_all
    then show ?thesis using True by (simp add: emit_key_def)
  next
    case False
    have "steps ev E (res_bind (yaml_emitter_write_indicator ''?'' True False ind F) (\<lambda>_ E. res_bind (push_em_state s' E)
        (\<lambda>_ E. yaml_emitter_emit_node ev False False True False E)))"
      using assms n by (intro steps_writes [OF writes_indicator assms(2)] steps_node [OF assms(1)]) simp_all
    then show ?thesis using False by (simp add: emit_key_def)
  qed
qed

lemma step_flow_mapping_key:
  assumes "at_frame FKey ev E"
    and "em_state E = (if first then YAML_EMIT_FLOW_MAPPING_FIRST_KEY_STATE else YAML_EMIT_FLOW_MAPPING_KEY_STATE)"
  shows "steps ev E (yaml_emitter_emit_flow_mapping_key first ev E)"
proof -
  have "going (if first then 0 else 1) (if first then 0 else 1) E E"
    using assms by (cases first) (simp_all add: at_frame_def state_simps)
  then show ?thesis unfolding yaml_emitter_emit_flow_mapping_key_def
  proof (rule steps_low [OF going_flow_start])
    fix F assume F: "going 1 1 E F"
    let ?k = "\<lambda>G. emit_key (\<not> canonical G \<and> yaml_emitter_check_simple_key G) False
       YAML_EMIT_FLOW_MAPPING_SIMPLE_VALUE_STATE YAML_EMIT_FLOW_MAPPING_VALUE_STATE ev G"
    show "steps ev E (if ev = YAML_MAPPING_END_EVENT then flow_end first ''}'' F
       else res_bind (item_separator first F) (\<lambda>_ G. ?k G))"
    proof (cases "ev = YAML_MAPPING_END_EVENT")
      case True
      have "wp False (flow_end first ''}'' F) (\<lambda>_ G. done_ok (GDoc (em_pending (em_states E))) E G) low_error"
        using F assms by (intro going_flow_end) (simp_all add: at_frame_def)
      then show ?thesis using True steps_close [OF assms(1)] by simp
    next
      case False
      have "steps ev E (res_bind (item_separator first F) (\<lambda>_ G. ?k G))"
        using False by (intro steps_writes [OF writes_item_separator F] step_key [OF assms(1)]) (simp_all add: state_simps)
      then show ?thesis using False by simp
    qed
  qed simp
qed

lemma step_flow_mapping_value:
  assumes "at_frame FVal ev E"
    and "em_state E = (if simple then YAML_EMIT_FLOW_MAPPING_SIMPLE_VALUE_STATE else YAML_EMIT_FLOW_MAPPING_VALUE_STATE)"
  shows "steps ev E (yaml_emitter_emit_flow_mapping_value simple ev E)"
proof -
  have E: "going 1 1 E E" using assms by (cases simple) (simp_all add: at_frame_def state_simps)
  have w: "writes (\<lambda>E :: 'a yaml_emitter. if simple then yaml_emitter_write_indicator '':'' False False False E
        else res_bind (fold_line E) (\<lambda>_ E. yaml_emitter_write_indicator '':'' True False False E))"
    by (intro writers) simp_all
  show ?thesis unfolding yaml_emitter_emit_flow_mapping_value_def
    by (intro steps_writes [OF w E] steps_node [OF assms(1)]) (simp_all add: state_simps)
qed

lemma step_block_mapping_value:
  assumes "at_frame FVal ev E"
    and "em_state E = (if simple then YAML_EMIT_BLOCK_MAPPING_SIMPLE_VALUE_STATE else YAML_EMIT_BLOCK_MAPPING_VALUE_STATE)"
  shows "steps ev E (yaml_emitter_emit_block_mapping_value simple ev E)"
proof -
  have E: "going 1 0 E E" using assms by (cases simple) (simp_all add: at_frame_def state_simps)
  have w: "writes (\<lambda>E :: 'a yaml_emitter. if simple then yaml_emitter_write_indicator '':'' False False False E
        else res_bind (yaml_emitter_write_indent E) (\<lambda>_ E. yaml_emitter_write_indicator '':'' True False True E))"
    by (intro writers) simp_all
  show ?thesis unfolding yaml_emitter_emit_block_mapping_value_def
    by (intro steps_writes [OF w E] steps_node [OF assms(1)]) (simp_all add: state_simps)
qed

lemma going_block_start:
  assumes "going (if first then 0 else 1) 0 E0 E"
  shows "wp False (if first then yaml_emitter_increase_indent a b E else Ok () E) (\<lambda>_ F. going 1 0 E0 F) low_error"
  using assms going_increase [of 0 0 E0 E a b] by (cases first) simp_all

lemma steps_block_end:
  assumes "at_frame f ev E" and "ev_step (GDoc (f # em_pending (em_states E))) ev = Some (GDoc (em_pending (em_states E)))" and "going 1 0 E F"
  shows "steps ev E (block_end F)"
proof (rule steps_close [OF assms(1,2)])
  have "wp False (pop_indent F) (\<lambda>_ G. going 0 0 E G) low_error" using going_pop [of 0 0 E F] assms(3) by simp
  then show "wp False (block_end F) (\<lambda>_ G. done_ok (GDoc (em_pending (em_states E))) E G) low_error"
    unfolding block_end_def wp_bind by (rule wp_mono) (use assms(1) in \<open>auto simp: at_frame_def intro: going_close\<close>)
qed

lemma step_block_sequence_item:
  assumes "at_frame FSeq ev E"
    and "em_state E = (if first then YAML_EMIT_BLOCK_SEQUENCE_FIRST_ITEM_STATE else YAML_EMIT_BLOCK_SEQUENCE_ITEM_STATE)"
  shows "steps ev E (yaml_emitter_emit_block_sequence_item first ev E)"
proof -
  have "going (if first then 0 else 1) 0 E E" using assms by (cases first) (simp_all add: at_frame_def state_simps)
  then show ?thesis unfolding yaml_emitter_emit_block_sequence_item_def
  proof (rule steps_low [OF going_block_start])
    fix F assume F: "going 1 0 E F"
    let ?n = "\<lambda>G. res_bind (yaml_emitter_write_indent G) (\<lambda>_ G. res_bind (yaml_emitter_write_indicator ''-'' True False True G) (\<lambda>_ G.
         res_bind (push_em_state YAML_EMIT_BLOCK_SEQUENCE_ITEM_STATE G) (\<lambda>_ G. yaml_emitter_emit_node ev False True False False G)))"
    have "steps ev E (?n F)" if "ev \<noteq> YAML_SEQUENCE_END_EVENT"
      using that by (intro steps_writes [OF writes_indent F] steps_writes [OF writes_indicator] steps_node [OF assms(1)]) (simp_all add: state_simps)
    moreover have "steps ev E (block_end F)" if "ev = YAML_SEQUENCE_END_EVENT"
      using that F assms by (intro steps_block_end [OF assms(1)]) simp_all
    ultimately show "steps ev E (if ev = YAML_SEQUENCE_END_EVENT then block_end F else ?n F)" by simp
  qed
qed

lemma step_block_mapping_key:
  assumes "at_frame FKey ev E"
    and "em_state E = (if first then YAML_EMIT_BLOCK_MAPPING_FIRST_KEY_STATE else YAML_EMIT_BLOCK_MAPPING_KEY_STATE)"
  shows "steps ev E (yaml_emitter_emit_block_mapping_key first ev E)"
proof -
  have "going (if first then 0 else 1) 0 E E" using assms by (cases first) (simp_all add: at_frame_def state_simps)
  then show ?thesis unfolding yaml_emitter_emit_block_mapping_key_def
  proof (rule steps_low [OF going_block_start])
    fix F assume F: "going 1 0 E F"
    let ?n = "\<lambda>F. res_bind (yaml_emitter_write_indent F) (\<lambda>_ G. emit_key (yaml_emitter_check_simple_key G) True
       YAML_EMIT_BLOCK_MAPPING_SIMPLE_VALUE_STATE YAML_EMIT_BLOCK_MAPPING_VALUE_STATE ev G)"
    have "steps ev E (?n F)" if "ev \<noteq> YAML_MAPPING_END_EVENT"
      using that by (intro steps_writes [OF writes_indent F] step_key [OF assms(1)]) (simp_all add: state_simps)
    moreover have "steps ev E (block_end F)" if "ev = YAML_MAPPING_END_EVENT"
      using that F assms by (intro steps_block_end [OF assms(1)]) simp_all
    ultimately show "steps ev E (if ev = YAML_MAPPING_END_EVENT then block_end F else ?n F)" by simp
  qed
qed

end
