(* ===== verification/Yaml_Emit_Automaton.thy ===== *)
theory Yaml_Emit_Automaton
  imports Yaml_Emit_Collections
begin

text \<open>
  The handlers of the emitter for streams and documents, the dispatcher, and the loop over the
  queue of events: every event that leaves the queue is a step of the grammar.
\<close>

section \<open>Streams and documents\<close>

lemma auto_outer:
  assumes "auto_ok E" and "em_outer (em_state E) = Some g"
  shows "em_states E = [] \<and> em_indents E = [] \<and> em_flow_level E = 0 \<and> em_grammar E = g \<and> directives_ok E
    \<and> (g \<in> {GStream, GDocs} \<longrightarrow> em_tag_directives E = [])"
proof -
  have "em_depth (em_state E) = 0" "em_flow (em_state E) = 0"
    using assms(2) em_outer_frames [of "em_state E"] by (cases "em_state E"; simp add: state_simps)+
  then show ?thesis using assms by (auto simp: auto_ok_def em_states_ok_def em_gstate_def em_counts_def)
qed

lemma outer_done:
  assumes "out_ok F" and "em_states F = []" and "em_indents F = []" and "em_flow_level F = 0" and "side F = side E"
    and "em_outer (em_state F) = Some g" and "directives_ok F" and "g \<in> {GStream, GDocs} \<Longrightarrow> em_tag_directives F = []"
  shows "done_ok g E F"
proof -
  have "em_depth (em_state F) = 0" "em_flow (em_state F) = 0"
    using assms(6) em_outer_frames [of "em_state F"] by (cases "em_state F"; simp add: state_simps)+
  then show ?thesis using assms by (auto simp: done_ok_def auto_ok_def em_states_ok_def em_gstate_def em_counts_def)
qed

lemma set_fields_out [simp]:
  "out_ok (E\<lparr>open_ended := c\<rparr>) = out_ok E" "out_ok (E\<lparr>em_tag_directives := tds\<rparr>) = out_ok E"
  by (simp_all add: out_ok_def)

text \<open>The invariant of the emitter between two events.\<close>

definition em_inv :: "'w yaml_emitter \<Rightarrow> bool" where
  "em_inv E \<longleftrightarrow> auto_ok E \<and>
     (if em_state E = YAML_EMIT_STREAM_START_STATE
      then write_handler E \<noteq> None \<and> em_buffer E = [] \<and> em_raw_buffer E = [] else out_ok E)"

lemma writes_set_open [writers]: "writes f \<Longrightarrow> writes (\<lambda>E. f (E\<lparr>open_ended := c\<rparr>))"
  using writes_bind [OF writes_flags(4) [where x = "\<lambda>_. ()" and c = "\<lambda>_. c"], of "\<lambda>_. f"] by simp

lemma writes_each [writers]: "(\<And>x. x \<in> set xs \<Longrightarrow> writes (f x)) \<Longrightarrow> writes (each f xs)"
proof (induction xs)
  case Nil
  show ?case by (simp add: writes_def)
next
  case (Cons x xs)
  have eq: "each f (x # xs) = (\<lambda>E. res_bind (f x E) (\<lambda>_ E. each f xs E))" by (rule ext) simp
  show ?case unfolding eq using Cons by (intro writes_bind) auto
qed

lemma writes_close_document [writers]: "writes close_document"
  unfolding close_document_def by (intro writers) simp

lemma writes_end_marker [writers]: "writes end_marker"
  unfolding end_marker_def by (intro writers) simp

lemma writes_version [writers]: "writes (write_version vd)"
  unfolding write_version_def by (intro writers) simp_all

lemma writes_tag_directive [writers]:
  "whole_chars (cstr (td_handle td)) \<Longrightarrow> whole_chars (cstr (td_prefix td)) \<Longrightarrow> writes (write_tag_directive td)"
  unfolding write_tag_directive_def by (intro writers) simp_all

lemma writes_document_start [writers]: "writes write_document_start"
  unfolding write_document_start_def by (intro writers) simp_all

lemma step_stream_start:
  assumes "em_inv E" and "em_state E = YAML_EMIT_STREAM_START_STATE"
  shows "steps ev E (yaml_emitter_emit_stream_start ev E)"
proof -
  have E: "em_states E = []" "em_indents E = []" "em_flow_level E = 0" "em_grammar E = GStream" "em_tag_directives E = []" "directives_ok E"
    using auto_outer [of E GStream] assms by (simp_all add: em_inv_def em_gstate_def)
  show ?thesis
  proof (cases "\<exists>enc. ev = YAML_STREAM_START_EVENT enc")
    case True
    then obtain enc where ev: "ev = YAML_STREAM_START_EVENT enc" by blast
    define F where "F = stream_settings enc (E\<lparr>open_ended := 0\<rparr>)"
    have F: "out_ok F" "em_states F = []" "em_indents F = []" "em_flow_level F = 0" "em_tag_directives F = []" "side F = side E"
      using assms E unfolding F_def by (simp_all add: stream_settings_def Let_def out_ok_def em_inv_def side_def)
    have w: "writes (\<lambda>E :: 'a yaml_emitter. if em_encoding E \<noteq> YAML_UTF8_ENCODING then yaml_emitter_write_bom E else Ok () E)"
      by (intro writers)
    have "done_ok GDocs E (G\<lparr>em_state := YAML_EMIT_FIRST_DOCUMENT_START_STATE\<rparr>)" if "out_ok G \<and> ctl G = ctl F" for G
      using that F by (intro outer_done) (simp_all add: ctl_def side_def directives_ok_def)
    then show ?thesis using wp_writer [OF w F(1) refl] E(4) ev
      by (auto simp: steps_def yaml_emitter_emit_stream_start_def Let_def F_def [symmetric] step_error_def elim!: wp_mono)
  next
    case False
    then have "steps ev E (yaml_emitter_set_emitter_error (E\<lparr>open_ended := 0\<rparr>) ''expected STREAM-START'')"
      using E(4) by (cases ev) (simp_all add: steps_def yaml_emitter_set_emitter_error_def step_error_def)
    then show ?thesis using False by (cases ev) (simp_all add: yaml_emitter_emit_stream_start_def)
  qed
qed

lemma step_document_content:
  assumes "em_inv E" and "analyzed ev E" and "em_state E = YAML_EMIT_DOCUMENT_CONTENT_STATE"
  shows "steps ev E (yaml_emitter_emit_document_content ev E)"
proof -
  have E: "em_states E = []" "em_indents E = []" "em_flow_level E = 0" "em_grammar E = GDoc [FRoot]" "directives_ok E" "out_ok E"
    using auto_outer [of E "GDoc [FRoot]"] assms by (simp_all add: em_inv_def em_gstate_def)
  then have "going 0 0 E E" "em_stack (em_states E @ [YAML_EMIT_DOCUMENT_END_STATE])"
    by (simp_all add: going_def em_counts_def em_stack_def)
  then show ?thesis
    using going_node [of YAML_EMIT_DOCUMENT_END_STATE E E ev FRoot "[]" True False False False] E assms(2)
    by (simp add: steps_def yaml_emitter_emit_document_content_def state_simps)
qed

lemma step_document_end:
  assumes "em_inv E" and "em_state E = YAML_EMIT_DOCUMENT_END_STATE"
  shows "steps ev E (yaml_emitter_emit_document_end ev E)"
proof -
  have E: "em_states E = []" "em_indents E = []" "em_flow_level E = 0" "em_grammar E = GDoc []" "out_ok E"
    using auto_outer [of E "GDoc []"] assms by (simp_all add: em_inv_def em_gstate_def)
  show ?thesis
  proof (cases "\<exists>i. ev = YAML_DOCUMENT_END_EVENT i")
    case True
    then obtain i where ev: "ev = YAML_DOCUMENT_END_EVENT i" by blast
    have o: "writes (\<lambda>E :: 'a yaml_emitter. Ok () (if open_ended E = 0 then E\<lparr>open_ended := 1\<rparr> else E))"
      by (simp add: writes_def ctl_def out_ok_def)
    have w: "writes (\<lambda>E :: 'a yaml_emitter. res_bind (yaml_emitter_write_indent E) (\<lambda>_ E.
       res_bind (if \<not> i then end_marker E else Ok () (if open_ended E = 0 then E\<lparr>open_ended := 1\<rparr> else E)) (\<lambda>_ E.
         yaml_emitter_flush E)))"
      by (intro writes_bind writes_if o writers)
    have "done_ok GDocs E (G\<lparr>em_state := YAML_EMIT_DOCUMENT_START_STATE, em_tag_directives := []\<rparr>)" if "out_ok G \<and> ctl G = ctl E" for G
      using that E by (intro outer_done) (simp_all add: out_ok_def ctl_def side_def directives_ok_def)
    then show ?thesis using wp_writer [OF w E(5) refl] E(4) ev
      by (auto simp: steps_def yaml_emitter_emit_document_end_def step_error_def elim!: wp_mono)
  next
    case False
    then have "steps ev E (yaml_emitter_set_emitter_error E ''expected DOCUMENT-END'')"
      using E(4) by (cases ev) (simp_all add: steps_def yaml_emitter_set_emitter_error_def step_error_def)
    then show ?thesis using False by (cases ev) (simp_all add: yaml_emitter_emit_document_end_def)
  qed
qed

section \<open>Directives\<close>

definition undirected where
  "undirected (E :: 'w yaml_emitter) = (write_handler E, em_encoding E, best_indent E, (em_buffer E, em_raw_buffer E),
     (em_states E, em_state E, em_indents E, em_flow_level E), side E)"

lemma cstr_idem [simp]: "cstr (cstr s) = cstr s"
  by (simp add: cstr_def)

abbreviation handle_of :: "yaml_tag_directive \<Rightarrow> ystr" where
  "handle_of td \<equiv> cstr (td_handle td)"

lemma wp_append_directive:
  assumes "directives_ok E" and "whole_chars (cstr (td_handle td))" and "whole_chars (cstr (td_prefix td))"
  shows "wp False (yaml_emitter_append_tag_directive dup td E)
    (\<lambda>_ F. directives_ok F \<and> undirected F = undirected E \<and> handle_of ` set (em_tag_directives F) \<subseteq> insert (handle_of td) (handle_of ` set (em_tag_directives E)))
    (\<lambda>F. low_error F \<or> emitter_error F \<and> \<not> dup \<and> handle_of td \<in> handle_of ` set (em_tag_directives E))"
proof (cases "list_ex (\<lambda>t. cstr (td_handle td) = cstr (td_handle t)) (em_tag_directives E)")
  case True
  then show ?thesis using assms(1)
    by (auto simp: yaml_emitter_append_tag_directive_def yaml_emitter_set_emitter_error_def list_ex_iff)
next
  case False
  then show ?thesis using assms
    by (auto simp: yaml_emitter_append_tag_directive_def em_allocate_def directives_ok_def undirected_def side_def)
qed

lemma directive_whole: "directive_ok td \<Longrightarrow> whole_chars (handle_of td)"
proof -
  assume d: "directive_ok td"
  let ?h = "handle_of td"
  have h: "?h \<noteq> []" "hd ?h = 33" "last ?h = 33" "all_alpha (butlast (tl ?h))" using d by (simp_all add: directive_ok_def Let_def)
  have "b < 0x80" if "b \<in> set ?h" for b
  proof -
    have "b = hd ?h \<or> b = last ?h \<or> b \<in> set (butlast (tl ?h))"
      using that h(1) by (cases ?h) (auto dest!: split_list simp: butlast_append split: if_splits)
    then show ?thesis using h by (auto simp: all_alpha_def list_all_iff alpha_ascii)
  qed
  then show ?thesis by (intro whole_chars_asciis) (simp add: list_all_iff)
qed

lemma wp_analyze_directive:
  "wp False (yaml_emitter_analyze_tag_directive td E) (\<lambda>_ F. F = E \<and> directive_ok td) (\<lambda>F. emitter_error F \<and> \<not> directive_ok td)"
  by (simp add: yaml_emitter_analyze_tag_directive_def yaml_emitter_set_emitter_error_def Let_def directive_ok_def)

lemma wp_each_directive:
  assumes "directives_ok E" and "list_all (\<lambda>td. whole_chars (cstr (td_prefix td))) tds"
  shows "wp False (each (\<lambda>td E. res_bind (yaml_emitter_analyze_tag_directive td E) (\<lambda>_ E. yaml_emitter_append_tag_directive False td E)) tds E)
    (\<lambda>_ F. directives_ok F \<and> undirected F = undirected E \<and> list_all directive_ok tds)
    (\<lambda>F. low_error F \<or> emitter_error F \<and> \<not> (list_all directive_ok tds \<and> distinct (map handle_of tds)
       \<and> (\<forall>td \<in> set tds. handle_of td \<notin> handle_of ` set (em_tag_directives E))))"
  using assms
proof (induction tds arbitrary: E)
  case (Cons td tds)
  show ?case unfolding each.simps wp_bind
  proof (rule wp_mono [OF wp_analyze_directive], goal_cases)
    case (1 _ F)
    then have w: "whole_chars (handle_of td)" "whole_chars (cstr (td_prefix td))" and F: "F = E" "directives_ok E" and d: "directive_ok td"
      using directive_whole Cons.prems by auto
    show ?case unfolding F(1)
    proof (rule wp_mono [OF wp_append_directive [OF F(2) w]], goal_cases)
      case (1 _ G)
      then have sub: "handle_of ` set (em_tag_directives G) \<subseteq> insert (handle_of td) (handle_of ` set (em_tag_directives E))" by simp
      have key: "\<forall>x \<in> set tds. handle_of x \<notin> handle_of ` set (em_tag_directives G)"
        if "handle_of td \<notin> handle_of ` set tds" "\<forall>x \<in> set tds. handle_of x \<notin> handle_of ` set (em_tag_directives E)"
      proof
        fix x assume x: "x \<in> set tds"
        then have "handle_of x \<noteq> handle_of td" using that(1) by (metis imageI)
        moreover have "handle_of x \<notin> handle_of ` set (em_tag_directives E)" using that(2) x by simp
        ultimately show "handle_of x \<notin> handle_of ` set (em_tag_directives G)" using sub by blast
      qed
      show ?case
      proof (rule wp_mono [OF Cons.IH [of G]], goal_cases)
        case (3 _ H)
        then show ?case using 1 d by simp
      next
        case (4 H)
        have "list_all directive_ok tds \<and> distinct (map handle_of tds) \<and> (\<forall>x \<in> set tds. handle_of x \<notin> handle_of ` set (em_tag_directives G))"
          if "list_all directive_ok (td # tds) \<and> distinct (map handle_of (td # tds))
            \<and> (\<forall>x \<in> set (td # tds). handle_of x \<notin> handle_of ` set (em_tag_directives E))"
          using that key by simp
        with 4 show ?case by blast
      qed (use 1 Cons.prems in simp_all)
    qed auto
  qed auto
qed simp

lemma wp_each_default:
  assumes "directives_ok E"
  shows "wp False (each (yaml_emitter_append_tag_directive True) default_directives E)
    (\<lambda>_ F. directives_ok F \<and> undirected F = undirected E) low_error"
proof -
  have d: "wp False (yaml_emitter_append_tag_directive True td F) (\<lambda>_ G. directives_ok G \<and> undirected G = undirected E) low_error"
    if "directives_ok F \<and> undirected F = undirected E" "td \<in> set default_directives" for F td
  proof (rule wp_mono [OF wp_append_directive])
    show "whole_chars (cstr (td_handle td))" "whole_chars (cstr (td_prefix td))"
      using that(2) unfolding default_directives_def by (auto simp: cstr_def octets_def intro!: whole_chars_asciis)
  qed (use that(1) in auto)
  have "wp False (each (yaml_emitter_append_tag_directive True) tds F) (\<lambda>_ F. directives_ok F \<and> undirected F = undirected E) low_error"
    if "directives_ok F \<and> undirected F = undirected E" "set tds \<subseteq> set default_directives" for F tds
    using that
  proof (induction tds arbitrary: F)
    case (Cons td tds)
    then show ?case by (auto intro!: wp_mono [OF d, of F td])
  qed simp
  then show ?thesis using assms by simp
qed

lemma wp_collect_directives:
  assumes "directives_ok E" and "em_tag_directives E = []" and "text_ok (YAML_DOCUMENT_START_EVENT vd tds imp)"
  shows "wp False (collect_directives vd tds E)
    (\<lambda>_ F. directives_ok F \<and> undirected F = undirected E \<and> list_all directive_ok tds)
    (\<lambda>F. low_error F \<or> emitter_error F \<and> \<not> ev_valid (YAML_DOCUMENT_START_EVENT vd tds imp))"
proof -
  have v: "wp False (analyze_opt yaml_emitter_analyze_version_directive vd E) (\<lambda>_ F. F = E)
     (\<lambda>F. emitter_error F \<and> \<not> opt_ok (\<lambda>v. major v = 1 \<and> (minor v = 1 \<or> minor v = 2)) vd)"
    by (cases vd) (auto simp: analyze_opt_def yaml_emitter_analyze_version_directive_def yaml_emitter_set_emitter_error_def opt_ok_def)
  show ?thesis unfolding collect_directives_def wp_bind
  proof (rule wp_mono [OF v], goal_cases)
    case (1 _ F)
    then show ?case using assms
    proof (intro wp_mono [OF wp_each_directive], goal_cases)
      case (3 _ G)
      then show ?case using wp_each_default [of G] by (auto elim!: wp_mono)
    qed auto
  qed auto
qed

lemma steps_bind:
  assumes "wp False r P R" and "\<And>x F. P x F \<Longrightarrow> steps ev E (k x F)" and "\<And>F. R F \<Longrightarrow> step_error (em_grammar E) ev F"
  shows "steps ev E (res_bind r k)"
  using assms(2,3) unfolding steps_def wp_bind by (intro wp_mono [OF assms(1)]) auto

lemma undirected_done:
  assumes "undirected F = undirected E" and "auto_ok E" and "em_outer (em_state E) = Some g"
  shows "out_ok F = out_ok E \<and> em_states F = [] \<and> em_indents F = [] \<and> em_flow_level F = 0 \<and> side F = side E"
  using assms auto_outer [OF assms(2,3)] by (simp add: undirected_def out_ok_def)

lemma step_document_start:
  assumes "em_inv E" and "text_ok ev"
    and "em_state E = (if first then YAML_EMIT_FIRST_DOCUMENT_START_STATE else YAML_EMIT_DOCUMENT_START_STATE)"
  shows "steps ev E (yaml_emitter_emit_document_start first ev E)"
proof -
  have o: "em_outer (em_state E) = Some GDocs" "out_ok E" "auto_ok E" using assms by (cases first; simp add: em_inv_def)+
  then have E: "em_grammar E = GDocs" "em_tag_directives E = []" "directives_ok E" using auto_outer [of E GDocs] by auto
  consider vd tds imp where "ev = YAML_DOCUMENT_START_EVENT vd tds imp" | "ev = YAML_STREAM_END_EVENT"
    | "\<not> is_doc_start ev" "ev \<noteq> YAML_STREAM_END_EVENT" by (cases ev) auto
  then show ?thesis
  proof cases
    case (1 vd tds imp)
    have w: "writes (\<lambda>E :: 'a yaml_emitter. res_bind (if (vd \<noteq> None \<or> tds \<noteq> []) \<and> open_ended E \<noteq> 0 then close_document E else Ok () E) (\<lambda>_ E.
        res_bind (analyze_opt write_version vd (E\<lparr>open_ended := 0\<rparr>)) (\<lambda>_ E.
        res_bind (each write_tag_directive tds E) (\<lambda>_ E. if b then Ok () E else write_document_start E))))"
      if "list_all directive_ok tds" for b
      using that assms(2) 1 unfolding analyze_opt_def
      by (cases vd; simp only: option.case) (intro writers; auto simp: list_all_iff directive_whole)+
    have "done_ok (GDoc [FRoot]) E (G\<lparr>em_state := YAML_EMIT_DOCUMENT_CONTENT_STATE, open_ended := 0\<rparr>)"
      if "out_ok G \<and> ctl G = ctl F" "directives_ok F" "undirected F = undirected E" for F G
      using that undirected_done [OF that(3) o(3,1)] by (intro outer_done) (simp_all add: ctl_def side_def directives_ok_def)
    then have rest: "steps ev E (res_bind (if (vd \<noteq> None \<or> tds \<noteq> []) \<and> open_ended F \<noteq> 0 then close_document F else Ok () F) (\<lambda>_ E.
          res_bind (analyze_opt write_version vd (E\<lparr>open_ended := 0\<rparr>)) (\<lambda>_ E.
          res_bind (each write_tag_directive tds E) (\<lambda>_ E.
          res_bind (if b then Ok () E else write_document_start E) (\<lambda>_ E.
            Ok () (E\<lparr>em_state := YAML_EMIT_DOCUMENT_CONTENT_STATE, open_ended := 0\<rparr>))))))"
      if "directives_ok F \<and> undirected F = undirected E \<and> list_all directive_ok tds" for F b
      using wp_writer [OF w [of b] _ refl, of F] that undirected_done [of F E GDocs] o E(1) 1
      unfolding steps_def wp_bind by (auto simp: step_error_def elim!: wp_mono)
    show ?thesis
      unfolding 1 yaml_emitter_emit_document_start_def yaml_event_data.case Let_def
    proof (rule steps_bind [OF wp_collect_directives [OF E(3,2) assms(2) [unfolded 1]]])
      fix F assume "low_error F \<or> emitter_error F \<and> \<not> ev_valid (YAML_DOCUMENT_START_EVENT vd tds imp)"
      then show "step_error (em_grammar E) (YAML_DOCUMENT_START_EVENT vd tds imp) F" by (auto simp: step_error_def)
    qed (rule rest [unfolded 1])
  next
    case 2
    have w: "writes (\<lambda>E :: 'a yaml_emitter. res_bind (if open_ended E = 2 then end_marker E else Ok () E) (\<lambda>_ E. yaml_emitter_flush E))"
      by (intro writers)
    have "done_ok GEnd E (G\<lparr>em_state := YAML_EMIT_END_STATE\<rparr>)" if "out_ok G \<and> ctl G = ctl E" for G
      using that auto_outer [OF o(3,1)] by (intro outer_done) (simp_all add: ctl_def side_def directives_ok_def)
    then show ?thesis using wp_writer [OF w o(2) refl] E(1) 2
      by (auto simp: steps_def yaml_emitter_emit_document_start_def step_error_def elim!: wp_mono)
  next
    case 3
    then have "steps ev E (yaml_emitter_set_emitter_error E ''expected DOCUMENT-START or STREAM-END'')"
      using E(1) by (cases ev) (simp_all add: steps_def yaml_emitter_set_emitter_error_def step_error_def)
    then show ?thesis using 3 by (cases ev) (simp_all add: yaml_emitter_emit_document_start_def)
  qed
qed

section \<open>The dispatcher and the queue\<close>

lemma at_frameI:
  assumes "em_inv E" and "analyzed ev E" and "em_frames (em_state E) = [f]"
  shows "at_frame f ev E"
proof -
  have o: "em_outer (em_state E) = None" using assms(3) em_outer_frames [of "em_state E"] by simp
  then have "em_state E \<noteq> YAML_EMIT_STREAM_START_STATE" by auto
  then have "out_ok E" "em_stack (em_states E)" "directives_ok E" "em_grammar E = GDoc (f # em_pending (em_states E))"
      "em_counts (em_states E @ [em_state E]) = (length (em_indents E), em_flow_level E)"
    using assms o by (auto simp: em_inv_def auto_ok_def em_states_ok_def em_gstate_def)
  then show ?thesis using assms(2) by (simp add: at_frame_def going_def counts_snoc)
qed

lemma steps_machine:
  assumes "em_inv E" and "analyzed ev E" and "text_ok ev"
  shows "steps ev E (yaml_emitter_state_machine ev E)"
  using at_frameI [OF assms(1,2)] assms
    step_stream_start [of E ev] step_document_start [of E ev True] step_document_start [of E ev False]
    step_document_content [of E ev] step_document_end [of E ev]
    step_flow_sequence_item [of ev E True] step_flow_sequence_item [of ev E False]
    step_flow_mapping_key [of ev E True] step_flow_mapping_key [of ev E False]
    step_flow_mapping_value [of ev E True] step_flow_mapping_value [of ev E False]
    step_block_sequence_item [of ev E True] step_block_sequence_item [of ev E False]
    step_block_mapping_key [of ev E True] step_block_mapping_key [of ev E False]
    step_block_mapping_value [of ev E True] step_block_mapping_value [of ev E False]
proof (cases "em_state E")
  case YAML_EMIT_END_STATE
  then have "em_grammar E = GEnd" by (simp add: em_gstate_def)
  then have "ev_step (em_grammar E) ev = None" by (cases ev) simp_all
  then show ?thesis using YAML_EMIT_END_STATE
    by (simp add: yaml_emitter_state_machine_def steps_def yaml_emitter_set_emitter_error_def step_error_def)
qed (simp_all add: yaml_emitter_state_machine_def)

text \<open>One event: analysis, step and removal from the queue.\<close>

definition dumping where
  "dumping (E :: 'w yaml_emitter) = (opened E, closed E, em_anchors E, last_anchor_id E, em_document E)"

lemma step_not_stream: "ev_step g e \<noteq> Some GStream"
  by (cases "(g, e)" rule: ev_step.cases) simp_all

lemma done_inv:
  assumes "ev_step g ev = Some g'" and "done_ok g' E F"
  shows "em_inv (F\<lparr>events := es\<rparr>)"
proof -
  have "em_state F \<noteq> YAML_EMIT_STREAM_START_STATE"
    using assms step_not_stream [of g ev] by (auto simp: done_ok_def em_gstate_def)
  then show ?thesis using assms(2) by (simp add: em_inv_def done_ok_def auto_ok_def out_ok_def directives_ok_def)
qed

lemma auto_part_inv:
  assumes "auto_part F = auto_part E" and "em_inv E"
  shows "em_inv F" and "em_grammar F = em_grammar E" and "side F = side E"
  using assms out_ok_auto [of F E] by (simp_all add: auto_part_def em_inv_def auto_ok_def directives_ok_def side_def)

lemma wp_one_event:
  assumes "em_inv E" and "text_ok ev"
  shows "wp False (res_bind (yaml_emitter_analyze_event ev E) (\<lambda>_ E. yaml_emitter_state_machine ev E))
    (\<lambda>_ F. \<exists>g. ev_step (em_grammar E) ev = Some g \<and> done_ok g E F) (step_error (em_grammar E) ev)"
  unfolding wp_bind
proof (rule wp_mono [OF wp_analyze_event])
  show "directives_ok E" using assms(1) by (simp add: em_inv_def auto_ok_def)
  fix F assume "auto_part F = auto_part E \<and> analyzed ev F"
  then show "wp False (yaml_emitter_state_machine ev F)
      (\<lambda>_ F. \<exists>g. ev_step (em_grammar E) ev = Some g \<and> done_ok g E F) (step_error (em_grammar E) ev)"
    using steps_machine [of F ev] auto_part_inv [of F E] assms by (simp add: steps_def done_ok_def)
qed (use assms(2) in \<open>auto simp: step_error_def\<close>)

abbreviation datas :: "yaml_event list \<Rightarrow> yaml_event_data list" where
  "datas es \<equiv> map ev_data es"

definition queue_error :: "gstate \<Rightarrow> yaml_event_data list \<Rightarrow> 'w yaml_emitter \<Rightarrow> bool" where
  "queue_error g es F \<longleftrightarrow> low_error F \<or> emitter_error F \<and> (ev_run g es = None \<or> \<not> list_all ev_valid es)"

lemma wp_emit_queue:
  assumes "em_inv E" and "list_all text_ok (datas (events E))" and "length (events E) < n"
  shows "wp False (emit_queue n E)
    (\<lambda>_ F. em_inv F \<and> dumping F = dumping E \<and> yaml_emitter_need_more_events (datas (events F))
       \<and> (\<exists>ps. events E = ps @ events F \<and> ev_run (em_grammar E) (datas ps) = Some (em_grammar F)))
    (queue_error (em_grammar E) (datas (events E)))"
  using assms
proof (induction n arbitrary: E)
  case (Suc n)
  show ?case
  proof (cases "events E")
    case Nil
    then show ?thesis using Suc.prems by (simp add: yaml_emitter_need_more_events_def)
  next
    case (Cons ev es)
    show ?thesis
    proof (cases "yaml_emitter_need_more_events (datas (events E))")
      case True
      then show ?thesis using Cons Suc.prems by simp
    next
      case False
      let ?Q = "\<lambda>_ F. em_inv F \<and> dumping F = dumping E \<and> yaml_emitter_need_more_events (datas (events F))
         \<and> (\<exists>ps. events E = ps @ events F \<and> ev_run (em_grammar E) (datas ps) = Some (em_grammar F))"
      have rest: "wp False (emit_queue n (F\<lparr>events := tl (events F)\<rparr>)) ?Q (queue_error (em_grammar E) (datas (events E)))"
        if "ev_step (em_grammar E) (ev_data ev) = Some g" "done_ok g E F" for F g
      proof -
        let ?F = "F\<lparr>events := tl (events F)\<rparr>"
        have F: "events F = ev # es" "em_grammar F = g" "dumping ?F = dumping E"
          using that(2) Cons by (simp_all add: done_ok_def side_def dumping_def)
        have "em_inv ?F" by (rule done_inv [OF that])
        then have "wp False (emit_queue n ?F)
            (\<lambda>_ G. em_inv G \<and> dumping G = dumping ?F \<and> yaml_emitter_need_more_events (datas (events G))
               \<and> (\<exists>ps. events ?F = ps @ events G \<and> ev_run (em_grammar ?F) (datas ps) = Some (em_grammar G)))
            (queue_error (em_grammar ?F) (datas (events ?F)))"
          using Suc.prems Cons F(1) by (intro Suc.IH) simp_all
        then show ?thesis
        proof (rule wp_mono, goal_cases)
          case (1 _ G)
          then obtain ps where "es = ps @ events G" "ev_run g (datas ps) = Some (em_grammar G)" using F by auto
          then show ?case using 1 F Cons that(1) by (auto intro!: exI [of _ "ev # ps"])
        next
          case (2 G)
          then show ?case using F Cons that(1) by (auto simp: queue_error_def)
        qed
      qed
      have eq: "emit_queue (Suc n) E = res_bind (res_bind (yaml_emitter_analyze_event (ev_data ev) E)
          (\<lambda>_ E. yaml_emitter_state_machine (ev_data ev) E)) (\<lambda>_ F. emit_queue n (F\<lparr>events := tl (events F)\<rparr>))"
        using False Cons by (simp add: res_bind_assoc)
      have "text_ok (ev_data ev)" using Suc.prems(2) Cons by simp
      from wp_one_event [OF Suc.prems(1) this] show ?thesis
        unfolding eq wp_bind [of _ "res_bind _ _"]
      proof (rule wp_mono)
        fix F assume "step_error (em_grammar E) (ev_data ev) F"
        then show "queue_error (em_grammar E) (datas (events E)) F" using Cons by (auto simp: step_error_def queue_error_def)
      qed (use rest in blast)
    qed
  qed
qed simp

end
