(* ===== verification/Yaml_Emitting.thy ===== *)
theory Yaml_Emitting
  imports Yaml_Emit_Automaton Yaml_Api_Document "HOL-Library.Code_Target_Numeral"
begin

text \<open>
  What the emitter promises to its clients, as a locale that the emitter's own functions
  interpret, and its properties: it follows the grammar of events, always returns, keeps its
  buffers and stacks in bounds, and takes every event that the API makes.
\<close>

section \<open>Sinks of events\<close>

text \<open>
  What a client that emits events relies on: a call returns, the sink takes events off its queue
  in order and as steps of the grammar, and it refuses events only if they leave the grammar or
  their data is not valid.
\<close>

locale event_sink =
  fixes emit :: "'e \<Rightarrow> 's \<Rightarrow> (unit, 's) res"
    and data :: "'e \<Rightarrow> yaml_event_data"
    and inv :: "'s \<Rightarrow> bool"
    and queued :: "'s \<Rightarrow> 'e list"
    and gram :: "'s \<Rightarrow> gstate"
    and low :: "'s \<Rightarrow> bool"
    and refused :: "'s \<Rightarrow> bool"
  assumes emit_one: "inv s \<Longrightarrow> list_all (\<lambda>e. text_ok (data e)) (queued s) \<Longrightarrow> text_ok (data e) \<Longrightarrow>
    wp False (emit e s)
      (\<lambda>_ t. inv t \<and> (\<exists>ps. queued s @ [e] = ps @ queued t \<and> ev_run (gram s) (map data ps) = Some (gram t)))
      (\<lambda>t. low t \<or> refused t \<and>
        (ev_run (gram s) (map data (queued s @ [e])) = None \<or> \<not> list_all ev_valid (map data (queued s @ [e]))))"
begin

lemma emit_all:
  assumes "inv s" and "list_all (\<lambda>e. text_ok (data e)) (queued s @ es)"
  shows "wp False (each emit es s)
    (\<lambda>_ t. inv t \<and> (\<exists>ps. queued s @ es = ps @ queued t \<and> ev_run (gram s) (map data ps) = Some (gram t)))
    (\<lambda>t. low t \<or> refused t \<and>
       (ev_run (gram s) (map data (queued s @ es)) = None \<or> \<not> list_all ev_valid (map data (queued s @ es))))"
  using assms
proof (induction es arbitrary: s)
  case (Cons e es)
  show ?case unfolding each.simps wp_bind
  proof (rule wp_mono [OF emit_one [OF Cons.prems(1), of e]], goal_cases)
    case (3 _ t)
    then obtain ps where t: "inv t" "queued s @ [e] = ps @ queued t" "ev_run (gram s) (map data ps) = Some (gram t)" by blast
    then have q: "queued s @ e # es = ps @ queued t @ es" by (metis append.assoc append_Cons append_Nil)
    then have "list_all (\<lambda>e. text_ok (data e)) (queued t @ es)" using Cons.prems(2) by (metis list_all_append)
    note IH = Cons.IH [OF t(1) this]
    show ?case
    proof (rule wp_mono [OF IH], goal_cases)
      case (1 _ u)
      then obtain qs where "queued t @ es = qs @ queued u" "ev_run (gram t) (map data qs) = Some (gram u)" by blast
      then show ?case using 1 q t(3) by (auto simp: ev_run_append intro!: exI [of _ "ps @ qs"])
    next
      case (2 u)
      then show ?case unfolding q by (auto simp: ev_run_append t(3))
    qed
  next
    case (4 t)
    then show ?case by (auto simp: ev_run_append split: option.splits)
  qed (use Cons.prems in auto)
qed simp

end

section \<open>The emitter is one\<close>

lemma need_more_bound: "yaml_emitter_need_more_events es \<Longrightarrow> length es \<le> 3"
  by (auto simp: yaml_emitter_need_more_events_def accumulate_def split: list.splits option.splits yaml_event_data.splits)

text \<open>Between two calls: the invariant, and a queue that waits for more.\<close>

definition em_waiting :: "'w yaml_emitter \<Rightarrow> bool" where
  "em_waiting E \<longleftrightarrow> em_inv E \<and> yaml_emitter_need_more_events (datas (events E))"

lemma wp_emit:
  assumes "em_inv E" and "list_all (\<lambda>e. text_ok (ev_data e)) (events E)" and "text_ok (ev_data e)"
  shows "wp False (yaml_emitter_emit e E)
    (\<lambda>_ F. em_waiting F \<and> dumping F = dumping E
       \<and> (\<exists>ps. events E @ [e] = ps @ events F \<and> ev_run (em_grammar E) (datas ps) = Some (em_grammar F)))
    (queue_error (em_grammar E) (datas (events E @ [e])))"
proof (cases "em_heap E = 0")
  case False
  let ?E = "E\<lparr>em_heap := em_heap E - 1, events := events E @ [e]\<rparr>"
  have "em_inv ?E" using assms(1) by (auto simp: em_inv_def auto_ok_def out_ok_def directives_ok_def split: if_splits)
  then have "wp False (emit_queue (length (events E) + 2) ?E)
    (\<lambda>_ F. em_inv F \<and> dumping F = dumping ?E \<and> yaml_emitter_need_more_events (datas (events F))
       \<and> (\<exists>ps. events ?E = ps @ events F \<and> ev_run (em_grammar ?E) (datas ps) = Some (em_grammar F)))
    (queue_error (em_grammar ?E) (datas (events ?E)))"
    using assms(2,3) by (intro wp_emit_queue) (simp_all add: list_all_iff)
  moreover have "yaml_emitter_emit e E = emit_queue (length (events E) + 2) ?E"
    using False by (simp add: yaml_emitter_emit_def em_allocate_def del: emit_queue.simps)
  moreover have "dumping ?E = dumping E" "em_grammar ?E = em_grammar E" by (simp_all add: dumping_def)
  ultimately show ?thesis by (auto simp: em_waiting_def simp del: emit_queue.simps elim!: wp_mono)
qed (simp add: yaml_emitter_emit_def em_allocate_def queue_error_def)

interpretation emitter_sink: event_sink yaml_emitter_emit ev_data em_inv events em_grammar low_error emitter_error
proof
  fix E :: "'a yaml_emitter" and e :: yaml_event
  assume "em_inv E" "list_all (\<lambda>e. text_ok (ev_data e)) (events E)" "text_ok (ev_data e)"
  from wp_emit [OF this] show "wp False (yaml_emitter_emit e E)
      (\<lambda>_ F. em_inv F \<and> (\<exists>ps. events E @ [e] = ps @ events F \<and> ev_run (em_grammar E) (datas ps) = Some (em_grammar F)))
      (\<lambda>F. low_error F \<or> emitter_error F \<and>
        (ev_run (em_grammar E) (datas (events E @ [e])) = None \<or> \<not> list_all ev_valid (datas (events E @ [e]))))"
    by (auto elim!: wp_mono simp: queue_error_def em_waiting_def)
qed

lemma each_append: "each f (xs @ ys) s = res_bind (each f xs s) (\<lambda>_ s. each f ys s)"
proof (induction xs arbitrary: s)
  case (Cons x xs)
  have "each f (xs @ ys) = (\<lambda>s. res_bind (each f xs s) (\<lambda>_ s. each f ys s))" by (rule ext) (rule Cons.IH)
  then show ?case by (simp add: res_bind_assoc)
qed simp

section \<open>New emitters\<close>

text \<open>An emitter before its first event: created, with an output and any settings.\<close>

definition em_fresh :: "'w yaml_emitter \<Rightarrow> bool" where
  "em_fresh E \<longleftrightarrow> write_handler E \<noteq> None \<and> em_buffer E = [] \<and> em_raw_buffer E = [] \<and> em_state E = YAML_EMIT_STREAM_START_STATE
     \<and> em_states E = [] \<and> events E = [] \<and> em_indents E = [] \<and> em_tag_directives E = [] \<and> em_flow_level E = 0"

lemma fresh_inv: "em_fresh E \<Longrightarrow> em_inv E \<and> events E = [] \<and> em_grammar E = GStream"
  by (simp add: em_fresh_def em_inv_def auto_ok_def em_states_ok_def em_counts_def state_simps directives_ok_def em_gstate_def)

lemma initialize_fresh:
  assumes "yaml_emitter_initialize d h = Ok () E" and "yaml_emitter_set_output wh d' E = Ok () F"
  shows "em_fresh F"
proof -
  have "write_handler E = None \<and> em_fresh (E\<lparr>write_handler := Some wh\<rparr>)"
    using assms(1) by (auto simp: yaml_emitter_initialize_def em_allocate_def numeral_eq_Suc zero_emitter_def em_fresh_def split: if_splits)
  then show ?thesis using assms(2) by (auto simp: yaml_emitter_set_output_def em_fresh_def split: if_splits)
qed

text \<open>What the API checks is more than the emitter needs.\<close>

lemma utf8_whole: "yaml_check_utf8 s \<Longrightarrow> whole_chars s"
proof (induction s rule: length_induct)
  case (1 s)
  show ?case
  proof (cases "s = []")
    case False
    then have w: "str_width s = utf8_width (hd s)" by (simp add: str_width_def octet_def hd_conv_nth)
    have u: "0 < utf8_width (hd s) \<and> utf8_width (hd s) \<le> length s \<and> yaml_check_utf8 (drop (utf8_width (hd s)) s)"
      using "1.prems" False by (subst (asm) yaml_check_utf8.simps) (auto simp: Let_def split: if_splits sum.splits)
    then have "length (drop (utf8_width (hd s)) s) < length s" using False by simp
    then have "whole_chars (drop (utf8_width (hd s)) s)" using "1.IH" u by blast
    then show ?thesis using u w by (subst whole_chars.simps) simp
  qed simp
qed

lemma checked_copy_whole: "checked_copy s h = Ok t h' \<Longrightarrow> whole_chars (cstr t)"
  using utf8_whole [of "cstr s"]
  by (auto simp: checked_copy_def yaml_strdup_def request_def split: if_splits)

lemma optional_copy_whole: "optional_copy s h = Ok t h' \<Longrightarrow> tag_text t"
  by (auto simp: optional_copy_def tag_text_def res_bind_eq_Ok checked_copy_whole split: option.splits)

lemma copy_tag_directives_whole:
  "copy_tag_directives tds h = Ok tds' h' \<Longrightarrow> list_all (\<lambda>td. whole_chars (cstr (td_prefix td))) tds'"
  by (induction tds arbitrary: h tds' h')
     (auto simp: res_bind_eq_Ok yaml_strdup_def request_def utf8_whole split: if_splits)

section \<open>Properties\<close>

text \<open>
  (C6) The emitter follows the grammar of events.  If all calls that emit a sequence of events
  with a new emitter succeed, the events that have left the queue are a run of the grammar from
  the start of a stream to the state that the state and the stack of states of the emitter stand
  for; the others, at most three, wait in the queue.
\<close>

theorem emit_refines_grammar:
  assumes "em_fresh E" and "list_all (\<lambda>e. text_ok (ev_data e)) es" and "each yaml_emitter_emit es E = Ok () F"
  shows "\<exists>ps. es = ps @ events F \<and> ev_run GStream (datas ps) = Some (em_grammar F)"
  using wp_OkD [OF emitter_sink.emit_all assms(3)] fresh_inv [OF assms(1)] assms(2) by auto

text \<open>An example: the document \<open>a: [1, *x]\<close> with an anchor and a tag.\<close>

definition demo_emitter :: "string_output yaml_emitter" where
  "demo_emitter = (zero_emitter \<lparr>out_size = 200, out_octets = []\<rparr> 100)\<lparr>write_handler := Some yaml_string_write_handler\<rparr>"

definition demo_events :: "yaml_event list" where
  "demo_events = map plain_event
     [YAML_STREAM_START_EVENT YAML_UTF8_ENCODING, YAML_DOCUMENT_START_EVENT None [] True,
      YAML_MAPPING_START_EVENT None None True YAML_ANY_MAPPING_STYLE,
      YAML_SCALAR_EVENT (Some (octets ''x'')) None (octets ''a'') True True YAML_ANY_SCALAR_STYLE,
      YAML_SEQUENCE_START_EVENT None (Some (octets ''!t'')) False YAML_FLOW_SEQUENCE_STYLE,
      YAML_SCALAR_EVENT None None (octets ''it: s'') True True YAML_ANY_SCALAR_STYLE,
      YAML_ALIAS_EVENT (octets ''x''), YAML_SEQUENCE_END_EVENT, YAML_MAPPING_END_EVENT,
      YAML_DOCUMENT_END_EVENT True, YAML_DOCUMENT_START_EVENT None [] True]"

lemma demo_fresh: "em_fresh demo_emitter"
  by (simp add: em_fresh_def demo_emitter_def zero_emitter_def)

lemma demo_text: "list_all (\<lambda>e. text_ok (ev_data e)) demo_events"
  by code_simp

lemma demo_ok: "case each yaml_emitter_emit demo_events demo_emitter of Ok _ F \<Rightarrow>
     map ev_data (events F) = [YAML_DOCUMENT_START_EVENT None [] True]
     \<and> out_octets (write_handler_data F) = octets ''&x a: !t ['' @ [39] @ octets ''it: s'' @ [39] @ octets '', *x]'' @ [10] | _ \<Rightarrow> False"
  by code_simp

theorem emit_refines_grammar_witness:
  "\<exists>F ps. each yaml_emitter_emit demo_events demo_emitter = Ok () F \<and> length (events F) = 1 \<and> demo_events = ps @ events F
     \<and> ev_run GStream (datas ps) = Some (em_grammar F)"
proof -
  obtain F where F: "each yaml_emitter_emit demo_events demo_emitter = Ok () F" "map ev_data (events F) = [YAML_DOCUMENT_START_EVENT None [] True]"
    using demo_ok by (auto split: res.splits)
  from emit_refines_grammar [OF demo_fresh demo_text F(1)] F show ?thesis
    by (metis One_nat_def length_Cons length_map list.size(3))
qed

text \<open>
  (C7) Emitting always comes to an end, for every sequence of events with whole characters in its
  strings: no loop runs on, no stack is empty when it is popped, no assertion fails.  A call that
  fails has recorded a memory, a writer or an emitter error, and an emitter error only if the
  events given so far do not start a stream, or one of them has data that is not valid.
\<close>

theorem emit_total:
  assumes "em_fresh E" and "list_all (\<lambda>e. text_ok (ev_data e)) es"
  shows "case each yaml_emitter_emit es E of
       Ok _ F \<Rightarrow> ev_run GStream (datas es) \<noteq> None \<or> events F \<noteq> []
     | Fail F \<Rightarrow> em_error F \<in> {YAML_MEMORY_ERROR, YAML_WRITER_ERROR}
         \<or> em_error F = YAML_EMITTER_ERROR \<and> (ev_run GStream (datas es) = None \<or> \<not> list_all ev_valid (datas es))
     | Abort \<Rightarrow> False | Hang \<Rightarrow> False"
proof -
  have "wp False (each yaml_emitter_emit es E)
      (\<lambda>_ F. \<exists>ps. es = ps @ events F \<and> ev_run GStream (datas ps) = Some (em_grammar F))
      (\<lambda>F. low_error F \<or> emitter_error F \<and> (ev_run GStream (datas es) = None \<or> \<not> list_all ev_valid (datas es)))"
    using emitter_sink.emit_all [of E es] fresh_inv [OF assms(1)] assms(2) by (auto elim!: wp_mono)
  then show ?thesis by (auto split: res.splits)
qed

theorem emit_total_witness:
  "\<exists>F. each yaml_emitter_emit [plain_event YAML_STREAM_END_EVENT] demo_emitter = Fail F \<and> em_error F = YAML_EMITTER_ERROR
     \<and> (ev_run GStream [YAML_STREAM_END_EVENT] = None \<or> \<not> list_all ev_valid [YAML_STREAM_END_EVENT])"
proof -
  have "list_all (\<lambda>e. text_ok (ev_data e)) [plain_event YAML_STREAM_END_EVENT]" by code_simp
  note t = emit_total [OF demo_fresh this]
  have "case each yaml_emitter_emit [plain_event YAML_STREAM_END_EVENT] demo_emitter of Fail F \<Rightarrow> em_error F = YAML_EMITTER_ERROR | _ \<Rightarrow> False"
    by code_simp
  with t show ?thesis by (auto simp: plain_event_def EVENT_INIT_def split: res.splits)
qed

text \<open>
  (C12) After every successful call the octets that wait in the output buffer are whole characters and
  fit into its block, the raw buffer is empty, the stack of indents and the flow level agree with
  the open collections, and at most three events wait in the queue.
\<close>

theorem emit_bounds:
  assumes "em_fresh E" and "list_all (\<lambda>e. text_ok (ev_data e)) es" and "each yaml_emitter_emit es E = Ok () F" and "es \<noteq> []"
  shows "length (em_buffer F) \<le> OUTPUT_BUFFER_SIZE \<and> whole_chars (em_buffer F) \<and> em_raw_buffer F = []
    \<and> length (em_indents F) = fst (em_counts (em_states F @ [em_state F]))
    \<and> em_flow_level F = snd (em_counts (em_states F @ [em_state F])) \<and> length (events F) \<le> 3"
proof -
  have inv: "em_inv F" using wp_OkD [OF emitter_sink.emit_all assms(3)] fresh_inv [OF assms(1)] assms(2) by simp
  moreover have "length (events F) \<le> 3"
  proof -
    obtain bs b where es: "es = bs @ [b]" using assms(4) by (metis append_butlast_last_id)
    obtain G where G: "each yaml_emitter_emit bs E = Ok () G" "yaml_emitter_emit b G = Ok () F"
      using assms(3) unfolding es each_append res_bind_eq_Ok by (auto simp: res_bind_eq_Ok)
    have "em_inv G" "\<exists>ps. bs = ps @ events G"
      using wp_OkD [OF emitter_sink.emit_all G(1)] fresh_inv [OF assms(1)] assms(2) es by auto
    then have "em_waiting F" using wp_OkD [OF wp_emit G(2)] assms(2) es by auto
    then show ?thesis using need_more_bound by (fastforce simp: em_waiting_def)
  qed
  ultimately show ?thesis by (auto simp: em_inv_def auto_ok_def out_ok_def prod_eq_iff split: if_splits)
qed

theorem emit_bounds_witness:
  "\<exists>F. each yaml_emitter_emit demo_events demo_emitter = Ok () F \<and> length (em_buffer F) \<le> OUTPUT_BUFFER_SIZE
     \<and> length (events F) \<le> 3 \<and> length (events F) = 1"
proof -
  obtain F where F: "each yaml_emitter_emit demo_events demo_emitter = Ok () F" "map ev_data (events F) = [YAML_DOCUMENT_START_EVENT None [] True]"
    using demo_ok by (auto split: res.splits)
  have "demo_events \<noteq> []" by (simp add: demo_events_def)
  from emit_bounds [OF demo_fresh demo_text F(1) this] F show ?thesis
    by (metis One_nat_def length_Cons length_map list.size(3))
qed

text \<open>The events that the functions of the API make.\<close>

inductive api_event :: "yaml_event \<Rightarrow> bool" where
  "yaml_stream_start_event_initialize enc h = Ok e h' \<Longrightarrow> api_event e"
| "yaml_stream_end_event_initialize h = Ok e h' \<Longrightarrow> api_event e"
| api_document: "yaml_document_start_event_initialize vd tds impl h = Ok e h' \<Longrightarrow> api_event e"
| "yaml_document_end_event_initialize impl h = Ok e h' \<Longrightarrow> api_event e"
| "yaml_alias_event_initialize a h = Ok e h' \<Longrightarrow> api_event e"
| api_scalar: "yaml_scalar_event_initialize a t v len p q style h = Ok e h' \<Longrightarrow> api_event e"
| "yaml_sequence_start_event_initialize a t impl sstyle h = Ok e h' \<Longrightarrow> api_event e"
| "yaml_sequence_end_event_initialize h = Ok e h' \<Longrightarrow> api_event e"
| "yaml_mapping_start_event_initialize a t impl mstyle h = Ok e h' \<Longrightarrow> api_event e"
| "yaml_mapping_end_event_initialize h = Ok e h' \<Longrightarrow> api_event e"

text \<open>
  (C13) Every event made by a function of the API can be given to the emitter: its strings consist of
  whole characters, so that no loop over them runs on or past their end.
\<close>

theorem api_events_text_ok:
  assumes "api_event e"
  shows "text_ok (ev_data e)"
  using assms
proof cases
  case (api_document vd tds impl h h')
  then show ?thesis
    by (auto simp: yaml_document_start_event_initialize_def copy_directives_def res_bind_eq_Ok plain_event_def EVENT_INIT_def
        copy_tag_directives_whole split: if_splits prod.splits)
next
  case (api_scalar a t v len p q style h h')
  then show ?thesis
    by (auto simp: yaml_scalar_event_initialize_def res_bind_eq_Ok plain_event_def EVENT_INIT_def optional_copy_whole
        value_copy_def Let_def request_def utf8_whole split: if_splits)
qed (auto simp: yaml_stream_start_event_initialize_def yaml_stream_end_event_initialize_def yaml_document_end_event_initialize_def
    yaml_alias_event_initialize_def yaml_sequence_start_event_initialize_def yaml_sequence_end_event_initialize_def
    yaml_mapping_start_event_initialize_def yaml_mapping_end_event_initialize_def
    plain_event_def EVENT_INIT_def res_bind_eq_Ok optional_copy_whole)

theorem api_events_text_ok_witness:
  "\<exists>e h. yaml_scalar_event_initialize None (Some (octets ''!t'')) [0xC3, 0xA9] 2 False False YAML_ANY_SCALAR_STYLE 5 = Ok e h
     \<and> ev_data e = YAML_SCALAR_EVENT None (Some (octets ''!t'')) [0xC3, 0xA9] False False YAML_ANY_SCALAR_STYLE \<and> text_ok (ev_data e)"
proof -
  have "case yaml_scalar_event_initialize None (Some (octets ''!t'')) [0xC3, 0xA9] 2 False False YAML_ANY_SCALAR_STYLE 5 of
      Ok e h \<Rightarrow> ev_data e = YAML_SCALAR_EVENT None (Some (octets ''!t'')) [0xC3, 0xA9] False False YAML_ANY_SCALAR_STYLE | _ \<Rightarrow> False"
    by code_simp
  then obtain e h where "yaml_scalar_event_initialize None (Some (octets ''!t'')) [0xC3, 0xA9] 2 False False YAML_ANY_SCALAR_STYLE 5 = Ok e h"
      "ev_data e = YAML_SCALAR_EVENT None (Some (octets ''!t'')) [0xC3, 0xA9] False False YAML_ANY_SCALAR_STYLE"
    by (auto split: res.splits)
  then show ?thesis using api_events_text_ok [OF api_scalar] by blast
qed

end
