(* ===== verification/Yaml_Dump_Events.thy ===== *)
theory Yaml_Dump_Events
  imports Yaml_Dump_Walk Yaml_Emitting
begin

text \<open>
  The second walk of the dumper: the events it emits are those of a tree, in which a node that was
  already written is an alias, and they reach the emitter one by one.
\<close>

section \<open>What is emitted\<close>

text \<open>The same emitter, up to the memory that is left and the data of the dumper.\<close>

definition core :: "'w yaml_emitter \<Rightarrow> 'w yaml_emitter" where
  "core E = E\<lparr>em_heap := 0, opened := False, closed := False, em_anchors := None, last_anchor_id := 0, em_document := None\<rparr>"

definition same_stream :: "'w yaml_emitter \<Rightarrow> 'w yaml_emitter \<Rightarrow> bool" where
  "same_stream E F \<longleftrightarrow> core E = core F"

lemma same_stream_trans: "same_stream E F \<Longrightarrow> same_stream F G \<Longrightarrow> same_stream E G"
  by (simp add: same_stream_def)

lemma same_streamI [intro]:
  "same_stream E E" "same_stream E (E\<lparr>em_heap := h\<rparr>)" "same_stream E (set_anchors i a E)" "same_stream E (anchored E as k)"
  "same_stream E (E\<lparr>opened := b\<rparr>)" "same_stream E (E\<lparr>closed := b\<rparr>)" "same_stream E (E\<lparr>em_document := doc\<rparr>)"
  "same_stream E (E\<lparr>em_heap := h, em_anchors := x\<rparr>)"
  by (simp_all add: same_stream_def core_def set_anchors_def anchored_def)

text \<open>A list of events is emitted one after the other, with changes of that kind in between.\<close>

inductive emitted :: "yaml_event list \<Rightarrow> 'w yaml_emitter \<Rightarrow> 'w yaml_emitter \<Rightarrow> bool" where
  emitted_nil: "same_stream E F \<Longrightarrow> emitted [] E F"
| emitted_cons: "same_stream E E' \<Longrightarrow> yaml_emitter_emit e E' = Ok () E1 \<Longrightarrow> emitted es E1 F \<Longrightarrow> emitted (e # es) E F"

lemma emitted_before: "emitted es E' F \<Longrightarrow> same_stream E E' \<Longrightarrow> emitted es E F"
  by (induction arbitrary: E rule: emitted.induct) (auto intro: emitted.intros same_stream_trans)

lemma emitted_append: "emitted es E F \<Longrightarrow> emitted fs F G \<Longrightarrow> emitted (es @ fs) E G"
  by (induction rule: emitted.induct) (auto intro: emitted_before emitted.intros)

lemma emitted_after: "emitted es E F \<Longrightarrow> same_stream F G \<Longrightarrow> emitted es E G"
  using emitted_append [of es E F "[]" G] by (simp add: emitted_nil)

text \<open>An emitter that takes events, with events that wait in its queue.\<close>

definition sinking :: "'w yaml_emitter \<Rightarrow> bool" where
  "sinking E \<longleftrightarrow> em_inv E \<and> list_all (\<lambda>e. text_ok (ev_data e)) (events E)"

lemma sinking_core: "sinking (core E) = sinking E"
  by (simp add: core_def sinking_def em_inv_def auto_ok_def out_ok_def directives_ok_def)

lemma sinking_same: "same_stream E F \<Longrightarrow> sinking F = sinking E"
  unfolding same_stream_def by (metis sinking_core)

text \<open>The events that were taken off the queue are a run of the grammar, the others wait behind them.\<close>

definition linked :: "'w yaml_emitter \<Rightarrow> yaml_event_data list \<Rightarrow> 'w yaml_emitter \<Rightarrow> bool" where
  "linked E evs F \<longleftrightarrow> (\<exists>ps. datas (events E) @ evs = ps @ datas (events F) \<and> ev_run (em_grammar E) ps = Some (em_grammar F))"

text \<open>Why a call fails: no memory, no output, or events that cannot be emitted.\<close>

definition refusable :: "'w yaml_emitter \<Rightarrow> yaml_event_data list \<Rightarrow> bool" where
  "refusable E evs \<longleftrightarrow> ev_run (em_grammar E) (datas (events E) @ evs) = None \<or> \<not> list_all ev_valid (datas (events E) @ evs)"

definition dump_fail :: "'w yaml_emitter \<Rightarrow> yaml_event_data list \<Rightarrow> 'w yaml_emitter \<Rightarrow> bool" where
  "dump_fail E evs F \<longleftrightarrow> em_heap F = 0 \<or> em_error F \<in> {YAML_MEMORY_ERROR, YAML_WRITER_ERROR} \<or> em_error F = YAML_EMITTER_ERROR \<and> refusable E evs"

lemma core_eqs:
  assumes "same_stream E F"
  shows "events F = events E" and "em_grammar F = em_grammar E"
proof -
  have "events (core F) = events (core E)" "em_grammar (core F) = em_grammar (core E)" using assms by (simp_all add: same_stream_def)
  then show "events F = events E" and "em_grammar F = em_grammar E" by (simp_all add: core_def)
qed

lemma linked_nil: "same_stream E F \<Longrightarrow> linked E [] F"
  by (simp add: linked_def core_eqs)

lemma linked_before: "same_stream E E' \<Longrightarrow> linked E evs F = linked E' evs F"
  by (simp add: linked_def core_eqs)

lemma linked_append:
  assumes "linked E evs F" and "linked F evs' G"
  shows "linked E (evs @ evs') G"
proof -
  obtain ps qs where ps: "datas (events E) @ evs = ps @ datas (events F)" "ev_run (em_grammar E) ps = Some (em_grammar F)"
    and qs: "datas (events F) @ evs' = qs @ datas (events G)" "ev_run (em_grammar F) qs = Some (em_grammar G)"
    using assms unfolding linked_def by blast
  then have "datas (events E) @ evs @ evs' = (ps @ qs) @ datas (events G)" by (metis append.assoc)
  then show ?thesis unfolding linked_def using ps(2) qs(2) by (metis (no_types, lifting) ev_run_append option.simps(5))
qed

lemma refusable_before: "same_stream E E' \<Longrightarrow> refusable E evs = refusable E' evs"
  by (simp add: refusable_def core_eqs)

lemma refusable_more: "refusable E evs \<Longrightarrow> refusable E (evs @ evs')"
  unfolding refusable_def append_assoc [symmetric] ev_run_append [of _ "_ @ _"] by auto

lemma refusable_after:
  assumes "linked E evs F" and "refusable F evs'"
  shows "refusable E (evs @ evs')"
proof -
  obtain ps where ps: "datas (events E) @ evs = ps @ datas (events F)" "ev_run (em_grammar E) ps = Some (em_grammar F)"
    using assms(1) unfolding linked_def by blast
  then have eq: "datas (events E) @ evs @ evs' = ps @ datas (events F) @ evs'" by (metis append.assoc)
  show ?thesis unfolding refusable_def eq using assms(2) ps(2) by (auto simp: refusable_def ev_run_append [of _ ps])
qed

lemma wp_emit_plain:
  assumes "sinking E" and "text_ok ev"
  shows "wp False (yaml_emitter_emit (plain_event ev) E)
    (\<lambda>_ F. emitted [plain_event ev] E F \<and> linked E [ev] F \<and> sinking F \<and> dumping F = dumping E) (dump_fail E [ev])"
proof -
  have ev: "ev_data (plain_event ev) = ev" by (simp add: plain_event_def EVENT_INIT_def)
  have "wp False (yaml_emitter_emit (plain_event ev) E)
    (\<lambda>_ F. em_waiting F \<and> dumping F = dumping E \<and> (\<exists>ps. events E @ [plain_event ev] = ps @ events F
       \<and> ev_run (em_grammar E) (datas ps) = Some (em_grammar F))) (queue_error (em_grammar E) (datas (events E @ [plain_event ev])))"
    using assms ev by (intro wp_emit) (simp_all add: sinking_def)
  from wp_Ok [OF this] show ?thesis
  proof (rule wp_mono, goal_cases)
    case (1 u F)
    then obtain ps where ps: "events E @ [plain_event ev] = ps @ events F" "ev_run (em_grammar E) (datas ps) = Some (em_grammar F)" by blast
    moreover have "list_all (\<lambda>e. text_ok (ev_data e)) (events E @ [plain_event ev])" using assms ev by (simp add: sinking_def)
    ultimately have "list_all (\<lambda>e. text_ok (ev_data e)) (events F)" by (metis list_all_append)
    moreover have "datas (events E) @ [ev] = datas ps @ datas (events F)" using arg_cong [OF ps(1), of datas] ev by simp
    ultimately show ?case using 1 ps(2) by (auto simp: sinking_def em_waiting_def linked_def intro: emitted.intros)
  qed (use ev in \<open>auto simp: queue_error_def dump_fail_def refusable_def\<close>)
qed

section \<open>The tree that is emitted\<close>

fun pairs_of :: "'a list \<Rightarrow> ('a \<times> 'a) list" where
  "pairs_of (x # y # xs) = (x, y) # pairs_of xs"
| "pairs_of _ = []"

definition anchor_of :: "(int \<Rightarrow> int) \<Rightarrow> int \<Rightarrow> ystr option" where
  "anchor_of aid i = (if aid i = 0 then None else Some (anchor_text (aid i)))"

definition scalar_head :: "yaml_node \<Rightarrow> ystr option \<Rightarrow> ystr \<Rightarrow> yaml_scalar_style \<Rightarrow> yaml_event_data" where
  "scalar_head nd a v s = YAML_SCALAR_EVENT a (Some (node_tag nd)) v (has_tag nd YAML_STR_TAG) (has_tag nd YAML_STR_TAG) s"

definition sequence_head :: "yaml_node \<Rightarrow> ystr option \<Rightarrow> yaml_sequence_style \<Rightarrow> yaml_event_data" where
  "sequence_head nd a s = YAML_SEQUENCE_START_EVENT a (Some (node_tag nd)) (has_tag nd YAML_SEQ_TAG) s"

definition mapping_head :: "yaml_node \<Rightarrow> ystr option \<Rightarrow> yaml_mapping_style \<Rightarrow> yaml_event_data" where
  "mapping_head nd a s = YAML_MAPPING_START_EVENT a (Some (node_tag nd)) (has_tag nd YAML_MAP_TAG) s"

fun dump_tree :: "yaml_document \<Rightarrow> (int \<Rightarrow> int) \<Rightarrow> vtree \<Rightarrow> ytree" where
  "dump_tree d aid (VRef i) = YLeaf (YAML_ALIAS_EVENT (anchor_text (aid i)))"
| "dump_tree d aid (VNode i ts) =
     (let nd = node_at d i; a = anchor_of aid i in
      case node_data nd of
        YAML_SCALAR_NODE v s \<Rightarrow> YLeaf (scalar_head nd a v s)
      | YAML_SEQUENCE_NODE _ s \<Rightarrow> YSeq (sequence_head nd a s) (map (dump_tree d aid) ts)
      | YAML_MAPPING_NODE _ s \<Rightarrow> YMap (mapping_head nd a s) (pairs_of (map (dump_tree d aid) ts))
      | YAML_NO_NODE \<Rightarrow> YLeaf YAML_NO_EVENT)"

lemma events_pairs: "even (length ts) \<Longrightarrow>
   concat (map (\<lambda>(k, v). events_of k @ events_of v) (pairs_of ts)) = concat (map events_of ts)"
  by (induction ts rule: pairs_of.induct) auto

lemma each_pairs: "each (\<lambda>(k, v) E. res_bind (f k E) (\<lambda>_ E. f v E)) ps E = each f (concat (map (\<lambda>(k, v). [k, v]) ps)) E"
proof (induction ps arbitrary: E)
  case (Cons p ps)
  have eq: "each (\<lambda>(k, v) E. res_bind (f k E) (\<lambda>_ E. f v E)) ps = each f (concat (map (\<lambda>(k, v). [k, v]) ps))"
    by (rule ext) (rule Cons.IH)
  obtain k v where p: "p = (k, v)" by (cases p)
  have v: "each f (v # concat (map (\<lambda>(k, v). [k, v]) ps)) = (\<lambda>s. res_bind (f v s) (\<lambda>_ s. each f (concat (map (\<lambda>(k, v). [k, v]) ps)) s))"
    by (rule ext) simp
  show ?case unfolding p by (simp add: res_bind_assoc eq v del: each.simps(2), subst (1 2) each.simps(2), simp add: res_bind_assoc eq v)
qed simp

lemma even_pairs: "even (length (concat (map (\<lambda>(k, v). [k, v]) ps)))"
  by (induction ps) auto

section \<open>The second walk\<close>

definition marked :: "yaml_document \<Rightarrow> (int \<Rightarrow> int) \<Rightarrow> int list \<Rightarrow> 'w yaml_emitter \<Rightarrow> bool" where
  "marked d aid seen E \<longleftrightarrow> em_document E = Some d \<and> (\<exists>as. em_anchors E = Some as \<and> length as = length (nodes d)
     \<and> (\<forall>i. valid_id d i \<longrightarrow> anchor_id (anchor_at as i) = aid i \<and> serialized (anchor_at as i) = (i \<in> set seen)))"

lemma marked_dumping: "dumping F = dumping E \<Longrightarrow> marked d aid seen F = marked d aid seen E"
  by (simp add: marked_def dumping_def)

lemma marked_heap [simp]: "marked d aid seen (E\<lparr>em_heap := h\<rparr>) = marked d aid seen E"
  by (simp add: marked_def)

text \<open>The strings of a document.\<close>

definition doc_text :: "yaml_document \<Rightarrow> bool" where
  "doc_text d \<longleftrightarrow> list_all (\<lambda>nd. whole_chars (cstr (node_tag nd)) \<and>
     (case node_data nd of YAML_SCALAR_NODE v _ \<Rightarrow> whole_chars v | _ \<Rightarrow> True)) (nodes d)
     \<and> list_all (\<lambda>td. whole_chars (cstr (td_prefix td))) (doc_tag_directives d)"

lemma doc_text_node:
  assumes "doc_text d" and "valid_id d i"
  shows "whole_chars (cstr (node_tag (node_at d i)))" and "node_data (node_at d i) = YAML_SCALAR_NODE v s \<Longrightarrow> whole_chars v"
proof -
  have "node_at d i \<in> set (nodes d)" using assms(2) by (auto simp: valid_id_def)
  then show "whole_chars (cstr (node_tag (node_at d i)))" and "node_data (node_at d i) = YAML_SCALAR_NODE v s \<Longrightarrow> whole_chars v"
    using assms(1) by (auto simp: doc_text_def list_all_iff)
qed

definition flags :: "'w yaml_emitter \<Rightarrow> bool \<times> bool" where
  "flags E = (opened E, closed E)"

lemma flags_simps [simp]: "flags (set_anchors i a E) = flags E" "flags (E\<lparr>em_heap := h\<rparr>) = flags E"
  by (simp_all add: flags_def set_anchors_def)

lemma flags_dumping: "dumping F = dumping E \<Longrightarrow> flags F = flags E"
  by (simp add: dumping_def flags_def)

definition dumps :: "yaml_document \<Rightarrow> (int \<Rightarrow> int) \<Rightarrow> yaml_event_data list \<Rightarrow> int list \<Rightarrow> 'w yaml_emitter \<Rightarrow> (unit, 'w yaml_emitter) res \<Rightarrow> bool" where
  "dumps d aid evs seen' E r \<longleftrightarrow> wp False r
     (\<lambda>_ F. emitted (map plain_event evs) E F \<and> linked E evs F \<and> sinking F \<and> marked d aid seen' F \<and> flags F = flags E) (dump_fail E evs)"

lemma dumps_before: "dumps d aid evs seen' E' r \<Longrightarrow> same_stream E E' \<Longrightarrow> flags E' = flags E \<Longrightarrow> dumps d aid evs seen' E r"
  unfolding dumps_def by (erule wp_mono) (auto simp: linked_before dump_fail_def refusable_before intro: emitted_before)

lemma dumps_bind:
  assumes "dumps d aid evs seen1 E r" and "\<And>F. sinking F \<Longrightarrow> marked d aid seen1 F \<Longrightarrow> dumps d aid evs' seen2 F (f F)"
  shows "dumps d aid (evs @ evs') seen2 E (res_bind r (\<lambda>_ F. f F))"
  unfolding dumps_def wp_bind
proof (rule wp_mono [OF assms(1) [unfolded dumps_def]], goal_cases)
  case (1 _ F)
  then have F: "emitted (map plain_event evs) E F" "linked E evs F" "flags F = flags E" and "dumps d aid evs' seen2 F (f F)" using assms(2) by simp_all
  from this(4) show ?case unfolding dumps_def
    by (rule wp_mono) (use F in \<open>auto simp: dump_fail_def intro: emitted_append linked_append refusable_after\<close>)
qed (auto simp: dump_fail_def intro: refusable_more)

lemma dumps_emit:
  assumes "sinking E" and "marked d aid seen E" and "text_ok ev"
  shows "dumps d aid [ev] seen E (yaml_emitter_emit (plain_event ev) E)"
  unfolding dumps_def
proof (rule wp_mono [OF wp_emit_plain [OF assms(1,3)]], goal_cases)
  case (1 _ F)
  then show ?case using marked_dumping [of F E] flags_dumping [of F E] assms(2) by simp
qed

lemma dumps_collection:
  assumes "sinking E" and "marked d aid seen E" and "text_ok b" and "text_ok e"
    and "\<And>F. sinking F \<Longrightarrow> marked d aid seen F \<Longrightarrow> dumps d aid evs seen' F (f F)"
  shows "dumps d aid (b # evs @ [e]) seen' E (dump_collection b f e E)"
proof -
  have "dumps d aid ([b] @ evs @ [e]) seen' E (dump_collection b f e E)"
    unfolding dump_collection_def using assms by (intro dumps_bind dumps_emit)
  then show ?thesis by simp
qed

lemma marked_node:
  assumes "marked d aid seen E" and "valid_id d i"
  obtains a where "dumped_node E i = Some (node_at d i, a)" and "anchor_id a = aid i" and "serialized a = (i \<in> set seen)"
    and "marked d aid (seen @ [i]) (set_anchors i (a\<lparr>serialized := True\<rparr>) E)"
proof -
  obtain as where as: "em_document E = Some d" "em_anchors E = Some as" "length as = length (nodes d)"
      "\<forall>j. valid_id d j \<longrightarrow> anchor_id (anchor_at as j) = aid j \<and> serialized (anchor_at as j) = (j \<in> set seen)"
    using assms(1) by (auto simp: marked_def)
  have "dumped_node E i = Some (node_at d i, anchor_at as i)" using as assms(2) by (intro dumped_node_eq) auto
  moreover have "marked d aid (seen @ [i]) (set_anchors i ((anchor_at as i)\<lparr>serialized := True\<rparr>) E)"
    using as assms(2) by (auto simp: marked_def set_anchors_def anchor_at_update [OF assms(2) _ as(3)])
  ultimately show thesis using that as(4) assms(2) by blast
qed

text \<open>The two ways to dump a node: by an alias, or with its content after it was marked.\<close>

lemma dump_again:
  assumes "sinking E" and "marked d aid seen E" and "valid_id d i" and "i \<in> set seen" and "aid i \<noteq> 0"
  shows "dumps d aid [YAML_ALIAS_EVENT (anchor_text (aid i))] seen E (yaml_emitter_dump_node (Suc n) i E)"
proof -
  obtain a where a: "dumped_node E i = Some (node_at d i, a)" "anchor_id a = aid i" "serialized a" 
    using marked_node [OF assms(2,3)] assms(4) by metis
  show ?thesis
  proof (cases "em_heap E = 0")
    case True
    then show ?thesis using a assms(5) by (simp add: dumps_def yaml_emitter_generate_anchor_def dump_fail_def)
  next
    case False
    let ?E = "E\<lparr>em_heap := em_heap E - 1\<rparr>"
    have "dumps d aid [YAML_ALIAS_EVENT (anchor_text (aid i))] seen ?E (yaml_emitter_emit (plain_event (YAML_ALIAS_EVENT (anchor_text (aid i)))) ?E)"
      using assms(1,2) sinking_same [of E ?E] by (intro dumps_emit) auto
    then show ?thesis using a assms(5) False
      by (auto simp: yaml_emitter_generate_anchor_def yaml_emitter_dump_alias_def intro: dumps_before)
  qed
qed

definition dump_content :: "nat \<Rightarrow> yaml_node \<Rightarrow> ystr option \<Rightarrow> (unit, 'w) emit" where
  "dump_content n nd anchor E =
     (case node_data nd of
        YAML_SCALAR_NODE v style \<Rightarrow> yaml_emitter_dump_scalar nd v style anchor E
      | YAML_SEQUENCE_NODE items style \<Rightarrow> yaml_emitter_dump_sequence (yaml_emitter_dump_node n) nd items style anchor E
      | YAML_MAPPING_NODE pairs style \<Rightarrow> yaml_emitter_dump_mapping (yaml_emitter_dump_node n) nd pairs style anchor E
      | YAML_NO_NODE \<Rightarrow> Abort)"

lemma dump_first:
  fixes E :: "'w yaml_emitter"
  assumes "sinking E" and "marked d aid seen E" and "valid_id d i" and "i \<notin> set seen"
    and "\<And>F :: 'w yaml_emitter. sinking F \<Longrightarrow> marked d aid (seen @ [i]) F \<Longrightarrow> dumps d aid evs seen' F (dump_content n (node_at d i) (anchor_of aid i) F)"
  shows "dumps d aid evs seen' E (yaml_emitter_dump_node (Suc n) i E)"
proof -
  obtain a where a: "dumped_node E i = Some (node_at d i, a)" "anchor_id a = aid i" "\<not> serialized a"
      "marked d aid (seen @ [i]) (set_anchors i (a\<lparr>serialized := True\<rparr>) E)"
    using marked_node [OF assms(2,3)] assms(4) by metis
  let ?F = "\<lambda>h. set_anchors i (a\<lparr>serialized := True\<rparr>) (E\<lparr>em_heap := h\<rparr>)"
  have F: "dumps d aid evs seen' E (dump_content n (node_at d i) (anchor_of aid i) (?F h))" for h
  proof -
    have s: "same_stream E (?F h)" by (simp add: same_stream_def core_def set_anchors_def)
    then have "sinking (?F h)" using assms(1) by (simp add: sinking_same)
    moreover have "marked d aid (seen @ [i]) (?F h)" using a(4) by (simp add: marked_def set_anchors_def)
    ultimately show ?thesis using dumps_before [OF _ s] assms(5) by simp
  qed
  have keep: "?F (em_heap E) = set_anchors i (a\<lparr>serialized := True\<rparr>) E" by (simp add: set_anchors_def)
  consider "aid i = 0" | "aid i \<noteq> 0" "em_heap E = 0" | "aid i \<noteq> 0" "em_heap E \<noteq> 0" by blast
  then show ?thesis
  proof cases
    case 1
    then show ?thesis using a F [of "em_heap E"] unfolding keep by (simp add: Let_def dump_content_def anchor_of_def)
  next
    case 2
    then show ?thesis using a by (simp add: dumps_def yaml_emitter_generate_anchor_def dump_fail_def)
  next
    case 3
    then show ?thesis using a F [of "em_heap E - 1"]
      by (simp add: Let_def dump_content_def anchor_of_def yaml_emitter_generate_anchor_def)
  qed
qed

lemma each_eta: "each f (x # xs) = (\<lambda>s. res_bind (f x s) (\<lambda>_ s. each f xs s))"
  by (rule ext) simp

lemma dump_walk:
  fixes E :: "'w yaml_emitter"
  assumes "walk d n i seen = Some (t, seen')" and "doc_valid d" and "doc_text d" and "\<forall>j \<in> set (vrefs t). aid j \<noteq> 0"
    and "sinking E" and "marked d aid seen E"
  shows "dumps d aid (events_of (dump_tree d aid t)) seen' E (yaml_emitter_dump_node n i E)"
  using assms(1,4-6)
proof (induction arbitrary: E rule: walk_rule [where Q = "\<lambda>n is seen ts seen'. length ts = length is \<and>
    ((\<forall>j \<in> set (concat (map vrefs ts)). aid j \<noteq> 0) \<longrightarrow> (\<forall>E :: 'w yaml_emitter. sinking E \<longrightarrow> marked d aid seen E \<longrightarrow>
    dumps d aid (concat (map (\<lambda>t. events_of (dump_tree d aid t)) ts)) seen' E (each (yaml_emitter_dump_node n) is E)))"])
  case (ref n i seen)
  then show ?case unfolding dump_tree.simps events_of.simps by (intro dump_again) auto
next
  case (node n i seen ts seen')
  let ?nd = "node_at d i"
  have dumps: "sinking F \<Longrightarrow> marked d aid (seen @ [i]) F \<Longrightarrow>
      dumps d aid (concat (map (\<lambda>t. events_of (dump_tree d aid t)) ts)) seen' F (each (yaml_emitter_dump_node n) (children (node_data ?nd)) F)" for F :: "'w yaml_emitter"
    using node(4) node.prems(1) by simp
  note txts = doc_text_node [OF assms(3) node(1)]
  show ?case
  proof (rule dump_first [OF node.prems(2,3) node(1,2)])
    fix F :: "'w yaml_emitter" assume F: "sinking F" "marked d aid (seen @ [i]) F"
    show "dumps d aid (events_of (dump_tree d aid (VNode i ts))) seen' F (dump_content n ?nd (anchor_of aid i) F)"
    proof (cases "node_data ?nd")
      case YAML_NO_NODE
      have "?nd \<in> set (nodes d)" using node(1) by (auto simp: valid_id_def)
      then have "child_ok (int (length (nodes d))) (view ?nd)" using assms(2) by (simp add: doc_valid_def list_all_iff)
      then show ?thesis using YAML_NO_NODE by (simp add: child_ok_def view_def)
    next
      case (YAML_SCALAR_NODE v s)
      have "seen' = seen @ [i]" using node(3) YAML_SCALAR_NODE by simp
      then show ?thesis using F YAML_SCALAR_NODE txts
        by (auto simp: dump_content_def yaml_emitter_dump_scalar_def Let_def scalar_head_def tag_text_def intro: dumps_emit)
    next
      case (YAML_SEQUENCE_NODE items s)
      have "dumps d aid (sequence_head ?nd (anchor_of aid i) s # concat (map (\<lambda>t. events_of (dump_tree d aid t)) ts) @ [YAML_SEQUENCE_END_EVENT]) seen' F
          (dump_collection (sequence_head ?nd (anchor_of aid i) s) (each (yaml_emitter_dump_node n) (children (node_data ?nd))) YAML_SEQUENCE_END_EVENT F)"
        using F dumps txts by (intro dumps_collection) (simp_all add: sequence_head_def tag_text_def)
      then show ?thesis using YAML_SEQUENCE_NODE
        by (simp add: dump_content_def yaml_emitter_dump_sequence_def sequence_head_def Let_def comp_def)
    next
      case (YAML_MAPPING_NODE pairs s)
      have each: "each (\<lambda>(k, v) E. res_bind (yaml_emitter_dump_node n k E) (\<lambda>_ E. yaml_emitter_dump_node n v E)) pairs
          = (each (yaml_emitter_dump_node n) (children (node_data ?nd)) :: (unit, 'w) emit)"
        by (rule ext) (simp add: YAML_MAPPING_NODE each_pairs)
      have "even (length (map (dump_tree d aid) ts))" using node(4) YAML_MAPPING_NODE even_pairs [of pairs] by simp
      from events_pairs [OF this] have ev: "concat (map (\<lambda>(k, v). events_of k @ events_of v) (pairs_of (map (dump_tree d aid) ts)))
          = concat (map (\<lambda>t. events_of (dump_tree d aid t)) ts)" by (simp add: comp_def)
      have "dumps d aid (mapping_head ?nd (anchor_of aid i) s # concat (map (\<lambda>t. events_of (dump_tree d aid t)) ts) @ [YAML_MAPPING_END_EVENT]) seen' F
          (dump_collection (mapping_head ?nd (anchor_of aid i) s) (each (yaml_emitter_dump_node n) (children (node_data ?nd))) YAML_MAPPING_END_EVENT F)"
        using F dumps txts by (intro dumps_collection) (simp_all add: mapping_head_def tag_text_def)
      then show ?thesis using YAML_MAPPING_NODE ev
        by (simp add: dump_content_def yaml_emitter_dump_mapping_def mapping_head_def Let_def each)
    qed
  qed
next
  case (nil n seen)
  then show ?case by (auto simp: dumps_def intro: emitted.intros linked_nil)
next
  case (cons n i "is" seen t seen1 ts seen2)
  show ?case
  proof (intro conjI impI allI)
    fix E :: "'w yaml_emitter" assume E: "\<forall>j \<in> set (concat (map vrefs (t # ts))). aid j \<noteq> 0" "sinking E" "marked d aid seen E"
    have "dumps d aid (events_of (dump_tree d aid t) @ concat (map (\<lambda>t. events_of (dump_tree d aid t)) ts)) seen2 E
        (res_bind (yaml_emitter_dump_node n i E) (\<lambda>_ F. each (yaml_emitter_dump_node n) is F))"
      using cons.IH cons(3) E by (intro dumps_bind) auto
    then show "dumps d aid (concat (map (\<lambda>t. events_of (dump_tree d aid t)) (t # ts))) seen2 E (each (yaml_emitter_dump_node n) (i # is) E)"
      unfolding each_eta by simp
  qed (use cons in simp)
qed

end
