(* ===== verification/Yaml_Dump_Tree.thy ===== *)
theory Yaml_Dump_Tree
  imports Yaml_Dump_Events
begin

text \<open>
  The tree of a dumped document composes to its nodes again, numbered in the order of the walk,
  and its events are ones that the emitter accepts.
\<close>

section \<open>What the tree composes to\<close>

text \<open>The names of anchors differ.\<close>

definition decimal :: "byte list \<Rightarrow> nat" where
  "decimal ds = foldl (\<lambda>v b. 10 * v + (unat b - 48)) 0 ds"

lemma decimal_snoc [simp]: "decimal (ds @ [b]) = 10 * decimal ds + (unat b - 48)"
  by (simp add: decimal_def)

lemma unat_digit: "m < 10 \<Longrightarrow> unat ((48 :: byte) + of_nat m) = 48 + m"
  by (subst unat_plus_simple [THEN iffD1]) (simp_all add: word_le_nat_alt unat_word_ariths unat_of_nat)

lemma decimal_digits: "decimal (digits n) = n"
proof (induction n rule: digits.induct)
  case (1 n)
  show ?case
  proof (cases "n < 10")
    case True
    then show ?thesis by (subst digits.simps) (simp add: decimal_def unat_digit)
  next
    case False
    then show ?thesis using 1 by (subst digits.simps) (simp add: unat_digit)
  qed
qed

lemma decimal_zeros: "decimal (replicate n 48 @ ds) = decimal ds"
  by (induction n) (simp_all add: decimal_def)

lemma anchor_text_inj: "0 \<le> j \<Longrightarrow> 0 \<le> k \<Longrightarrow> anchor_text j = anchor_text k \<Longrightarrow> j = k"
proof -
  have "decimal (drop 2 (anchor_text j)) = nat j" for j
    by (simp add: anchor_text_def Let_def decimal_zeros decimal_digits octets_def)
  then show "0 \<le> j \<Longrightarrow> 0 \<le> k \<Longrightarrow> anchor_text j = anchor_text k \<Longrightarrow> j = k" by (metis eq_nat_nat_iff)
qed

lemma digits_nonzero: "0 \<notin> set (digits n)"
proof (induction n rule: digits.induct)
  case (1 n)
  have "(48 :: byte) + of_nat m \<noteq> 0" if "m < 10" for m
    using unat_digit [OF that] by (metis add_is_0 unat_0 zero_neq_numeral)
  then show ?case using 1 by (subst digits.simps) auto
qed

lemma cstr_anchor_text [simp]: "cstr (anchor_text k) = anchor_text k"
proof -
  have "0 \<notin> set (anchor_text k)" using digits_nonzero by (auto simp: anchor_text_def Let_def octets_def)
  then show ?thesis by (simp add: cstr_def takeWhile_eq_all_conv) metis
qed

text \<open>Where a node is in the order of the walk, and what it becomes there.\<close>

definition place :: "int list \<Rightarrow> int \<Rightarrow> int" where
  "place ord j = int (length (takeWhile (\<lambda>i. i \<noteq> j) ord)) + 1"

lemma place_enter: "i \<notin> set seen \<Longrightarrow> place (seen @ i # rest) i = int (length seen) + 1"
  by (simp add: place_def takeWhile_append takeWhile_eq_all_conv)

definition renode :: "yaml_document \<Rightarrow> int list \<Rightarrow> int \<Rightarrow> node_view" where
  "renode d ord i = (let nd = node_at d i; tag = Some (node_tag nd) in
     case node_data nd of
       YAML_SCALAR_NODE v s \<Rightarrow> (YAML_SCALAR_NODE v s, tag_or YAML_STR_TAG tag)
     | YAML_SEQUENCE_NODE is s \<Rightarrow> (YAML_SEQUENCE_NODE (map (place ord) is) s, tag_or YAML_SEQ_TAG tag)
     | YAML_MAPPING_NODE ps s \<Rightarrow> (YAML_MAPPING_NODE (map (map_prod (place ord) (place ord)) ps) s, tag_or YAML_MAP_TAG tag)
     | YAML_NO_NODE \<Rightarrow> (YAML_NO_NODE, node_tag nd))"

definition env_of :: "int list \<Rightarrow> (int \<Rightarrow> int) \<Rightarrow> int list \<Rightarrow> anchors" where
  "env_of ord aid seen = map (\<lambda>j. (anchor_text (aid j), place ord j)) (filter (\<lambda>j. aid j \<noteq> 0) seen)"

definition anchors_ok :: "int list \<Rightarrow> (int \<Rightarrow> int) \<Rightarrow> bool" where
  "anchors_ok ord aid \<longleftrightarrow> (\<forall>i \<in> set ord. 0 \<le> aid i \<and> (\<forall>j \<in> set ord. aid i = aid j \<longrightarrow> aid i \<noteq> 0 \<longrightarrow> i = j))"

lemma env_lookup:
  assumes "anchors_ok ord aid" and "i \<in> set ord" and "aid i \<noteq> 0" and "set seen \<subseteq> set ord"
  shows "map_of (env_of ord aid seen) (anchor_text (aid i)) = (if i \<in> set seen then Some (place ord i) else None)"
  using assms(4)
proof (induction seen)
  case (Cons j seen)
  have j: "j \<in> set ord" using Cons.prems by simp
  have IH: "map_of (env_of ord aid seen) (anchor_text (aid i)) = (if i \<in> set seen then Some (place ord i) else None)"
    using Cons by simp
  show ?case
  proof (cases "j = i")
    case False
    then have "aid j = 0 \<or> anchor_text (aid i) \<noteq> anchor_text (aid j)"
      using assms(1-3) j anchor_text_inj [of "aid i" "aid j"] by (auto simp: anchors_ok_def)
    then show ?thesis using IH False by (auto simp: env_of_def)
  qed (use assms(3) in \<open>simp add: env_of_def\<close>)
qed (simp add: env_of_def)

lemma register_enter:
  assumes "anchors_ok ord aid" and "ord = seen @ i # rest" and "i \<notin> set seen"
  shows "register (anchor_of aid i) (int (length seen) + 1) (env_of ord aid seen) = Some (env_of ord aid (seen @ [i]))"
proof -
  have "map_of (env_of ord aid seen) (anchor_text (aid i)) = None" if "aid i \<noteq> 0"
    using env_lookup [OF assms(1) _ that, of seen] assms(2,3) by auto
  then show ?thesis using place_enter [OF assms(3), of rest] assms(2) by (auto simp: register_def anchor_of_def env_of_def)
qed

lemma compose_pairs_of: "even (length ts) \<Longrightarrow>
   compose_pairs (pairs_of ts) env k = map_option (\<lambda>(is, ns, env). (pairs_of is, ns, env)) (compose_items ts env k)"
  by (induction ts arbitrary: env k rule: pairs_of.induct)
     (auto simp: compose_then_def algebra_simps split: option.splits bind_splits)

lemma pairs_of_children: "pairs_of (map f (concat (map (\<lambda>(k, v). [k, v]) ps))) = map (map_prod f f) ps"
  by (induction ps) auto

lemma compose_walk:
  assumes "walk d n i seen = Some (t, seen')" and "doc_valid d" and "\<forall>j \<in> set (vrefs t). aid j \<noteq> 0" and "anchors_ok ord aid"
    and "ord = seen' @ rest"
  shows "compose (dump_tree d aid t) (env_of ord aid seen) (int (length seen) + 1)
    = Some (place ord i, map (renode d ord) (vnodes t), env_of ord aid seen')"
  using assms(1,3,5)
proof (induction arbitrary: rest rule: walk_rule [where Q = "\<lambda>n is seen ts seen'. length ts = length is \<and> seen' = seen @ concat (map vnodes ts) \<and>
    (\<forall>rest. (\<forall>j \<in> set (concat (map vrefs ts)). aid j \<noteq> 0) \<longrightarrow> ord = seen' @ rest \<longrightarrow>
      compose_items (map (dump_tree d aid) ts) (env_of ord aid seen) (int (length seen) + 1)
        = Some (map (place ord) is, map (renode d ord) (concat (map vnodes ts)), env_of ord aid seen'))"])
  case (ref n i seen)
  then show ?case using env_lookup [OF assms(4), of i seen] by (simp add: compose_leaf_def)
next
  case (node n i seen ts seen')
  let ?nd = "node_at d i" and ?k = "int (length seen) + 1"
  have ord: "ord = seen @ i # concat (map vnodes ts) @ rest" using node.prems(2) node(4) by simp
  note reg = register_enter [OF assms(4) ord node(2)] and place = place_enter [OF node(2), of "concat (map vnodes ts) @ rest", folded ord]
  have items: "compose_items (map (dump_tree d aid) ts) (env_of ord aid (seen @ [i])) (?k + 1)
      = Some (map (place ord) (children (node_data ?nd)), map (renode d ord) (concat (map vnodes ts)), env_of ord aid seen')"
    using node(4) node.prems by (auto simp: algebra_simps)
  show ?case
  proof (cases "node_data ?nd")
    case YAML_NO_NODE
    then show ?thesis using node_valid [OF assms(2) node(1)] by (simp add: child_ok_def view_def)
  next
    case (YAML_SCALAR_NODE v s)
    then show ?thesis using node(3) reg place
      by (simp add: Let_def compose_leaf_def scalar_head_def renode_def)
  next
    case (YAML_SEQUENCE_NODE items s)
    then show ?thesis using reg place items
      by (simp add: Let_def compose_collection_def seq_head_def sequence_head_def renode_def)
  next
    case (YAML_MAPPING_NODE ps s)
    have "even (length (map (dump_tree d aid) ts))" using node(4) YAML_MAPPING_NODE even_pairs [of ps] by simp
    from compose_pairs_of [OF this] show ?thesis using reg place items YAML_MAPPING_NODE
      by (simp add: Let_def compose_collection_def map_head_def mapping_head_def renode_def pairs_of_children)
  qed
next
  case (nil n seen)
  then show ?case by simp
next
  case (cons n i "is" seen t seen1 ts seen2)
  have seen: "seen1 = seen @ vnodes t" using walk_seen [OF cons(1)] by simp
  have "compose_items (map (dump_tree d aid) (t # ts)) (env_of ord aid seen) (int (length seen) + 1)
      = Some (map (place ord) (i # is), map (renode d ord) (concat (map vnodes (t # ts))), env_of ord aid seen2)"
    if a: "\<forall>j \<in> set (concat (map vrefs (t # ts))). aid j \<noteq> 0" and whole: "ord = seen2 @ rest" for rest
  proof -
    have "ord = seen1 @ concat (map vnodes ts) @ rest" using whole cons(3) by simp
    then have "compose (dump_tree d aid t) (env_of ord aid seen) (int (length seen) + 1)
        = Some (place ord i, map (renode d ord) (vnodes t), env_of ord aid seen1)" using a cons.IH by simp
    moreover have "compose_items (map (dump_tree d aid) ts) (env_of ord aid seen1) (int (length seen1) + 1)
        = Some (map (place ord) is, map (renode d ord) (concat (map vnodes ts)), env_of ord aid seen2)" using a whole cons(3) by auto
    ultimately show ?thesis using seen by (simp add: compose_then_def algebra_simps)
  qed
  then show ?case using cons(3) seen by simp
qed

section \<open>The tree is one that can be emitted\<close>

definition doc_tags :: "yaml_document \<Rightarrow> bool" where
  "doc_tags d \<longleftrightarrow> list_all (\<lambda>nd. cstr (node_tag nd) \<noteq> []) (nodes d)"

lemma doc_tags_node: "doc_tags d \<Longrightarrow> valid_id d i \<Longrightarrow> cstr (node_tag (node_at d i)) \<noteq> []"
  by (auto simp: doc_tags_def list_all_length valid_id_def)

lemma digit_alpha: "m < 10 \<Longrightarrow> str_alpha [(48 :: byte) + of_nat m]"
  using unat_digit [of m] by (simp add: str_alpha_def octet_def in_range_def Let_def word_le_nat_alt)

lemma digits_alpha: "list_all (\<lambda>b. str_alpha [b]) (digits n)"
proof (induction n rule: digits.induct)
  case (1 n)
  then show ?case by (subst digits.simps) (simp add: digit_alpha)
qed

lemma anchor_of_ok [simp]: "anchor_ok (anchor_text k)" "opt_ok anchor_ok (anchor_of aid i)"
proof -
  have "list_all (\<lambda>b. str_alpha [b]) (anchor_text k)" for k
  proof -
    have "list_all (\<lambda>b. str_alpha [b]) (octets ''id'')" by code_simp
    moreover have "list_all (\<lambda>b. str_alpha [b]) (replicate n 48)" for n using digit_alpha [of 0] by (simp add: list_all_iff)
    ultimately show ?thesis using digits_alpha by (simp add: anchor_text_def Let_def)
  qed
  moreover have "anchor_text k \<noteq> []" for k by (simp add: anchor_text_def Let_def octets_def)
  ultimately have ok: "anchor_ok (anchor_text k)" for k by (simp add: anchor_ok_def all_alpha_def)
  show "anchor_ok (anchor_text k)" "opt_ok anchor_ok (anchor_of aid i)" by (simp_all add: ok opt_ok_def anchor_of_def)
qed

lemma list_all_pairs: "list_all P xs \<Longrightarrow> list_all (\<lambda>(k, v). P k \<and> P v) (pairs_of xs)"
  by (induction xs rule: pairs_of.induct) auto

lemma dump_tree_ok:
  assumes "walk d n i seen = Some (t, seen')" and "doc_valid d"
  shows "tree_ok (dump_tree d aid t) \<and> (doc_tags d \<longrightarrow> list_all ev_valid (events_of (dump_tree d aid t)))"
  using assms(1)
proof (induction rule: walk_rule [where Q = "\<lambda>n is seen ts seen'. length ts = length is \<and> list_all tree_ok (map (dump_tree d aid) ts)
    \<and> (doc_tags d \<longrightarrow> list_all ev_valid (concat (map events_of (map (dump_tree d aid) ts))))"])
  case (node n i seen ts seen')
  let ?nd = "node_at d i"
  have tag: "doc_tags d \<longrightarrow> opt_ok (\<lambda>t. cstr t \<noteq> []) (Some (node_tag ?nd))" using doc_tags_node node(1) by (simp add: opt_ok_def)
  show ?case
  proof (cases "node_data ?nd")
    case YAML_NO_NODE
    then show ?thesis using node_valid [OF assms(2) node(1)] by (simp add: child_ok_def view_def)
  next
    case (YAML_MAPPING_NODE ps s)
    let ?ts = "map (dump_tree d aid) ts"
    have "even (length ?ts)" using node(4) YAML_MAPPING_NODE even_pairs [of ps] by simp
    from events_pairs [OF this] show ?thesis using node(4) tag YAML_MAPPING_NODE list_all_pairs [of tree_ok ?ts]
      by (auto simp: Let_def mapping_head_def)
  qed (use node(4) tag in \<open>auto simp: Let_def scalar_head_def sequence_head_def\<close>)
qed auto

end
