(* ===== verification/Yaml_Dump_Document.thy ===== *)
theory Yaml_Dump_Document
  imports Yaml_Dump_Tree
begin

text \<open>
  The dump of a whole document: the two walks between the events of its start and its end, the
  opening and the closing of the stream, and the release of the document.
\<close>

section \<open>A document\<close>

definition visit_order :: "yaml_document \<Rightarrow> int list" where
  "visit_order d = (case walk d (Suc (length (nodes d))) 1 [] of Some (t, seen) \<Rightarrow> seen | None \<Rightarrow> [])"

definition document_start :: "yaml_document \<Rightarrow> yaml_event_data" where
  "document_start d = YAML_DOCUMENT_START_EVENT (version_directive d) (doc_tag_directives d) (start_implicit d)"

definition document_end :: "yaml_document \<Rightarrow> yaml_event_data" where
  "document_end d = YAML_DOCUMENT_END_EVENT (end_implicit d)"

text \<open>The events of a document, and that loading them gives the document in the order of the walk.\<close>

definition dump_of :: "yaml_document \<Rightarrow> yaml_event_data list \<Rightarrow> bool" where
  "dump_of d evs \<longleftrightarrow> (\<exists>t env. evs = document_start d # events_of t @ [document_end d]
     \<and> compose t [] 1 = Some (1, map (renode d (visit_order d)) (visit_order d), env)
     \<and> tree_ok t \<and> (doc_tags d \<longrightarrow> list_all ev_valid (events_of t)))"

lemma tallied_start: "tallied d [] (replicate (length (nodes d)) zero_anchors) 0"
  by (auto simp: tallied_def anchor_at_def zero_anchors_def valid_id_def)

lemma count_both: "j \<in> set xs \<Longrightarrow> j \<in> set ys \<Longrightarrow> 2 \<le> count_list (xs @ ys) j"
proof -
  assume "j \<in> set xs" "j \<in> set ys"
  then have "count_list xs j \<noteq> 0" "count_list ys j \<noteq> 0" by (simp_all add: count_list_0_iff)
  then show "2 \<le> count_list (xs @ ys) j" by simp
qed

text \<open>Events that are emitted one after the other, or a failure.\<close>

definition emits :: "yaml_event_data list \<Rightarrow> 'w yaml_emitter \<Rightarrow> (unit, 'w yaml_emitter) res \<Rightarrow> ('w yaml_emitter \<Rightarrow> bool) \<Rightarrow> bool" where
  "emits evs E r Q \<longleftrightarrow> wp False r (\<lambda>_ F. (emitted (map plain_event evs) E F \<and> linked E evs F \<and> sinking F) \<and> Q F) (dump_fail E evs)"

lemma emits_emit:
  assumes "sinking E" and "text_ok ev" and "\<And>F. dumping F = dumping E \<Longrightarrow> Q F"
  shows "emits [ev] E (yaml_emitter_emit (plain_event ev) E) Q"
  unfolding emits_def by (rule wp_mono [OF wp_emit_plain [OF assms(1,2)]]) (use assms(3) in auto)

lemma emits_bind:
  assumes "emits evs E r P" and "\<And>F. sinking F \<Longrightarrow> P F \<Longrightarrow> emits evs' F (f F) Q"
  shows "emits (evs @ evs') E (res_bind r (\<lambda>_ F. f F)) Q"
  unfolding emits_def wp_bind
proof (rule wp_mono [OF assms(1) [unfolded emits_def]], goal_cases)
  case (1 _ F)
  then have F: "emitted (map plain_event evs) E F" "linked E evs F" and "emits evs' F (f F) Q" using assms(2) by simp_all
  from this(3) show ?case unfolding emits_def
    by (rule wp_mono) (use F in \<open>auto simp: dump_fail_def intro: emitted_append linked_append refusable_after\<close>)
qed (auto simp: dump_fail_def intro: refusable_more)

lemma emits_before: "emits evs E' r Q \<Longrightarrow> same_stream E E' \<Longrightarrow> emits evs E r Q"
  unfolding emits_def by (erule wp_mono) (auto simp: linked_before dump_fail_def refusable_before intro: emitted_before)

lemma emits_after:
  assumes "emits evs E r Q" and "\<And>F. same_stream F (f F)" and "\<And>F. Q F \<Longrightarrow> R (f F)"
  shows "emits evs E (res_bind r (\<lambda>_ F. Ok () (f F))) R"
  unfolding emits_def wp_bind
proof (rule wp_mono [OF assms(1) [unfolded emits_def]], goal_cases)
  case (1 _ F)
  then show ?case using assms(2) [of F] assms(3) emitted_after linked_append [OF _ linked_nil] sinking_same by fastforce
qed

lemma emits_mono: "emits evs E r Q \<Longrightarrow> (\<And>F. Q F \<Longrightarrow> R F) \<Longrightarrow> emits evs E r R"
  unfolding emits_def by (erule wp_mono) auto

lemma emits_Ok: "sinking E \<Longrightarrow> Q E \<Longrightarrow> emits [] E (Ok () E) Q"
  by (auto simp: emits_def intro: emitted.intros linked_nil)

lemma emits_no_memory: "em_heap E = 0 \<Longrightarrow> emits evs E (Fail E) Q"
  by (simp add: emits_def dump_fail_def)

text \<open>The two walks of the dumper, for every emitter that holds the document.\<close>

definition two_walks :: "yaml_document \<Rightarrow> (unit, 'w) emit" where
  "two_walks d E = res_bind (yaml_emitter_anchor_node (Suc (length (nodes d))) 1 E) (\<lambda>_ E. yaml_emitter_dump_node (Suc (length (nodes d))) 1 E)"

definition holds_document :: "yaml_document \<Rightarrow> 'w yaml_emitter \<Rightarrow> bool" where
  "holds_document d E \<longleftrightarrow> em_document E = Some d \<and> em_anchors E = Some (replicate (length (nodes d)) zero_anchors) \<and> last_anchor_id E = 0"

lemma aid_vrefs:
  assumes "walk d n i [] = Some (v, ord)" and "tallied d ord as k" and "j \<in> set (vrefs v)"
    and "\<And>j. valid_id d j \<Longrightarrow> references (anchor_at as j) = references (anchor_at (replicate (length (nodes d)) zero_anchors) j) + visits v j"
  shows "anchor_id (anchor_at as j) \<noteq> 0"
proof -
  have j: "valid_id d j" "j \<in> set (vnodes v)" using assms(3) walk_seen [OF assms(1)] walk_closed [OF assms(1)] by auto
  then have "references (anchor_at (replicate (length (nodes d)) zero_anchors) j) = 0"
    by (auto simp: anchor_at_def zero_anchors_def valid_id_def)
  then have "2 \<le> references (anchor_at as j)" using assms(4) [OF j(1)] count_both [OF j(2) assms(3)] by (simp add: visits_def)
  then show ?thesis using assms(2) j(1) by (simp add: tallied_def)
qed

lemma emits_two_walks:
  assumes "doc_valid d" and "doc_text d" and "nodes d \<noteq> []"
  shows "\<exists>t. dump_of d (document_start d # events_of t @ [document_end d]) \<and>
    (\<forall>E :: 'w yaml_emitter. sinking E \<longrightarrow> holds_document d E \<longrightarrow>
      emits (events_of t) E (two_walks d E) (\<lambda>F. flags F = flags E \<and> em_anchors F \<noteq> None))"
proof -
  let ?n = "Suc (length (nodes d))" and ?as = "replicate (length (nodes d)) zero_anchors"
  have "valid_id d 1" using assms(3) by (cases "nodes d") (simp_all add: valid_id_def)
  then obtain v ord where w: "walk d ?n 1 [] = Some (v, ord)" using walk_total [OF assms(1), of 1 "[]" ?n] by auto
  have ord: "ord = vnodes v" using walk_seen [OF w] by simp
  have vid: "valid_id d j" if "j \<in> set ord" for j using walk_closed [OF w] ord that by simp
  obtain as k where as: "\<And>E :: 'w yaml_emitter. em_document E = Some d \<Longrightarrow> yaml_emitter_anchor_node ?n 1 (anchored E ?as 0) = Ok () (anchored E as k)"
      "tallied d ord as k" "\<And>j. valid_id d j \<Longrightarrow> references (anchor_at as j) = references (anchor_at ?as j) + visits v j"
    using anchor_walk [OF w tallied_start] unfolding tally_step_def by blast
  define aid where "aid j = anchor_id (anchor_at as j)" for j
  define t where "t = dump_tree d aid v"
  have aid: "\<forall>j \<in> set (vrefs v). aid j \<noteq> 0" using aid_vrefs [OF w as(2) _ as(3)] by (simp add: aid_def)
  have "anchors_ok ord aid" using as(2) vid by (simp add: tallied_def anchors_ok_def aid_def)
  then have "compose t (env_of ord aid []) (int (length ([] :: int list)) + 1) = Some (place ord 1, map (renode d ord) (vnodes v), env_of ord aid ord)"
    unfolding t_def using aid by (intro compose_walk [OF w assms(1), of aid ord "[]"]) simp_all
  moreover have "place ord 1 = 1" using w ord by (cases v) (auto simp: place_def split: if_splits)
  moreover have "visit_order d = vnodes v" using w ord by (simp add: visit_order_def)
  ultimately have "dump_of d (document_start d # events_of t @ [document_end d])"
    using ord dump_tree_ok [OF w assms(1), of aid] unfolding dump_of_def t_def by (intro exI [of _ "dump_tree d aid v"]) (auto simp: env_of_def)
  moreover have "emits (events_of t) E (two_walks d E) (\<lambda>F. flags F = flags E \<and> em_anchors F \<noteq> None)"
    if "sinking E" "holds_document d E" for E :: "'w yaml_emitter"
  proof -
    let ?E = "anchored E as k"
    have "E = anchored E ?as 0" using that(2) by (simp add: anchored_def holds_document_def)
    then have step: "yaml_emitter_anchor_node ?n 1 E = Ok () ?E" using as(1) that(2) by (metis holds_document_def)
    have "sinking ?E" using that(1) sinking_same by blast
    moreover have "marked d aid [] ?E" using as(2) that(2) by (auto simp: marked_def tallied_def aid_def holds_document_def)
    ultimately have "dumps d aid (events_of t) ord ?E (yaml_emitter_dump_node ?n 1 ?E)"
      unfolding t_def using aid by (intro dump_walk [OF w assms(1,2)])
    from dumps_before [OF this same_streamI(4)] have "dumps d aid (events_of t) ord E (yaml_emitter_dump_node ?n 1 ?E)"
      by (simp add: flags_def anchored_def del: yaml_emitter_dump_node.simps)
    then show ?thesis unfolding dumps_def emits_def two_walks_def step res_bind.simps by (rule wp_mono) (auto simp: marked_def)
  qed
  ultimately show ?thesis by blast
qed

lemma emits_dump_nodes:
  assumes "doc_valid d" and "doc_text d" and "nodes d \<noteq> []"
  shows "\<exists>evs. dump_of d evs \<and> (\<forall>E :: 'w yaml_emitter. sinking E \<longrightarrow> em_document E = Some d \<longrightarrow> last_anchor_id E = 0 \<longrightarrow>
      emits evs E (dump_nodes d E) (\<lambda>F. flags F = flags E \<and> em_anchors F \<noteq> None))"
proof -
  obtain t where t: "dump_of d (document_start d # events_of t @ [document_end d])"
      "\<And>E :: 'w yaml_emitter. sinking E \<Longrightarrow> holds_document d E \<Longrightarrow> emits (events_of t) E (two_walks d E) (\<lambda>F. flags F = flags E \<and> em_anchors F \<noteq> None)"
    using emits_two_walks [OF assms] by blast
  let ?evs = "[document_start d] @ events_of t @ [document_end d]"
  have "emits ?evs E (dump_nodes d E) (\<lambda>F. flags F = flags E \<and> em_anchors F \<noteq> None)"
    if "sinking E" "em_document E = Some d" "last_anchor_id E = 0" for E :: "'w yaml_emitter"
  proof (cases "em_heap E = 0")
    case False
    let ?E = "E\<lparr>em_heap := em_heap E - 1, em_anchors := Some (replicate (length (nodes d)) zero_anchors)\<rparr>"
    have E: "same_stream E ?E" "sinking ?E" "flags ?E = flags E" using that(1) sinking_same [of E ?E] by (auto simp: flags_def)
    have "emits ?evs ?E (res_bind (yaml_emitter_emit (plain_event (document_start d)) ?E) (\<lambda>_ F.
        res_bind (two_walks d F) (\<lambda>_ G. yaml_emitter_emit (plain_event (document_end d)) G))) (\<lambda>F. flags F = flags E \<and> em_anchors F \<noteq> None)"
    proof (rule emits_bind [where P = "\<lambda>F. holds_document d F \<and> flags F = flags E"])
      show "emits [document_start d] ?E (yaml_emitter_emit (plain_event (document_start d)) ?E) (\<lambda>F. holds_document d F \<and> flags F = flags E)"
        using E that assms(2) by (intro emits_emit) (auto simp: document_start_def doc_text_def holds_document_def dumping_def flags_def)
    next
      fix F :: "'w yaml_emitter" assume F: "sinking F" "holds_document d F \<and> flags F = flags E"
      show "emits (events_of t @ [document_end d]) F (res_bind (two_walks d F) (\<lambda>_ G. yaml_emitter_emit (plain_event (document_end d)) G))
          (\<lambda>F. flags F = flags E \<and> em_anchors F \<noteq> None)"
        using F by (intro emits_bind [OF t(2)] emits_emit) (auto simp: document_end_def dumping_def flags_def)
    qed
    from emits_before [OF this E(1)] show ?thesis using False
      by (simp add: dump_nodes_def document_start_def document_end_def two_walks_def res_bind_assoc Let_def
          del: yaml_emitter_anchor_node.simps yaml_emitter_dump_node.simps)
  qed (simp add: dump_nodes_def emits_no_memory)
  then show ?thesis using t(1) by (intro exI [of _ ?evs]) simp
qed

text \<open>Between two documents the dumper holds nothing.\<close>

definition dump_idle :: "'w yaml_emitter \<Rightarrow> bool" where
  "dump_idle E \<longleftrightarrow> em_document E = None \<and> em_anchors E = None \<and> last_anchor_id E = 0"

lemma delete_document_simps [simp]:
  "same_stream E (yaml_emitter_delete_document_and_anchors E)"
  "opened (yaml_emitter_delete_document_and_anchors E) = opened E" "closed (yaml_emitter_delete_document_and_anchors E) = closed E"
  "em_document (yaml_emitter_delete_document_and_anchors E) = None" "em_anchors (yaml_emitter_delete_document_and_anchors E) = None"
  "em_heap (yaml_emitter_delete_document_and_anchors E) = em_heap E" "em_error (yaml_emitter_delete_document_and_anchors E) = em_error E"
  by (auto simp: yaml_emitter_delete_document_and_anchors_def same_stream_def core_def)

lemma delete_idle:
  "em_anchors E \<noteq> None \<or> last_anchor_id E = 0 \<Longrightarrow> dump_idle (yaml_emitter_delete_document_and_anchors E)"
  by (auto simp: dump_idle_def yaml_emitter_delete_document_and_anchors_def)

definition stream_head :: "'w yaml_emitter \<Rightarrow> yaml_event_data list" where
  "stream_head E = (if opened E then [] else [YAML_STREAM_START_EVENT YAML_ANY_ENCODING])"

definition stream_foot :: "'w yaml_emitter \<Rightarrow> yaml_event_data list" where
  "stream_foot E = (if closed E then [] else [YAML_STREAM_END_EVENT])"

lemma emits_open:
  assumes "sinking E" and "last_anchor_id E = 0"
  shows "emits (stream_head E) E (if opened E then Ok () E else yaml_emitter_open E)
    (\<lambda>F. flags F = (True, closed E) \<and> last_anchor_id F = 0 \<and> em_document F = em_document E)"
proof (cases "opened E")
  case False
  have "emits [YAML_STREAM_START_EVENT YAML_ANY_ENCODING] E (yaml_emitter_open E)
    (\<lambda>F. flags F = (True, closed E) \<and> last_anchor_id F = 0 \<and> em_document F = em_document E)"
    unfolding yaml_emitter_open_def if_not_P [OF False] using assms
    by (intro emits_after [OF emits_emit]) (auto simp: dumping_def flags_def)
  then show ?thesis using False by (simp add: stream_head_def)
qed (use assms in \<open>auto simp: stream_head_def flags_def intro: emits_Ok\<close>)

lemma emits_close:
  assumes "sinking E" and "opened E" and "last_anchor_id E = 0"
  shows "emits (stream_foot E) E (yaml_emitter_close E) (\<lambda>F. flags F = (True, True) \<and> last_anchor_id F = 0)"
proof (cases "closed E")
  case False
  have "emits [YAML_STREAM_END_EVENT] E (yaml_emitter_close E) (\<lambda>F. flags F = (True, True) \<and> last_anchor_id F = 0)"
    using assms False unfolding yaml_emitter_close_def
    by (simp, intro emits_after [OF emits_emit]) (auto simp: dumping_def flags_def)
  then show ?thesis using False by (simp add: stream_foot_def)
qed (use assms in \<open>auto simp: stream_foot_def flags_def yaml_emitter_close_def intro: emits_Ok\<close>)

text \<open>The events of a call: those that open the stream, if this was not done, and those of the document;
  a document without nodes closes the stream.\<close>

definition dump_events :: "yaml_document \<Rightarrow> 'w yaml_emitter \<Rightarrow> yaml_event_data list \<Rightarrow> bool" where
  "dump_events d E evs \<longleftrightarrow> (\<exists>rest. evs = stream_head E @ rest \<and> (if nodes d = [] then rest = stream_foot E else dump_of d rest))"

lemma emits_document:
  assumes "doc_valid d" and "doc_text d"
  shows "\<exists>rest. (if nodes d = [] then rest = (if c then [] else [YAML_STREAM_END_EVENT]) else dump_of d rest) \<and>
    (\<forall>F :: 'w yaml_emitter. sinking F \<and> flags F = (True, c) \<and> last_anchor_id F = 0 \<and> em_document F = Some d \<longrightarrow>
      emits rest F (if nodes d = [] then yaml_emitter_close F else dump_nodes d F)
        (\<lambda>G. flags G = (True, c \<or> nodes d = []) \<and> (em_anchors G \<noteq> None \<or> last_anchor_id G = 0)))"
proof (cases "nodes d = []")
  case True
  have "emits (stream_foot F) F (yaml_emitter_close F) (\<lambda>G. flags G = (True, c \<or> nodes d = []) \<and> (em_anchors G \<noteq> None \<or> last_anchor_id G = 0))"
    if "sinking F" "flags F = (True, c)" "last_anchor_id F = 0" for F :: "'w yaml_emitter"
    using emits_close [of F] that True by (auto simp: flags_def elim!: emits_mono)
  then show ?thesis using True by (auto simp: stream_foot_def flags_def)
next
  case False
  obtain evs where evs: "dump_of d evs" "\<And>E :: 'w yaml_emitter. sinking E \<Longrightarrow> em_document E = Some d \<Longrightarrow> last_anchor_id E = 0 \<Longrightarrow>
    emits evs E (dump_nodes d E) (\<lambda>F. flags F = flags E \<and> em_anchors F \<noteq> None)"
    using emits_dump_nodes [OF assms False] by blast
  have "emits evs F (dump_nodes d F) (\<lambda>G. flags G = (True, c \<or> nodes d = []) \<and> (em_anchors G \<noteq> None \<or> last_anchor_id G = 0))"
    if "sinking F" "flags F = (True, c)" "last_anchor_id F = 0" "em_document F = Some d" for F :: "'w yaml_emitter"
    using evs(2) [OF that(1,4,3)] by (rule emits_mono) (use that False in simp)
  then show ?thesis using evs(1) False by auto
qed

text \<open>Releasing the document after the run.\<close>

lemma emits_release:
  assumes "emits evs E r (\<lambda>G. flags G = fs \<and> (em_anchors G \<noteq> None \<or> last_anchor_id G = 0))"
    and "r' = (case r of Ok _ E \<Rightarrow> Ok () (yaml_emitter_delete_document_and_anchors E)
       | Fail E \<Rightarrow> Fail (yaml_emitter_delete_document_and_anchors E) | r \<Rightarrow> r)"
  shows "emits evs E r' (\<lambda>F. dump_idle F \<and> flags F = fs) \<and> wp False r' (\<lambda>_ _. True) (\<lambda>F. em_document F = None \<and> em_anchors F = None)"
proof (cases r)
  case (Ok u F)
  then have F: "emitted (map plain_event evs) E F" "linked E evs F" "sinking F"
    "flags F = fs" "em_anchors F \<noteq> None \<or> last_anchor_id F = 0" using assms(1) by (simp_all add: emits_def)
  then show ?thesis unfolding assms(2) Ok using emitted_after [OF F(1)] linked_append [OF F(2) linked_nil] delete_idle [OF F(5)]
    sinking_same [of F "yaml_emitter_delete_document_and_anchors F"] by (simp add: emits_def flags_def)
qed (use assms in \<open>auto simp: emits_def dump_fail_def\<close>)

lemma emits_dump:
  fixes E :: "'w yaml_emitter"
  assumes "sinking E" and "dump_idle E" and "doc_valid d" and "doc_text d"
  shows "\<exists>evs. dump_events d E evs \<and> emits evs E (yaml_emitter_dump d E) (\<lambda>F. dump_idle F \<and> flags F = (True, closed E \<or> nodes d = []))
    \<and> wp False (yaml_emitter_dump d E) (\<lambda>_ _. True) (\<lambda>F. em_document F = None \<and> em_anchors F = None)"
proof -
  let ?E = "E\<lparr>em_document := Some d\<rparr>"
  let ?run = "res_bind (if opened ?E then Ok () ?E else yaml_emitter_open ?E) (\<lambda>_ E. if nodes d = [] then yaml_emitter_close E else dump_nodes d E)"
  let ?Q = "\<lambda>G :: 'w yaml_emitter. flags G = (True, closed E \<or> nodes d = []) \<and> (em_anchors G \<noteq> None \<or> last_anchor_id G = 0)"
  have E: "same_stream E ?E" "sinking ?E" "last_anchor_id ?E = 0" "stream_head ?E = stream_head E"
    using assms(1,2) sinking_same [of E ?E] by (auto simp: dump_idle_def stream_head_def)
  obtain rest where rest: "if nodes d = [] then rest = stream_foot E else dump_of d rest"
    "\<And>F :: 'w yaml_emitter. sinking F \<and> flags F = (True, closed E) \<and> last_anchor_id F = 0 \<and> em_document F = Some d \<Longrightarrow>
      emits rest F (if nodes d = [] then yaml_emitter_close F else dump_nodes d F) ?Q"
    using emits_document [OF assms(3,4), of "closed E"] unfolding stream_foot_def by blast
  have "emits (stream_head E @ rest) ?E ?run ?Q"
    unfolding E(4) [symmetric] using emits_open [OF E(2,3)] by (rule emits_bind) (use rest(2) in auto)
  from emits_before [OF this E(1)] have run: "emits (stream_head E @ rest) E ?run ?Q" .
  moreover have "dump_events d E (stream_head E @ rest)" using rest(1) by (auto simp: dump_events_def)
  moreover have "yaml_emitter_dump d E = (case ?run of Ok _ E \<Rightarrow> Ok () (yaml_emitter_delete_document_and_anchors E)
       | Fail E \<Rightarrow> Fail (yaml_emitter_delete_document_and_anchors E) | r \<Rightarrow> r)"
    by (simp add: yaml_emitter_dump_def)
  ultimately show ?thesis using emits_release [of "stream_head E @ rest" E ?run "(True, closed E \<or> nodes d = [])"] by blast
qed

end
