(* ===== verification/Yaml_Dumping.thy ===== *)
theory Yaml_Dumping
  imports Yaml_Dump_Document Yaml_Loading
begin

text \<open>
  Properties of the dumper: it ends for every document, accepts what the API builds, and what it
  writes composes to the same document again, also for documents that came from the loader.
\<close>

section \<open>Documents in the order of the walk\<close>











lemma tag_or_primary [simp]:
  "cstr (tag_or YAML_STR_TAG t) \<noteq> octets ''!''" "cstr (tag_or YAML_SEQ_TAG t) \<noteq> octets ''!''" "cstr (tag_or YAML_MAP_TAG t) \<noteq> octets ''!''"
  by (auto simp: tag_or_def octets_def cstr_def YAML_STR_TAG_def YAML_SEQ_TAG_def YAML_MAP_TAG_def split: option.splits)




section \<open>Sequences of documents\<close>

definition dump_fresh :: "'w yaml_emitter \<Rightarrow> bool" where
  "dump_fresh E \<longleftrightarrow> em_fresh E \<and> dump_idle E \<and> \<not> opened E \<and> \<not> closed E"

lemma fresh_sinking: "dump_fresh E \<Longrightarrow> sinking E \<and> dump_idle E"
  using fresh_inv [of E] by (simp add: dump_fresh_def sinking_def)

definition released :: "'w yaml_emitter \<Rightarrow> bool" where
  "released F \<longleftrightarrow> em_document F = None \<and> em_anchors F = None"

lemma wp_dump:
  assumes "sinking E" and "dump_idle E" and "doc_valid d" and "doc_text d"
  shows "wp False (yaml_emitter_dump d E) (\<lambda>_ F. sinking F \<and> dump_idle F)
    (\<lambda>F. released F \<and> (em_heap F = 0 \<or> em_error F \<in> {YAML_MEMORY_ERROR, YAML_WRITER_ERROR, YAML_EMITTER_ERROR}))"
  using emits_dump [OF assms] by (cases "yaml_emitter_dump d E") (auto simp: emits_def dump_fail_def released_def)

lemma wp_dump_all:
  assumes "sinking E" and "dump_idle E" and "list_all (\<lambda>d. doc_valid d \<and> doc_text d) ds"
  shows "wp False (each yaml_emitter_dump ds E) (\<lambda>_ F. sinking F \<and> dump_idle F)
    (\<lambda>F. released F \<and> (em_heap F = 0 \<or> em_error F \<in> {YAML_MEMORY_ERROR, YAML_WRITER_ERROR, YAML_EMITTER_ERROR}))"
  using assms
proof (induction ds arbitrary: E)
  case (Cons d ds)
  then have d: "doc_valid d" "doc_text d" by simp_all
  show ?case unfolding each.simps wp_bind
    by (rule wp_mono [OF wp_dump [OF Cons.prems(1,2) d]]) (use Cons in auto)
qed simp

text \<open>Documents whose events are valid.\<close>

definition doc_ok :: "yaml_document \<Rightarrow> bool" where
  "doc_ok d \<longleftrightarrow> doc_valid d \<and> doc_text d \<and> nodes d \<noteq> [] \<and> doc_tags d \<and> ev_valid (document_start d)"

text \<open>The emitter waits for a document, or for the start of the stream.\<close>

definition dump_ready :: "'w yaml_emitter \<Rightarrow> bool" where
  "dump_ready E \<longleftrightarrow> ev_run (em_grammar E) (datas (events E)) = Some (if opened E then GDocs else GStream) \<and> list_all ev_valid (datas (events E))"

lemma dump_of_run:
  assumes "dump_of d evs" and "doc_tags d" and "ev_valid (document_start d)"
  shows "ev_run GDocs evs = Some GDocs \<and> list_all ev_valid evs"
proof -
  obtain t where "evs = document_start d # events_of t @ [document_end d]" "tree_ok t" "list_all ev_valid (events_of t)"
    using assms(1,2) by (auto simp: dump_of_def)
  then show ?thesis using assms(3) ev_run_tree [of t FRoot "[]"] by (simp add: document_start_def document_end_def ev_run_append)
qed

lemma dump_ready_run:
  assumes "dump_ready E" and "dump_events d E evs" and "doc_ok d"
  shows "ev_run (em_grammar E) (datas (events E) @ evs) = Some GDocs" and "list_all ev_valid (datas (events E) @ evs)"
proof -
  obtain rest where evs: "evs = stream_head E @ rest" "dump_of d rest" using assms(2,3) by (auto simp: dump_events_def doc_ok_def)
  then have rest: "ev_run GDocs rest = Some GDocs \<and> list_all ev_valid rest" using assms(3) by (intro dump_of_run) (auto simp: doc_ok_def)
  then show "ev_run (em_grammar E) (datas (events E) @ evs) = Some GDocs" "list_all ev_valid (datas (events E) @ evs)"
    using assms(1) evs(1) by (auto simp: dump_ready_def stream_head_def ev_run_append)
qed

lemma linked_run:
  assumes "linked E evs F" and "ev_run (em_grammar E) (datas (events E) @ evs) = Some g" and "list_all ev_valid (datas (events E) @ evs)"
  shows "ev_run (em_grammar F) (datas (events F)) = Some g" and "list_all ev_valid (datas (events F))"
proof -
  obtain ps where ps: "datas (events E) @ evs = ps @ datas (events F)" "ev_run (em_grammar E) ps = Some (em_grammar F)"
    using assms(1) unfolding linked_def by blast
  show "ev_run (em_grammar F) (datas (events F)) = Some g" using assms(2) ps unfolding ps(1) by (simp add: ev_run_append)
  show "list_all ev_valid (datas (events F))" using assms(3) unfolding ps(1) by simp
qed

lemma wp_dump_ready:
  assumes "sinking E" and "dump_idle E" and "dump_ready E" and "doc_ok d"
  shows "wp False (yaml_emitter_dump d E) (\<lambda>_ F. sinking F \<and> dump_idle F \<and> dump_ready F)
    (\<lambda>F. em_heap F = 0 \<or> em_error F \<in> {YAML_MEMORY_ERROR, YAML_WRITER_ERROR})"
proof -
  obtain evs where evs: "dump_events d E evs" "emits evs E (yaml_emitter_dump d E) (\<lambda>F. dump_idle F \<and> flags F = (True, closed E \<or> nodes d = []))"
  proof -
    have "doc_valid d" "doc_text d" using assms(4) by (simp_all add: doc_ok_def)
    from emits_dump [OF assms(1,2) this] show thesis using that by blast
  qed
  note run = dump_ready_run [OF assms(3) evs(1) assms(4)]
  from evs(2) show ?thesis unfolding emits_def
  proof (rule wp_mono, goal_cases)
    case (1 _ F)
    then show ?case using linked_run [OF _ run, of F] by (auto simp: dump_ready_def flags_def)
  next
    case (2 F)
    then show ?case using run by (auto simp: dump_fail_def refusable_def)
  qed
qed

lemma wp_dump_all_ready:
  assumes "sinking E" and "dump_idle E" and "dump_ready E" and "list_all doc_ok ds"
  shows "wp False (each yaml_emitter_dump ds E) (\<lambda>_ F. sinking F \<and> dump_idle F \<and> dump_ready F)
    (\<lambda>F. em_heap F = 0 \<or> em_error F \<in> {YAML_MEMORY_ERROR, YAML_WRITER_ERROR})"
  using assms
proof (induction ds arbitrary: E)
  case (Cons d ds)
  show ?case unfolding each.simps wp_bind
    by (rule wp_mono [OF wp_dump_ready [OF Cons.prems(1-3)]]) (use Cons in auto)
qed simp

text \<open>The events of a call that succeeds.\<close>

lemma dump_emitted:
  assumes "sinking E" and "dump_idle E" and "doc_valid d" and "doc_text d" and "yaml_emitter_dump d E = Ok () F" and "nodes d \<noteq> []"
  shows "\<exists>t env. emitted (map plain_event (stream_head E @ document_start d # events_of t @ [document_end d])) E F
    \<and> compose t [] 1 = Some (1, map (renode d (visit_order d)) (visit_order d), env)"
proof -
  from emits_dump [OF assms(1-4)] obtain evs where "dump_events d E evs" "emitted (map plain_event evs) E F"
    unfolding emits_def assms(5) wp.simps by blast
  then show ?thesis using assms(6) unfolding dump_events_def dump_of_def by auto
qed

text \<open>The strings of documents that calls of the library build.\<close>

lemma tag_copy_whole: "tag_copy def tag h = Ok t h' \<Longrightarrow> whole_chars (cstr t)"
  by (auto simp: tag_copy_def checked_copy_whole)

lemma add_node_text:
  assumes "add_node d nd tag h = Ok (i, d') h'" and "doc_text d" and "whole_chars (cstr tag)"
    and "case nd of YAML_SCALAR_NODE v _ \<Rightarrow> whole_chars v | _ \<Rightarrow> True"
  shows "doc_text d'"
  using assms by (auto simp: add_node_def doc_text_def request_def Let_def split: if_splits)

lemma set_node_text:
  assumes "doc_text d" and "valid_id d i" and "case nd of YAML_SCALAR_NODE v _ \<Rightarrow> False | _ \<Rightarrow> True"
  shows "doc_text (set_doc_node i ((nodes d ! nat (i - 1))\<lparr>node_data := nd\<rparr>) d)"
  using assms doc_text_node(1) [OF assms(1,2)]
  by (auto simp: doc_text_def set_doc_node_def list_all_iff split: yaml_node_data.splits dest!: set_update_subset_insert [THEN subsetD])

lemma built_text: "built d \<Longrightarrow> doc_text d"
proof (induction rule: built.induct)
  case (built_initialize vd tds si ei h d h')
  then show ?case by (auto simp: yaml_document_initialize_def copy_directives_def res_bind_eq_Ok doc_text_def copy_tag_directives_whole split: if_splits)
next
  case (built_call d d')
  from built_call(2,3) show ?case
  proof (induction rule: doc_call.induct)
    case (call_scalar d t v len s h i d' h')
    then show ?case by (auto simp: yaml_document_add_scalar_def res_bind_eq_Ok value_copy_def Let_def utf8_whole
          elim!: add_node_text dest!: tag_copy_whole split: if_splits)
  next
    case (call_item d j k h d' h')
    then show ?case by (auto simp: yaml_document_append_sequence_item_def res_bind_eq_Ok intro!: set_node_text split: if_splits yaml_node_data.splits)
  next
    case (call_pair d j k l h d' h')
    then show ?case by (auto simp: yaml_document_append_mapping_pair_def res_bind_eq_Ok intro!: set_node_text split: if_splits yaml_node_data.splits)
  qed (auto simp: yaml_document_add_sequence_def yaml_document_add_mapping_def res_bind_eq_Ok elim!: add_node_text dest!: tag_copy_whole)
qed

section \<open>Properties\<close>

text \<open>
  (C10) Dumping always comes to an end and leaves nothing behind.  For every sequence of documents
  whose references are indices of nodes, cyclic ones included, and whose strings are whole
  characters, the calls return; no node is missing, no assertion fails, no walk goes on for ever.
  The document and the array of anchors are released, whether the calls succeed or not.
\<close>

theorem dump_total:
  assumes "dump_fresh E" and "list_all (\<lambda>d. doc_valid d \<and> doc_text d) ds"
  shows "case each yaml_emitter_dump ds E of
       Ok _ F \<Rightarrow> em_document F = None \<and> em_anchors F = None \<and> last_anchor_id F = 0
     | Fail F \<Rightarrow> em_document F = None \<and> em_anchors F = None
         \<and> (em_heap F = 0 \<or> em_error F \<in> {YAML_MEMORY_ERROR, YAML_WRITER_ERROR, YAML_EMITTER_ERROR})
     | Abort \<Rightarrow> False | Hang \<Rightarrow> False"
  using wp_dump_all [OF _ _ assms(2), of E] fresh_sinking [OF assms(1)]
  by (auto simp: dump_idle_def released_def split: res.splits)

lemma demo_dump_fresh: "dump_fresh demo_emitter"
  by (simp add: dump_fresh_def demo_fresh dump_idle_def) (simp add: demo_emitter_def zero_emitter_def)

lemma demo_document_ok: "doc_valid demo_document" "doc_text demo_document" "doc_ok demo_document"
proof -
  show *: "doc_valid demo_document" "doc_text demo_document" using demo_document(1) by (simp_all add: built_valid built_text)
  have "nodes demo_document \<noteq> [] \<and> doc_tags demo_document \<and> ev_valid (document_start demo_document)" by code_simp
  then show "doc_ok demo_document" using * by (simp add: doc_ok_def)
qed

text \<open>A sequence that contains itself, and the end of the stream.\<close>

lemma demo_dump: "case each yaml_emitter_dump [demo_document, zero_document] demo_emitter of
    Ok _ F \<Rightarrow> out_octets (write_handler_data F) = octets ''&id001'' @ [10] @ octets ''- *id001'' @ [10] \<and> opened F \<and> closed F | _ \<Rightarrow> False"
  by code_simp

theorem dump_total_witness:
  "\<exists>F. each yaml_emitter_dump [demo_document, zero_document] demo_emitter = Ok () F \<and> em_document F = None \<and> em_anchors F = None"
proof -
  have "doc_valid zero_document" "doc_text zero_document" by (simp_all add: doc_valid_def doc_text_def zero_document_def)
  then have "list_all (\<lambda>d. doc_valid d \<and> doc_text d) [demo_document, zero_document]" using demo_document_ok by simp
  from dump_total [OF demo_dump_fresh this] demo_dump show ?thesis by (auto split: res.splits)
qed

text \<open>
  (C11) Documents that calls of the library build can be dumped: if each has a node, tags that are
  not empty, and a version and tag directives that the emitter accepts, then a sequence of them is
  refused for lack of memory or by the write handler only, never with an emitter error.
\<close>

theorem dump_accepts_built:
  assumes "dump_fresh E"
    and "list_all (\<lambda>d. built d \<and> nodes d \<noteq> [] \<and> doc_tags d \<and> ev_valid (document_start d)) ds"
    and "each yaml_emitter_dump ds E = Fail F"
  shows "em_heap F = 0 \<or> em_error F \<in> {YAML_MEMORY_ERROR, YAML_WRITER_ERROR}"
proof -
  have ds: "list_all doc_ok ds" using assms(2) by (auto simp: list_all_iff doc_ok_def built_valid built_text)
  have "dump_ready E" using assms(1) fresh_inv [of E] by (simp add: dump_fresh_def dump_ready_def)
  then show ?thesis using wp_dump_all_ready [OF _ _ _ ds, of E] fresh_sinking [OF assms(1)] assms(3) by simp
qed

theorem dump_accepts_built_witness:
  "\<exists>F. each yaml_emitter_dump [demo_document] (demo_emitter\<lparr>em_heap := 5\<rparr>) = Fail F
     \<and> (em_heap F = 0 \<or> em_error F \<in> {YAML_MEMORY_ERROR, YAML_WRITER_ERROR})"
proof -
  have "case each yaml_emitter_dump [demo_document] (demo_emitter\<lparr>em_heap := 5\<rparr>) of Fail F \<Rightarrow> True | _ \<Rightarrow> False" by code_simp
  then obtain F where F: "each yaml_emitter_dump [demo_document] (demo_emitter\<lparr>em_heap := 5\<rparr>) = Fail F" by (auto split: res.splits)
  have "dump_fresh (demo_emitter\<lparr>em_heap := 5\<rparr>)" using demo_dump_fresh by (simp add: dump_fresh_def em_fresh_def dump_idle_def)
  then show ?thesis using dump_accepts_built [OF _ _ F] F demo_document_ok(3) demo_document(1) by (simp add: doc_ok_def)
qed

text \<open>
  (C9) A dumped document can be loaded again.  The events that a successful call emits are the start of the
  document, the events of a tree and the end of the document, after the start of the stream in the
  first call.  That tree, in which a node with several references is written once, with an anchor,
  and then by aliases, composes to the nodes that the walk from node 1 reaches, in the order in
  which it reaches them, with references renumbered to that order.
\<close>

theorem dump_reload:
  assumes "dump_fresh E0" and "list_all (\<lambda>d. doc_valid d \<and> doc_text d) (ds @ [d])" and "each yaml_emitter_dump ds E0 = Ok () E"
    and "yaml_emitter_dump d E = Ok () F" and "nodes d \<noteq> []"
  shows "\<exists>t env. emitted (map plain_event ((if opened E then [] else [YAML_STREAM_START_EVENT YAML_ANY_ENCODING])
        @ YAML_DOCUMENT_START_EVENT (version_directive d) (doc_tag_directives d) (start_implicit d) # events_of t
        @ [YAML_DOCUMENT_END_EVENT (end_implicit d)])) E F
    \<and> compose t [] 1 = Some (1, map (renode d (visit_order d)) (visit_order d), env)"
proof -
  have E: "sinking E" "dump_idle E"
    using wp_OkD [OF wp_dump_all assms(3)] fresh_sinking [OF assms(1)] assms(2) by simp_all
  have "doc_valid d" "doc_text d" using assms(2) by simp_all
  from dump_emitted [OF E this assms(4,5)] show ?thesis unfolding stream_head_def document_start_def document_end_def .
qed

theorem dump_reload_witness:
  "\<exists>F t env. yaml_emitter_dump demo_document demo_emitter = Ok () F
     \<and> emitted (map plain_event ([YAML_STREAM_START_EVENT YAML_ANY_ENCODING, YAML_DOCUMENT_START_EVENT None [] True] @ events_of t
        @ [YAML_DOCUMENT_END_EVENT True])) demo_emitter F
     \<and> compose t [] 1 = Some (1, [(YAML_SEQUENCE_NODE [1] YAML_ANY_SEQUENCE_STYLE, octets YAML_SEQ_TAG)], env)"
proof -
  obtain F where F: "yaml_emitter_dump demo_document demo_emitter = Ok () F" using demo_dump by (auto simp: res_bind_eq_Ok split: res.splits)
  have d: "\<not> opened demo_emitter" "version_directive demo_document = None" "doc_tag_directives demo_document = []" "start_implicit demo_document"
    "end_implicit demo_document" "nodes demo_document \<noteq> []"
    "map (renode demo_document (visit_order demo_document)) (visit_order demo_document) = [(YAML_SEQUENCE_NODE [1] YAML_ANY_SEQUENCE_STYLE, octets YAML_SEQ_TAG)]"
    by code_simp+
  have "list_all (\<lambda>d. doc_valid d \<and> doc_text d) ([] @ [demo_document])" using demo_document_ok by simp
  from dump_reload [OF demo_dump_fresh this _ F d(6)] d F show ?thesis by auto
qed








end
