(* ===== verification/Sha_Blocks.thy ===== *)
theory Sha_Blocks
  imports Yaml_Prelude
begin

text \<open>
  What the two hash functions of the repository share: octets and 32-bit words in both byte
  orders, messages cut into blocks of 64 octets, the padding of FIPS 180-4, and the contract of
  a hash function that takes its message in pieces (locale \<open>streaming_hash\<close>).

  The code is that of a little-endian machine: a word that is read through a pointer to its
  octets has its low octet first.
\<close>

type_synonym word32 = "32 word"

section \<open>Octets and words\<close>

definition be_word :: "byte \<Rightarrow> byte \<Rightarrow> byte \<Rightarrow> byte \<Rightarrow> word32" where
  "be_word a b c d = push_bit 24 (ucast a) OR push_bit 16 (ucast b) OR push_bit 8 (ucast c) OR ucast d"

definition le_word :: "byte \<Rightarrow> byte \<Rightarrow> byte \<Rightarrow> byte \<Rightarrow> word32" where
  "le_word a b c d = be_word d c b a"

definition be_octets :: "word32 \<Rightarrow> byte list" where
  "be_octets w = [ucast (drop_bit 24 w), ucast (drop_bit 16 w), ucast (drop_bit 8 w), ucast w]"

definition le_octets :: "word32 \<Rightarrow> byte list" where
  "le_octets w = rev (be_octets w)"

fun be_words :: "byte list \<Rightarrow> word32 list" where
  "be_words (a # b # c # d # r) = be_word a b c d # be_words r"
| "be_words _ = []"

fun le_words :: "byte list \<Rightarrow> word32 list" where
  "le_words (a # b # c # d # r) = le_word a b c d # le_words r"
| "le_words _ = []"

lemma bit_word_less [simp]: "\<not> n < 32 \<Longrightarrow> \<not> bit (w :: word32) n" "\<not> n < 8 \<Longrightarrow> \<not> bit (b :: byte) n"
  using bit_imp_le_length [of w n] bit_imp_le_length [of b n] by auto

lemmas word_bits = bit_simps bit_or_iff bit_and_iff bit_xor_iff bit_not_iff bit_push_bit_iff bit_drop_bit_eq bit_ucast_iff

lemma bit_be_word:
  "bit (be_word a b c d) n \<longleftrightarrow>
     (if n < 8 then bit d n else if n < 16 then bit c (n - 8) else if n < 24 then bit b (n - 16) else n < 32 \<and> bit a (n - 24))"
proof -
  consider "n < 8" | "8 \<le> n" "n < 16" | "16 \<le> n" "n < 24" | "24 \<le> n" "n < 32" | "32 \<le> n" by linarith
  then show ?thesis by cases (auto simp: be_word_def word_bits)
qed

lemma be_octets_word [simp]: "be_octets (be_word a b c d) = [a, b, c, d]"
  by (auto simp: be_octets_def bit_be_word word_bits intro!: bit_word_eqI)

lemma le_octets_word [simp]: "le_octets (le_word a b c d) = [a, b, c, d]"
  by (simp add: le_octets_def le_word_def)

lemma be_word_octets: "be_word (ucast (drop_bit 24 w)) (ucast (drop_bit 16 w)) (ucast (drop_bit 8 w)) (ucast w) = w"
  by (rule bit_word_eqI) (auto simp: bit_be_word word_bits)

lemma length_be_octets [simp]: "length (be_octets w) = 4" "length (le_octets w) = 4"
  by (simp_all add: be_octets_def le_octets_def)

lemma four_split:
  assumes "length xs = 4 + 4 * n"
  obtains a b c d r where "xs = a # b # c # d # r" and "length r = 4 * n"
  using assms by (auto simp: length_Suc_conv numeral_eq_Suc)

lemma words_length [simp]: "length xs = 4 * n \<Longrightarrow> length (be_words xs) = n" "length xs = 4 * n \<Longrightarrow> length (le_words xs) = n"
  by (induction n arbitrary: xs) (auto elim!: four_split)

lemma be_words_nth:
  "length xs = 4 * n \<Longrightarrow> k < n \<Longrightarrow> be_words xs ! k = be_word (xs ! (4 * k)) (xs ! (4 * k + 1)) (xs ! (4 * k + 2)) (xs ! (4 * k + 3))"
proof (induction n arbitrary: xs k)
  case (Suc n)
  obtain a b c d r where "xs = a # b # c # d # r" and "length r = 4 * n" using Suc.prems(1) by (auto elim: four_split)
  then show ?case using Suc.IH [of r "k - 1"] Suc.prems(2) by (cases k) (simp_all add: nth_Cons' add.commute)
qed simp

lemma le_octets_le_words: "length xs = 4 * n \<Longrightarrow> concat (map le_octets (le_words xs)) = xs"
  by (induction n arbitrary: xs) (auto elim!: four_split)

lemma length_concat_octets [simp]: "length (concat (map le_octets ws)) = 4 * length ws" "length (concat (map be_octets ws)) = 4 * length ws"
  by (induction ws) auto

lemma le_words_le_octets [simp]: "le_words (concat (map le_octets ws)) = ws"
  by (induction ws) (auto simp: le_octets_def be_octets_def le_word_def be_word_octets)

lemma be_words_append: "length xs = 4 * n \<Longrightarrow> be_words (xs @ ys) = be_words xs @ be_words ys"
  by (induction n arbitrary: xs) (auto elim!: four_split)

lemma be_words_be_octets [simp]: "be_words (be_octets w @ r) = w # be_words r" "be_words (be_octets w) = [w]"
  by (simp_all add: be_octets_def be_word_octets)

section \<open>Blocks\<close>

text \<open>The whole blocks of a message, absorbed one after the other, and what is left over.\<close>

function absorb :: "('s \<Rightarrow> byte list \<Rightarrow> 's) \<Rightarrow> 's \<Rightarrow> byte list \<Rightarrow> 's" where
  "absorb f st m = (if length m < 64 then st else absorb f (f st (take 64 m)) (drop 64 m))"
  by pat_completeness auto
termination by (relation "measure (\<lambda>(f, st, m). length m)") auto

declare absorb.simps [simp del]

definition pending :: "byte list \<Rightarrow> byte list" where
  "pending m = drop (64 * (length m div 64)) m"

lemma length_pending [simp]: "length (pending m) = length m mod 64"
  by (simp add: pending_def minus_mult_div_eq_mod)

lemma absorb_less [simp]: "length m < 64 \<Longrightarrow> absorb f st m = st"
  by (simp add: absorb.simps)

lemma absorb_block: "length b = 64 \<Longrightarrow> absorb f st (b @ m) = absorb f (f st b) m"
  by (subst absorb.simps) simp

lemma absorb_append: "absorb f st (m @ n) = absorb f (absorb f st m) (pending m @ n)"
proof (induction f st m rule: absorb.induct)
  case (1 f st m)
  show ?case
  proof (cases "length m < 64")
    case True
    then show ?thesis by (simp add: pending_def)
  next
    case False
    have p: "pending (drop 64 m) = pending m" using False by (simp add: pending_def le_div_geq add.commute)
    have "absorb f st (m @ n) = absorb f (f st (take 64 m)) (drop 64 m @ n)" using False by (subst absorb.simps) simp
    also have "\<dots> = absorb f (absorb f (f st (take 64 m)) (drop 64 m)) (pending m @ n)" using 1 False p by simp
    also have "absorb f (f st (take 64 m)) (drop 64 m) = absorb f st m" using False by (subst (2) absorb.simps) simp
    finally show ?thesis .
  qed
qed

lemma pending_append: "pending (m @ n) = pending (pending m @ n)"
proof -
  define q where "q = length m div 64"
  have m: "m = take (64 * q) m @ pending m" by (simp add: pending_def q_def)
  have l: "length (take (64 * q) m) = 64 * q" by (simp add: q_def)
  have "pending (a @ b) = pending b" if "length a = 64 * q" for a b :: "byte list"
    using that by (simp add: pending_def algebra_simps)
  then show ?thesis using m l by (metis append.assoc)
qed

lemma pending_less [simp]: "length m < 64 \<Longrightarrow> pending m = m"
  by (simp add: pending_def)

lemma pending_block: "length b = 64 \<Longrightarrow> pending (b @ m) = pending m"
  using pending_append [of b m] by (simp add: pending_def)

section \<open>Padding\<close>

text \<open>FIPS 180-4, 5.1.1: one bit, zeros up to 448 modulo 512 bits, and the length in bits in 64 bits.\<close>

definition be_octets64 :: "nat \<Rightarrow> byte list" where
  "be_octets64 n = be_octets (word_of_nat (n div 2 ^ 32)) @ be_octets (word_of_nat n)"

definition padded :: "byte list \<Rightarrow> byte list" where
  "padded m = m @ [0x80] @ replicate (nat ((55 - int (length m)) mod 64)) 0 @ be_octets64 (8 * length m)"

lemma padded_blocks: "length (padded m) mod 64 = 0"
proof -
  have "int (length (padded m)) mod 64 = (int (length m) + 9 + (55 - int (length m)) mod 64) mod 64"
    by (simp add: padded_def be_octets64_def algebra_simps)
  also have "\<dots> = 0" by presburger
  finally show ?thesis by presburger
qed

lemma gap_mod:
  assumes "c < 64"
  shows "nat ((int c - int n) mod 64) = (if n mod 64 \<le> c then c - n mod 64 else c + 64 - n mod 64)"
proof -
  let ?r = "n mod 64"
  have "?r < 64" by simp
  have "(int c - int n) mod 64 = (int c - int ?r) mod 64" by (simp add: zmod_int mod_diff_right_eq)
  also have "\<dots> = (if ?r \<le> c then int c - int ?r else int c + 64 - int ?r)"
    using \<open>?r < 64\<close> assms mod_add_self2 [of "int c - int ?r" 64] mod_pos_pos_trivial [of "int c + 64 - int ?r" 64]
      mod_pos_pos_trivial [of "int c - int ?r" 64] by (simp add: algebra_simps)
  finally show ?thesis using \<open>?r < 64\<close> by simp arith
qed

section \<open>Hashing in pieces\<close>

text \<open>
  The contract: a context that holds the octets seen so far, an operation that adds octets to
  it, and one that ends with the digest of all of them.  The pieces are bounded, since their
  size is passed in 32 bits.
\<close>

fun updates :: "('c \<Rightarrow> byte list \<Rightarrow> 'c option) \<Rightarrow> 'c \<Rightarrow> byte list list \<Rightarrow> 'c option" where
  "updates u c [] = Some c"
| "updates u c (d # ds) = Option.bind (u c d) (\<lambda>c. updates u c ds)"

locale streaming_hash =
  fixes fresh :: "'c \<Rightarrow> bool"
    and update :: "'c \<Rightarrow> byte list \<Rightarrow> 'c option"
    and finish :: "'c \<Rightarrow> 'd option"
    and holds :: "'c \<Rightarrow> byte list \<Rightarrow> bool"
    and digest :: "byte list \<Rightarrow> 'd"
    and piece_ok :: "byte list \<Rightarrow> bool"
  assumes fresh_holds: "fresh c \<Longrightarrow> holds c []"
    and update_holds: "holds c m \<Longrightarrow> piece_ok d \<Longrightarrow> \<exists>c'. update c d = Some c' \<and> holds c' (m @ d)"
    and finish_digest: "holds c m \<Longrightarrow> finish c = Some (digest m)"
begin

lemma updates_holds:
  "holds c m \<Longrightarrow> list_all piece_ok ds \<Longrightarrow> \<exists>c'. updates update c ds = Some c' \<and> holds c' (m @ concat ds)"
proof (induction ds arbitrary: c m)
  case (Cons d ds)
  obtain c1 where "update c d = Some c1" "holds c1 (m @ d)" using update_holds [of c m d] Cons.prems by auto
  then show ?case using Cons.IH [of c1 "m @ d"] Cons.prems by auto
qed simp

lemma hash_pieces:
  assumes "fresh c" and "list_all piece_ok ds"
  shows "Option.bind (updates update c ds) finish = Some (digest (concat ds))"
proof -
  obtain c' where "updates update c ds = Some c'" "holds c' (concat ds)"
    using updates_holds [OF fresh_holds [OF assms(1)] assms(2)] by auto
  then show ?thesis using finish_digest [of c' "concat ds"] by simp
qed

text \<open>Only the octets count, not how they were cut into pieces.\<close>

lemma pieces_irrelevant:
  assumes "fresh c" and "fresh c'" and "list_all piece_ok ds" and "list_all piece_ok ds'" and "concat ds = concat ds'"
  shows "Option.bind (updates update c ds) finish = Option.bind (updates update c' ds') finish"
  using assms hash_pieces by metis

end

end
