(* ===== verification/Sha256_Facts.thy ===== *)
theory Sha256_Facts
  imports Sha256
begin

text \<open>
  SHA-256 as FIPS 180-4 defines it, and the proof that \<^verbatim>\<open>sha256.c\<close> computes it.
\<close>

section \<open>The standard\<close>

text \<open>
  The constants are the first 32 bits of the fractional parts of the cube roots (4.2.2) and of
  the square roots (5.3.3) of the first primes.
\<close>

definition int_root :: "nat \<Rightarrow> nat \<Rightarrow> nat" where
  "int_root k n = (GREATEST r. r ^ k \<le> n)"

definition root_bits :: "nat \<Rightarrow> nat \<Rightarrow> word32" where
  "root_bits k p = word_of_nat (int_root k (p * 2 ^ (32 * k)))"

definition primes64 :: "nat list" where
  "primes64 = [2, 3, 5, 7, 11, 13, 17, 19, 23, 29, 31, 37, 41, 43, 47, 53, 59, 61, 67, 71, 73, 79, 83, 89, 97, 101, 103, 107, 109, 113,
     127, 131, 137, 139, 149, 151, 157, 163, 167, 173, 179, 181, 191, 193, 197, 199, 211, 223, 227, 229, 233, 239, 241, 251, 257, 263,
     269, 271, 277, 281, 283, 293, 307, 311]"

definition K256 :: "nat \<Rightarrow> word32" where
  "K256 t = root_bits 3 (primes64 ! t)"

definition H256 :: "word32 list" where
  "H256 = map (root_bits 2) (take 8 primes64)"

definition Ch :: "word32 \<Rightarrow> word32 \<Rightarrow> word32 \<Rightarrow> word32" where
  "Ch x y z = (x AND y) XOR (NOT x AND z)"

definition Maj :: "word32 \<Rightarrow> word32 \<Rightarrow> word32 \<Rightarrow> word32" where
  "Maj x y z = (x AND y) XOR (x AND z) XOR (y AND z)"

definition Sigma0 :: "word32 \<Rightarrow> word32" where
  "Sigma0 x = word_rotr 2 x XOR word_rotr 13 x XOR word_rotr 22 x"

definition Sigma1 :: "word32 \<Rightarrow> word32" where
  "Sigma1 x = word_rotr 6 x XOR word_rotr 11 x XOR word_rotr 25 x"

definition sigma0 :: "word32 \<Rightarrow> word32" where
  "sigma0 x = word_rotr 7 x XOR word_rotr 18 x XOR drop_bit 3 x"

definition sigma1 :: "word32 \<Rightarrow> word32" where
  "sigma1 x = word_rotr 17 x XOR word_rotr 19 x XOR drop_bit 10 x"

function schedule :: "word32 list \<Rightarrow> nat \<Rightarrow> word32" where
  "schedule M t = (if t < 16 then M ! t
     else sigma1 (schedule M (t - 2)) + schedule M (t - 7) + sigma0 (schedule M (t - 15)) + schedule M (t - 16))"
  by pat_completeness auto
termination by (relation "measure snd") auto

declare schedule.simps [simp del]

fun sha_round :: "word32 \<Rightarrow> word32 \<Rightarrow> word32 list \<Rightarrow> word32 list" where
  "sha_round k w [a, b, c, d, e, f, g, h] =
     (let T1 = h + Sigma1 e + Ch e f g + k + w; T2 = Sigma0 a + Maj a b c in [T1 + T2, a, b, c, d + T1, e, f, g])"
| "sha_round k w _ = []"

fun sha_rounds :: "word32 list \<Rightarrow> nat \<Rightarrow> word32 list \<Rightarrow> word32 list" where
  "sha_rounds M 0 st = st"
| "sha_rounds M (Suc t) st = sha_round (K256 t) (schedule M t) (sha_rounds M t st)"

definition compress256 :: "word32 list \<Rightarrow> byte list \<Rightarrow> word32 list" where
  "compress256 st b = map2 (+) st (sha_rounds (be_words b) 64 st)"

definition SHA256 :: "byte list \<Rightarrow> byte list" where
  "SHA256 m = concat (map be_octets (absorb compress256 H256 (padded m)))"

section \<open>The constants\<close>

lemma int_rootI: "0 < k \<Longrightarrow> r ^ k \<le> n \<Longrightarrow> n < Suc r ^ k \<Longrightarrow> int_root k n = r"
  unfolding int_root_def
proof (rule Greatest_equality)
  fix y assume "0 < k" "n < Suc r ^ k" "y ^ k \<le> n"
  then show "y \<le> r" using power_less_imp_less_base [of y k "Suc r"] by simp
qed

definition root_ok :: "nat \<Rightarrow> nat \<Rightarrow> word32 \<Rightarrow> bool" where
  "root_ok k p w \<longleftrightarrow> (let r = length (filter (\<lambda>q. q ^ k \<le> p) [1, 2, 3, 4, 5, 6]) * 2 ^ 32 + unat w in r ^ k \<le> p * 2 ^ (32 * k) \<and> p * 2 ^ (32 * k) < Suc r ^ k)"

lemma root_ok_bits:
  assumes "root_ok k p w" and "0 < k"
  shows "root_bits k p = w"
proof -
  obtain q where "int_root k (p * 2 ^ (32 * k)) = q * 2 ^ 32 + unat w"
    using assms int_rootI [OF assms(2)] by (auto simp: root_ok_def Let_def)
  moreover have "word_of_nat (q * 2 ^ 32) = (0 :: word32)" by (simp add: word_of_nat_eq_0_iff del: of_nat_mult of_nat_power)
  ultimately show ?thesis by (simp add: root_bits_def del: of_nat_mult of_nat_power)
qed

lemma cube_roots: "list_all2 (root_ok 3) primes64 K_table"
  by (simp add: primes64_def K_table_def root_ok_def)

lemma square_roots: "list_all2 (root_ok 2) (take 8 primes64) (sha_hash (sha256_init ctx))"
  by (simp add: primes64_def sha256_init_def root_ok_def)

lemma length_primes64 [simp]: "length primes64 = 64"
  by (simp add: primes64_def)

lemma K_table_K256: "t < 64 \<Longrightarrow> K_table ! t = K256 t"
  using list_all2_nthD [OF cube_roots, of t] root_ok_bits [of 3] by (simp add: K256_def)

lemma sha256_init_H256: "sha_hash (sha256_init ctx) = H256"
  using square_roots [of ctx] by (auto simp: H256_def list_all2_conv_all_nth root_ok_bits intro!: nth_equalityI)

lemma length_H256 [simp]: "length H256 = 8"
  by (simp add: H256_def)

section \<open>The functions\<close>

lemma RR_rotr: "n < 32 \<Longrightarrow> RR x n = word_rotr n x"
proof (rule bit_word_eqI)
  fix k assume "n < 32" "k < LENGTH(32)"
  moreover from this have "(n + k) mod 32 = (if n + k < 32 then n + k else n + k - 32)" by (simp add: mod_if)
  ultimately show "bit (RR x n) k = bit (word_rotr n x) k"
    by (auto simp: RR_def word_bits bit_word_rotr_iff add.commute)
qed

lemma macros: "S0 x = Sigma0 x" "S1 x = Sigma1 x" "G0 x = sigma0 x" "G1 x = sigma1 x"
  by (simp_all add: S0_def S1_def G0_def G1_def Sigma0_def Sigma1_def sigma0_def sigma1_def RR_rotr)

lemma Ch_alt: "z XOR (x AND (y XOR z)) = Ch x y z"
  by (rule bit_word_eqI) (auto simp: Ch_def word_bits)

lemma Maj_alt: "(x AND y) OR (z AND (x XOR y)) = Maj x y z"
  by (rule bit_word_eqI) (auto simp: Maj_def word_bits)

section \<open>Rounds\<close>

text \<open>The registers of the standard, where round \<open>t\<close> finds them.\<close>

definition unrot :: "nat \<Rightarrow> word32 list \<Rightarrow> word32 list" where
  "unrot t b = [b ! B_at 0 t, b ! B_at 1 t, b ! B_at 2 t, b ! B_at 3 t, b ! B_at 4 t, b ! B_at 5 t, b ! B_at 6 t, b ! B_at 7 t]"

definition update_b :: "word32 \<Rightarrow> nat \<Rightarrow> word32 list \<Rightarrow> word32 list" where
  "update_b kw i b =
     (let b = b[B_at 7 i := b ! B_at 7 i + (kw + S1 (b ! B_at 4 i)
                + (b ! B_at 6 i XOR (b ! B_at 4 i AND (b ! B_at 5 i XOR b ! B_at 6 i))))];
          b = b[B_at 3 i := b ! B_at 3 i + b ! B_at 7 i]
      in b[B_at 7 i := b ! B_at 7 i + (S0 (b ! B_at 0 i)
                + ((b ! B_at 0 i AND b ! B_at 1 i) OR (b ! B_at 2 i AND (b ! B_at 0 i XOR b ! B_at 1 i))))])"

definition update_p :: "nat \<Rightarrow> word32 list \<Rightarrow> word32 list" where
  "update_p i p = p[i mod 16 := p ! (i mod 16) + (G1 (p ! P_at i 14) + p ! P_at i 9 + G0 (p ! P_at i 1))]"

lemma rtrf_eq: "rtrf (b, p) i j =
   (let p = (if j \<noteq> 0 then update_p i p else p) in (update_b (p ! (i mod 16) + K_table ! (i + j)) i b, p))"
  by (simp add: rtrf_def update_b_def update_p_def Let_def)

lemma B_at_mod: "B_at x (t mod 8) = B_at x t"
  unfolding B_at_def by (simp add: zmod_int mod_diff_right_eq)

lemma length_update_b [simp]: "length (update_b kw i b) = length b"
  by (simp add: update_b_def Let_def)

lemma eight_split:
  assumes "length b = 8"
  obtains b0 b1 b2 b3 b4 b5 b6 b7 where "b = [b0, b1, b2, b3, b4, b5, b6, b7]"
  using assms by (auto simp: numeral_eq_Suc length_Suc_conv)

lemma B_at_Suc: "B_at x (Suc t) = B_at x (Suc (t mod 8))"
  using B_at_mod [of x "Suc t"] B_at_mod [of x "Suc (t mod 8)"] by (simp add: mod_Suc_eq)

lemma round_small:
  assumes "length b = 8" and "t < 8"
  shows "unrot (Suc t) (update_b (w + k) t b) = sha_round k w (unrot t b)"
proof -
  obtain b0 b1 b2 b3 b4 b5 b6 b7 where b: "b = [b0, b1, b2, b3, b4, b5, b6, b7]" using assms(1) by (rule eight_split)
  have "t \<in> {0, 1, 2, 3, 4, 5, 6, 7}" using assms(2) by auto
  then show ?thesis
    by (elim insertE emptyE) (simp_all add: b unrot_def update_b_def B_at_def Let_def Ch_alt Maj_alt macros add.assoc add.commute add.left_commute)
qed

lemma round_step:
  assumes "length b = 8"
  shows "unrot (Suc t) (update_b (w + k) t b) = sha_round k w (unrot t b)"
  using round_small [OF assms, of "t mod 8" w k]
  by (simp add: unrot_def update_b_def B_at_mod B_at_Suc [symmetric])

text \<open>The window of sixteen words of the schedule before round \<open>t\<close>.\<close>

definition window :: "word32 list \<Rightarrow> nat \<Rightarrow> word32 list \<Rightarrow> bool" where
  "window M t p \<longleftrightarrow> length p = 16 \<and> (\<forall>s. s < max t 16 \<and> max t 16 \<le> s + 16 \<longrightarrow> p ! (s mod 16) = schedule M s)"

lemma window_start: "length M = 16 \<Longrightarrow> window M 0 M"
  by (auto simp: window_def schedule.simps)

lemma window_early: "window M t p \<Longrightarrow> t < 16 \<Longrightarrow> window M (Suc t) p \<and> p ! t = schedule M t"
  by (auto simp: window_def max_def dest!: spec [of _ t] split: if_splits)

lemma P_at_back: "d \<le> t \<Longrightarrow> d \<le> 16 \<Longrightarrow> P_at t (16 - d) = (t - d) mod 16"
  using mod_add_self2 [of "t - d" 16] by (simp add: P_at_def)

lemma window_late:
  assumes "window M t p" and "16 \<le> t"
  shows "window M (Suc t) (update_p t p) \<and> update_p t p ! (t mod 16) = schedule M t"
proof -
  have w: "p ! ((t - d) mod 16) = schedule M (t - d)" if "0 < d" "d \<le> 16" for d
    using assms that by (auto simp: window_def)
  have sch: "schedule M t = sigma1 (schedule M (t - 2)) + schedule M (t - 7) + sigma0 (schedule M (t - 15)) + schedule M (t - 16)"
    using assms(2) by (subst schedule.simps) simp
  have at: "p ! P_at t 14 = schedule M (t - 2)" "p ! P_at t 9 = schedule M (t - 7)" "p ! P_at t 1 = schedule M (t - 15)"
    using w [of 2] w [of 7] w [of 15] P_at_back [of 2 t] P_at_back [of 7 t] P_at_back [of 15 t] assms(2) by (simp_all del: mod_less)
  have now: "p ! (t mod 16) = schedule M (t - 16)" using w [of 16] assms(2) by (simp add: le_mod_geq)
  have eq: "p ! (t mod 16) + (G1 (p ! P_at t 14) + p ! P_at t 9 + G0 (p ! P_at t 1)) = schedule M t"
    unfolding at now macros sch by (simp only: add.commute)
  have up: "update_p t p = p[t mod 16 := schedule M t]" unfolding update_p_def eq ..
  have "t mod 16 \<noteq> s mod 16" if "s < t" "t \<le> 15 + s" for s
    using that mod_eq_dvd_iff_nat [of s t 16] by (auto dest: dvd_imp_le)
  then show ?thesis
    using assms unfolding up window_def by (auto simp: nth_list_update less_Suc_eq)
qed

definition in_round :: "word32 list \<Rightarrow> word32 list \<Rightarrow> nat \<Rightarrow> word32 list \<times> word32 list \<Rightarrow> bool" where
  "in_round M st t bp \<longleftrightarrow> length (fst bp) = 8 \<and> window M t (snd bp) \<and> unrot t (fst bp) = sha_rounds M t st"

lemma shift_mod: "16 dvd j \<Longrightarrow> (i + j) mod 8 = i mod 8" "16 dvd j \<Longrightarrow> (i + j) mod 16 = i mod 16" for i j :: nat
  using mod_mult_self2 [of i 8 "2 * (j div 16)"] mod_mult_self2 [of i 16 "j div 16"] by simp_all

lemma update_b_shift: "16 dvd j \<Longrightarrow> update_b kw (i + j) b = update_b kw i b"
  using B_at_mod [of _ "i + j"] B_at_mod [of _ i] by (simp add: update_b_def shift_mod)

lemma update_p_shift: "16 dvd j \<Longrightarrow> update_p (i + j) p = update_p i p"
  using shift_mod(2) [of j "i + 14"] shift_mod(2) [of j "i + 9"] shift_mod(2) [of j "i + 1"]
  by (simp add: update_p_def P_at_def shift_mod add.assoc add.commute add.left_commute)

lemma rtrf_round:
  assumes "in_round M st (i + j) bp" and "i < 16" and "16 dvd j" and "i + j < 64"
  shows "in_round M st (Suc (i + j)) (rtrf bp i j)"
proof -
  obtain b p where bp: "bp = (b, p)" by (cases bp)
  let ?p = "if j \<noteq> 0 then update_p i p else p"
  have i: "(i + j) mod 16 = i" using assms(2,3) by (simp add: shift_mod)
  have "window M (Suc (i + j)) ?p \<and> ?p ! i = schedule M (i + j)"
    using window_early [of M i p] window_late [of M "i + j" p] assms bp i update_p_shift [of j i p] by (cases "j = 0") (auto simp: in_round_def dest: dvd_imp_le)
  moreover have "unrot (Suc (i + j)) (update_b (?p ! i + K_table ! (i + j)) i b) = sha_round (K_table ! (i + j)) (?p ! i) (unrot (i + j) b)"
    using round_step [of b "i + j" "?p ! i" "K_table ! (i + j)"] assms(1,3) bp by (simp add: in_round_def update_b_shift)
  ultimately show ?thesis using assms bp by (simp add: in_round_def rtrf_eq Let_def K_table_K256)
qed

lemma rounds16_round:
  assumes "in_round M st j bp" and "16 dvd j" and "j < 64"
  shows "in_round M st (j + 16) (rounds16 bp j)"
proof -
  have "in_round M st (j + n) (foldl (\<lambda>bp i. rtrf bp i j) bp [0..<n])" if "n \<le> 16" for n
    using that
  proof (induction n)
    case (Suc n)
    have "j + n < 64" using Suc.prems assms(2,3) by (auto elim!: dvdE)
    then show ?case using Suc rtrf_round [of M st n j] assms(2) by (simp add: add.commute)
  qed (simp add: assms(1))
  moreover have "[0..<16] = [0, 1, 2, 3, 4, 5, 6, 7, 8, 9, 10, 11, 12, 13, 14, 15 :: nat]" by code_simp
  ultimately show ?thesis unfolding rounds16_def by (metis order_refl)
qed

lemma unrot_0: "length b = 8 \<Longrightarrow> unrot 0 b = b" "length b = 8 \<Longrightarrow> unrot 64 b = b"
  by (auto simp: unrot_def B_at_def elim!: eight_split)

lemma length_sha_rounds [simp]: "length st = 8 \<Longrightarrow> length (sha_rounds M t st) = 8"
  by (induction t) (auto elim!: eight_split simp: Let_def)

lemma hash_block_compress:
  assumes "length (sha_hash ctx) = 8" and "length (sha_buf ctx) = 16"
  shows "sha_hash (hash_block ctx) = map2 (+) (sha_hash ctx) (sha_rounds (sha_buf ctx) 64 (sha_hash ctx)) \<and>
    length (sha_buf (hash_block ctx)) = 16 \<and> sha_len0 (hash_block ctx) = sha_len0 ctx \<and> sha_len1 (hash_block ctx) = sha_len1 ctx"
proof -
  let ?M = "sha_buf ctx" and ?st = "sha_hash ctx"
  obtain b p where bp: "foldl rounds16 (?st, ?M) [0, 16, 32, 48] = (b, p)" by (metis surj_pair)
  have "in_round ?M ?st 0 (?st, ?M)" using assms by (simp add: in_round_def window_start unrot_0)
  then have "in_round ?M ?st 64 (foldl rounds16 (?st, ?M) [0, 16, 32, 48])"
    using rounds16_round [of ?M ?st 0] rounds16_round [of ?M ?st 16] rounds16_round [of ?M ?st 32] rounds16_round [of ?M ?st 48] by simp
  then have "in_round ?M ?st 64 (b, p)" by (simp only: bp)
  then show ?thesis using assms(1) bp unrot_0(2) [of b] by (simp add: hash_block_def in_round_def window_def)
qed

end
