(* ===== verification/Sha256_Digest.thy ===== *)
theory Sha256_Digest
  imports Sha256_Facts
begin

text \<open>
  The buffer of \<^verbatim>\<open>sha256.c\<close>, the octets that it still holds, the padding, and the digest of a
  message that comes in pieces.
\<close>

section \<open>The buffer\<close>

lemma memcp_eq: "i + length s \<le> length d \<Longrightarrow> memcp d i s = Some (take i d @ s @ drop (i + length s) d)"
proof (induction s arbitrary: d i)
  case (Cons b s)
  have "take (Suc i) (d[i := b]) = take i d @ [b]" using Cons.prems by (simp add: take_Suc_conv_app_nth)
  then show ?case using Cons by simp
qed simp

lemma bswapw_eq: "n \<le> length p \<Longrightarrow> bswapw p n = map bswap (take n p) @ drop n p"
proof (induction n arbitrary: p)
  case (Suc n)
  have "drop n (p[n := bswap (p ! n)]) = bswap (p ! n) # drop (Suc n) p"
    using Suc.prems by (simp add: drop_update_swap flip: Cons_nth_drop_Suc)
  then show ?case using Suc by (simp add: take_Suc_conv_app_nth)
qed simp

lemma be_word_masks:
  "be_word a b c d AND be_word a' b' c' d' = be_word (a AND a') (b AND b') (c AND c') (d AND d')"
  "be_word a b c d OR be_word a' b' c' d' = be_word (a OR a') (b OR b') (c OR c') (d OR d')"
  by (auto simp: bit_be_word word_bits intro!: bit_word_eqI)

lemma RR_be_word: "RR (be_word a b c d) 8 = be_word d a b c" "RR (be_word a b c d) 24 = be_word b c d a"
proof -
  have "bit (RR (be_word a b c d) 8) n = bit (be_word d a b c) n \<and> bit (RR (be_word a b c d) 24) n = bit (be_word b c d a) n" if "n < 32" for n
  proof -
    consider "n < 8" | "8 \<le> n" "n < 16" | "16 \<le> n" "n < 24" | "24 \<le> n" using that by linarith
    then show ?thesis using that by cases (auto simp: RR_def bit_be_word word_bits)
  qed
  then show "RR (be_word a b c d) 8 = be_word d a b c" "RR (be_word a b c d) 24 = be_word b c d a"
    by (auto intro!: bit_word_eqI)
qed

lemma byte_ones: "x AND 0xff = (x :: byte)"
proof -
  have "(0xff :: byte) = -1" by simp
  then show ?thesis by (simp only: and.right_neutral)
qed

lemma bswap_le_word: "bswap (le_word a b c d) = be_word a b c d"
proof -
  have masks: "0x00ff00ff = be_word 0 0xff 0 0xff" "0xff00ff00 = be_word 0xff 0 0xff 0" by (simp_all add: be_word_def)
  show ?thesis unfolding bswap_def le_word_def RR_be_word masks be_word_masks byte_ones by simp
qed

lemma map_bswap_le_words: "map bswap (le_words xs) = be_words xs"
  by (induction xs rule: le_words.induct) (simp_all add: bswap_le_word)

abbreviation buf_octets :: "sha256_context \<Rightarrow> byte list" where
  "buf_octets ctx \<equiv> concat (map le_octets (sha_buf ctx))"

lemma fill_buf_eq:
  assumes "length (sha_buf ctx) = 16" and "i + n \<le> 64" and "j + n \<le> length dat"
  shows "\<exists>ws. fill_buf ctx i dat j n = Some (ctx\<lparr>sha_buf := ws\<rparr>) \<and> length ws = 16
    \<and> ws = le_words (take i (buf_octets ctx) @ take n (drop j dat) @ drop (i + n) (buf_octets ctx))
    \<and> concat (map le_octets ws) = take i (buf_octets ctx) @ take n (drop j dat) @ drop (i + n) (buf_octets ctx)"
proof -
  let ?d = "take i (buf_octets ctx) @ take n (drop j dat) @ drop (i + n) (buf_octets ctx)"
  have "length ?d = 4 * 16" using assms by (simp add: min_def) arith
  moreover have "length (take n (drop j dat)) = n" using assms by simp
  moreover from this have "memcp (buf_octets ctx) i (take n (drop j dat)) = Some ?d"
    using memcp_eq [of i "take n (drop j dat)" "buf_octets ctx"] assms by simp
  ultimately show ?thesis using assms le_octets_le_words [of ?d 16] by (simp add: fill_buf_def)
qed

definition same_len :: "sha256_context \<Rightarrow> sha256_context \<Rightarrow> bool" where
  "same_len c c' \<longleftrightarrow> sha_len0 c' = sha_len0 c \<and> sha_len1 c' = sha_len1 c"

definition absorbed :: "word32 list \<Rightarrow> byte list \<Rightarrow> sha256_context \<Rightarrow> bool" where
  "absorbed h r ctx \<longleftrightarrow> length (sha_buf ctx) = 16 \<and> sha_hash ctx = absorb compress256 h r
     \<and> take (length r mod 64) (buf_octets ctx) = pending r"

lemma length_absorb: "length h = 8 \<Longrightarrow> length (absorb compress256 h m) = 8"
proof (induction compress256 h m rule: absorb.induct)
  case (1 st m)
  then show ?case by (subst absorb.simps) (simp add: compress256_def)
qed

lemma hash_block_octets:
  assumes "length (sha_hash ctx) = 8" and "sha_buf ctx = be_words b" and "length b = 64"
  shows "sha_hash (hash_block ctx) = compress256 (sha_hash ctx) b \<and> length (sha_buf (hash_block ctx)) = 16 \<and> same_len ctx (hash_block ctx)"
  using hash_block_compress [of ctx] assms by (simp add: compress256_def same_len_def words_length(1) [of b 16])

lemma hash_loop_absorbs:
  assumes "length (sha_buf ctx) = 16" and "length (sha_hash ctx) = 8" and "i < 64" and "take i (buf_octets ctx) = r" and "length r = i"
    and "j + sz = length dat"
  shows "\<exists>ctx'. hash_loop ctx dat i j sz = Some ctx' \<and> absorbed (sha_hash ctx) (r @ drop j dat) ctx' \<and> same_len ctx ctx'"
  using assms
proof (induction ctx dat i j sz arbitrary: r rule: hash_loop.induct)
  case (1 ctx dat i j sz)
  show ?case
  proof (cases "64 - i \<le> sz")
    case False
    then obtain ws where ws: "fill_buf ctx i dat j sz = Some (ctx\<lparr>sha_buf := ws\<rparr>)" "length ws = 16"
      "concat (map le_octets ws) = take i (buf_octets ctx) @ take sz (drop j dat) @ drop (i + sz) (buf_octets ctx)"
      using fill_buf_eq [of ctx i sz j dat] 1 by auto
    then show ?thesis using False 1 by (subst hash_loop.simps) (auto simp: absorbed_def same_len_def)
  next
    case True
    let ?d = "take (64 - i) (drop j dat)"
    have len: "length (r @ ?d) = 64" using True 1 by simp
    obtain ws where ws: "fill_buf ctx i dat j (64 - i) = Some (ctx\<lparr>sha_buf := ws\<rparr>)" "length ws = 16" "ws = le_words (r @ ?d)"
      using fill_buf_eq [of ctx i "64 - i" j dat] True 1 by auto
    let ?c = "hash_block (ctx\<lparr>sha_buf := bswapw ws 16\<rparr>)"
    have "bswapw ws 16 = be_words (r @ ?d)" using ws by (simp add: bswapw_eq map_bswap_le_words)
    then have c: "sha_hash ?c = compress256 (sha_hash ctx) (r @ ?d) \<and> length (sha_buf ?c) = 16 \<and> same_len ctx ?c"
      using hash_block_octets [of "ctx\<lparr>sha_buf := bswapw ws 16\<rparr>" "r @ ?d"] 1(3) len by (simp add: same_len_def)
    have split: "r @ drop j dat = (r @ ?d) @ drop (j + (64 - i)) dat" by simp (metis append_take_drop_id drop_drop add.commute)
    have ab: "absorbed (sha_hash ctx) (r @ drop j dat) c' = absorbed (sha_hash ?c) (drop (j + (64 - i)) dat) c'" for c'
      using c len unfolding split absorbed_def by (simp only: absorb_block pending_block length_append) simp
    have "\<exists>ctx'. hash_loop ?c dat 0 (j + (64 - i)) (sz - (64 - i)) = Some ctx'
        \<and> absorbed (sha_hash ?c) ([] @ drop (j + (64 - i)) dat) ctx' \<and> same_len ?c ctx'"
      using 1(1) [OF True ws(1), of "[]"] c True 1 length_absorb by (simp add: compress256_def)
    then show ?thesis using True ws(1) c ab by (subst hash_loop.simps) (auto simp: same_len_def)
  qed
qed

section \<open>Adding octets\<close>

definition holds256 :: "sha256_context \<Rightarrow> byte list \<Rightarrow> bool" where
  "holds256 ctx m \<longleftrightarrow> absorbed H256 m ctx \<and> sha_len0 ctx = word_of_nat (length m) \<and> sha_len1 ctx = word_of_nat (length m div 2 ^ 32)"

lemma holds256_init: "length (sha_buf ctx) = 16 \<Longrightarrow> holds256 (sha256_init ctx) []"
  by (simp add: holds256_def absorbed_def sha256_init_H256) (simp add: sha256_init_def)

lemma wrapped_sum:
  assumes "a < N" and "s < (N :: nat)"
  shows "(a + s) mod N < s \<longleftrightarrow> (a + s) div N = 1" and "(a + s) div N \<le> 1"
proof -
  consider "a + s < N" | "N \<le> a + s" "a + s - N < N" using assms by linarith
  then have "((a + s) mod N < s \<longleftrightarrow> (a + s) div N = 1) \<and> (a + s) div N \<le> 1"
    using assms by cases (auto simp: le_mod_geq le_div_geq)
  then show "(a + s) mod N < s \<longleftrightarrow> (a + s) div N = 1" and "(a + s) div N \<le> 1" by auto
qed

lemma length_carry:
  assumes "s < 2 ^ 32"
  shows "word_of_nat ((n + s) div 2 ^ 32) = (word_of_nat (n div 2 ^ 32) :: word32)
    + (if (word_of_nat (n + s) :: word32) < word_of_nat s then 1 else 0)"
proof -
  have s: "unat (word_of_nat s :: word32) = s" using assms by (simp add: unat_of_nat)
  have u: "unat (word_of_nat (n + s) :: word32) = (n mod 2 ^ 32 + s) mod 2 ^ 32" by (simp add: unat_of_nat mod_simps del: of_nat_add)
  have d: "(n + s) div 2 ^ 32 = n div 2 ^ 32 + (n mod 2 ^ 32 + s) div 2 ^ 32" using assms by (subst div_add1_eq) simp
  have "(word_of_nat (n + s) :: word32) < word_of_nat s \<longleftrightarrow> (n mod 2 ^ 32 + s) div 2 ^ 32 = 1"
    and "(n mod 2 ^ 32 + s) div 2 ^ 32 \<le> 1"
    using wrapped_sum [OF _ assms, of "n mod 2 ^ 32"] unfolding word_less_nat_alt s u by simp_all
  then show ?thesis unfolding d of_nat_add by (cases "(n mod 2 ^ 32 + s) div 2 ^ 32") auto
qed

lemma length_and_63: "unat (word_of_nat n AND 63 :: word32) = n mod 64"
  by (simp add: unat_and_3F unat_of_nat mod_mod_cancel)

lemma sha256_hash_holds:
  assumes "holds256 ctx m" and "length d < 2 ^ 32"
  shows "\<exists>ctx'. sha256_hash ctx d (length d) = Some ctx' \<and> holds256 ctx' (m @ d)"
proof -
  let ?c = "ctx\<lparr>sha_len0 := word_of_nat (length m + length d), sha_len1 := word_of_nat ((length m + length d) div 2 ^ 32)\<rparr>"
  have "sha256_hash ctx d (length d) = hash_loop ?c d (length m mod 64) 0 (length d)"
    using assms length_carry [of "length d" "length m"]
    by (cases ctx) (auto simp: sha256_hash_def holds256_def Let_def length_and_63)
  moreover have "\<exists>c'. hash_loop ?c d (length m mod 64) 0 (length d) = Some c' \<and> absorbed (sha_hash ctx) (pending m @ d) c' \<and> same_len ?c c'"
    using hash_loop_absorbs [of ?c "length m mod 64" "pending m" 0 "length d" d] assms(1)
    by (simp add: holds256_def absorbed_def length_absorb)
  ultimately show ?thesis using assms(1)
    by (auto simp: holds256_def same_len_def absorbed_def absorb_append [of _ _ m] pending_append [of m] mod_simps)
qed

section \<open>The end of the message\<close>

lemma zero_words_eq: "i + n \<le> length p \<Longrightarrow> zero_words p i n = take i p @ replicate n 0 @ drop (i + n) p"
proof (induction n arbitrary: p i)
  case (Suc n)
  have "take (Suc i) (p[i := 0]) = take i p @ [0]" using Suc.prems by (simp add: take_Suc_conv_app_nth)
  then show ?case using Suc by (simp add: replicate_app_Cons_same)
qed simp

lemma not_and_3: "unat (NOT (word_of_nat i :: word32) AND 3) = 3 - i mod 4"
proof -
  let ?w = "word_of_nat i :: word32"
  have m: "mask 2 = (3 :: word32)" by (simp add: mask_eq_exp_minus_1)
  have w: "unat (take_bit 2 ?w) = i mod 4" by (simp only: unsigned_take_bit_eq) (simp add: take_bit_eq_mod unat_of_nat mod_mod_cancel)
  have "NOT ?w AND 3 = 3 - take_bit 2 ?w" using take_bit_not_eq_mask_diff [of 2 ?w] take_bit_eq_mask [of 2 "NOT ?w"] by (simp add: m)
  moreover have "take_bit 2 ?w \<le> 3" by (simp add: word_le_nat_alt w)
  ultimately show ?thesis by (simp add: unat_sub w)
qed

lemma le_words_nth: "length xs = 4 * n \<Longrightarrow> k < n \<Longrightarrow> bswap (le_words xs ! k) = be_words xs ! k"
  using map_bswap_le_words [of xs] by (metis length_map nth_map words_length(1))

lemma padding_word:
  "be_word a b c d AND push_bit (unat (NOT (word_of_nat n :: word32) AND 3) * 8) 0xffffff80
      OR push_bit (unat (NOT (word_of_nat n :: word32) AND 3) * 8) 0x80
   = (if n mod 4 = 0 then be_word 0x80 0 0 0 else if n mod 4 = 1 then be_word a 0x80 0 0
      else if n mod 4 = 2 then be_word a b 0x80 0 else be_word a b c 0x80)"
proof -
  have masks: "push_bit 24 (0xffffff80 :: word32) = be_word 0x80 0 0 0" "push_bit 24 (0x80 :: word32) = be_word 0x80 0 0 0"
    "push_bit 16 (0xffffff80 :: word32) = be_word 0xff 0x80 0 0" "push_bit 16 (0x80 :: word32) = be_word 0 0x80 0 0"
    "push_bit 8 (0xffffff80 :: word32) = be_word 0xff 0xff 0x80 0" "push_bit 8 (0x80 :: word32) = be_word 0 0 0x80 0"
    "push_bit 0 (0xffffff80 :: word32) = be_word 0xff 0xff 0xff 0x80" "push_bit 0 (0x80 :: word32) = be_word 0 0 0 0x80"
    by (simp_all add: be_word_def push_bit_eq_mult)
  have top: "x AND 0x80 OR 0x80 = (0x80 :: byte)" for x by (rule bit_word_eqI) (auto simp: word_bits)
  consider "n mod 4 = 0" "(3 - n mod 4) * 8 = 24" | "n mod 4 = 1" "(3 - n mod 4) * 8 = 16"
    | "n mod 4 = 2" "(3 - n mod 4) * 8 = 8" | "n mod 4 = 3" "(3 - n mod 4) * 8 = 0" by (cases "n mod 4 = 0"; cases "n mod 4 = 1"; cases "n mod 4 = 2") force+
  then show ?thesis by cases (simp_all only: not_and_3 masks be_word_masks byte_ones top, simp_all)
qed

lemma padding_words:
  assumes "length (r @ g) = 64" and "length r = n" and "n < 64"
  shows "take (Suc (n div 4)) (add_padding (bswapw (le_words (r @ g)) ((n + 3) div 4)) n) = be_words (r @ [0x80] @ replicate (3 - n mod 4) 0)"
    (is "take _ ?p = be_words ?x")
proof (rule nth_equalityI)
  let ?ws = "le_words (r @ g)" and ?q = "(n + 3) div 4"
  have len: "length ?ws = 16" using assms by (intro words_length(2)) simp
  have lx: "length ?x = 4 * Suc (n div 4)" using assms(2) by simp arith
  have q: "?q \<le> 16" using assms(3) by simp
  then have sw: "bswapw ?ws ?q ! k = (if k < ?q then be_words (r @ g) ! k else ?ws ! k)" if "k < 16" for k
    using that len assms le_words_nth [of "r @ g" 16 k] by (simp add: bswapw_eq nth_append)
  have lb: "length (bswapw ?ws ?q) = 16" using len q by (simp add: bswapw_eq)
  then have lp: "length ?p = 16" by (simp add: add_padding_def Let_def)
  show "length (take (Suc (n div 4)) ?p) = length (be_words ?x)"
    using assms(3) lp words_length(1) [OF lx] by simp
  fix k assume "k < length (take (Suc (n div 4)) ?p)"
  then have k: "k \<le> n div 4" "k < 16" using lp by auto
  have bx: "be_words ?x ! k = be_word (?x ! (4 * k)) (?x ! (4 * k + 1)) (?x ! (4 * k + 2)) (?x ! (4 * k + 3))"
    using be_words_nth [OF lx, of k] k by simp
  have brg: "be_words (r @ g) ! k = be_word ((r @ g) ! (4 * k)) ((r @ g) ! (4 * k + 1)) ((r @ g) ! (4 * k + 2)) ((r @ g) ! (4 * k + 3))"
    using be_words_nth [of "r @ g" 16 k] k assms(1) by simp
  show "take (Suc (n div 4)) ?p ! k = be_words ?x ! k"
  proof (cases "k = n div 4")
    case False
    then have "4 * k + 3 < n" "k < ?q" using k by auto
    moreover have "take (Suc (n div 4)) ?p ! k = bswapw ?ws ?q ! k" using False k by (simp add: add_padding_def Let_def)
    ultimately show ?thesis using bx brg sw [of k] k assms(2) by (simp add: nth_append)
  next
    case True
    have n: "n = 4 * k + n mod 4" using True by simp
    obtain a b c d where w: "bswapw ?ws ?q ! k = be_word a b c d"
      and abcd: "n mod 4 \<noteq> 0 \<longrightarrow> a = (r @ g) ! (4 * k) \<and> b = (r @ g) ! (4 * k + 1) \<and> c = (r @ g) ! (4 * k + 2)"
    proof (cases "n mod 4 = 0")
      case True
      obtain a b c d where "bswapw ?ws ?q ! k = be_word a b c d" using be_word_octets by metis
      then show ?thesis by (rule that) (simp add: True)
    next
      case False
      then have "k < ?q" using n by presburger
      then show ?thesis using that sw [of k] brg k by simp
    qed
    have "take (Suc (n div 4)) ?p ! k = be_word a b c d AND push_bit (unat (NOT (word_of_nat n :: word32) AND 3) * 8) 0xffffff80
        OR push_bit (unat (NOT (word_of_nat n :: word32) AND 3) * 8) 0x80"
      using True k w lb by (simp add: add_padding_def Let_def)
    then show ?thesis
      unfolding bx padding_word using abcd n assms(2) by (auto simp: nth_append nth_Cons' split: if_splits)
  qed
qed

lemma length_words:
  "push_bit 3 (word_of_nat l) = (word_of_nat (8 * l) :: word32)"
  "push_bit 3 (word_of_nat (l div 2 ^ 32)) OR drop_bit 29 (word_of_nat l) = (word_of_nat (8 * l div 2 ^ 32) :: word32)"
proof -
  show "push_bit 3 (word_of_nat l) = (word_of_nat (8 * l) :: word32)" by (simp add: push_bit_eq_mult)
  have d: "drop_bit 29 (word_of_nat l :: word32) = word_of_nat (l mod 2 ^ 32 div 2 ^ 29)"
    by (rule word_unat_eq_iff [THEN iffD2]) (simp add: unat_drop unat_of_nat)
  have "push_bit 3 (word_of_nat (l div 2 ^ 32) :: word32) AND drop_bit 29 (word_of_nat l) = 0"
    by (rule bit_word_eqI) (auto simp: word_bits)
  then have "push_bit 3 (word_of_nat (l div 2 ^ 32)) OR drop_bit 29 (word_of_nat l :: word32)
      = push_bit 3 (word_of_nat (l div 2 ^ 32)) + drop_bit 29 (word_of_nat l)"
    by (simp add: disjunctive_add_eq_or)
  also have "\<dots> = word_of_nat (8 * (l div 2 ^ 32) + l mod 2 ^ 32 div 2 ^ 29)" unfolding d by (simp add: push_bit_eq_mult)
  also have "8 * (l div 2 ^ 32) + l mod 2 ^ 32 div 2 ^ 29 = 8 * l div 2 ^ 32"
  proof -
    have "l div 2 ^ 32 = l div 2 ^ 29 div 8" using div_mult2_eq [of l "2 ^ 29" 8] by simp
    moreover have "l mod 2 ^ 32 = 2 ^ 29 * (l div 2 ^ 29 mod 8) + l mod 2 ^ 29" using mod_mult2_eq [of l "2 ^ 29" 8] by simp
    ultimately show ?thesis by simp
  qed
  finally show "push_bit 3 (word_of_nat (l div 2 ^ 32)) OR drop_bit 29 (word_of_nat l) = (word_of_nat (8 * l div 2 ^ 32) :: word32)" .
qed

lemma be_words_zeros: "be_words (replicate (4 * n) 0) = replicate n 0"
proof (induction n)
  case (Suc n)
  have "replicate 4 (0 :: byte) = [0, 0, 0, 0]" by (simp add: numeral_eq_Suc)
  then show ?case using Suc by (simp add: replicate_add be_word_def)
qed simp

lemma length_2D: "length xs = 2 \<Longrightarrow> \<exists>x y. xs = [x, y]"
  by (auto simp: length_Suc_conv numeral_2_eq_2)

lemma be_words_length64: "be_words (be_octets64 n) = [word_of_nat (n div 2 ^ 32), word_of_nat n]"
  by (simp add: be_octets64_def)

lemma add_length_eq:
  assumes "length (sha_buf ctx) = 16" and "sha_len0 ctx = word_of_nat l" and "sha_len1 ctx = word_of_nat (l div 2 ^ 32)"
  shows "add_length ctx = ctx\<lparr>sha_buf := take 14 (sha_buf ctx) @ be_words (be_octets64 (8 * l))\<rparr>"
proof -
  obtain p x y where "sha_buf ctx = p @ [x, y]" "length p = 14"
  proof -
    have "length (drop 14 (sha_buf ctx)) = 2" using assms(1) by simp
    then obtain x y where "drop 14 (sha_buf ctx) = [x, y]" using length_2D by blast
    then show ?thesis using that [of "take 14 (sha_buf ctx)" x y] assms(1) append_take_drop_id [of 14 "sha_buf ctx"] by simp
  qed
  then show ?thesis using assms length_words [of l] by (simp add: add_length_def be_words_length64 list_update_append)
qed

lemma digest_eq: "length h = 8 \<Longrightarrow> map (digest_octet h) [0..<32] = concat (map be_octets h)"
proof -
  assume "length h = 8"
  then obtain h0 h1 h2 h3 h4 h5 h6 h7 where "h = [h0, h1, h2, h3, h4, h5, h6, h7]" by (rule eight_split)
  then show ?thesis by (simp add: upt_rec digest_octet_def not_and_3 be_octets_def)
qed

lemma padding_length: "length (r :: byte list) = n \<Longrightarrow> length (r @ [0x80] @ replicate (3 - n mod 4) (0 :: byte)) = 4 * Suc (n div 4)"
  by simp arith

lemma padding_zeros:
  assumes "length r = n"
  shows "be_words (r @ [0x80] @ replicate (3 - n mod 4) 0) @ replicate q 0 = be_words (r @ [0x80] @ replicate (3 - n mod 4 + 4 * q) 0)"
proof -
  have "r @ [0x80] @ replicate (3 - n mod 4 + 4 * q) 0 = (r @ [0x80] @ replicate (3 - n mod 4) 0) @ replicate (4 * q) (0 :: byte)"
    by (simp only: replicate_add append_assoc)
  then show ?thesis using be_words_append [OF padding_length [OF assms]] be_words_zeros [of q] by presburger
qed

text \<open>The words of the last block or of the last but one.\<close>

lemma closing_words:
  assumes "length p = 16" and "take (Suc (n div 4)) p = be_words (r @ [0x80] @ replicate (3 - n mod 4) 0)" and "length r = n" and "n < 64"
  shows "n < 56 \<Longrightarrow> take 14 (zero_words p (n div 4 + 1) (14 - (n div 4 + 1))) @ be_words (be_octets64 l)
      = be_words (r @ [0x80] @ replicate (55 - n) 0 @ be_octets64 l)"
    and "56 \<le> n \<Longrightarrow> p[15 := p ! 15 XOR (if n < 60 then p ! 15 else 0)] = be_words (r @ [0x80] @ replicate (63 - n) 0)"
proof -
  assume n: "n < 56"
  let ?q = "14 - (n div 4 + 1)"
  have "n div 4 + 1 + ?q = 14" using n by simp
  then have "take 14 (zero_words p (n div 4 + 1) ?q) = take (Suc (n div 4)) p @ replicate ?q 0"
    using assms(1) zero_words_eq [of "n div 4 + 1" ?q p] by simp
  also have "\<dots> = be_words (r @ [0x80] @ replicate (3 - n mod 4 + 4 * ?q) 0)" using assms(2) padding_zeros [OF assms(3)] by simp
  also have "3 - n mod 4 + 4 * ?q = 55 - n" using n by arith
  finally have "take 14 (zero_words p (n div 4 + 1) ?q) = be_words (r @ [0x80] @ replicate (55 - n) 0)" .
  moreover have "length (r @ [0x80] @ replicate (55 - n) (0 :: byte)) = 4 * 14" using assms(3) n by simp
  ultimately show "take 14 (zero_words p (n div 4 + 1) ?q) @ be_words (be_octets64 l) = be_words (r @ [0x80] @ replicate (55 - n) 0 @ be_octets64 l)"
    using be_words_append [of "r @ [0x80] @ replicate (55 - n) 0" 14 "be_octets64 l"] by simp
next
  assume n: "56 \<le> n"
  show "p[15 := p ! 15 XOR (if n < 60 then p ! 15 else 0)] = be_words (r @ [0x80] @ replicate (63 - n) 0)"
  proof (cases "n < 60")
    case True
    have "n div 4 = 14" using n True by simp
    moreover have "3 - n mod 4 + 4 * 1 = 63 - n" using n True by arith
    moreover have "p[15 := 0] = take 15 p @ replicate 1 0"
      using assms(1) by (simp add: upd_conv_take_nth_drop)
    ultimately show ?thesis using True assms(2) padding_zeros [OF assms(3), of 1] by simp
  next
    case False
    have "n div 4 = 15" using assms(4) False by simp
    moreover have "3 - n mod 4 = 63 - n" using assms(4) False by arith
    ultimately show ?thesis using False assms(1,2) by simp
  qed
qed


section \<open>The digest\<close>

lemma padded_absorb:
  assumes "n = length m mod 64"
  shows "n < 56 \<Longrightarrow> absorb f st (padded m) = f (absorb f st m) (pending m @ [0x80] @ replicate (55 - n) 0 @ be_octets64 (8 * length m))"
    and "56 \<le> n \<Longrightarrow> absorb f st (padded m)
      = f (f (absorb f st m) (pending m @ [0x80] @ replicate (63 - n) 0)) (replicate 56 0 @ be_octets64 (8 * length m))"
proof -
  have len: "length (be_octets64 k) = 8" for k by (simp add: be_octets64_def)
  have z: "nat ((55 - int (length m)) mod 64) = (if n < 56 then 55 - n else (63 - n) + 56)"
    using gap_mod [of 55 "length m", folded assms] mod_less_divisor [of 64 "length m", folded assms] by auto
  { assume n: "n < 56"
    let ?b = "pending m @ [0x80] @ replicate (55 - n) 0 @ be_octets64 (8 * length m)"
    have "length ?b = 64" using n assms by (simp add: len)
    then show "absorb f st (padded m) = f (absorb f st m) ?b"
      using absorb_block [of ?b f "absorb f st m" "[]"] n by (simp add: padded_def absorb_append [of _ _ m] z)
  next
    assume n: "56 \<le> n"
    let ?b = "pending m @ [0x80] @ replicate (63 - n) 0" and ?c = "replicate 56 0 @ be_octets64 (8 * length m)"
    have "n < 64" using assms by simp
    then have b: "length ?b = 64" using n assms by simp
    have c: "length ?c = 64" by (simp add: len)
    have "padded m = m @ [0x80] @ replicate (63 - n) 0 @ ?c" using n unfolding padded_def z by (simp add: replicate_add)
    then have "absorb f st (padded m) = absorb f (absorb f st m) (?b @ ?c)" by (simp add: absorb_append [of _ _ m])
    also have "\<dots> = f (f (absorb f st m) ?b) ?c"
      using absorb_block [OF b, of f "absorb f st m" ?c] absorb_block [OF c, of f "f (absorb f st m) ?b" "[]"] by simp
    finally show "absorb f st (padded m) = f (f (absorb f st m) ?b) ?c" . }
qed

lemma sha256_done_digest:
  assumes "holds256 ctx m"
  shows "snd (sha256_done ctx) = SHA256 m"
proof -
  let ?n = "length m mod 64" and ?l = "8 * length m"
  let ?p = "add_padding (bswapw (sha_buf ctx) ((?n + 3) div 4)) ?n" and ?h = "absorb compress256 H256 m"
  note h = assms [unfolded holds256_def absorbed_def]
  have i: "unat (sha_len0 ctx AND 63) = ?n" using h by (simp add: length_and_63)
  have lh: "length ?h = 8" by (simp add: length_absorb)
  have buf: "sha_buf ctx = le_words (pending m @ drop ?n (buf_octets ctx))"
    using h append_take_drop_id [of ?n "buf_octets ctx"] by simp
  have p: "length ?p = 16" "take (Suc (?n div 4)) ?p = be_words (pending m @ [0x80] @ replicate (3 - ?n mod 4) 0)"
    using h padding_words [of "pending m" "drop ?n (buf_octets ctx)" ?n] by (simp_all add: add_padding_def Let_def bswapw_eq flip: buf)
  define c where "c = hash_block (add_length
      (if ?n < 56 then ctx\<lparr>sha_buf := zero_words ?p (?n div 4 + 1) (14 - (?n div 4 + 1))\<rparr>
       else let c = hash_block (ctx\<lparr>sha_buf := ?p[15 := ?p ! 15 XOR (if ?n < 60 then ?p ! 15 else 0)]\<rparr>) in c\<lparr>sha_buf := zero_words (sha_buf c) 0 14\<rparr>))"
  have "sha_hash c = absorb compress256 H256 (padded m)"
  proof (cases "?n < 56")
    case True
    let ?d = "ctx\<lparr>sha_buf := zero_words ?p (?n div 4 + 1) (14 - (?n div 4 + 1))\<rparr>"
    let ?b = "pending m @ [0x80] @ replicate (55 - ?n) 0 @ be_octets64 ?l"
    have "length (sha_buf ?d) = 16" using p(1) True by (simp add: zero_words_eq)
    then have "sha_buf (add_length ?d) = be_words ?b" "sha_hash (add_length ?d) = ?h"
      using h add_length_eq [of ?d "length m"] closing_words(1) [OF p, of ?l] True by simp_all
    moreover have "length ?b = 64" using True by (simp add: be_octets64_def)
    ultimately show ?thesis
      using hash_block_octets [of "add_length ?d" ?b] lh True by (simp add: c_def padded_absorb(1))
  next
    case False
    let ?d = "ctx\<lparr>sha_buf := ?p[15 := ?p ! 15 XOR (if ?n < 60 then ?p ! 15 else 0)]\<rparr>"
    let ?b = "pending m @ [0x80] @ replicate (63 - ?n) 0"
    define e where "e = hash_block ?d"
    have "length ?b = 64" using False by simp
    then have e: "sha_hash e = compress256 ?h ?b" "length (sha_buf e) = 16" "same_len ctx e"
      using hash_block_octets [of ?d ?b] closing_words(2) [OF p] False h lh by (simp_all add: e_def same_len_def)
    let ?f = "e\<lparr>sha_buf := zero_words (sha_buf e) 0 14\<rparr>"
    have "add_length ?f = ?f\<lparr>sha_buf := be_words (replicate 56 0 @ be_octets64 ?l)\<rparr>"
      using add_length_eq [of ?f "length m"] e h be_words_append [of "replicate 56 0" 14 "be_octets64 ?l"] be_words_zeros [of 14]
      by (simp add: zero_words_eq same_len_def)
    moreover have "c = hash_block (add_length ?f)" using False by (simp add: c_def e_def Let_def)
    moreover have "length (compress256 ?h ?b) = 8" using lh by (simp add: compress256_def)
    ultimately show ?thesis
      using hash_block_octets [of "add_length ?f" "replicate 56 0 @ be_octets64 ?l"] e(1) False
      by (simp add: padded_absorb(2) be_octets64_def)
  qed
  moreover have "snd (sha256_done ctx) = map (digest_octet (sha_hash c)) [0..<32]"
    by (simp add: sha256_done_def i Let_def c_def)
  ultimately show ?thesis by (simp add: digest_eq length_absorb SHA256_def)
qed

definition fresh256 :: "sha256_context \<Rightarrow> bool" where
  "fresh256 ctx \<longleftrightarrow> (\<exists>c0. length (sha_buf c0) = 16 \<and> ctx = sha256_init c0)"

interpretation sha256: streaming_hash fresh256 "\<lambda>c d. sha256_hash c d (length d)" "\<lambda>c. Some (snd (sha256_done c))" holds256 SHA256 "\<lambda>d. length d < 2 ^ 32"
  by unfold_locales (auto simp: fresh256_def holds256_init sha256_hash_holds sha256_done_digest)

lemma digest_pieces:
  assumes "length (sha_buf c0) = 16" and "list_all (\<lambda>d. length d < 2 ^ 32) ds"
  shows "sha256_digest c0 ds = Some (SHA256 (concat ds))"
proof -
  have "fresh256 (sha256_init c0)" using assms(1) by (auto simp: fresh256_def)
  then show ?thesis unfolding sha256_digest_def using assms(2) by (rule sha256.hash_pieces)
qed

text \<open>
  (C33) Whatever the context held before \<open>sha256_init\<close> and in whatever pieces a message is handed
  over, \<^verbatim>\<open>sha256.c\<close> copies only inside its buffer and the data, and the result is the digest
  of the whole message that FIPS 180-4 defines.
\<close>

theorem sha256_correct:
  assumes "length (sha_buf c0) = 16" and "list_all (\<lambda>d. length d < 2 ^ 32) ds"
  shows "sha256_digest c0 ds = Some (SHA256 (concat ds))"
  using assms by (rule digest_pieces)

theorem sha256_correct_witness: "sha256_digest zero_context [[0x61], [0x62, 0x63]] = Some (SHA256 [0x61, 0x62, 0x63])"
  using sha256_correct [of zero_context "[[0x61], [0x62, 0x63]]"] by (simp add: zero_context_def)

end
