(* ===== verification/Sha1.thy ===== *)
theory Sha1
  imports Sha256_Digest
begin

text \<open>
  \<^verbatim>\<open>sha1.c\<close>: the structures and functions of the implementation, for a little-endian machine.

  The sums of indices in \<open>SHA1Update\<close> wrap at 32 bits.  \<open>None\<close> is a copy that would read behind
  the data or write behind the buffer.
\<close>

section \<open>Model\<close>

record SHA1_CTX =
  sha1_state :: "word32 list"
  count0 :: word32
  count1 :: word32
  sha1_buffer :: "byte list"

definition rol :: "word32 \<Rightarrow> nat \<Rightarrow> word32" where
  "rol v bits = push_bit bits v OR drop_bit (32 - bits) v"

text \<open>The expansion of the block in place: \<open>blk0\<close> swaps the octets of a word, \<open>blk\<close> makes a new word.\<close>

definition blk0 :: "word32 list \<Rightarrow> nat \<Rightarrow> word32 list" where
  "blk0 l i = l[i := (rol (l ! i) 24 AND 0xFF00FF00) OR (rol (l ! i) 8 AND 0x00FF00FF)]"

definition blk :: "word32 list \<Rightarrow> nat \<Rightarrow> word32 list" where
  "blk l i = l[i mod 16 := rol (l ! ((i + 13) mod 16) XOR l ! ((i + 8) mod 16) XOR l ! ((i + 2) mod 16) XOR l ! (i mod 16)) 1]"

text \<open>
  The five working variables are a list.  In round \<open>i\<close> the source passes them to the macros turned by
  \<open>i\<close> places: the argument \<open>r\<close> of a macro is the variable \<open>(r - i) mod 5\<close>.
\<close>

definition turned :: "nat \<Rightarrow> nat \<Rightarrow> nat" where
  "turned r i = nat ((int r - int i) mod 5)"

definition f_choose :: "word32 \<Rightarrow> word32 \<Rightarrow> word32 \<Rightarrow> word32" where
  "f_choose w x y = (w AND (x XOR y)) XOR y"

definition f_parity :: "word32 \<Rightarrow> word32 \<Rightarrow> word32 \<Rightarrow> word32" where
  "f_parity w x y = w XOR x XOR y"

definition f_majority :: "word32 \<Rightarrow> word32 \<Rightarrow> word32 \<Rightarrow> word32" where
  "f_majority w x y = ((w OR x) AND y) OR (w AND x)"

text \<open>The common shape of \<open>R0\<close> to \<open>R4\<close>: \<open>z += f(w,x,y) + block + k + rol(v,5); w = rol(w,30)\<close>.\<close>

definition R_step :: "(word32 \<Rightarrow> word32 \<Rightarrow> word32 \<Rightarrow> word32) \<Rightarrow> word32 \<Rightarrow> word32 \<Rightarrow> nat \<Rightarrow> word32 list \<Rightarrow> word32 list" where
  "R_step f k m i vs =
     (let z = turned 4 i; w = turned 1 i;
          vs = vs[z := vs ! z + (f (vs ! w) (vs ! turned 2 i) (vs ! turned 3 i) + m + k + rol (vs ! turned 0 i) 5)]
      in vs[w := rol (vs ! w) 30])"

text \<open>Round \<open>i\<close> is one of the eighty calls in the body of \<open>SHA1Transform\<close>.\<close>

definition sha1_round :: "nat \<Rightarrow> word32 list \<times> word32 list \<Rightarrow> word32 list \<times> word32 list" where
  "sha1_round i vl =
     (let (vs, l) = vl; l = (if i < 16 then blk0 l i else blk l i); m = l ! (i mod 16) in
      (if i < 20 then R_step f_choose 0x5A827999 m i vs
       else if i < 40 then R_step f_parity 0x6ED9EBA1 m i vs
       else if i < 60 then R_step f_majority 0x8F1BBCDC m i vs
       else R_step f_parity 0xCA62C1D6 m i vs, l))"

definition SHA1Transform :: "word32 list \<Rightarrow> byte list \<Rightarrow> word32 list" where
  "SHA1Transform st buf =
     (let (vs, _) = foldl (\<lambda>vl i. sha1_round i vl) (take 5 st, le_words (take 64 buf)) [0..<80] in map2 (+) st vs)"

definition SHA1Init :: "SHA1_CTX \<Rightarrow> SHA1_CTX" where
  "SHA1Init ctx = ctx\<lparr>sha1_state := [0x67452301, 0xEFCDAB89, 0x98BADCFE] @ [0x10325476, 0xC3D2E1F0], count0 := 0, count1 := 0\<rparr>"

text \<open>The loop of \<open>SHA1Update\<close> over whole blocks of the data.\<close>

function transform_loop :: "word32 list \<Rightarrow> byte list \<Rightarrow> nat \<Rightarrow> nat \<Rightarrow> (word32 list \<times> nat) option" where
  "transform_loop st dat len i =
     (if (i + 63) mod 2 ^ 32 < len
      then if i + 64 \<le> length dat then transform_loop (SHA1Transform st (drop i dat)) dat len (i + 64) else None
      else Some (st, i))"
  by pat_completeness auto
termination by (relation "measure (\<lambda>(st, dat, len, i). length dat - i)") auto

declare transform_loop.simps [simp del]

text \<open>A copy of \<open>n\<close> octets of the data into the buffer.\<close>

definition copy_to :: "byte list \<Rightarrow> nat \<Rightarrow> byte list \<Rightarrow> nat \<Rightarrow> nat \<Rightarrow> byte list option" where
  "copy_to buf j dat i n =
     (if length buf < j + n \<or> length dat < i + n then None
      else Some (take j buf @ take n (drop i dat) @ drop (j + n) buf))"

definition SHA1Update :: "SHA1_CTX \<Rightarrow> byte list \<Rightarrow> nat \<Rightarrow> SHA1_CTX option" where
  "SHA1Update ctx dat len =
     (let old = count0 ctx;
          ctx = ctx\<lparr>count0 := old + push_bit 3 (word_of_nat len)\<rparr>;
          ctx = (if count0 ctx < old then ctx\<lparr>count1 := count1 ctx + 1\<rparr> else ctx);
          ctx = ctx\<lparr>count1 := count1 ctx + drop_bit 29 (word_of_nat len)\<rparr>;
          j = unat (drop_bit 3 old AND 63)
      in if (j + len) mod 2 ^ 32 > 63
         then Option.bind (copy_to (sha1_buffer ctx) j dat 0 (64 - j)) (\<lambda>buf.
              Option.bind (transform_loop (SHA1Transform (sha1_state ctx) buf) dat len (64 - j)) (\<lambda>(st, i).
              Option.bind (copy_to buf 0 dat i (len - i)) (\<lambda>buf. Some (ctx\<lparr>sha1_state := st, sha1_buffer := buf\<rparr>))))
         else Option.bind (copy_to (sha1_buffer ctx) j dat 0 len) (\<lambda>buf. Some (ctx\<lparr>sha1_buffer := buf\<rparr>)))"

definition count_octet :: "SHA1_CTX \<Rightarrow> nat \<Rightarrow> byte" where
  "count_octet ctx i = ucast (drop_bit ((3 - i mod 4) * 8) (if i \<ge> 4 then count0 ctx else count1 ctx) AND 255)"

text \<open>Zeros up to the place of the length; 64 turns are enough.\<close>

fun pad_loop :: "nat \<Rightarrow> SHA1_CTX \<Rightarrow> SHA1_CTX option" where
  "pad_loop n ctx =
     (if count0 ctx AND 504 \<noteq> 448
      then case n of 0 \<Rightarrow> None | Suc n \<Rightarrow> Option.bind (SHA1Update ctx [0] 1) (pad_loop n)
      else Some ctx)"

declare pad_loop.simps [simp del]

text \<open>The result is the context, which is wiped, and the digest.\<close>

definition zero_ctx :: SHA1_CTX where
  "zero_ctx = \<lparr>sha1_state = replicate 5 0, count0 = 0, count1 = 0, sha1_buffer = replicate 64 0\<rparr>"

definition SHA1Final :: "SHA1_CTX \<Rightarrow> (SHA1_CTX \<times> byte list) option" where
  "SHA1Final ctx =
     (let finalcount = map (count_octet ctx) [0..<8] in
      Option.bind (SHA1Update ctx [0x80] 1) (\<lambda>ctx.
      Option.bind (pad_loop 64 ctx) (\<lambda>ctx.
      Option.bind (SHA1Update ctx finalcount 8) (\<lambda>ctx.
        Some (zero_ctx, map (\<lambda>i. ucast (drop_bit ((3 - i mod 4) * 8) (sha1_state ctx ! (i div 4)) AND 255)) [0..<20])))))"

text \<open>\<open>SHA1\<close> hashes octet by octet; the comparison with \<open>len\<close> is one of unsigned numbers.\<close>

definition SHA1_string :: "SHA1_CTX \<Rightarrow> byte list \<Rightarrow> int \<Rightarrow> byte list option" where
  "SHA1_string c0 str len =
     (let n = nat (len mod 2 ^ 32) in
      if length str < n then None
      else Option.bind (updates (\<lambda>c d. SHA1Update c d (length d)) (SHA1Init c0) (map (\<lambda>b. [b]) (take n str))) (\<lambda>ctx.
           Option.bind (SHA1Final ctx) (\<lambda>(_, hash_out). Some (hash_out @ [0]))))"

end
