(* ===== verification/Sha1_Digest.thy ===== *)
theory Sha1_Digest
  imports Sha1
begin

text \<open>SHA-1 as FIPS 180-4 defines it, and the proof that \<^verbatim>\<open>sha1.c\<close> computes it.\<close>

section \<open>The standard\<close>

function schedule1 :: "word32 list \<Rightarrow> nat \<Rightarrow> word32" where
  "schedule1 M t = (if t < 16 then M ! t
     else word_rotl 1 (schedule1 M (t - 3) XOR schedule1 M (t - 8) XOR schedule1 M (t - 14) XOR schedule1 M (t - 16)))"
  by pat_completeness auto
termination by (relation "measure snd") auto

declare schedule1.simps [simp del]

definition f1 :: "nat \<Rightarrow> word32 \<Rightarrow> word32 \<Rightarrow> word32 \<Rightarrow> word32" where
  "f1 t x y z = (if t < 20 then Ch x y z else if 40 \<le> t \<and> t < 60 then Maj x y z else x XOR y XOR z)"

text \<open>The constants of 4.2.1 are the integral parts of square roots, scaled by \<open>2 ^ 30\<close>.\<close>

definition K1 :: "nat \<Rightarrow> word32" where
  "K1 t = word_of_nat (int_root 2 ((if t < 20 then 2 else if t < 40 then 3 else if t < 60 then 5 else 10) * 2 ^ 60))"

text \<open>The initial value: the octets 0x01, 0x23 and so on up and down, each word read backwards.\<close>

definition H1 :: "word32 list" where
  "H1 = [le_word 0x01 0x23 0x45 0x67, le_word 0x89 0xAB 0xCD 0xEF, le_word 0xFE 0xDC 0xBA 0x98, le_word 0x76 0x54 0x32 0x10,
     le_word 0xF0 0xE1 0xD2 0xC3]"

fun round1 :: "nat \<Rightarrow> word32 \<Rightarrow> word32 list \<Rightarrow> word32 list" where
  "round1 t w [a, b, c, d, e] = [word_rotl 5 a + f1 t b c d + e + K1 t + w, a, word_rotl 30 b, c, d]"
| "round1 t w _ = []"

fun rounds1 :: "word32 list \<Rightarrow> nat \<Rightarrow> word32 list \<Rightarrow> word32 list" where
  "rounds1 M 0 st = st"
| "rounds1 M (Suc t) st = round1 t (schedule1 M t) (rounds1 M t st)"

definition compress1 :: "word32 list \<Rightarrow> byte list \<Rightarrow> word32 list" where
  "compress1 st b = map2 (+) st (rounds1 (be_words b) 80 st)"

definition SHA1 :: "byte list \<Rightarrow> byte list" where
  "SHA1 m = concat (map be_octets (absorb compress1 H1 (padded m)))"

section \<open>Constants and functions\<close>

lemma K1_values: "K1 t = (if t < 20 then 0x5A827999 else if t < 40 then 0x6ED9EBA1 else if t < 60 then 0x8F1BBCDC else 0xCA62C1D6)"
proof -
  have "int_root 2 (2 * 2 ^ 60) = 0x5A827999" "int_root 2 (3 * 2 ^ 60) = 0x6ED9EBA1" "int_root 2 (5 * 2 ^ 60) = 0x8F1BBCDC" "int_root 2 (10 * 2 ^ 60) = 0xCA62C1D6"
    by (rule int_rootI; simp)+
  then show ?thesis by (simp add: K1_def)
qed

lemma SHA1Init_H1: "sha1_state (SHA1Init ctx) = H1"
  by (simp add: SHA1Init_def H1_def le_word_def be_word_def push_bit_eq_mult)

lemma length_H1 [simp]: "length H1 = 5"
  by (simp add: H1_def)

lemma rol_rotl: "n < 32 \<Longrightarrow> rol x n = word_rotl n x"
proof (rule bit_word_eqI)
  fix k assume "n < 32" "k < LENGTH(32)"
  moreover have "k + 32 - n = 32 + k - n" by simp
  ultimately show "bit (rol x n) k = bit (word_rotl n x) k"
    by (cases "k < n") (auto simp: rol_def word_bits bit_word_rotl_iff mod_if nat_less_iff of_nat_diff)
qed

lemma rol_RR: "0 < n \<Longrightarrow> n < 32 \<Longrightarrow> rol x n = RR x (32 - n)"
  by (simp add: rol_def RR_def or.commute)

lemma f_choose_Ch: "f_choose x y z = Ch x y z"
  unfolding f_choose_def by (simp only: Ch_alt xor.commute)

lemma f_majority_Maj: "f_majority x y z = Maj x y z"
  by (rule bit_word_eqI) (auto simp: f_majority_def Maj_def word_bits)

section \<open>Rounds\<close>

definition unturn :: "nat \<Rightarrow> word32 list \<Rightarrow> word32 list" where
  "unturn t vs = [vs ! turned 0 t, vs ! turned 1 t, vs ! turned 2 t, vs ! turned 3 t, vs ! turned 4 t]"

lemma turned_mod: "turned r (t mod 5) = turned r t"
  unfolding turned_def by (simp add: zmod_int mod_diff_right_eq)

lemma turned_Suc: "turned r (Suc t) = turned r (Suc (t mod 5))"
  using turned_mod [of r "Suc t"] turned_mod [of r "Suc (t mod 5)"] by (simp add: mod_Suc_eq)

lemma five_split:
  assumes "length vs = 5"
  obtains a b c d e where "vs = [a, b, c, d, e]"
  using assms by (auto simp: numeral_eq_Suc length_Suc_conv)

lemma length_R_step [simp]: "length (R_step f k m i vs) = length vs"
  by (simp add: R_step_def Let_def)

lemma R_step_small:
  assumes "length vs = 5" and "t < 5" and "\<And>x y z. f x y z = f1 i x y z"
  shows "unturn (Suc t) (R_step f (K1 i) m t vs) = round1 i m (unturn t vs)"
proof -
  obtain a b c d e where vs: "vs = [a, b, c, d, e]" using assms(1) by (rule five_split)
  have "t \<in> {0, 1, 2, 3, 4}" using assms(2) by auto
  then show ?thesis
    by (elim insertE emptyE) (simp_all add: vs unturn_def R_step_def turned_def Let_def assms(3) rol_rotl add.assoc add.commute add.left_commute)
qed

lemma R_step_round:
  assumes "length vs = 5" and "\<And>x y z. f x y z = f1 t x y z"
  shows "unturn (Suc t) (R_step f (K1 t) m t vs) = round1 t m (unturn t vs)"
  using R_step_small [OF assms(1), of "t mod 5" f t m] assms(2)
  by (simp add: unturn_def R_step_def turned_mod turned_Suc [symmetric])

lemma sha1_round_eq:
  "sha1_round i (vs, l) = (let l = (if i < 16 then blk0 l i else blk l i) in
     (R_step (if i < 20 then f_choose else if 40 \<le> i \<and> i < 60 then f_majority else f_parity) (K1 i) (l ! (i mod 16)) i vs, l))"
  by (auto simp: sha1_round_def Let_def K1_values)

section \<open>The block\<close>

definition window1 :: "word32 list \<Rightarrow> word32 list \<Rightarrow> nat \<Rightarrow> word32 list \<Rightarrow> bool" where
  "window1 raw M t l \<longleftrightarrow> length l = 16 \<and> (\<forall>s. s < t \<and> t \<le> s + 16 \<longrightarrow> l ! (s mod 16) = schedule1 M s) \<and> (\<forall>s. t \<le> s \<and> s < 16 \<longrightarrow> l ! s = raw ! s)"

lemma blk0_bswap: "blk0 l i = l[i := bswap (l ! i)]"
  by (simp add: blk0_def bswap_def rol_RR or.commute)

lemma window1_early:
  assumes "window1 raw M t l" and "t < 16" and "bswap (raw ! t) = M ! t"
  shows "window1 raw M (Suc t) (blk0 l t) \<and> blk0 l t ! t = schedule1 M t"
proof -
  have "bswap (l ! t) = schedule1 M t" using assms by (simp add: window1_def schedule1.simps)
  then show ?thesis using assms(1,2) unfolding blk0_bswap by (auto simp: window1_def nth_list_update less_Suc_eq)
qed

lemma window1_late:
  assumes "window1 raw M t l" and "16 \<le> t"
  shows "window1 raw M (Suc t) (blk l t) \<and> blk l t ! (t mod 16) = schedule1 M t"
proof -
  have w: "l ! ((t + (16 - d)) mod 16) = schedule1 M (t - d)" if "0 < d" "d \<le> 16" for d
    using assms that P_at_back [of d t] by (simp add: window1_def P_at_def)
  have at: "l ! ((t + 13) mod 16) = schedule1 M (t - 3)" "l ! ((t + 8) mod 16) = schedule1 M (t - 8)"
    "l ! ((t + 2) mod 16) = schedule1 M (t - 14)" using w [of 3] w [of 8] w [of 14] by simp_all
  have now: "l ! (t mod 16) = schedule1 M (t - 16)" using w [of 16] by simp
  have sch: "schedule1 M t = word_rotl 1 (schedule1 M (t - 3) XOR schedule1 M (t - 8) XOR schedule1 M (t - 14) XOR schedule1 M (t - 16))"
    using assms(2) by (subst schedule1.simps) simp
  have up: "blk l t = l[t mod 16 := schedule1 M t]" unfolding blk_def at now sch by (simp add: rol_rotl)
  have "t mod 16 \<noteq> s mod 16" if "s < t" "t \<le> 15 + s" for s
    using that mod_eq_dvd_iff_nat [of s t 16] by (auto dest: dvd_imp_le)
  then show ?thesis using assms unfolding up window1_def by (auto simp: nth_list_update less_Suc_eq)
qed

definition in_round1 :: "word32 list \<Rightarrow> word32 list \<Rightarrow> word32 list \<Rightarrow> nat \<Rightarrow> word32 list \<times> word32 list \<Rightarrow> bool" where
  "in_round1 raw M st t vl \<longleftrightarrow> length (fst vl) = 5 \<and> window1 raw M t (snd vl) \<and> unturn t (fst vl) = rounds1 M t st"

lemma sha1_round_step:
  assumes "in_round1 raw M st t vl" and "\<forall>s < 16. bswap (raw ! s) = M ! s"
  shows "in_round1 raw M st (Suc t) (sha1_round t vl)"
proof -
  obtain vs l where vl: "vl = (vs, l)" by (cases vl)
  let ?l = "if t < 16 then blk0 l t else blk l t" and ?f = "if t < 20 then f_choose else if 40 \<le> t \<and> t < 60 then f_majority else f_parity"
  have "window1 raw M (Suc t) ?l \<and> ?l ! (t mod 16) = schedule1 M t"
    using window1_early [of raw M t l] window1_late [of raw M t l] assms vl by (simp add: in_round1_def)
  moreover have "unturn (Suc t) (R_step ?f (K1 t) (?l ! (t mod 16)) t vs) = round1 t (?l ! (t mod 16)) (unturn t vs)"
    using assms(1) vl by (intro R_step_round) (auto simp: in_round1_def f1_def f_choose_Ch f_majority_Maj f_parity_def)
  ultimately show ?thesis using assms(1) vl by (simp add: in_round1_def sha1_round_eq Let_def)
qed

lemma unturn_0: "length vs = 5 \<Longrightarrow> unturn 0 vs = vs" "length vs = 5 \<Longrightarrow> unturn 80 vs = vs"
  by (auto simp: unturn_def turned_def elim!: five_split)

lemma length_rounds1 [simp]: "length st = 5 \<Longrightarrow> length (rounds1 M t st) = 5"
  by (induction t) (auto elim!: five_split)

lemma length_compress1 [simp]: "length st = 5 \<Longrightarrow> length (compress1 st b) = 5"
  by (simp add: compress1_def)

lemma SHA1Transform_compress:
  assumes "length st = 5" and "64 \<le> length buf"
  shows "SHA1Transform st buf = compress1 st (take 64 buf)"
proof -
  let ?b = "take 64 buf"
  let ?raw = "le_words ?b" and ?M = "be_words ?b"
  have len: "length ?b = 4 * 16" using assms(2) by simp
  have sw: "\<forall>s < 16. bswap (?raw ! s) = ?M ! s" using le_words_nth [OF len] by blast
  have "in_round1 ?raw ?M st n (foldl (\<lambda>vl i. sha1_round i vl) (st, ?raw) [0..<n])" for n
  proof (induction n)
    case 0
    then show ?case using assms(1) len words_length(2) [OF len] by (simp add: in_round1_def window1_def unturn_0)
  next
    case (Suc n)
    then show ?case using sha1_round_step [OF _ sw] by simp
  qed
  from this [of 80] show ?thesis
    using assms(1) unturn_0(2) by (auto simp: SHA1Transform_def compress1_def in_round1_def split: prod.splits)
qed

section \<open>Adding octets\<close>

definition holds1 :: "SHA1_CTX \<Rightarrow> byte list \<Rightarrow> bool" where
  "holds1 ctx m \<longleftrightarrow> length (sha1_buffer ctx) = 64 \<and> sha1_state ctx = absorb compress1 H1 m \<and> take (length m mod 64) (sha1_buffer ctx) = pending m
     \<and> count0 ctx = word_of_nat (8 * length m) \<and> count1 ctx = word_of_nat (8 * length m div 2 ^ 32)"

lemma length_absorb1: "length h = 5 \<Longrightarrow> length (absorb compress1 h m) = 5"
proof (induction compress1 h m rule: absorb.induct)
  case (1 st m)
  then show ?case by (subst absorb.simps) simp
qed

lemma copy_to_eq: "j + n \<le> length buf \<Longrightarrow> i + n \<le> length dat \<Longrightarrow> copy_to buf j dat i n = Some (take j buf @ take n (drop i dat) @ drop (j + n) buf)"
  by (simp add: copy_to_def)

lemma transform_loop_eq:
  assumes "i \<le> length dat" and "length dat + 64 \<le> 2 ^ 32" and "length st = 5"
  shows "\<exists>i'. transform_loop st dat (length dat) i = Some (absorb compress1 st (drop i dat), i') \<and> i' \<le> length dat \<and> drop i' dat = pending (drop i dat)
    \<and> length dat - i' = (length dat - i) mod 64"
  using assms
proof (induction st dat "length dat" i rule: transform_loop.induct)
  case (1 st dat i)
  have m: "(i + 63) mod 2 ^ 32 = i + 63" using 1(2,3) by simp
  show ?case
  proof (cases "i + 63 < length dat")
    case False
    then show ?thesis using m by (subst transform_loop.simps) (intro exI [of _ i], use 1(2) in auto)
  next
    case True
    let ?st = "SHA1Transform st (drop i dat)"
    have st: "?st = compress1 st (take 64 (drop i dat))" using 1(4) True by (simp add: SHA1Transform_compress)
    have d: "drop i dat = take 64 (drop i dat) @ drop (i + 64) dat" by (metis append_take_drop_id drop_drop add.commute)
    have l: "length (take 64 (drop i dat)) = 64" using True by simp
    have "absorb compress1 st (drop i dat) = absorb compress1 ?st (drop (i + 64) dat)" "pending (drop i dat) = pending (drop (i + 64) dat)"
      using absorb_block [OF l, of compress1 st] pending_block [OF l] d st by metis+
    moreover have "(length dat - i) mod 64 = (length dat - (i + 64)) mod 64" using True by (simp add: le_mod_geq)
    moreover have "transform_loop st dat (length dat) i = transform_loop ?st dat (length dat) (i + 64)"
      using True m by (subst transform_loop.simps) simp
    ultimately show ?thesis using 1(1) 1(3,4) True m st by simp
  qed
qed

lemma bits_length: "unat (drop_bit 3 (word_of_nat (8 * n) :: word32) AND 63) = n mod 64"
proof -
  have "(8 * n) mod 2 ^ 32 div 8 = n mod 2 ^ 29" using mod_mult_mult1 [of 8 n "2 ^ 29"] by simp
  then show ?thesis by (simp add: unat_and_3F unat_drop unat_of_nat mod_mod_cancel del: of_nat_mult)
qed

lemma count_carry:
  assumes "k < 2 ^ 32"
  shows "word_of_nat (8 * (n + k) div 2 ^ 32) = (word_of_nat (8 * n div 2 ^ 32) :: word32)
    + (if (word_of_nat (8 * (n + k)) :: word32) < word_of_nat (8 * n) then 1 else 0) + drop_bit 29 (word_of_nat k)"
proof -
  let ?N = "2 ^ 32 :: nat"
  let ?a = "8 * n mod ?N" and ?s = "8 * k mod ?N"
  have "8 * (n + k) mod ?N = (8 * k + 8 * n) mod ?N" by (simp only: distrib_left add.commute)
  also have "\<dots> = (?s + ?a) mod ?N" by (rule mod_add_eq [symmetric])
  finally have u: "unat (word_of_nat (8 * n) :: word32) = ?a" "unat (word_of_nat (8 * (n + k)) :: word32) = (?s + ?a) mod ?N"
    by (simp_all add: unat_of_nat del: of_nat_mult of_nat_add)
  have w: "(?s + ?a) mod ?N < ?a \<longleftrightarrow> (?s + ?a) div ?N = 1" "(?s + ?a) div ?N \<le> 1"
    using wrapped_sum [of ?s ?N ?a] by simp_all
  have "8 * (n + k) div ?N = (8 * n + 8 * k) div ?N" by (simp only: distrib_left)
  also have "\<dots> = 8 * n div ?N + 8 * k div ?N + (?a + ?s) div ?N" by (rule div_add1_eq)
  finally have d: "8 * (n + k) div ?N = 8 * n div ?N + (?s + ?a) div ?N + 8 * k div ?N" by (simp only: ac_simps)
  have k: "drop_bit 29 (word_of_nat k :: word32) = word_of_nat (8 * k div ?N)"
    using assms by (intro word_unat_eq_iff [THEN iffD2]) (simp add: unat_drop unat_of_nat)
  show ?thesis unfolding d of_nat_add k word_less_nat_alt u w(1) using w(2) by (cases "(?s + ?a) div ?N") auto
qed

lemma holds1_init: "length (sha1_buffer ctx) = 64 \<Longrightarrow> holds1 (SHA1Init ctx) []"
  by (simp add: holds1_def SHA1Init_H1) (simp add: SHA1Init_def)

lemma SHA1Update_eq:
  assumes "count0 ctx + push_bit 3 (word_of_nat len) = c0" and "count1 ctx + (if c0 < count0 ctx then 1 else 0) + drop_bit 29 (word_of_nat len) = c1"
    and "unat (drop_bit 3 (count0 ctx) AND 63) = j" and "(j + len) mod 2 ^ 32 = j + len"
  shows "SHA1Update ctx dat len =
     (let ctx = ctx\<lparr>count0 := c0, count1 := c1\<rparr> in
      if 63 < j + len
      then Option.bind (copy_to (sha1_buffer ctx) j dat 0 (64 - j)) (\<lambda>buf.
           Option.bind (transform_loop (SHA1Transform (sha1_state ctx) buf) dat len (64 - j)) (\<lambda>(st, i).
           Option.bind (copy_to buf 0 dat i (len - i)) (\<lambda>buf. Some (ctx\<lparr>sha1_state := st, sha1_buffer := buf\<rparr>))))
      else Option.bind (copy_to (sha1_buffer ctx) j dat 0 len) (\<lambda>buf. Some (ctx\<lparr>sha1_buffer := buf\<rparr>)))"
proof -
  have "(63 < (j + len) mod 2 ^ 32) = (63 < j + len)" by (simp only: assms(4))
  then show ?thesis using assms(2) unfolding SHA1Update_def Let_def assms(1,3) by (cases ctx) (auto simp: assms(1,3))
qed

lemma SHA1Update_counts:
  assumes "holds1 ctx m" and "length d + 64 \<le> 2 ^ 32"
  shows "SHA1Update ctx d (length d) =
     (let ctx = ctx\<lparr>count0 := word_of_nat (8 * length (m @ d)), count1 := word_of_nat (8 * length (m @ d) div 2 ^ 32)\<rparr>; j = length m mod 64 in
      if 63 < j + length d
      then Option.bind (copy_to (sha1_buffer ctx) j d 0 (64 - j)) (\<lambda>buf.
           Option.bind (transform_loop (SHA1Transform (sha1_state ctx) buf) d (length d) (64 - j)) (\<lambda>(st, i).
           Option.bind (copy_to buf 0 d i (length d - i)) (\<lambda>buf. Some (ctx\<lparr>sha1_state := st, sha1_buffer := buf\<rparr>))))
      else Option.bind (copy_to (sha1_buffer ctx) j d 0 (length d)) (\<lambda>buf. Some (ctx\<lparr>sha1_buffer := buf\<rparr>)))"
proof -
  have h: "count0 ctx = word_of_nat (8 * length m)" "count1 ctx = word_of_nat (8 * length m div 2 ^ 32)" using assms(1) by (simp_all add: holds1_def)
  have "length m mod 64 < 64" by simp
  then have jd: "(length m mod 64 + length d) mod 2 ^ 32 = length m mod 64 + length d" using assms(2) by (intro mod_less) linarith
  have "count0 ctx + push_bit 3 (word_of_nat (length d)) = word_of_nat (8 * length (m @ d))" unfolding h by (simp add: push_bit_eq_mult distrib_left)
  moreover have "length d < 2 ^ 32" using assms(2) by simp
  from count_carry [OF this, of "length m"]
  have "count1 ctx + (if (word_of_nat (8 * length (m @ d)) :: word32) < count0 ctx then 1 else 0) + drop_bit 29 (word_of_nat (length d))
      = word_of_nat (8 * length (m @ d) div 2 ^ 32)" unfolding h length_append by (rule sym)
  moreover have "unat (drop_bit 3 (count0 ctx) AND 63) = length m mod 64" unfolding h by (rule bits_length)
  ultimately show ?thesis using jd by (subst SHA1Update_eq) (simp_all only: Let_def)
qed

lemma SHA1Update_holds:
  assumes "holds1 ctx m" and "length d + 64 \<le> 2 ^ 32"
  shows "\<exists>ctx'. SHA1Update ctx d (length d) = Some ctx' \<and> holds1 ctx' (m @ d)"
proof -
  let ?j = "length m mod 64"
  note h = assms(1) [unfolded holds1_def]
  have n: "length (m @ d) mod 64 = (?j + length d) mod 64" by (simp add: mod_simps)
  show ?thesis
  proof (cases "63 < ?j + length d")
    case False
    then have "copy_to (sha1_buffer ctx) ?j d 0 (length d) = Some (pending m @ d @ drop (?j + length d) (sha1_buffer ctx))"
      using h by (subst copy_to_eq) simp_all
    moreover have "length (pending m @ d @ drop (?j + length d) (sha1_buffer ctx)) = 64" using h False by simp
    moreover have "absorb compress1 H1 (m @ d) = absorb compress1 H1 m" "pending (m @ d) = pending m @ d"
      using False by (simp_all add: absorb_append [of _ _ m] pending_append [of m])
    ultimately show ?thesis
      using False h n unfolding SHA1Update_counts [OF assms] Let_def by (simp add: holds1_def del: length_append)
  next
    case True
    let ?b = "pending m @ take (64 - ?j) d"
    have b: "length ?b = 64" using True by simp
    have copy: "copy_to (sha1_buffer ctx) ?j d 0 (64 - ?j) = Some ?b" using h True by (subst copy_to_eq) simp_all
    have st: "SHA1Transform (sha1_state ctx) ?b = compress1 (absorb compress1 H1 m) ?b"
      using SHA1Transform_compress [of "sha1_state ctx" ?b] h b length_absorb1 [of H1 m] by simp
    have le: "64 - ?j \<le> length d" using True by linarith
    have split: "pending m @ d = ?b @ drop (64 - ?j) d" by simp
    obtain i where i: "transform_loop (SHA1Transform (sha1_state ctx) ?b) d (length d) (64 - ?j)
        = Some (absorb compress1 (compress1 (absorb compress1 H1 m) ?b) (drop (64 - ?j) d), i)"
      "i \<le> length d" "drop i d = pending (drop (64 - ?j) d)" "length d - i = (length d - (64 - ?j)) mod 64"
      using transform_loop_eq [of "64 - ?j" d "SHA1Transform (sha1_state ctx) ?b", OF le assms(2)] st length_absorb1 [of H1 m] by auto
    have "absorb compress1 H1 (m @ d) = absorb compress1 (compress1 (absorb compress1 H1 m) ?b) (drop (64 - ?j) d)"
      unfolding absorb_append [of _ _ m] split absorb_block [OF b] ..
    moreover have "pending (m @ d) = drop i d" unfolding pending_append [of m] split pending_block [OF b] i(3) ..
    moreover have "length d - i < 64" using i(4) by simp
    moreover from this have cp: "copy_to ?b 0 d i (length d - i) = Some (drop i d @ drop (length d - i) ?b)"
      using i(2) b copy_to_eq [of 0 "length d - i" ?b i d] by simp
    moreover have "length (m @ d) mod 64 = length d - i" unfolding n i(4)
      using True le_mod_geq [of 64 "?j + length d"] by (simp add: add.commute)
    moreover have "SHA1Update ctx d (length d) = Some (ctx\<lparr>count0 := word_of_nat (8 * length (m @ d)), count1 := word_of_nat (8 * length (m @ d) div 2 ^ 32),
        sha1_state := absorb compress1 (compress1 (absorb compress1 H1 m) ?b) (drop (64 - ?j) d), sha1_buffer := drop i d @ drop (length d - i) ?b\<rparr>)"
      unfolding SHA1Update_counts [OF assms] Let_def using True copy i(1) cp by (simp del: length_append)
    moreover have "length (drop i d @ drop (length d - i) ?b) = 64"
      using calculation(3) unfolding length_append [of "drop i d"] length_drop b by simp
    ultimately show ?thesis by (simp add: holds1_def del: length_append of_nat_mult)
  qed
qed

section \<open>The end of the message\<close>

lemma low_octet: "ucast (v AND 255 :: word32) = (ucast v :: byte)"
proof (rule word_unat_eq_iff [THEN iffD2])
  show "unat (ucast (v AND 255) :: byte) = unat (ucast v :: byte)" by (simp add: unat_ucast8 unat_and_FF)
qed

lemma finalcount_eq:
  assumes "holds1 ctx m"
  shows "map (count_octet ctx) [0..<8] = be_octets64 (8 * length m)"
proof -
  have e: "[0..<8] = [0, 1, 2, 3, 4, 5, 6, 7 :: nat]" by code_simp
  show ?thesis using assms unfolding e by (simp add: holds1_def count_octet_def low_octet be_octets64_def be_octets_def)
qed

lemma digest1_eq:
  assumes "length st = 5"
  shows "map (\<lambda>i. ucast (drop_bit ((3 - i mod 4) * 8) (st ! (i div 4)) AND 255)) [0..<20] = concat (map be_octets st)"
proof -
  have e: "[0..<20] = [0, 1, 2, 3, 4, 5, 6, 7, 8, 9, 10, 11, 12, 13, 14, 15, 16, 17, 18, 19 :: nat]" by code_simp
  obtain a b c d f where "st = [a, b, c, d, f]" using assms by (rule five_split)
  then show ?thesis unfolding e low_octet by (simp add: be_octets_def)
qed

lemma and_push_bit: "w AND push_bit 3 v = push_bit 3 (drop_bit 3 w AND v :: word32)"
  by (rule bit_word_eqI) (auto simp: word_bits)

lemma and_504: "w AND 504 = push_bit 3 (drop_bit 3 w AND 63 :: word32)"
  using and_push_bit [of w 63] by simp

lemma pad_done:
  assumes "holds1 ctx m"
  shows "count0 ctx AND 504 = 448 \<longleftrightarrow> length m mod 64 = 56"
proof -
  let ?w = "drop_bit 3 (count0 ctx) AND 63"
  have "count0 ctx = word_of_nat (8 * length m)" using assms by (simp add: holds1_def)
  then have w: "unat ?w = length m mod 64" by (simp only: bits_length)
  have "unat (push_bit 3 ?w) = 8 * unat ?w" unfolding push_bit_eq_mult unat_word_ariths w by simp
  then show ?thesis unfolding and_504 word_unat_eq_iff w by auto
qed

lemma pad_zero: "nat ((56 - int n) mod 64) = 0 \<longleftrightarrow> n mod 64 = 56"
proof -
  obtain r where "n mod 64 = r" "r < 64" by simp
  then show ?thesis using gap_mod [of 56 n] by (simp split: if_splits)
qed

lemma pad_step:
  assumes "n mod 64 \<noteq> 56"
  shows "nat ((56 - int n) mod 64) = Suc (nat ((56 - int (Suc n)) mod 64))"
proof -
  obtain r where r: "n mod 64 = r" "r < 64" by simp
  then have s: "Suc n mod 64 = (if r = 63 then 0 else Suc r)" using mod_Suc [of n 64] by simp
  have "nat ((56 - int n) mod 64) = (if r \<le> 56 then 56 - r else 120 - r)" using gap_mod [of 56 n] r by simp
  moreover have "nat ((56 - int (Suc n)) mod 64) = (if (if r = 63 then 0 else Suc r) \<le> 56 then 56 - (if r = 63 then 0 else Suc r) else 120 - (if r = 63 then 0 else Suc r))"
    using gap_mod [of 56 "Suc n", unfolded s] by simp
  ultimately show ?thesis using r assms by (simp split: if_splits)
qed

lemma pad_loop_holds:
  assumes "holds1 ctx m" and "z = nat ((56 - int (length m)) mod 64)" and "z \<le> n"
  shows "\<exists>ctx'. pad_loop n ctx = Some ctx' \<and> holds1 ctx' (m @ replicate z 0)"
  using assms
proof (induction n arbitrary: ctx m z)
  case 0
  then have "length m mod 64 = 56" using pad_zero [of "length m"] by simp
  then show ?case using 0 by (subst pad_loop.simps) (simp add: pad_done)
next
  case (Suc n)
  show ?case
  proof (cases "length m mod 64 = 56")
    case True
    then have "z = 0" using Suc.prems(2) pad_zero [of "length m"] by simp
    then show ?thesis using True Suc.prems(1) by (subst pad_loop.simps) (simp add: pad_done)
  next
    case False
    obtain c where c: "SHA1Update ctx [0] (length [0 :: byte]) = Some c" "holds1 c (m @ [0])" using SHA1Update_holds [OF Suc.prems(1), of "[0]"] by auto
    have z: "z - 1 = nat ((56 - int (length (m @ [0 :: byte]))) mod 64)" "0 < z"
      using pad_step [OF False] Suc.prems(2) by simp_all
    have "\<exists>ctx'. pad_loop n c = Some ctx' \<and> holds1 ctx' ((m @ [0]) @ replicate (z - 1) 0)"
      using Suc.IH [OF c(2) z(1)] Suc.prems(3) by simp
    moreover have "(m @ [0]) @ replicate (z - 1) 0 = m @ replicate z 0" using z(2) by (cases z) simp_all
    ultimately show ?thesis using False Suc.prems(1) c(1) by (subst pad_loop.simps) (simp add: pad_done)
  qed
qed

lemma SHA1Final_digest:
  assumes "holds1 ctx m"
  shows "SHA1Final ctx = Some (zero_ctx, SHA1 m)"
proof -
  let ?z = "nat ((56 - int (length (m @ [0x80 :: byte]))) mod 64)"
  obtain c1 where c1: "SHA1Update ctx [0x80] (length [0x80 :: byte]) = Some c1" "holds1 c1 (m @ [0x80])"
    using SHA1Update_holds [OF assms, of "[0x80]"] by auto
  have "nat (x mod 64) \<le> 64" for x :: int using pos_mod_bound [of 64 x] by simp
  then have "?z \<le> 64" .
  then obtain c2 where c2: "pad_loop 64 c1 = Some c2" "holds1 c2 ((m @ [0x80]) @ replicate ?z 0)"
    using pad_loop_holds [OF c1(2) refl, of 64] by auto
  have l: "length (be_octets64 (8 * length m)) = 8" by (simp add: be_octets64_def)
  obtain c3 where c3: "SHA1Update c2 (be_octets64 (8 * length m)) (length (be_octets64 (8 * length m))) = Some c3"
    "holds1 c3 (((m @ [0x80]) @ replicate ?z 0) @ be_octets64 (8 * length m))"
    using SHA1Update_holds [OF c2(2), of "be_octets64 (8 * length m)"] l by auto
  have "((m @ [0x80]) @ replicate ?z 0) @ be_octets64 (8 * length m) = padded m" by (simp add: padded_def)
  then have "sha1_state c3 = absorb compress1 H1 (padded m)" using c3(2) by (simp add: holds1_def)
  then show ?thesis
    using c1(1) c2(1) c3(1) finalcount_eq [OF assms] digest1_eq [of "sha1_state c3"] length_absorb1 [of H1]
    by (simp add: SHA1Final_def l SHA1_def)
qed

definition fresh1 :: "SHA1_CTX \<Rightarrow> bool" where
  "fresh1 ctx \<longleftrightarrow> (\<exists>c0. length (sha1_buffer c0) = 64 \<and> ctx = SHA1Init c0)"

interpretation sha1: streaming_hash fresh1 "\<lambda>c d. SHA1Update c d (length d)" SHA1Final holds1 "\<lambda>m. (zero_ctx, SHA1 m)" "\<lambda>d. length d + 64 \<le> 2 ^ 32"
  by unfold_locales (auto simp: fresh1_def holds1_init SHA1Update_holds SHA1Final_digest)

section \<open>Properties\<close>

text \<open>
  (C39) \<open>SHA1Init\<close>, \<open>SHA1Update\<close> and \<open>SHA1Final\<close> compute the digest that FIPS 180-4 defines, and wipe the context, in
  whatever pieces the message comes, if no piece is within 64 octets of the largest size; and
  \<open>SHA1\<close> puts the digest of the first \<open>len\<close> octets of its argument, and a NUL, into its result.
\<close>

theorem sha1_correct:
  assumes "length (sha1_buffer c0) = 64" and "list_all (\<lambda>d. length d + 64 \<le> 2 ^ 32) ds" and "0 \<le> len" and "len < 2 ^ 31" and "nat len \<le> length str"
  shows "Option.bind (updates (\<lambda>c d. SHA1Update c d (length d)) (SHA1Init c0) ds) SHA1Final = Some (zero_ctx, SHA1 (concat ds))
    \<and> SHA1_string c0 str len = Some (SHA1 (take (nat len) str) @ [0])"
proof
  have f: "fresh1 (SHA1Init c0)" using assms(1) by (auto simp: fresh1_def)
  show "Option.bind (updates (\<lambda>c d. SHA1Update c d (length d)) (SHA1Init c0) ds) SHA1Final = Some (zero_ctx, SHA1 (concat ds))"
    using f assms(2) by (rule sha1.hash_pieces)
  let ?bs = "map (\<lambda>b. [b]) (take (nat len) str)"
  have "Option.bind (updates (\<lambda>c d. SHA1Update c d (length d)) (SHA1Init c0) ?bs) SHA1Final = Some (zero_ctx, SHA1 (concat ?bs))"
    by (rule sha1.hash_pieces [OF f]) (simp add: list_all_iff)
  moreover have "concat ?bs = take (nat len) str" by (induction "take (nat len) str") auto
  ultimately show "SHA1_string c0 str len = Some (SHA1 (take (nat len) str) @ [0])"
    using assms(3-5) by (auto simp: SHA1_string_def bind_eq_Some_conv mod_pos_pos_trivial)
qed

theorem sha1_correct_witness:
  "Option.bind (updates (\<lambda>c d. SHA1Update c d (length d)) (SHA1Init zero_ctx) [[0x61], [0x62, 0x63]]) SHA1Final = Some (zero_ctx, SHA1 [0x61, 0x62, 0x63])
    \<and> SHA1_string zero_ctx [0x61, 0x62, 0x63] 2 = Some (SHA1 [0x61, 0x62] @ [0])"
  using sha1_correct [of zero_ctx "[[0x61], [0x62, 0x63]]" 2 "[0x61, 0x62, 0x63]"] by (simp add: zero_ctx_def take_Cons')

end
