(* ===== verification/App_Yaml.thy ===== *)
theory App_Yaml
  imports Yaml_Loading "HOL-Library.AList"
begin

text \<open>
  \<^verbatim>\<open>src/application/utils/YAML.cpp\<close> of the glib plugin: the class \<open>yaml\<close> with which the application reads
  the descriptions of libraries, on top of the parser.
\<close>

section \<open>Values\<close>

datatype gs_yaml =
    Yaml_None
  | Yaml_Value ystr
  | Yaml_Array "gs_yaml list"
  | Yaml_Map "(ystr \<times> gs_yaml) list"

definition true_set :: "string list" where
  "true_set = [''y'', ''yes'', ''true'', ''on'', ''Y'', ''YES'', ''TRUE'', ''ON'']"

definition false_set :: "string list" where
  "false_set = [''n'', ''no'', ''false'', ''off'', ''N'', ''NO'', ''FALSE'', ''OFF'']"

definition inf_set :: "string list" where
  "inf_set = [''.inf'', ''+.inf'', ''.INF'', ''+.INF'']"

definition neg_inf_set :: "string list" where
  "neg_inf_set = [''-.inf'', ''-.INF'']"

definition nan_set :: "string list" where
  "nan_set = [''.nan'', ''.NAN'']"

definition in_strings :: "ystr \<Rightarrow> string list \<Rightarrow> bool" where
  "in_strings v ss \<longleftrightarrow> v \<in> set (map octets ss)"

definition yaml_put :: "ystr \<Rightarrow> gs_yaml \<Rightarrow> gs_yaml \<Rightarrow> gs_yaml" where
  "yaml_put key x target = (case target of Yaml_Map m \<Rightarrow> Yaml_Map (AList.update key x m) | _ \<Rightarrow> target)"

definition yaml_get :: "ystr \<Rightarrow> gs_yaml \<Rightarrow> gs_yaml" where
  "yaml_get key target = (case target of
     Yaml_Map m \<Rightarrow> (case map_of m key of Some x \<Rightarrow> x | None \<Rightarrow> Yaml_None) | _ \<Rightarrow> Yaml_None)"

definition yaml_append :: "gs_yaml \<Rightarrow> gs_yaml \<Rightarrow> gs_yaml" where
  "yaml_append target x = (case target of Yaml_Array xs \<Rightarrow> Yaml_Array (xs @ [x]) | _ \<Rightarrow> target)"

definition yaml_is_boolean :: "gs_yaml \<Rightarrow> bool" where
  "yaml_is_boolean y = (case y of Yaml_Value v \<Rightarrow> in_strings v true_set \<or> in_strings v false_set | _ \<Rightarrow> False)"

definition yaml_is_number :: "gs_yaml \<Rightarrow> bool" where
  "yaml_is_number y = (case y of Yaml_Value v \<Rightarrow> in_strings v inf_set \<or> in_strings v neg_inf_set \<or> in_strings v nan_set | _ \<Rightarrow> False)"

definition yaml_is_map :: "gs_yaml \<Rightarrow> bool" where
  "yaml_is_map y = (case y of Yaml_Map _ \<Rightarrow> True | _ \<Rightarrow> False)"

definition yaml_has :: "ystr \<Rightarrow> gs_yaml \<Rightarrow> bool" where
  "yaml_has key y = (case y of Yaml_Map m \<Rightarrow> map_of m key \<noteq> None | _ \<Rightarrow> False)"

definition yaml_size :: "gs_yaml \<Rightarrow> nat" where
  "yaml_size y = (case y of Yaml_Array xs \<Rightarrow> length xs | Yaml_Map m \<Rightarrow> length m | _ \<Rightarrow> 0)"

definition yaml_to_string :: "gs_yaml \<Rightarrow> ystr" where
  "yaml_to_string y = (case y of Yaml_Value v \<Rightarrow> v | _ \<Rightarrow> [])"

definition yaml_bool :: "gs_yaml \<Rightarrow> bool" where
  "yaml_bool y = (case y of Yaml_Array xs \<Rightarrow> xs \<noteq> [] | Yaml_Map m \<Rightarrow> m \<noteq> []
     | _ \<Rightarrow> let v = yaml_to_string y in
         if in_strings v true_set then True else if in_strings v false_set then False else v \<noteq> [])"

section \<open>The tokenizer\<close>

record 'h tokenizer =
  tk_parser :: "'h yaml_parser"
  tk_event :: yaml_event_data

text \<open>A call of the parser clears the event first; the event stays so if the call fails.\<close>

definition tokenizer_next :: "'h event_fetcher \<Rightarrow> 'h tokenizer \<Rightarrow> (bool, 'h tokenizer) res" where
  "tokenizer_next E T =
     (case E (tk_parser T) of
        Ok e P \<Rightarrow> Ok True \<lparr>tk_parser = P, tk_event = ev_data e\<rparr>
      | Fail P \<Rightarrow> Ok False \<lparr>tk_parser = P, tk_event = YAML_NO_EVENT\<rparr>
      | Abort \<Rightarrow> Abort | Hang \<Rightarrow> Hang)"

text \<open>The last line of the loops: leave the loop at the end of the document or without a next event.\<close>

definition next_turn :: "'h event_fetcher \<Rightarrow> 'a \<Rightarrow> ('h tokenizer \<Rightarrow> ('a, 'h tokenizer) res) \<Rightarrow> 'h tokenizer \<Rightarrow> ('a, 'h tokenizer) res" where
  "next_turn E x loop T =
     (if is_doc_end (tk_event T) then Ok x T
      else res_bind (tokenizer_next E T) (\<lambda>more T. if more then loop T else Ok x T))"

fun yaml_parse_map :: "'h event_fetcher \<Rightarrow> nat \<Rightarrow> gs_yaml \<Rightarrow> 'h tokenizer \<Rightarrow> (gs_yaml, 'h tokenizer) res"
  and yaml_parse_array :: "'h event_fetcher \<Rightarrow> nat \<Rightarrow> gs_yaml \<Rightarrow> 'h tokenizer \<Rightarrow> (gs_yaml, 'h tokenizer) res"
  and yaml_parse_node :: "'h event_fetcher \<Rightarrow> nat \<Rightarrow> 'h tokenizer \<Rightarrow> (gs_yaml, 'h tokenizer) res" where
  "yaml_parse_map E 0 cur T = Hang"
| "yaml_parse_map E (Suc k) cur T =
     (case tk_event T of
        YAML_SCALAR_EVENT _ _ v _ _ _ \<Rightarrow>
          res_bind (tokenizer_next E T) (\<lambda>_ T.
          res_bind (yaml_parse_node E k T) (\<lambda>x T.
            let cur = yaml_put (cstr v) x cur in next_turn E cur (yaml_parse_map E k cur) T))
      | YAML_MAPPING_END_EVENT \<Rightarrow> Ok cur T
      | _ \<Rightarrow> next_turn E cur (yaml_parse_map E k cur) T)"
| "yaml_parse_array E 0 cur T = Hang"
| "yaml_parse_array E (Suc k) cur T =
     (case tk_event T of
        YAML_SEQUENCE_END_EVENT \<Rightarrow> Ok cur T
      | _ \<Rightarrow>
          res_bind (yaml_parse_node E k T) (\<lambda>x T.
            let cur = yaml_append cur x in next_turn E cur (yaml_parse_array E k cur) T))"
| "yaml_parse_node E 0 T = Hang"
| "yaml_parse_node E (Suc k) T =
     (case tk_event T of
        YAML_SCALAR_EVENT _ _ v _ _ _ \<Rightarrow> Ok (Yaml_Value (cstr v)) T
      | YAML_MAPPING_START_EVENT _ _ _ _ \<Rightarrow> yaml_parse_map E k (Yaml_Map []) T
      | YAML_SEQUENCE_START_EVENT _ _ _ _ \<Rightarrow> yaml_parse_array E k (Yaml_Array []) T
      | _ \<Rightarrow> next_turn E Yaml_None (yaml_parse_node E k) T)"

fun yaml_parse_loop :: "'h event_fetcher \<Rightarrow> nat \<Rightarrow> gs_yaml \<Rightarrow> 'h tokenizer \<Rightarrow> (gs_yaml, 'h tokenizer) res" where
  "yaml_parse_loop E 0 doc T = Hang"
| "yaml_parse_loop E (Suc k) doc T =
     res_bind (tokenizer_next E T) (\<lambda>_ T.
     res_bind (case tk_event T of YAML_DOCUMENT_START_EVENT _ _ _ \<Rightarrow> yaml_parse_node E k T | _ \<Rightarrow> Ok doc T) (\<lambda>doc T.
       if is_doc_end (tk_event T) then Ok doc T else yaml_parse_loop E k doc T))"

text \<open>A parser that could not be initialized has no buffers; the result of its initialization is not looked at.\<close>

definition yaml_parse :: "nat \<Rightarrow> nat \<Rightarrow> nat \<Rightarrow> byte list \<Rightarrow> (gs_yaml, byte list tokenizer) res" where
  "yaml_parse k n h input =
     (case string_parser h input of
        Ok _ P \<Rightarrow> yaml_parse_loop (parse_next n) k Yaml_None \<lparr>tk_parser = P, tk_event = YAML_NO_EVENT\<rparr>
      | Fail _ \<Rightarrow> Abort | Abort \<Rightarrow> Abort | Hang \<Rightarrow> Hang)"

section \<open>Documents\<close>








section \<open>Events that a source delivers\<close>

primrec delivers :: "'h event_fetcher \<Rightarrow> 'h yaml_parser \<Rightarrow> yaml_event_data list \<Rightarrow> 'h yaml_parser \<Rightarrow> bool" where
  "delivers E P [] P' \<longleftrightarrow> P' = P"
| "delivers E P (d # ds) P' \<longleftrightarrow> (\<exists>e P1. E P = Ok e P1 \<and> ev_data e = d \<and> delivers E P1 ds P')"

lemma delivers_append: "delivers E P (xs @ ys) P' \<longleftrightarrow> (\<exists>P1. delivers E P xs P1 \<and> delivers E P1 ys P')"
  by (induction xs arbitrary: P) auto



section \<open>Sequences\<close>


section \<open>Mappings\<close>


abbreviation at :: "'h yaml_parser \<Rightarrow> yaml_event_data \<Rightarrow> 'h tokenizer" where
  "at P d \<equiv> \<lparr>tk_parser = P, tk_event = d\<rparr>"




lemma events_of_nonempty [simp]: "events_of t \<noteq> []"
  by (cases t) auto

lemma events_of_hd: "hd (events_of t) # tl (events_of t) = events_of t"
  by simp




section \<open>Streams without a document\<close>

text \<open>
  A source that has nothing more to say, after an error or after the end of the stream, and one
  that comes to that point without the end of a document.
\<close>

definition silent :: "'h event_fetcher \<Rightarrow> 'h yaml_parser \<Rightarrow> bool" where
  "silent E P \<longleftrightarrow> E P = Ok no_event P"

definition lost :: "'h event_fetcher \<Rightarrow> 'h yaml_parser \<Rightarrow> bool" where
  "lost E P \<longleftrightarrow> (\<exists>ds P1 P2. delivers E P ds P1 \<and> \<not> list_ex is_doc_end ds \<and> (P2 = P1 \<or> E P1 = Fail P2) \<and> silent E P2)"

definition astray :: "'h event_fetcher \<Rightarrow> 'h tokenizer \<Rightarrow> bool" where
  "astray E T \<longleftrightarrow> lost E (tk_parser T) \<and> \<not> is_doc_end (tk_event T)"

lemma silent_lost: "silent E P \<Longrightarrow> lost E P"
  unfolding lost_def by (rule exI [of _ "[]"]) auto

lemma next_astray: "lost E (tk_parser T) \<Longrightarrow> \<exists>b T'. tokenizer_next E T = Ok b T' \<and> astray E T'"
proof -
  assume "lost E (tk_parser T)"
  then obtain ds P1 P2 where d: "delivers E (tk_parser T) ds P1" "\<not> list_ex is_doc_end ds" "P2 = P1 \<or> E P1 = Fail P2" "silent E P2"
    unfolding lost_def by blast
  show ?thesis
  proof (cases ds)
    case Nil
    then show ?thesis using d silent_lost [OF d(4)] by (auto simp: tokenizer_next_def astray_def silent_def no_event_def)
  next
    case (Cons x xs)
    then show ?thesis using d by (fastforce simp: tokenizer_next_def astray_def lost_def)
  qed
qed

definition stays :: "'h event_fetcher \<Rightarrow> ('a, 'h tokenizer) res \<Rightarrow> bool" where
  "stays E r \<longleftrightarrow> (case r of Ok _ T \<Rightarrow> astray E T | Hang \<Rightarrow> True | _ \<Rightarrow> False)"

lemma stays_simps [simp]: "stays E (Ok x T) = astray E T" "stays E Hang"
  by (simp_all add: stays_def)

lemma stays_bind: "stays E r \<Longrightarrow> (\<And>x T. astray E T \<Longrightarrow> stays E (f x T)) \<Longrightarrow> stays E (res_bind r f)"
  by (cases r) (auto simp: stays_def)

lemma stays_next: "astray E T \<Longrightarrow> stays E (tokenizer_next E T)"
  using next_astray [of E T] by (auto simp: astray_def)

lemma stays_turn: "astray E T \<Longrightarrow> (\<And>T. astray E T \<Longrightarrow> stays E (loop T)) \<Longrightarrow> stays E (next_turn E x loop T)"
  unfolding next_turn_def by (auto intro!: stays_bind stays_next)

lemma stays_astray:
  "astray E T \<Longrightarrow> stays E (yaml_parse_map E k cur T)"
  "astray E T \<Longrightarrow> stays E (yaml_parse_array E k cur T)"
  "astray E T \<Longrightarrow> stays E (yaml_parse_node E k T)"
proof (induction k arbitrary: cur T)
  case (Suc k)
  { case 1 then show ?case using Suc by (auto simp: Let_def intro!: stays_bind stays_turn stays_next split: yaml_event_data.splits) }
  { case 2 then show ?case using Suc by (auto simp: Let_def intro!: stays_bind stays_turn split: yaml_event_data.splits) }
  { case 3 then show ?case using Suc by (auto intro!: stays_turn split: yaml_event_data.splits) }
qed simp_all

lemma lost_never_returns: "lost E (tk_parser T) \<Longrightarrow> yaml_parse_loop E k doc T = Hang"
proof (induction k arbitrary: doc T)
  case (Suc k)
  obtain b T1 where T1: "tokenizer_next E T = Ok b T1" "astray E T1" using next_astray [OF Suc.prems] by blast
  have "stays E (case tk_event T1 of YAML_DOCUMENT_START_EVENT _ _ _ \<Rightarrow> yaml_parse_node E k T1 | _ \<Rightarrow> Ok doc T1)"
    using T1(2) stays_astray(3) by (auto split: yaml_event_data.splits)
  then show ?case using T1(1) Suc.IH
    by (cases "case tk_event T1 of YAML_DOCUMENT_START_EVENT _ _ _ \<Rightarrow> yaml_parse_node E k T1 | _ \<Rightarrow> Ok doc T1") (auto simp: stays_def astray_def)
qed simp

section \<open>Documents from a string\<close>


lemma parsed_delivers: "parsed n P0 es P \<Longrightarrow> delivers (parse_next n) P0 (map ev_data es) P"
  by (induction rule: parsed.induct) (auto simp: delivers_append)





section \<open>Properties\<close>



text \<open>
  (C37) \<open>yaml::parse\<close> never returns for a string whose stream ends without a document, the empty
  string for one, or in which the parser finds an error before the end of the first document: its
  loop waits for the end of a document and does not look at the result of the parser.
\<close>

theorem yaml_parse_never_returns:
  assumes "string_parser h input = Ok () P0" and "parsed n P0 es P" and "\<not> list_ex (is_doc_end \<circ> ev_data) es"
    and "state P = YAML_PARSE_END_STATE \<or> (\<exists>P'. parse_next n P = Fail P' \<and> error P' \<noteq> YAML_NO_ERROR)"
  shows "yaml_parse k n h input = Hang"
proof -
  have "silent (parse_next n) P \<or> (\<exists>P'. parse_next n P = Fail P' \<and> silent (parse_next n) P')"
    using assms(4) by (auto simp: silent_def yaml_parser_parse_def)
  moreover have "\<not> list_ex is_doc_end (map ev_data es)" using assms(3) by (simp add: list_ex_iff)
  ultimately have "lost (parse_next n) P0"
    unfolding lost_def using parsed_delivers [OF assms(2)] by blast
  then show ?thesis using lost_never_returns [of "parse_next n" "at P0 YAML_NO_EVENT"] assms(1) by (simp add: yaml_parse_def)
qed

theorem yaml_parse_never_returns_witness: "yaml_parse 1000 30 500 (octets ''%'') = Hang"
proof -
  have "(case parse_next 30 bad_parser of Ok e P \<Rightarrow> \<not> is_doc_end (ev_data e)
      \<and> (case parse_next 30 P of Fail P' \<Rightarrow> error P' \<noteq> YAML_NO_ERROR | _ \<Rightarrow> False) | _ \<Rightarrow> False)" by code_simp
  then obtain e P P' where e: "parse_next 30 bad_parser = Ok e P" "\<not> is_doc_end (ev_data e)" "parse_next 30 P = Fail P'" "error P' \<noteq> YAML_NO_ERROR"
    by (auto split: res.splits)
  have "parsed 30 bad_parser [e] P" using e(1) by (rule parsed_first) (simp add: bad_parser_def zero_parser_def)
  then show ?thesis using yaml_parse_never_returns [OF demo_parser(2), of 30 "[e]" P 1000] e by auto
qed

end
