(* ===== verification/Bit64.thy ===== *)
theory Bit64
  imports Yaml_Prelude
begin

text \<open>
  \<^verbatim>\<open>bit64.cpp\<close>, the text encoding of tokens: six bits per character, low bits first, with an
  alphabet that is shuffled by a fixed key.

  \<open>tb\<close>, the number of bits that wait in \<open>tmp\<close>, is a \<open>nat\<close>: the last loop of each function stops
  when its \<open>int\<close> becomes zero or negative.  \<open>bit64_hex64rev\<close> takes a \<open>char\<close> as an index; the model is
  that of a platform whose \<open>char\<close> is unsigned.  The sizes are computed in \<open>float\<close>, which is exact for
  the lengths below \<open>2 ^ 20\<close>; the model has the exact value.
\<close>

section \<open>The alphabet\<close>

definition bit64_chars :: "byte list" where
  "bit64_chars = map word_of_nat ([48..<58] @ [97..<123] @ [65..<91] @ [95, 45])"

text \<open>The loop of \<open>bit64_makeIndex\<close>: characters are taken out one by one.\<close>

function make_index :: "nat \<Rightarrow> byte list \<Rightarrow> byte list \<Rightarrow> byte list" where
  "make_index off res c_map =
     (if res = [] then c_map
      else let off = off mod length res in
        make_index (off + 1) (take off res @ drop (off + 1) res) (c_map @ [res ! off]))"
  by pat_completeness auto
termination
proof (relation "measure (\<lambda>(off, res, c_map). length res)")
  fix off :: nat and res c_map :: "byte list" and k
  assume "res \<noteq> []" "k = off mod length res"
  then have "k < length res" by simp
  then show "((k + 1, take k res @ drop (k + 1) res, c_map @ [res ! k]), (off, res, c_map)) \<in> measure (\<lambda>(off, res, c_map). length res)"
    by simp
qed simp

declare make_index.simps [simp del]

definition bit64_KEY :: nat where
  "bit64_KEY = 32"

definition c_map :: "byte list" where
  "c_map = make_index bit64_KEY bit64_chars []"

text \<open>The index written for a character while the alphabet grows; 0 for all others.\<close>

fun rev_index :: "byte list \<Rightarrow> nat \<Rightarrow> (byte \<Rightarrow> byte) \<Rightarrow> byte \<Rightarrow> byte" where
  "rev_index [] n m = m"
| "rev_index (ch # cs) n m = rev_index cs (Suc n) (m(ch := word_of_nat n))"

definition bit64_hex64 :: "nat \<Rightarrow> byte" where
  "bit64_hex64 num = (if num < 64 then c_map ! num else 0)"

definition bit64_hex64rev :: "byte \<Rightarrow> byte" where
  "bit64_hex64rev ch = rev_index c_map 0 (\<lambda>_. 0) ch"

section \<open>Encoding\<close>

fun encode_drain :: "nat \<Rightarrow> 32 word \<Rightarrow> byte list \<Rightarrow> nat \<times> 32 word \<times> byte list" where
  "encode_drain tb tmp result =
     (if 6 \<le> tb then encode_drain (tb - 6) (drop_bit 6 tmp) (result @ [bit64_hex64 (unat (tmp AND 63))])
      else (tb, tmp, result))"

declare encode_drain.simps [simp del]

fun encode_loop :: "byte list \<Rightarrow> nat \<times> 32 word \<times> byte list \<Rightarrow> nat \<times> 32 word \<times> byte list" where
  "encode_loop [] s = s"
| "encode_loop (b # bs) (tb, tmp, result) = encode_loop bs (encode_drain (tb + 8) (tmp OR push_bit tb (ucast b)) result)"

fun encode_rest :: "nat \<Rightarrow> 32 word \<Rightarrow> byte list \<Rightarrow> byte list" where
  "encode_rest tb tmp result =
     (if 0 < tb then encode_rest (tb - 6) (drop_bit 6 tmp) (result @ [bit64_hex64 (unat (tmp AND 63))]) else result)"

declare encode_rest.simps [simp del]

definition bit64_encode :: "byte list \<Rightarrow> byte list" where
  "bit64_encode buffer = (let (tb, tmp, result) = encode_loop buffer (0, 0, []) in encode_rest tb tmp result)"

section \<open>Decoding\<close>

fun decode_drain :: "nat \<Rightarrow> 32 word \<Rightarrow> byte list \<Rightarrow> nat \<times> 32 word \<times> byte list" where
  "decode_drain tb tmp result =
     (if 8 \<le> tb then decode_drain (tb - 8) (drop_bit 8 tmp) (result @ [ucast (tmp AND 0xff)]) else (tb, tmp, result))"

declare decode_drain.simps [simp del]

fun decode_loop :: "byte list \<Rightarrow> nat \<times> 32 word \<times> byte list \<Rightarrow> nat \<times> 32 word \<times> byte list" where
  "decode_loop [] s = s"
| "decode_loop (ch # cs) (tb, tmp, result) = decode_loop cs (decode_drain (tb + 6) (tmp OR push_bit tb (ucast (bit64_hex64rev ch))) result)"

fun decode_rest :: "nat \<Rightarrow> 32 word \<Rightarrow> byte list \<Rightarrow> byte list" where
  "decode_rest tb tmp result =
     (if 0 < tb
      then let l = ucast (tmp AND 0xff) in decode_rest (tb - 8) (drop_bit 8 tmp) (if l > 0 then result @ [l] else result)
      else result)"

declare decode_rest.simps [simp del]

definition bit64_decode :: "byte list \<Rightarrow> byte list" where
  "bit64_decode buffer = (let (tb, tmp, result) = decode_loop buffer (0, 0, []) in decode_rest tb tmp result)"

definition bit64_decode_size :: "nat \<Rightarrow> nat" where
  "bit64_decode_size n = (3 * n + 3) div 4"

definition bit64_encode_size :: "nat \<Rightarrow> nat" where
  "bit64_encode_size n = (4 * n + 2) div 3"

section \<open>The wrappers of the application\<close>

text \<open>
  \<^verbatim>\<open>utils/Bit64.cpp\<close>: the string is resized to the computed size, which fills it with zeros, and
  the octets are written into it; the number of octets that were written is not looked at.
\<close>

definition write_into :: "nat \<Rightarrow> byte list \<Rightarrow> byte list" where
  "write_into n out = out @ replicate (n - length out) 0"

definition encodeString :: "byte list \<Rightarrow> byte list" where
  "encodeString str = write_into (bit64_encode_size (length str)) (bit64_encode str)"

definition decodeString :: "byte list \<Rightarrow> byte list" where
  "decodeString str = write_into (bit64_decode_size (length str)) (bit64_decode str)"

section \<open>The alphabet is a bijection\<close>

lemma length_c_map: "length c_map = 64"
  by code_simp

lemma distinct_c_map: "distinct c_map"
  by code_simp

lemma rev_index_other: "ch \<notin> set cs \<Longrightarrow> rev_index cs n m ch = m ch"
  by (induction cs n m rule: rev_index.induct) auto

lemma rev_index_nth: "distinct cs \<Longrightarrow> i < length cs \<Longrightarrow> rev_index cs n m (cs ! i) = word_of_nat (n + i)"
proof (induction cs n m arbitrary: i rule: rev_index.induct)
  case (2 c cs n m)
  then show ?case by (cases i) (auto simp: rev_index_other fun_upd_def)
qed simp

lemma hex64_rev: "num < 64 \<Longrightarrow> bit64_hex64rev (bit64_hex64 num) = word_of_nat num"
  using rev_index_nth [OF distinct_c_map, of num 0] by (simp add: bit64_hex64_def bit64_hex64rev_def length_c_map)

lemma rev_index_less: "(\<forall>c. unat (m c) < 64) \<Longrightarrow> n + length cs \<le> 64 \<Longrightarrow> unat (rev_index cs n m ch) < 64"
  by (induction cs n m rule: rev_index.induct) (auto simp: unat_of_nat)

lemma hex64rev_less: "unat (bit64_hex64rev ch) < 64"
  unfolding bit64_hex64rev_def by (rule rev_index_less) (simp_all add: length_c_map)

section \<open>Digits\<close>

text \<open>The number that digits stand for, low digit first.\<close>

fun number :: "nat \<Rightarrow> nat list \<Rightarrow> nat" where
  "number base [] = 0"
| "number base (d # ds) = d + base * number base ds"

lemma number_append: "number base (xs @ ys) = number base xs + base ^ length xs * number base ys"
  by (induction xs) (simp_all add: algebra_simps)

lemma number_less: "list_all (\<lambda>d. d < base) ds \<Longrightarrow> number base ds < base ^ length ds"
proof (induction ds)
  case (Cons d ds)
  then have "number base ds + 1 \<le> base ^ length ds" by simp
  then have "base * (number base ds + 1) \<le> base * base ^ length ds" by (rule mult_le_mono2)
  then show ?case using Cons.prems by simp
qed simp

lemma number_inj:
  "list_all (\<lambda>d. d < base) xs \<Longrightarrow> list_all (\<lambda>d. d < base) ys \<Longrightarrow> length xs = length ys \<Longrightarrow> number base xs = number base ys \<Longrightarrow> xs = ys"
proof (induction xs arbitrary: ys)
  case (Cons x xs)
  obtain y ys' where ys: "ys = y # ys'" using Cons.prems(3) by (cases ys) auto
  have eq: "x + base * number base xs = y + base * number base ys'" and xy: "x < base" "y < base" using Cons.prems ys by auto
  have "x = y" using arg_cong [OF eq, of "\<lambda>n. n mod base"] xy by simp
  moreover from this have "number base xs = number base ys'" using eq xy by simp
  ultimately show ?case using Cons ys by simp
qed simp

lemma number_step:
  "number base (ds @ [v mod base]) + base ^ Suc (length ds) * (v div base) = number base ds + base ^ length ds * v"
proof -
  have "base ^ length ds * (v mod base) + base ^ length ds * (base * (v div base)) = base ^ length ds * v"
    unfolding distrib_left [symmetric] mod_mult_div_eq ..
  then show ?thesis by (simp add: number_append mult.assoc mult.left_commute)
qed

text \<open>The bits of \<open>w\<close> above \<open>t\<close> bits of \<open>tmp\<close>.\<close>

lemma unat_or_push:
  assumes "unat tmp < 2 ^ t" and "unat w < 2 ^ s" and "t + s \<le> 32"
  shows "unat (tmp OR push_bit t (w :: 32 word)) = unat tmp + 2 ^ t * unat w"
proof -
  have "unat w * 2 ^ t < 2 ^ s * 2 ^ t" using assms(2) by simp
  also have "\<dots> \<le> 2 ^ 32" using assms(3) by (metis add.commute one_le_numeral power_add power_increasing)
  finally have "take_bit 32 (push_bit t (unat w)) = push_bit t (unat w)" by (simp add: take_bit_nat_eq_self push_bit_eq_mult)
  then have p: "unat (tmp OR push_bit t w) = unat tmp OR push_bit t (unat w)" by (simp add: unsigned_or_eq unsigned_push_bit_eq)
  have "take_bit t (unat tmp) = unat tmp" using assms(1) by (rule take_bit_nat_eq_self)
  then have "\<not> bit (unat tmp) n" if "t \<le> n" for n using that by (metis bit_take_bit_iff leD)
  then have "unat tmp AND push_bit t (unat w) = 0" by (intro bit_eqI) (auto simp: bit_and_iff bit_push_bit_iff_nat)
  then have "unat tmp OR push_bit t (unat w) = unat tmp + push_bit t (unat w)" by (simp add: disjunctive_add_eq_or)
  then show ?thesis using p by (simp add: push_bit_eq_mult)
qed

section \<open>Packing bits\<close>

lemma encode_drain_number:
  assumes "encode_drain tb tmp result = (tb', tmp', result')" and "unat tmp < 2 ^ tb" and "list_all (\<lambda>d. d < 64) ds"
    and "result = map bit64_hex64 ds"
  shows "\<exists>ds'. result' = map bit64_hex64 ds' \<and> list_all (\<lambda>d. d < 64) ds' \<and> tb' < 6 \<and> unat tmp' < 2 ^ tb'
    \<and> 6 * length ds' + tb' = 6 * length ds + tb \<and> number 64 ds' + 64 ^ length ds' * unat tmp' = number 64 ds + 64 ^ length ds * unat tmp"
  using assms
proof (induction tb tmp result arbitrary: ds rule: encode_drain.induct)
  case (1 tb tmp result)
  show ?case
  proof (cases "6 \<le> tb")
    case False
    then show ?thesis using 1 by (subst (asm) encode_drain.simps) auto
  next
    case True
    let ?d = "unat (tmp AND 63)"
    have d: "?d = unat tmp mod 64" by (rule unat_and_3F)
    have q: "unat (drop_bit 6 tmp) = unat tmp div 64" by (simp add: unat_drop)
    have "unat tmp < 64 * 2 ^ (tb - 6)" using 1(3) True power_add [of "2 :: nat" 6 "tb - 6"] by simp
    then have "unat (drop_bit 6 tmp) < 2 ^ (tb - 6)" by (simp add: q less_mult_imp_div_less mult.commute)
    moreover have "number 64 (ds @ [?d]) + 64 ^ Suc (length ds) * unat (drop_bit 6 tmp) = number 64 ds + 64 ^ length ds * unat tmp"
      unfolding d q by (rule number_step)
    moreover have "encode_drain (tb - 6) (drop_bit 6 tmp) (result @ [bit64_hex64 ?d]) = (tb', tmp', result')"
      using 1(2) True by (subst (asm) encode_drain.simps) simp
    ultimately show ?thesis using 1(1) [OF True, of "ds @ [?d]"] 1(4,5) True d by auto
  qed
qed

text \<open>What the loops have read and written: the same number.\<close>

definition packed :: "nat \<Rightarrow> nat \<Rightarrow> nat list \<Rightarrow> nat list \<Rightarrow> nat \<Rightarrow> nat \<Rightarrow> bool" where
  "packed i k ins ds tb tmp \<longleftrightarrow> list_all (\<lambda>d. d < 2 ^ k) ds \<and> tb < k \<and> tmp < 2 ^ tb \<and> k * length ds + tb = i * length ins
     \<and> number (2 ^ k) ds + (2 ^ k) ^ length ds * tmp = number (2 ^ i) ins"

lemma packed_start: "0 < k \<Longrightarrow> packed i k [] [] 0 0"
  by (simp add: packed_def)

text \<open>One more digit on top, before the low digits are taken out.\<close>

lemma packed_more:
  assumes "packed i k ins ds tb tmp" and "d < 2 ^ i"
  shows "number (2 ^ k) ds + (2 ^ k) ^ length ds * (tmp + 2 ^ tb * d) = number (2 ^ i) (ins @ [d])" and "tmp + 2 ^ tb * d < 2 ^ (tb + i)"
proof -
  have len: "k * length ds + tb = i * length ins" and tmp: "tmp < 2 ^ tb" using assms(1) by (simp_all add: packed_def)
  have "((2 :: nat) ^ k) ^ length ds * 2 ^ tb = (2 ^ i) ^ length ins"
    by (simp only: power_mult [symmetric] power_add [symmetric] len)
  then show "number (2 ^ k) ds + (2 ^ k) ^ length ds * (tmp + 2 ^ tb * d) = number (2 ^ i) (ins @ [d])"
    using assms(1) by (simp add: packed_def number_append distrib_left mult.assoc [symmetric])
  have "tmp + 2 ^ tb * d < 2 ^ tb * (d + 1)" using tmp by simp
  also have "\<dots> \<le> 2 ^ tb * 2 ^ i" using assms(2) by (intro mult_le_mono2) simp
  finally show "tmp + 2 ^ tb * d < 2 ^ (tb + i)" by (simp add: power_add)
qed

lemma encode_loop_packed:
  assumes "packed 8 6 ins ds tb (unat tmp)" and "result = map bit64_hex64 ds" and "encode_loop bs (tb, tmp, result) = (tb', tmp', result')"
  shows "\<exists>ds'. result' = map bit64_hex64 ds' \<and> packed 8 6 (ins @ map unat bs) ds' tb' (unat tmp')"
  using assms
proof (induction bs arbitrary: ins ds tb tmp result)
  case (Cons b bs)
  let ?tmp = "tmp OR push_bit tb (ucast b)"
  have b: "unat b < 2 ^ 8" using unsigned_less [of b] by simp
  have tb: "tb < 6" "unat tmp < 2 ^ tb" "6 * length ds + tb = 8 * length ins" "list_all (\<lambda>d. d < 64) ds"
    using Cons.prems(1) by (simp_all add: packed_def)
  have t: "unat ?tmp = unat tmp + 2 ^ tb * unat b" using unat_or_push [of tmp tb "ucast b" 8] tb b by (simp add: unat_ucast32)
  obtain tb1 tmp1 r1 where d: "encode_drain (tb + 8) ?tmp result = (tb1, tmp1, r1)" by (metis prod_cases3)
  note m = packed_more [OF Cons.prems(1) b]
  obtain ds1 where ds1: "r1 = map bit64_hex64 ds1" "list_all (\<lambda>d. d < 64) ds1" "tb1 < 6" "unat tmp1 < 2 ^ tb1"
    "6 * length ds1 + tb1 = 6 * length ds + (tb + 8)" "number 64 ds1 + 64 ^ length ds1 * unat tmp1 = number 64 ds + 64 ^ length ds * unat ?tmp"
    using encode_drain_number [OF d _ tb(4) Cons.prems(2)] m(2) t by auto
  then have "packed 8 6 (ins @ [unat b]) ds1 tb1 (unat tmp1)" using m(1) t tb(3) by (simp add: packed_def)
  from Cons.IH [OF this ds1(1)] Cons.prems(3) d show ?case by simp
qed auto

lemma encode_rest_packed:
  assumes "packed 8 6 ins ds tb (unat tmp)"
  shows "\<exists>ds'. encode_rest tb tmp (map bit64_hex64 ds) = map bit64_hex64 ds' \<and> list_all (\<lambda>d. d < 64) ds'
    \<and> number 64 ds' = number 256 ins \<and> length ds' = (8 * length ins + 5) div 6"
proof -
  have p: "list_all (\<lambda>d. d < 64) ds" "tb < 6" "unat tmp < 2 ^ tb" "6 * length ds + tb = 8 * length ins"
    "number 64 ds + 64 ^ length ds * unat tmp = number 256 ins" using assms by (simp_all add: packed_def)
  show ?thesis
  proof (cases "tb = 0")
    case True
    then have "length ds = (8 * length ins + 5) div 6" "number 64 ds = number 256 ins" using p(3,4,5) by auto
    then show ?thesis using p(1) True by (intro exI [of _ ds]) (simp add: encode_rest.simps)
  next
    case False
    have "unat tmp < 64" using p(2,3) power_strict_increasing [of tb 6 "2 :: nat"] by simp
    then have "encode_rest tb tmp (map bit64_hex64 ds) = map bit64_hex64 (ds @ [unat tmp])"
      using False p(2) by (subst encode_rest.simps, subst encode_rest.simps) (simp add: unat_and_3F)
    moreover have "length (ds @ [unat tmp]) = (8 * length ins + 5) div 6" using p(2,4) False by simp
    ultimately show ?thesis using p \<open>unat tmp < 64\<close> by (intro exI [of _ "ds @ [unat tmp]"]) (simp add: number_append)
  qed
qed

lemma encode_number:
  "\<exists>ds. bit64_encode bs = map bit64_hex64 ds \<and> list_all (\<lambda>d. d < 64) ds \<and> number 64 ds = number 256 (map unat bs)
    \<and> length ds = (8 * length bs + 5) div 6"
proof -
  obtain tb tmp r where l: "encode_loop bs (0, 0, []) = (tb, tmp, r)" by (metis prod_cases3)
  then obtain ds where "r = map bit64_hex64 ds" "packed 8 6 (map unat bs) ds tb (unat tmp)"
    using encode_loop_packed [of "[]" "[]" 0 0 "[]" bs tb tmp r] by (auto simp: packed_start)
  then show ?thesis using encode_rest_packed [of "map unat bs" ds tb tmp] l by (simp add: bit64_encode_def)
qed

section \<open>Unpacking bits\<close>

lemma unat_low_octet: "unat (ucast (v AND 0xff :: 32 word) :: byte) = unat v mod 256"
  by (simp add: unat_ucast8 unat_and_FF)

lemma decode_drain_number:
  assumes "decode_drain tb tmp result = (tb', tmp', result')" and "unat tmp < 2 ^ tb"
  shows "tb' < 8 \<and> unat tmp' < 2 ^ tb' \<and> 8 * length result' + tb' = 8 * length result + tb
    \<and> number 256 (map unat result') + 256 ^ length result' * unat tmp' = number 256 (map unat result) + 256 ^ length result * unat tmp"
  using assms
proof (induction tb tmp result rule: decode_drain.induct)
  case (1 tb tmp result)
  show ?case
  proof (cases "8 \<le> tb")
    case False
    then show ?thesis using 1 by (subst (asm) decode_drain.simps) auto
  next
    case True
    let ?l = "ucast (tmp AND 0xff) :: byte"
    have q: "unat (drop_bit 8 tmp) = unat tmp div 256" by (simp add: unat_drop)
    have "unat tmp < 256 * 2 ^ (tb - 8)" using 1(3) True power_add [of "2 :: nat" 8 "tb - 8"] by simp
    then have "unat (drop_bit 8 tmp) < 2 ^ (tb - 8)" by (simp add: q less_mult_imp_div_less mult.commute)
    moreover have "number 256 (map unat result @ [unat ?l]) + 256 ^ Suc (length (map unat result)) * unat (drop_bit 8 tmp)
        = number 256 (map unat result) + 256 ^ length (map unat result) * unat tmp"
      unfolding unat_low_octet q by (rule number_step)
    moreover have "decode_drain (tb - 8) (drop_bit 8 tmp) (result @ [?l]) = (tb', tmp', result')"
      using 1(2) True by (subst (asm) decode_drain.simps) simp
    ultimately show ?thesis using 1(1) [OF True] True by auto
  qed
qed

lemma decode_loop_packed:
  assumes "packed 6 8 ins (map unat result) tb (unat tmp)" and "decode_loop cs (tb, tmp, result) = (tb', tmp', result')"
  shows "packed 6 8 (ins @ map (unat \<circ> bit64_hex64rev) cs) (map unat result') tb' (unat tmp')"
  using assms
proof (induction cs arbitrary: ins tb tmp result)
  case (Cons c cs)
  let ?d = "bit64_hex64rev c"
  let ?tmp = "tmp OR push_bit tb (ucast ?d)"
  have d: "unat ?d < 2 ^ 6" using hex64rev_less [of c] by simp
  have tb: "tb < 8" "unat tmp < 2 ^ tb" "8 * length result + tb = 6 * length ins" using Cons.prems(1) by (simp_all add: packed_def)
  have t: "unat ?tmp = unat tmp + 2 ^ tb * unat ?d" using unat_or_push [of tmp tb "ucast ?d" 6] tb d by (simp add: unat_ucast32)
  obtain tb1 tmp1 r1 where e: "decode_drain (tb + 6) ?tmp result = (tb1, tmp1, r1)" by (metis prod_cases3)
  note m = packed_more [OF Cons.prems(1) d]
  have "packed 6 8 (ins @ [unat ?d]) (map unat r1) tb1 (unat tmp1)"
    using decode_drain_number [OF e] m t tb(3) unat_byte by (auto simp: packed_def list_all_iff)
  from Cons.IH [OF this] Cons.prems(2) e show ?case by simp
qed simp

lemma decode_packed:
  obtains tb tmp r where "decode_loop cs (0, 0, []) = (tb, tmp, r)"
    and "packed 6 8 (map (unat \<circ> bit64_hex64rev) cs) (map unat r) tb (unat tmp)"
  using decode_loop_packed [of "[]" "[]" 0 0 cs] packed_start [of 8 6] by (metis append_Nil list.simps(8) prod_cases3 unat_0 zero_less_numeral)

lemma decode_rest_eq:
  assumes "tb < 8" and "unat tmp < 2 ^ tb"
  shows "decode_rest tb tmp r = (if unat tmp = 0 then r else r @ [ucast (tmp AND 0xff)])"
proof (cases "tb = 0")
  case True
  then show ?thesis using assms by (simp add: decode_rest.simps)
next
  case False
  have "unat tmp < 256" using assms power_strict_increasing [of tb 8 "2 :: nat"] by simp
  then have "(ucast (tmp AND 0xff) :: byte) > 0 \<longleftrightarrow> unat tmp \<noteq> 0" using unat_low_octet [of tmp] by (simp add: word_less_nat_alt)
  then show ?thesis using False assms(1) by (subst decode_rest.simps, subst decode_rest.simps) (simp add: Let_def)
qed

lemma encode_decode:
  "bit64_decode (bit64_encode bs) = bs \<and> length (bit64_decode cs) \<le> bit64_decode_size (length cs)
    \<and> length (bit64_encode bs) = bit64_encode_size (length bs)"
proof (intro conjI)
  obtain ds where ds: "bit64_encode bs = map bit64_hex64 ds" "list_all (\<lambda>d. d < 64) ds" "number 64 ds = number 256 (map unat bs)"
    "length ds = (8 * length bs + 5) div 6" using encode_number by blast
  have rev: "map (unat \<circ> bit64_hex64rev) (bit64_encode bs) = ds"
    using ds(1,2) by (auto simp: list_all_iff hex64_rev unat_of_nat intro!: map_idI)
  obtain tb tmp r where r: "decode_loop (bit64_encode bs) (0, 0, []) = (tb, tmp, r)" "packed 6 8 ds (map unat r) tb (unat tmp)"
    by (rule decode_packed [of "bit64_encode bs"]) (simp add: rev)
  note p = r(2) [unfolded packed_def]
  have "8 * length bs \<le> 6 * length ds" "6 * length ds \<le> 8 * length bs + 5" using ds(4) by linarith+
  then have len: "length r = length bs" using p by auto
  have num: "number 256 (map unat r) + 256 ^ length r * unat tmp = number 256 (map unat bs)" using p ds(3) by simp
  moreover have "number 256 (map unat bs) < 256 ^ length bs" using number_less [of 256 "map unat bs"] unat_byte by (simp add: list_all_iff)
  ultimately have "unat tmp = 0" using len by (cases "unat tmp") auto
  then have "map unat r = map unat bs" using num len number_inj [of 256 "map unat r" "map unat bs"] unat_byte by (simp add: list_all_iff)
  then have "r = bs" by (rule map_unat_inj)
  then show "bit64_decode (bit64_encode bs) = bs" using r(1) p \<open>unat tmp = 0\<close> by (simp add: bit64_decode_def decode_rest_eq)
  show "length (bit64_encode bs) = bit64_encode_size (length bs)" using ds(1,4) by (simp add: bit64_encode_size_def)
next
  obtain tb tmp r where r: "decode_loop cs (0, 0, []) = (tb, tmp, r)" "packed 6 8 (map (unat \<circ> bit64_hex64rev) cs) (map unat r) tb (unat tmp)"
    by (rule decode_packed)
  moreover from this have "unat tmp \<noteq> 0 \<Longrightarrow> 0 < tb" by (cases tb) (auto simp: packed_def)
  ultimately show "length (bit64_decode cs) \<le> bit64_decode_size (length cs)"
    by (auto simp: bit64_decode_def decode_rest_eq packed_def bit64_decode_size_def)
qed

section \<open>Properties\<close>


text \<open>
  The wrappers of the application do not give a string back unless its length is a multiple
  of three: otherwise \<open>decodeString\<close> leaves a zero octet at its end.
\<close>

lemma decodeString_encodeString:
  "decodeString (encodeString s) = s @ (if length s mod 3 = 0 then [] else [0])"
proof -
  have "bit64_decode_size (bit64_encode_size n) = n + (if n mod 3 = 0 then 0 else 1)" for n
    unfolding bit64_decode_size_def bit64_encode_size_def by (simp; presburger)
  then show ?thesis using encode_decode [of s] by (simp add: decodeString_def encodeString_def write_into_def)
qed

end
