(* ===== verification/App_Library.thy ===== *)
theory App_Library
  imports App_Yaml Bit64 Sha256_Digest
begin

text \<open>
  \<^verbatim>\<open>main/LibraryContext.cpp\<close>: the application adds a library to its list if the token of the
  library is a signature over the digest of the token before it and of the location.

  The elliptic curve code is a parameter: the key that \<open>secp256k1_ec_pubkey_parse\<close> makes of the key
  of the application, if any, the signature that \<open>secp256k1_ecdsa_signature_parse_compact\<close> makes of
  64 octets, and the answer of \<open>secp256k1_ecdsa_verify\<close>.  A library is an object with an identity;
  the database in which the objects are also saved, and the clock, are not modelled: the date is
  an argument.
\<close>

section \<open>The list of libraries\<close>

record git_library =
  lib_id :: nat
  lib_url :: ystr
  lib_date :: int
  lib_icon :: ystr
  lib_title :: ystr
  lib_token :: ystr

record library_context =
  lc_data :: "git_library list"
  lc_token :: ystr
  lc_next :: nat

definition new_library :: "nat \<Rightarrow> git_library" where
  "new_library i = \<lparr>lib_id = i, lib_url = [], lib_date = 0, lib_icon = [], lib_title = [], lib_token = []\<rparr>"

definition find_library :: "ystr \<Rightarrow> library_context \<Rightarrow> git_library option" where
  "find_library url ctx = find (\<lambda>lib. lib_url lib = url) (lc_data ctx)"

text \<open>A change of the object with an identity, and of the object found for a location or of a new one.\<close>

definition change_library :: "nat \<Rightarrow> (git_library \<Rightarrow> git_library) \<Rightarrow> library_context \<Rightarrow> library_context" where
  "change_library i f ctx = ctx\<lparr>lc_data := map (\<lambda>lib. if lib_id lib = i then f lib else lib) (lc_data ctx)\<rparr>"

definition find_or_add :: "ystr \<Rightarrow> (git_library \<Rightarrow> git_library) \<Rightarrow> library_context \<Rightarrow> library_context" where
  "find_or_add url f ctx =
     (case find_library url ctx of
        Some lib \<Rightarrow> change_library (lib_id lib) f ctx
      | None \<Rightarrow> ctx\<lparr>lc_data := lc_data ctx @ [f (new_library (lc_next ctx))], lc_next := lc_next ctx + 1\<rparr>)"

definition insertLibrary :: "int \<Rightarrow> ystr \<Rightarrow> library_context \<Rightarrow> bool \<times> library_context" where
  "insertLibrary now url ctx =
     (True, case find_library url ctx of
        Some lib \<Rightarrow> change_library (lib_id lib) (\<lambda>lib. lib\<lparr>lib_date := now\<rparr>) ctx
      | None \<Rightarrow> ctx\<lparr>lc_data := lc_data ctx @ [(new_library (lc_next ctx))\<lparr>lib_url := url, lib_date := now\<rparr>], lc_next := lc_next ctx + 1\<rparr>)"

text \<open>
  \<open>_Array::remove\<close> of \<^verbatim>\<open>core/IMP.cpp\<close>: its loop moves the iterator in its head and again in
  the branch for other elements, and keeps the end that the array had before.  On a vector in one
  block of memory an element that is met behind the last one is an access out of bounds, \<open>None\<close>.
\<close>

function remove_loop :: "('a \<Rightarrow> bool) \<Rightarrow> nat \<Rightarrow> nat \<Rightarrow> 'a list \<Rightarrow> 'a list option" where
  "remove_loop eq e it xs =
     (if it = e then Some xs
      else if length xs \<le> it then None
      else if eq (xs ! it) then remove_loop eq e (it + 1) (take it xs @ drop (it + 1) xs)
      else remove_loop eq e (it + 2) xs)"
  by pat_completeness auto
termination by (relation "measure (\<lambda>(eq, e, it, xs). length xs - it)") auto

declare remove_loop.simps [simp del]

definition array_remove :: "('a \<Rightarrow> bool) \<Rightarrow> 'a list \<Rightarrow> 'a list option" where
  "array_remove eq xs = remove_loop eq (length xs) 0 xs"

definition removeLibrary :: "ystr \<Rightarrow> library_context \<Rightarrow> (bool \<times> library_context) option" where
  "removeLibrary url ctx =
     (case find_library url ctx of
        None \<Rightarrow> Some (False, ctx)
      | Some lib \<Rightarrow> map_option (\<lambda>xs. (True, ctx\<lparr>lc_data := xs\<rparr>)) (array_remove (\<lambda>x. lib_id x = lib_id lib) (lc_data ctx)))"

definition reset_context :: "library_context \<Rightarrow> library_context" where
  "reset_context ctx = ctx\<lparr>lc_token := []\<rparr>"

section \<open>Tokens\<close>

record ('k, 's) signatures =
  public_key :: "'k option"
  parse_compact :: "byte list \<Rightarrow> 's"
  ecdsa_verify :: "'s \<Rightarrow> byte list \<Rightarrow> 'k \<Rightarrow> bool"

definition isMatch :: "('k, 's) signatures \<Rightarrow> sha256_context \<Rightarrow> ystr \<Rightarrow> ystr \<Rightarrow> ystr \<Rightarrow> bool option" where
  "isMatch S c0 token url prev =
     Option.bind (sha256_digest c0 ((if prev \<noteq> [] then [bit64_decode prev] else []) @ [url])) (\<lambda>sha256_res.
       Some (case public_key S of
          None \<Rightarrow> False
        | Some pubkey \<Rightarrow>
            let dec_size = bit64_decode_size (length token) in
            if dec_size \<noteq> 64 \<and> dec_size \<noteq> 65 then False
            else let buf = bit64_decode token in
              if length buf \<noteq> 64 then False
              else ecdsa_verify S (parse_compact S buf) sha256_res pubkey))"

text \<open>The rest of \<open>parseLibrary\<close> after the call of \<open>yaml::parse\<close>.\<close>

definition accept_library :: "('k, 's) signatures \<Rightarrow> sha256_context \<Rightarrow> int \<Rightarrow> gs_yaml \<Rightarrow> library_context \<Rightarrow> (bool, library_context) res" where
  "accept_library S c0 now y ctx =
     (if yaml_is_map y then
        let token = yaml_to_string (yaml_get (octets ''token'') y);
            url = yaml_to_string (yaml_get (octets ''src'') y) in
        if url = [] \<or> token = [] then Ok False ctx
        else case isMatch S c0 token url (lc_token ctx) of
            None \<Rightarrow> Abort
          | Some False \<Rightarrow> Ok False ctx
          | Some True \<Rightarrow>
              let ctx = ctx\<lparr>lc_token := token\<rparr> in
              if yaml_bool (yaml_get (octets ''ignore'') y) then Ok True ctx
              else Ok True (find_or_add url (\<lambda>lib. lib\<lparr>lib_title := yaml_to_string (yaml_get (octets ''title'') y), lib_date := now,
                     lib_url := url, lib_icon := yaml_to_string (yaml_get (octets ''icon'') y), lib_token := token\<rparr>) ctx)
      else Ok False ctx)"

definition parseLibrary :: "('k, 's) signatures \<Rightarrow> sha256_context \<Rightarrow> nat \<Rightarrow> nat \<Rightarrow> nat \<Rightarrow> int \<Rightarrow> byte list \<Rightarrow> library_context \<Rightarrow> (bool, library_context) res" where
  "parseLibrary S c0 k n h now body ctx =
     (case yaml_parse k n h body of Ok y _ \<Rightarrow> accept_library S c0 now y ctx | Fail _ \<Rightarrow> Abort | Abort \<Rightarrow> Abort | Hang \<Rightarrow> Hang)"

section \<open>Removing from the list\<close>

lemma remove_loop_none:
  assumes "\<forall>j. it \<le> j \<and> even (j - it) \<and> j < length xs \<longrightarrow> \<not> eq (xs ! j)" and "length xs \<le> e" and "e \<le> length xs + 1" and "it \<le> e"
  shows "remove_loop eq e it xs = (if even (e - it) then Some xs else None)"
  using assms
proof (induction eq e it xs rule: remove_loop.induct)
  case (1 eq e it xs)
  show ?case
  proof (cases "it = e \<or> length xs \<le> it")
    case True
    then show ?thesis using 1(4-6) by (subst remove_loop.simps) (auto simp: le_Suc_eq)
  next
    case False
    then have n: "\<not> eq (xs ! it)" using 1(3) by auto
    have step: "remove_loop eq e it xs = remove_loop eq e (it + 2) xs" using False n by (subst remove_loop.simps) simp
    show ?thesis
    proof (cases "it + 2 \<le> e")
      case True
      have "\<forall>j. it + 2 \<le> j \<and> even (j - (it + 2)) \<and> j < length xs \<longrightarrow> \<not> eq (xs ! j)"
      proof (intro allI impI)
        fix j assume j: "it + 2 \<le> j \<and> even (j - (it + 2)) \<and> j < length xs"
        then show "\<not> eq (xs ! j)" using 1(3) by auto
      qed
      moreover have "even (e - (it + 2)) = even (e - it)" using True by auto
      ultimately show ?thesis using 1(2) [OF _ _ n] False 1(4,5) True step by simp
    next
      case e: False
      then have "e = it + 1" using False 1(6) by auto
      then show ?thesis using step 1(4,5) False by (subst (asm) (2) remove_loop.simps) auto
    qed
  qed
qed

lemma remove_loop_skip:
  assumes "\<forall>j < it + 2 * d. it \<le> j \<longrightarrow> \<not> eq (xs ! j)" and "it + 2 * d < length xs" and "length xs \<le> e"
  shows "remove_loop eq e it xs = remove_loop eq e (it + 2 * d) xs"
  using assms
proof (induction d arbitrary: it)
  case (Suc d)
  have "remove_loop eq e it xs = remove_loop eq e (it + 2) xs" using Suc.prems by (subst remove_loop.simps) auto
  also have "\<dots> = remove_loop eq e (it + 2 + 2 * d) xs" using Suc.prems by (intro Suc.IH) auto
  finally show ?case by simp
qed simp

lemma array_remove_at:
  assumes "i < length xs" and "eq (xs ! i)" and "\<forall>j < length xs. j \<noteq> i \<longrightarrow> \<not> eq (xs ! j)"
  shows "array_remove eq xs = (if odd i then (if even (length xs) then Some xs else None)
    else if odd (length xs) then Some (take i xs @ drop (i + 1) xs) else None)"
proof (cases "even i")
  case False
  then have "\<forall>j. 0 \<le> j \<and> even (j - 0) \<and> j < length xs \<longrightarrow> \<not> eq (xs ! j)" using assms(3) by auto
  then show ?thesis using False remove_loop_none [of 0 xs eq "length xs"] by (simp add: array_remove_def)
next
  case True
  let ?ys = "take i xs @ drop (i + 1) xs"
  have ys: "length ?ys + 1 = length xs" using assms(1) by simp
  have "\<not> eq (?ys ! j)" if "i + 1 \<le> j" "j < length ?ys" for j
    using assms(1,3) that by (simp add: nth_append)
  moreover have "array_remove eq xs = remove_loop eq (length xs) i xs"
    using remove_loop_skip [of 0 "i div 2" eq xs "length xs"] True assms by (simp add: array_remove_def)
  moreover have "\<dots> = remove_loop eq (length xs) (i + 1) ?ys"
    using assms(1,2) by (subst remove_loop.simps) simp
  ultimately show ?thesis using True remove_loop_none [of "i + 1" ?ys eq "length xs"] ys assms(1) by auto
qed

section \<open>What is accepted\<close>

text \<open>The contract of a token: a signature by the key over the digest of the octets of the token before it and of the location.\<close>

definition signed :: "('k, 's) signatures \<Rightarrow> ystr \<Rightarrow> ystr \<Rightarrow> ystr \<Rightarrow> bool" where
  "signed S prev url token \<longleftrightarrow> (\<exists>key. public_key S = Some key \<and> length (bit64_decode token) = 64
     \<and> ecdsa_verify S (parse_compact S (bit64_decode token)) (SHA256 (bit64_decode prev @ url)) key)"

lemma decode_floor: "6 * length cs div 8 \<le> length (bit64_decode cs)"
proof -
  obtain tb tmp r where "decode_loop cs (0, 0, []) = (tb, tmp, r)" "packed 6 8 (map (unat \<circ> bit64_hex64rev) cs) (map unat r) tb (unat tmp)"
    by (rule decode_packed)
  then show ?thesis by (auto simp: bit64_decode_def decode_rest_eq packed_def)
qed

lemma decode_Nil [simp]: "bit64_decode [] = []"
  by (simp add: bit64_decode_def decode_rest.simps)

lemma isMatch_signed:
  assumes "length (sha_buf c0) = 16" and "length url < 2 ^ 32" and "length prev < 2 ^ 32"
  shows "isMatch S c0 token url prev = Some (signed S prev url token)"
proof -
  have "length (bit64_decode prev) \<le> (3 * length prev + 3) div 4" using encode_decode [of "[]" prev] by (simp add: bit64_decode_size_def)
  also have "\<dots> < 2 ^ 32" using assms(3) by simp
  finally have "sha256_digest c0 ((if prev \<noteq> [] then [bit64_decode prev] else []) @ [url]) = Some (SHA256 (bit64_decode prev @ url))"
    using digest_pieces [OF assms(1)] assms(2) by simp
  moreover have "bit64_decode_size (length token) = 64 \<or> bit64_decode_size (length token) = 65" if "length (bit64_decode token) = 64"
    using that decode_floor [of token] encode_decode [of "[]" token] by (auto simp: bit64_decode_size_def)
  ultimately show ?thesis by (auto simp: isMatch_def signed_def Let_def split: option.splits)
qed

definition accepted :: "('k, 's) signatures \<Rightarrow> gs_yaml \<Rightarrow> library_context \<Rightarrow> bool" where
  "accepted S y ctx \<longleftrightarrow> (let token = yaml_to_string (yaml_get (octets ''token'') y); url = yaml_to_string (yaml_get (octets ''src'') y)
     in url \<noteq> [] \<and> token \<noteq> [] \<and> signed S (lc_token ctx) url token)"

definition urls :: "library_context \<Rightarrow> ystr list" where
  "urls ctx = map lib_url (lc_data ctx)"

definition ids_ok :: "library_context \<Rightarrow> bool" where
  "ids_ok ctx \<longleftrightarrow> distinct (map lib_id (lc_data ctx)) \<and> list_all (\<lambda>i. i < lc_next ctx) (map lib_id (lc_data ctx))"

lemma find_library_None: "find_library url ctx = None \<longleftrightarrow> url \<notin> set (urls ctx)"
  by (auto simp: find_library_def urls_def find_None_iff)

lemma find_library_Some: "find_library url ctx = Some lib \<Longrightarrow> lib \<in> set (lc_data ctx) \<and> lib_url lib = url"
  by (auto simp: find_library_def find_Some_iff)

text \<open>Adding keeps identities and locations apart, and touches only the library of the location.\<close>

lemma find_or_add_urls:
  assumes "ids_ok ctx" and "\<And>lib. lib_url (f lib) = url" and "\<And>lib. lib_id (f lib) = lib_id lib"
  shows "urls (find_or_add url f ctx) = (if url \<in> set (urls ctx) then urls ctx else urls ctx @ [url]) \<and> ids_ok (find_or_add url f ctx)"
proof (cases "find_library url ctx")
  case None
  then show ?thesis using assms find_library_None [of url ctx]
    by (auto simp: find_or_add_def urls_def ids_ok_def new_library_def list_all_iff)
next
  case (Some lib)
  have l: "lib \<in> set (lc_data ctx)" "lib_url lib = url" using find_library_Some [OF Some] by auto
  let ?g = "\<lambda>x. if lib_id x = lib_id lib then f x else x"
  have "lib_url (?g x) = lib_url x" if "x \<in> set (lc_data ctx)" for x
    using that l assms(1,2) by (auto simp: ids_ok_def distinct_map dest: inj_onD)
  then have u: "map lib_url (map ?g (lc_data ctx)) = map lib_url (lc_data ctx)" by simp
  have g: "map lib_id (map ?g (lc_data ctx)) = map lib_id (lc_data ctx)" using assms(3) by simp
  have "find_or_add url f ctx = ctx\<lparr>lc_data := map ?g (lc_data ctx)\<rparr>" using Some by (simp add: find_or_add_def change_library_def)
  moreover have "url \<in> set (urls ctx)" using l by (auto simp: urls_def)
  moreover have "urls (ctx\<lparr>lc_data := map ?g (lc_data ctx)\<rparr>) = urls ctx" unfolding urls_def by (simp add: u del: map_map)
  moreover have "ids_ok (ctx\<lparr>lc_data := map ?g (lc_data ctx)\<rparr>)" using assms(1) unfolding ids_ok_def by (simp add: g del: map_map)
  ultimately show ?thesis by simp
qed

section \<open>An example\<close>

text \<open>A curve on which one signature is valid, and a description with that signature.\<close>

definition demo_signatures :: "(unit, byte list) signatures" where
  "demo_signatures = \<lparr>public_key = Some (), parse_compact = (\<lambda>s. s), ecdsa_verify = (\<lambda>s h k. s = replicate 64 1)\<rparr>"

definition demo_description :: gs_yaml where
  "demo_description = Yaml_Map [(octets ''token'', Yaml_Value (bit64_encode (replicate 64 1))), (octets ''src'', Yaml_Value (octets ''x''))]"

definition demo_libraries :: library_context where
  "demo_libraries = \<lparr>lc_data = [(new_library 0)\<lparr>lib_url := octets ''a''\<rparr>, (new_library 1)\<lparr>lib_url := octets ''b''\<rparr>], lc_token = [], lc_next = 2\<rparr>"

lemma demo_urls: "urls demo_libraries = [octets ''a'', octets ''b'']" "ids_ok demo_libraries" "distinct (urls demo_libraries)"
  "length (lc_data demo_libraries) = 2" "lc_token demo_libraries = []"
  by (simp_all add: demo_libraries_def urls_def ids_ok_def new_library_def octets_def)

lemma demo_fields:
  "yaml_to_string (yaml_get (octets ''token'') demo_description) = bit64_encode (replicate 64 1)"
  "yaml_to_string (yaml_get (octets ''src'') demo_description) = octets ''x''"
  "yaml_bool (yaml_get (octets ''ignore'') demo_description) = False"
  by (simp_all add: demo_description_def yaml_get_def yaml_to_string_def yaml_bool_def octets_def in_strings_def true_set_def false_set_def)

lemma demo_accepted: "accepted demo_signatures demo_description demo_libraries"
proof -
  have "length (bit64_encode (replicate 64 1)) = 86" using encode_decode [of "replicate 64 1"] by (simp add: bit64_encode_size_def)
  then have "bit64_encode (replicate 64 1) \<noteq> []" by force
  then show ?thesis using encode_decode [of "replicate 64 1"]
    unfolding accepted_def demo_fields by (simp add: signed_def demo_signatures_def octets_def)
qed

section \<open>The list after a description\<close>

lemma accept_library_cases:
  assumes "length (sha_buf c0) = 16" and "length (yaml_to_string (yaml_get (octets ''src'') y)) < 2 ^ 32" and "length (lc_token ctx) < 2 ^ 32"
    and "ids_ok ctx" and "distinct (urls ctx)"
  shows "if accepted S y ctx
    then \<exists>ctx'. accept_library S c0 now y ctx = Ok True ctx' \<and> lc_token ctx' = yaml_to_string (yaml_get (octets ''token'') y)
      \<and> ids_ok ctx' \<and> distinct (urls ctx')
      \<and> set (urls ctx') = set (urls ctx) \<union> (if yaml_bool (yaml_get (octets ''ignore'') y) then {} else {yaml_to_string (yaml_get (octets ''src'') y)})
    else accept_library S c0 now y ctx = Ok False ctx"
proof -
  let ?token = "yaml_to_string (yaml_get (octets ''token'') y)" and ?url = "yaml_to_string (yaml_get (octets ''src'') y)"
  let ?f = "\<lambda>lib. lib\<lparr>lib_title := yaml_to_string (yaml_get (octets ''title'') y), lib_date := now,
     lib_url := ?url, lib_icon := yaml_to_string (yaml_get (octets ''icon'') y), lib_token := ?token\<rparr>"
  let ?c = "ctx\<lparr>lc_token := ?token\<rparr>"
  have is_map: "yaml_is_map y" if "?url \<noteq> []" using that by (cases y) (auto simp: yaml_get_def yaml_to_string_def yaml_is_map_def)
  have m: "isMatch S c0 ?token ?url (lc_token ctx) = Some (signed S (lc_token ctx) ?url ?token)"
    using assms by (intro isMatch_signed)
  have c: "ids_ok ?c" "urls ?c = urls ctx" using assms(4) by (simp_all add: ids_ok_def urls_def)
  have "lc_token (find_or_add ?url ?f ?c) = ?token" by (simp add: find_or_add_def change_library_def split: option.split)
  moreover have "urls (find_or_add ?url ?f ?c) = (if ?url \<in> set (urls ctx) then urls ctx else urls ctx @ [?url]) \<and> ids_ok (find_or_add ?url ?f ?c)"
    using find_or_add_urls [OF c(1), of ?f ?url] by (simp add: c(2))
  ultimately show ?thesis
    using is_map assms(4,5) c by (auto simp: accept_library_def accepted_def m Let_def)
qed

section \<open>Properties\<close>

text \<open>
  (C35) \<open>parseLibrary\<close> accepts a description exactly if its token is a signature over the SHA-256
  digest of the token before it and the location.  It then keeps the token for the next one and,
  unless the description is to be ignored, has the location exactly once in the list if it was
  there at most once; otherwise nothing changes.
\<close>

theorem accept_library_signed:
  assumes "length (sha_buf c0) = 16" and "length (yaml_to_string (yaml_get (octets ''src'') y)) < 2 ^ 32" and "length (lc_token ctx) < 2 ^ 32"
    and "ids_ok ctx" and "distinct (urls ctx)"
  shows "if accepted S y ctx
    then \<exists>ctx'. accept_library S c0 now y ctx = Ok True ctx' \<and> lc_token ctx' = yaml_to_string (yaml_get (octets ''token'') y)
      \<and> ids_ok ctx' \<and> distinct (urls ctx')
      \<and> set (urls ctx') = set (urls ctx) \<union> (if yaml_bool (yaml_get (octets ''ignore'') y) then {} else {yaml_to_string (yaml_get (octets ''src'') y)})
    else accept_library S c0 now y ctx = Ok False ctx"
  using assms by (rule accept_library_cases)

theorem accept_library_signed_witness:
  "\<exists>ctx'. accept_library demo_signatures zero_context 7 demo_description demo_libraries = Ok True ctx'
    \<and> set (urls ctx') = {octets ''a'', octets ''b'', octets ''x''}"
proof -
  have "length (sha_buf zero_context) = 16" "length (octets ''x'') < 2 ^ 32" by (simp_all add: zero_context_def octets_def)
  then show ?thesis
    using accept_library_signed [of zero_context demo_description demo_libraries demo_signatures 7] demo_accepted demo_urls
    unfolding demo_fields by auto
qed

text \<open>
  (C40) \<open>removeLibrary\<close> takes the library it finds out of the list only if an even number of
  libraries is before it and an even number behind it.  With an odd number before it the library
  stays although \<open>true\<close> is returned, or, like in the remaining case, the loop of \<open>_Array::remove\<close> runs
  over the end of the array.
\<close>

theorem removeLibrary_parity:
  assumes "i < length (lc_data ctx)" and "lib_url (lc_data ctx ! i) = url" and "\<forall>j < i. lib_url (lc_data ctx ! j) \<noteq> url" and "ids_ok ctx"
  shows "removeLibrary url ctx =
    (if odd i then (if even (length (lc_data ctx)) then Some (True, ctx) else None)
     else if odd (length (lc_data ctx)) then Some (True, ctx\<lparr>lc_data := take i (lc_data ctx) @ drop (i + 1) (lc_data ctx)\<rparr>) else None)"
proof -
  let ?xs = "lc_data ctx" and ?eq = "\<lambda>x. lib_id x = lib_id (lc_data ctx ! i)"
  have "find_library url ctx = Some (?xs ! i)" using assms(1-3) by (auto simp: find_library_def find_Some_iff)
  moreover have "\<forall>j < length ?xs. j \<noteq> i \<longrightarrow> \<not> ?eq (?xs ! j)"
    using assms(1,4) nth_eq_iff_index_eq [of "map lib_id ?xs"] by (auto simp: ids_ok_def)
  ultimately show ?thesis using array_remove_at [of i ?xs ?eq] assms(1) by (simp add: removeLibrary_def)
qed

theorem removeLibrary_parity_witness: "removeLibrary (octets ''b'') demo_libraries = Some (True, demo_libraries)"
  using removeLibrary_parity [of 1 demo_libraries "octets ''b''"] demo_urls(2)
  by (simp add: demo_libraries_def new_library_def octets_def)

end
