(* ===== verification/Spec2Isabelle.thy ===== *)
theory Spec2Isabelle
  imports Yaml_Reader_Facts Yaml_Writer Yaml_Loading Yaml_Memory Yaml_Api_Document Yaml_Dumping Sha1_Digest App_Library
begin

text \<open>
  \<^bold>\<open>The native core of retroconfig\<close>

  retroconfig is a Flutter application.  Its native code is the plugin under
  \<^verbatim>\<open>src/plugins/glib\<close>: an application in C++ (\<^verbatim>\<open>src/application\<close>) over a runtime
  (\<^verbatim>\<open>src/gcore\<close>) and libraries in C (\<^verbatim>\<open>thirdparties\<close>).  The development follows one path
  through it.  The application gets the description of a library of scripts, which is a YAML text.
  libyaml reads it: the reader decodes octets, the scanner makes tokens, the parser makes events,
  and the loader makes documents.  The application's own reader builds values from the events,
  decodes the token of the description with bit64, hashes it with SHA-256 together with the
  location, and adds the library to its list if the token is a signature.  The way back, documents
  to events to octets, is libyaml's dumper, emitter and writer.

  \<^bold>\<open>Theories and sources\<close>

  Paths are relative to \<^verbatim>\<open>src/plugins/glib/thirdparties/libyaml\<close> unless they are longer.

    \<^item> \<open>Yaml_Prelude\<close>: the results of C functions (\<open>Ok\<close>, \<open>Fail\<close>, \<open>Abort\<close> for a failed assertion or an
      access out of bounds, \<open>Hang\<close> for a loop that used up its turns), weakest preconditions, octets.
    \<^item> \<open>Yaml_Types\<close> (\<^verbatim>\<open>include/yaml.h\<close>, \<^verbatim>\<open>src/yaml_private.h\<close>): marks, tokens, events, nodes,
      documents and the parser.  The structure of the parser is a chain of records: the reader's
      fields, then the scanner's, then the parser's and the loader's.
    \<^item> \<open>Yaml_Reader\<close> (\<^verbatim>\<open>src/reader.c\<close>), \<open>Yaml_Unicode\<close>, \<open>Yaml_Reader_Facts\<close>: buffers, decoding and
      its comparison with the encodings of RFC 3629 and RFC 2781.
    \<^item> \<open>Yaml_Chars\<close>, \<open>Yaml_Scan_Text\<close>, \<open>Yaml_Scan_Scalar\<close>, \<open>Yaml_Scanner\<close> (\<^verbatim>\<open>src/scanner.c\<close>): the
      tokenizer; \<open>Yaml_Scan_Facts\<close>, \<open>Yaml_Text_Facts\<close>, \<open>Yaml_Scalar_Facts\<close>, \<open>Yaml_Scanner_Facts\<close>: it
      stays inside its buffer, keeps its invariant and ends.
    \<^item> \<open>Yaml_Parser\<close> (\<^verbatim>\<open>src/parser.c\<close>): the productions.  \<open>Yaml_Events\<close> has the specification, the
      grammar of events as a machine with a stack and as trees; \<open>Yaml_Automaton\<close>, \<open>Yaml_Parser_Facts\<close> and
      \<open>Yaml_Parsing\<close> show that the parser refines it, on the tokens of the scanner.
    \<^item> \<open>Yaml_Loader\<close> (\<^verbatim>\<open>src/loader.c\<close>); \<open>Yaml_Compose\<close>, its specification: a tree composed into an
      array of nodes; \<open>Yaml_Loader_Facts\<close>, \<open>Yaml_Document\<close>, \<open>Yaml_Loading\<close>: the refinement.
    \<^item> \<open>Yaml_Api\<close>, \<open>Yaml_Api_Document\<close> (\<^verbatim>\<open>src/api.c\<close>): setting up, events and documents made by a
      program, the check for UTF-8.
    \<^item> \<open>Yaml_Memory\<close> (\<^verbatim>\<open>src/yaml_private.h\<close>, \<^verbatim>\<open>src/api.c\<close>): the blocks of memory behind stacks,
      queues and strings, and that they behave like the lists of the other theories.
    \<^item> \<open>Yaml_Writer\<close> (\<^verbatim>\<open>src/writer.c\<close>): the flush of the output buffer, recoded to UTF-16.
    \<^item> \<open>Yaml_Emit_Text\<close>, \<open>Yaml_Emit_Analysis\<close>, \<open>Yaml_Emitter\<close> (\<^verbatim>\<open>src/emitter.c\<close>): writing, analysis of
      events, states.  \<open>Yaml_Emit_Output\<close>, \<open>Yaml_Emit_Checks\<close>, \<open>Yaml_Emit_Nodes\<close>,
      \<open>Yaml_Emit_Collections\<close>, \<open>Yaml_Emit_Automaton\<close>, \<open>Yaml_Emitting\<close>: the emitter refines the same
      grammar of events, always returns and keeps its buffers and stacks in bounds.
    \<^item> \<open>Yaml_Dumper\<close> (\<^verbatim>\<open>src/dumper.c\<close>); \<open>Yaml_Dump_Walk\<close>, \<open>Yaml_Dump_Events\<close>, \<open>Yaml_Dump_Tree\<close>,
      \<open>Yaml_Dump_Document\<close>, \<open>Yaml_Dumping\<close>: the two walks over a document, which may be cyclic, and
      that loading what was dumped gives the nodes back.
    \<^item> \<open>Sha_Blocks\<close>; \<open>Sha256\<close> (\<^verbatim>\<open>thirdparties/sha256/sha256.c\<close>), \<open>Sha256_Facts\<close>, \<open>Sha256_Digest\<close>;
      \<open>Sha1\<close> (\<^verbatim>\<open>thirdparties/sha1/sha1.c\<close>), \<open>Sha1_Digest\<close>: both hash functions against FIPS 180-4,
      whose constants are computed from roots of primes.
    \<^item> \<open>Bit64\<close> (\<^verbatim>\<open>thirdparties/bit64/bit64.cpp\<close>, \<^verbatim>\<open>src/application/utils/Bit64.cpp\<close>).
    \<^item> \<open>App_Yaml\<close> (\<^verbatim>\<open>src/application/utils/YAML.cpp\<close>): the class \<open>yaml\<close>.
    \<^item> \<open>App_Library\<close> (\<^verbatim>\<open>src/application/main/LibraryContext.cpp\<close>, \<open>_Array::remove\<close> of
      \<^verbatim>\<open>src/gcore/core/IMP.cpp\<close>): the list of libraries and the check of tokens.
    \<^item> this theory: \<open>parseLibrary\<close> from the octets of a description to the list.

  \<^bold>\<open>State and operations\<close>

  A structure of the source is a record with the same fields, a function that changes it takes the
  record and returns it in its result.  The parser takes the function that fetches tokens as an
  argument and the loader the one that fetches events; the theorems on strings are about the model
  with the scanner and the parser in these places.  Handlers for input and output are functions in
  the records.  Stacks, queues and strings are lists; \<open>Yaml_Memory\<close>
  justifies that.  Memory is a counter of the requests that the allocator still serves, so that every
  allocation has its failing branch.

  \<^bold>\<open>Interfaces\<close>

  Each client is proved against the laws of what it calls:
  \<open>finite_handler\<close> (the scanner's input, interpreted by the handler for strings),
  \<open>token_source\<close> (the parser's tokens, interpreted by the scanner, with and without a loader around
  the parser), \<open>event_source\<close> (the loader's events, interpreted by the parser), \<open>event_sink\<close> (the
  dumper's emitter, interpreted by the emitter), \<open>queue_block\<close> (queues in memory) and
  \<open>streaming_hash\<close> (interpreted by both hash functions).

  \<^bold>\<open>What is shown\<close>

    \<^item> Refinement: the events of the parser and those the emitter accepts are runs of one grammar,
      loaded documents are compositions of trees, queues are lists, a description that is accepted
      is signed.
    \<^item> Round trips: documents through the dumper and the composition, UTF-8 and UTF-16, bit64.
    \<^item> Every call returns, with a result or with a recorded error, on every string and on every
      sequence of events and documents that the API can make; no assertion fails.
    \<^item> Bounds: input, output and raw buffers, stacks and strings, node indices.
    \<^item> Invariants of the simple keys and indents of the scanner, of the stacks of the parser and of
      documents built by calls.
    \<^item> Errors: when the parser, the composer, the emitter and the application's reader fail, and what
      they leave behind.
    \<^item> Equivalence with a standard: UTF-8 checks, UTF-16 output, SHA-256, SHA-1.

  Some properties state where the code does not do what it should: the UTF-16 writer is right for
  surrogate-safe characters only, \<open>yaml_check_utf8\<close> accepts surrogates, the application's reader never
  returns on sequences, on empty streams and on parse errors, \<open>decodeString\<close> keeps a zero, and
  \<open>_Array::remove\<close> skips every other element.

  \<^bold>\<open>Bounds on loops\<close>

  Loops of the scanner, parser and loader take a number of turns \<open>n\<close>.  For an input of \<open>l\<close> octets,
  \<open>l + 3 < n\<close> is enough for a call of the scanner and \<open>4 * l + 4 < n\<close> for a call of the parser; a
  stream has at most \<open>20 * l + 26\<close> events.  These are theorems, not assumptions.  The loop of the
  emitter has one turn more than its queue has events, the walks of the dumper one more than there
  are nodes, joining strings needs more turns than the second has octets, and the padding of SHA-1 at
  most 64.  The recursion of \<open>yaml::parse\<close> on a document \<open>t\<close> needs depth \<open>need t + 3\<close>; that it never
  returns is shown for every depth.

  \<^bold>\<open>Simplifications\<close>

  Marks, columns, indents and flow levels are unbounded numbers where the source does not check
  them; octets, code points, sizes that wrap and the words of the hash functions have their width.
  The hash functions run on a little-endian machine.  In \<open>Bit64\<close> \<open>char\<close> is unsigned and the sizes,
  computed in \<open>float\<close> by the source, are exact, as they are below \<open>2 ^ 20\<close>.

  \<^bold>\<open>Not modelled\<close>

  In the modelled files: handlers for \<^verbatim>\<open>FILE\<close> objects (system calls), the freeing of memory as such,
  \<open>bit64_encrypt_index\<close> and \<open>bit64_calculate_seed\<close> (never called), the wrappers of bit64 for \<open>Data\<close>
  objects, conversions of YAML values to numbers (calls of \<open>atoi\<close> and \<open>atof\<close>), and \<open>YAML::parse\<close>, which
  builds values of the runtime.  In \<open>App_Library\<close> the functions of secp256k1 are parameters, the
  database is left out and the time is an argument.

  Elsewhere: duktape, quickjs, mruby, onigmo, iconv, gumbo, libgit2, openssl, sqlite3 and secp256k1
  are third-party products of a size of their own; the runtime \<^verbatim>\<open>gcore\<close> and the bindings are C++
  templates and glue to interpreters; the remaining application is calls to the network, the file
  system and the database; the user interface is Dart.
\<close>

section \<open>From the text of a description to the list of libraries\<close>



end
